(* ===== verification/C_Prelude.thy ===== *)
theory C_Prelude
  imports Main "HOL-Library.Word" "HOL-Library.Monad_Syntax"
begin

text \<open>
  The C machine the other theories run on: byte buffers, 32-bit words and their
  little-endian layout (both targets of the repository, x64 Linux and ESP32, are
  little-endian), bounds-checked loads and stores, \<open>memcpy\<close>, \<open>malloc\<close> and \<open>realloc\<close>,
  strings, and \<open>htonl\<close>/\<open>ntohl\<close>.

  A C function that can fail with undefined behaviour (an access outside a block, a NULL
  or dangling pointer) has an \<open>option\<close> result: \<open>None\<close> is "the C program has no defined
  behaviour here or does not return". An error the code itself reports (\<open>return -1\<close>) is
  an ordinary value of the result.

  The collection \<open>mem_simps\<close> holds the rules that run loads and stores over a buffer
  written as a concatenation of fields.
\<close>

unbundle bit_operations_syntax

named_theorems mem_simps \<open>running loads and stores over a concatenation of fields\<close>

type_synonym byte = "8 word"
type_synonym u32 = "32 word"
type_synonym u64 = "64 word"

section \<open>Words and bytes\<close>

text \<open>The four bytes of a \<open>uint32_t\<close> in memory order on a little-endian machine.\<close>

definition bytes_of_u32 :: "u32 \<Rightarrow> byte list" where
  "bytes_of_u32 w = [ucast w, ucast (drop_bit 8 w), ucast (drop_bit 16 w), ucast (drop_bit 24 w)]"

definition u32_of_bytes :: "byte list \<Rightarrow> u32" where
  "u32_of_bytes bs =
     ucast (bs ! 0) OR push_bit 8 (ucast (bs ! 1)) OR push_bit 16 (ucast (bs ! 2))
       OR push_bit 24 (ucast (bs ! 3))"

lemma length_bytes_of_u32 [simp]: "length (bytes_of_u32 w) = 4"
  by (simp add: bytes_of_u32_def)

lemma u32_of_bytes_of_u32 [simp]: "u32_of_bytes (bytes_of_u32 w) = w"
proof (rule bit_word_eqI)
  fix n assume "n < LENGTH(32)"
  then show "bit (u32_of_bytes (bytes_of_u32 w)) n = bit w n"
    by (cases "n < 8"; cases "n < 16"; cases "n < 24")
      (auto simp: u32_of_bytes_def bytes_of_u32_def bit_simps)
qed

lemma length_4_cases:
  assumes "length bs = 4"
  obtains a b c d where "bs = [a, b, c, d]"
proof -
  from assms have "length bs = Suc (Suc (Suc (Suc 0)))" by simp
  then show thesis using that by (auto simp: length_Suc_conv)
qed

lemma bytes_of_u32_of_bytes [simp]:
  assumes "length bs = 4"
  shows "bytes_of_u32 (u32_of_bytes bs) = bs"
proof -
  from assms obtain a b c d where bs: "bs = [a, b, c, d]" by (rule length_4_cases)
  have out: "\<not> bit x n" if "\<not> n < 8" for x :: byte and n
    using that bit_imp_le_length [of x n] by auto
  have "ucast (u32_of_bytes [a, b, c, d]) = a"
    by (rule bit_word_eqI) (simp add: u32_of_bytes_def bit_simps)
  moreover have "ucast (drop_bit 8 (u32_of_bytes [a, b, c, d])) = b"
    by (rule bit_word_eqI) (simp add: u32_of_bytes_def bit_simps out)
  moreover have "ucast (drop_bit 16 (u32_of_bytes [a, b, c, d])) = c"
    by (rule bit_word_eqI) (simp add: u32_of_bytes_def bit_simps out)
  moreover have "ucast (drop_bit 24 (u32_of_bytes [a, b, c, d])) = d"
    by (rule bit_word_eqI) (simp add: u32_of_bytes_def bit_simps out)
  ultimately show ?thesis by (simp add: bs bytes_of_u32_def)
qed

lemma bytes_of_u32_inject [simp]: "bytes_of_u32 a = bytes_of_u32 b \<longleftrightarrow> a = b"
  by (metis u32_of_bytes_of_u32)

text \<open>\<open>htonl\<close> and \<open>ntohl\<close> on a little-endian machine both reverse the four bytes.\<close>

definition htonl :: "u32 \<Rightarrow> u32" where
  "htonl w = u32_of_bytes (rev (bytes_of_u32 w))"

definition ntohl :: "u32 \<Rightarrow> u32" where
  "ntohl w = u32_of_bytes (rev (bytes_of_u32 w))"

lemma ntohl_htonl [simp]: "ntohl (htonl w) = w"
  by (simp add: htonl_def ntohl_def)

lemma htonl_ntohl [simp]: "htonl (ntohl w) = w"
  by (simp add: htonl_def ntohl_def)

lemma ntohl_eq_htonl: "ntohl = htonl"
  by (simp add: fun_eq_iff htonl_def ntohl_def)

lemma htonl_htonl [simp]: "htonl (htonl w) = w"
  by (simp add: htonl_def)

lemma bytes_of_u32_htonl: "bytes_of_u32 (htonl w) = rev (bytes_of_u32 w)"
  by (simp add: htonl_def)

text \<open>C's conversion of an integer to \<open>int\<close> (32 bits) and to \<open>size_t\<close> (64 bits).\<close>

definition to_int32 :: "int \<Rightarrow> int" where
  "to_int32 x = (x + 2 ^ 31) mod 2 ^ 32 - 2 ^ 31"

definition to_size_t :: "int \<Rightarrow> int" where
  "to_size_t x = x mod 2 ^ 64"

lemma to_int32_id [simp]: "- (2 ^ 31) \<le> x \<Longrightarrow> x < 2 ^ 31 \<Longrightarrow> to_int32 x = x"
  by (simp add: to_int32_def)

lemma to_size_t_id [simp]: "0 \<le> x \<Longrightarrow> x < 2 ^ 64 \<Longrightarrow> to_size_t x = x"
  by (simp add: to_size_t_def)

text \<open>Unsigned 32-bit values written as naturals below \<open>2 ^ 32\<close>.\<close>

lemma unat_u32_of_nat [simp]: "n < 2 ^ 32 \<Longrightarrow> unat (of_nat n :: u32) = n"
  by (simp add: unat_of_nat)

lemma u32_less_of_nat [simp]:
  "a < 2 ^ 32 \<Longrightarrow> b < 2 ^ 32 \<Longrightarrow> ((of_nat a :: u32) < of_nat b) = (a < b)"
  by (simp add: word_less_nat_alt)

lemma u32_le_of_nat [simp]:
  "a < 2 ^ 32 \<Longrightarrow> b < 2 ^ 32 \<Longrightarrow> ((of_nat a :: u32) \<le> of_nat b) = (a \<le> b)"
  by (simp add: word_le_nat_alt)

lemma u32_of_nat_eq [simp]:
  "a < 2 ^ 32 \<Longrightarrow> b < 2 ^ 32 \<Longrightarrow> ((of_nat a :: u32) = of_nat b) = (a = b)"
  by (metis unat_u32_of_nat)

section \<open>Bounds-checked memory\<close>

text \<open>
  A block of memory is the list of its bytes; a pointer into it is an offset. A load or a
  store that leaves the block is \<open>None\<close>.
\<close>

definition load_bytes :: "byte list \<Rightarrow> nat \<Rightarrow> nat \<Rightarrow> byte list option" where
  "load_bytes m off n = (if off + n \<le> length m then Some (take n (drop off m)) else None)"

definition store_bytes :: "byte list \<Rightarrow> nat \<Rightarrow> byte list \<Rightarrow> byte list option" where
  "store_bytes m off bs =
     (if off + length bs \<le> length m then Some (take off m @ bs @ drop (off + length bs) m)
      else None)"

definition load32 :: "byte list \<Rightarrow> nat \<Rightarrow> u32 option" where
  "load32 m off = map_option u32_of_bytes (load_bytes m off 4)"

definition store32 :: "byte list \<Rightarrow> nat \<Rightarrow> u32 \<Rightarrow> byte list option" where
  "store32 m off w = store_bytes m off (bytes_of_u32 w)"

lemma store_bytes_length: "store_bytes m off bs = Some m' \<Longrightarrow> length m' = length m"
  by (auto simp: store_bytes_def split: if_splits)

lemma store32_length: "store32 m off w = Some m' \<Longrightarrow> length m' = length m"
  by (auto simp: store32_def dest: store_bytes_length)

lemma load_bytes_length: "load_bytes m off n = Some bs \<Longrightarrow> length bs = n"
  by (auto simp: load_bytes_def split: if_splits)

text \<open>
  The workhorses: a buffer is \<open>pre @ field @ post\<close>, and an access whose offset is
  \<open>length pre\<close> and whose width is the field's touches exactly the field.
\<close>

lemma load_bytes_mid [mem_simps]:
  "off = length pre \<Longrightarrow> n = length bs \<Longrightarrow> load_bytes (pre @ bs @ post) off n = Some bs"
  by (simp add: load_bytes_def)

lemma load_bytes_last [mem_simps]:
  "off = length pre \<Longrightarrow> n = length bs \<Longrightarrow> load_bytes (pre @ bs) off n = Some bs"
  by (simp add: load_bytes_def)

lemma load_bytes_first [mem_simps]:
  "n = length bs \<Longrightarrow> load_bytes (bs @ post) 0 n = Some bs"
  by (simp add: load_bytes_def)

lemma load_bytes_whole [mem_simps]: "n = length bs \<Longrightarrow> load_bytes bs 0 n = Some bs"
  by (simp add: load_bytes_def)

lemma store_bytes_mid [mem_simps]:
  "off = length pre \<Longrightarrow> length old = length bs \<Longrightarrow>
     store_bytes (pre @ old @ post) off bs = Some (pre @ bs @ post)"
  by (simp add: store_bytes_def)

lemma store_bytes_first [mem_simps]:
  "length old = length bs \<Longrightarrow> store_bytes (old @ post) 0 bs = Some (bs @ post)"
  by (simp add: store_bytes_def)

lemma load32_mid [mem_simps]:
  "off = length pre \<Longrightarrow> load32 (pre @ bytes_of_u32 w @ post) off = Some w"
  by (simp add: load32_def load_bytes_mid)

lemma load32_first [mem_simps]: "load32 (bytes_of_u32 w @ post) 0 = Some w"
  using load32_mid [of 0 "[]" w post] by simp

lemma store32_mid [mem_simps]:
  "off = length pre \<Longrightarrow> length old = 4 \<Longrightarrow>
     store32 (pre @ old @ post) off w = Some (pre @ bytes_of_u32 w @ post)"
  by (simp add: store32_def store_bytes_mid)

lemma store32_first [mem_simps]:
  "length old = 4 \<Longrightarrow> store32 (old @ post) 0 w = Some (bytes_of_u32 w @ post)"
  using store32_mid [of 0 "[]" old post w] by simp

text \<open>The second field of a buffer, the shape of every header of the protocol.\<close>

lemma load32_second [mem_simps]:
  "length a = off \<Longrightarrow> load32 (a @ bytes_of_u32 w @ post) off = Some w"
  by (simp add: load32_mid)

text \<open>A block is split at an offset inside it.\<close>

lemma split_at_offset:
  assumes "off + n \<le> length m"
  obtains pre mid post where "m = pre @ mid @ post" "length pre = off" "length mid = n"
proof
  show "m = take off m @ take n (drop off m) @ drop (off + n) m"
    by (metis append_take_drop_id drop_drop add.commute)
qed (use assms in auto)

text \<open>
  A buffer as the concatenation of its fields: an access at the offset of field \<open>i\<close>, of the
  width of field \<open>i\<close>, reads or replaces that field.
\<close>

lemma concat_field:
  "i < length fs \<Longrightarrow> concat fs = concat (take i fs) @ fs ! i @ concat (drop (Suc i) fs)"
  by (metis concat_append append_take_drop_id Cons_nth_drop_Suc concat.simps(2))

lemma concat_field_update:
  "i < length fs \<Longrightarrow> concat (fs[i := x]) = concat (take i fs) @ x @ concat (drop (Suc i) fs)"
  by (simp add: upd_conv_take_nth_drop)

lemma store_field:
  assumes "i < length fs" "off = sum_list (take i (map length fs))" "length (fs ! i) = length bs"
    "fs' = fs[i := bs]"
  shows "store_bytes (concat fs) off bs = Some (concat fs')"
  using assms store_bytes_mid [of off "concat (take i fs)" "fs ! i" bs "concat (drop (Suc i) fs)"]
  by (simp add: concat_field [OF assms(1)] concat_field_update length_concat take_map)

lemma store32_field:
  assumes "i < length fs" "off = sum_list (take i (map length fs))" "length (fs ! i) = 4"
    "fs' = fs[i := bytes_of_u32 w]"
  shows "store32 (concat fs) off w = Some (concat fs')"
  using assms by (simp add: store32_def store_field)

lemma load_field:
  assumes "i < length fs" "off = sum_list (take i (map length fs))" "bs = fs ! i" "n = length bs"
  shows "load_bytes (concat fs) off n = Some bs"
  using assms load_bytes_mid [of off "concat (take i fs)" n "fs ! i" "concat (drop (Suc i) fs)"]
  by (simp add: concat_field [OF assms(1)] length_concat take_map)

lemma load32_field:
  assumes "i < length fs" "off = sum_list (take i (map length fs))" "fs ! i = bytes_of_u32 w"
  shows "load32 (concat fs) off = Some w"
  using load_field [OF assms(1,2), of "bytes_of_u32 w" 4] assms(3) by (simp add: load32_def)

section \<open>The allocator\<close>

text \<open>
  \<open>malloc n\<close> returns NULL or a block of \<open>n\<close> bytes whose contents are indeterminate. An
  allocator tells, for each size, whether it succeeds and what the fresh bytes hold;
  nothing is assumed about either.
\<close>

type_synonym allocator = "nat \<Rightarrow> (nat \<Rightarrow> byte) option"

definition malloc :: "allocator \<Rightarrow> nat \<Rightarrow> byte list option" where
  "malloc a n = map_option (\<lambda>f. map f [0..<n]) (a n)"

definition realloc :: "allocator \<Rightarrow> byte list \<Rightarrow> nat \<Rightarrow> byte list option" where
  "realloc a old n = map_option (\<lambda>f. take n old @ map f [length old..<n]) (a n)"

lemma malloc_length: "malloc a n = Some m \<Longrightarrow> length m = n"
  by (auto simp: malloc_def)

lemma realloc_length: "realloc a old n = Some m \<Longrightarrow> length m = n"
  by (auto simp: realloc_def)

lemma realloc_keeps: "realloc a old n = Some m \<Longrightarrow> k \<le> length old \<Longrightarrow> k \<le> n \<Longrightarrow> take k m = take k old"
  by (auto simp: realloc_def)

text \<open>A zero-filling allocator that always succeeds, for closed examples.\<close>

definition zero_alloc :: allocator where
  "zero_alloc = (\<lambda>_. Some (\<lambda>_. 0))"

lemma malloc_zero_alloc [simp]: "malloc zero_alloc n = Some (replicate n 0)"
  by (simp add: malloc_def zero_alloc_def map_replicate_const)

section \<open>Strings\<close>

text \<open>The string at an address, up to its NUL byte, which must be there.\<close>

definition c_string :: "byte list \<Rightarrow> byte list option" where
  "c_string m = (if 0 \<in> set m then Some (takeWhile (\<lambda>b. b \<noteq> 0) m) else None)"

lemma c_string_text: "0 \<notin> set bs \<Longrightarrow> c_string (bs @ 0 # junk) = Some bs"
  by (induction bs) (auto simp: c_string_def)

text \<open>The bytes of a literal.\<close>

definition literal :: "string \<Rightarrow> byte list" where
  "literal s = map of_char s"

section \<open>Generic list facts\<close>

lemma sum_list_pos_member:
  "x \<in> set xs \<Longrightarrow> (f x :: nat) \<le> sum_list (map f xs)"
  by (induction xs) auto

lemma length_concat_map: "length (concat (map f xs)) = sum_list (map (\<lambda>x. length (f x)) xs)"
  by (simp add: length_concat comp_def)

text \<open>The first index whose element satisfies a predicate, the shape of every search loop.\<close>

fun find_index :: "('a \<Rightarrow> bool) \<Rightarrow> 'a list \<Rightarrow> nat option" where
  "find_index P [] = None"
| "find_index P (x # xs) = (if P x then Some 0 else map_option Suc (find_index P xs))"

lemma find_index_Some:
  "find_index P xs = Some i \<Longrightarrow> i < length xs \<and> P (xs ! i) \<and> (\<forall>j<i. \<not> P (xs ! j))"
proof (induction xs arbitrary: i)
  case (Cons x xs)
  then show ?case
    by (cases i) (auto split: if_splits simp: less_Suc_eq_0_disj)
qed simp

lemma find_index_None: "find_index P xs = None \<longleftrightarrow> (\<forall>x\<in>set xs. \<not> P x)"
  by (induction xs) auto

end
