(* ===== verification/ArrayList.thy ===== *)
theory ArrayList
  imports C_Prelude
begin

text \<open>
  The dynamic array of \<open>misc/ArrayList/arrayList.c\<close>: a block of \<open>allocated\<close> slots of
  \<open>dataSize\<close> bytes, the first \<open>length\<close> of which are in use, grown by \<open>realloc\<close>. The
  operations work on the bytes of the block, as the code does; \<open>al_elems\<close> reads the block
  as the list of its elements, and the lemmas show that each operation is the list
  operation it stands for. The locale \<open>element_store\<close> is the contract the rest of the
  program relies on, with the search loop and the first-in first-out queue proved once
  from it; it is interpreted on the byte-level list and on the list of structs that the
  other theories use for an \<open>arrayList\<close> of structs.
\<close>

section \<open>The state and the operations\<close>

datatype data_ptr = Null | Dangling | Block "byte list"

record arrayList =
  al_data :: data_ptr
  dataSize :: nat
  allocated :: int
  al_length :: int
  listIncrement :: int

primrec deref :: "data_ptr \<Rightarrow> byte list option" where
  "deref Null = None"
| "deref Dangling = None"
| "deref (Block d) = Some d"

text \<open>The byte offset of slot \<open>i\<close>: \<open>i * dataSize\<close> in \<open>size_t\<close> arithmetic.\<close>

definition elem_off :: "arrayList \<Rightarrow> int \<Rightarrow> nat" where
  "elem_off l i = nat (to_size_t (to_size_t i * int (dataSize l)))"

definition initList :: "allocator \<Rightarrow> nat \<Rightarrow> int \<times> arrayList" where
  "initList a ds =
     (let l = \<lparr>al_data = Null, dataSize = ds, allocated = 0, al_length = 0, listIncrement = 5\<rparr> in
      case malloc a (nat (to_size_t (int (dataSize l) * listIncrement l))) of
        None \<Rightarrow> (1, l)
      | Some p \<Rightarrow> (0, l\<lparr>al_data := Block p, al_length := 0, allocated := listIncrement l\<rparr>))"

text \<open>
  The branch of \<open>addToList\<close> that runs when every slot is in use. The increment is doubled
  first (signed overflow is undefined), the new size is computed in \<open>size_t\<close> and
  truncated to \<open>int\<close>; a negative size becomes a huge \<open>size_t\<close>, which \<open>realloc\<close> cannot
  serve. The division that recomputes \<open>allocated\<close> traps on \<open>dataSize = 0\<close>.
\<close>

definition growList :: "allocator \<Rightarrow> arrayList \<Rightarrow> (int \<times> arrayList) option" where
  "growList a l =
     (if listIncrement l * 2 \<ge> 2 ^ 31 \<or> dataSize l = 0 then None else
      let l = l\<lparr>listIncrement := listIncrement l * 2\<rparr>;
          newSize = to_int32 (to_size_t (to_size_t (allocated l * int (dataSize l))
                      + to_size_t (int (dataSize l) * listIncrement l)))
      in do {
        newPtr \<leftarrow> (if newSize < 0 then Some None else
                    case al_data l of
                      Null \<Rightarrow> Some (malloc a (nat newSize))
                    | Dangling \<Rightarrow> None
                    | Block d \<Rightarrow> Some (realloc a d (nat newSize)));
        case newPtr of
          None \<Rightarrow> Some (1, l)
        | Some p \<Rightarrow> Some (0, l\<lparr>al_data := Block p,
                               allocated := to_int32 (newSize div int (dataSize l))\<rparr>)
      })"

definition addToList :: "allocator \<Rightarrow> arrayList \<Rightarrow> byte list \<Rightarrow> (int \<times> arrayList) option" where
  "addToList a l dat = do {
     (r, l) \<leftarrow> (if allocated l > al_length l then Some (0, l) else growList a l);
     if r \<noteq> 0 then Some (r, l) else do {
       d \<leftarrow> deref (al_data l);
       src \<leftarrow> load_bytes dat 0 (dataSize l);
       d \<leftarrow> store_bytes d (elem_off l (al_length l)) src;
       Some (0, l\<lparr>al_data := Block d, al_length := al_length l + 1\<rparr>)
     }
   }"

text \<open>The pointer returned is an offset into the block, \<open>None\<close> is NULL.\<close>

definition getFromList :: "arrayList \<Rightarrow> int \<Rightarrow> nat option" where
  "getFromList l index =
     (if index < al_length l \<and> index \<ge> 0 then Some (elem_off l index) else None)"

definition read_elem :: "arrayList \<Rightarrow> nat \<Rightarrow> byte list option" where
  "read_elem l off = do { d \<leftarrow> deref (al_data l); load_bytes d off (dataSize l) }"

text \<open>\<open>memcmp\<close> of \<open>n\<close> bytes at an offset of the block with the start of \<open>dat\<close>.\<close>

definition slot_equals :: "arrayList \<Rightarrow> nat \<Rightarrow> byte list \<Rightarrow> int \<Rightarrow> bool option" where
  "slot_equals l off dat n = do {
     d \<leftarrow> deref (al_data l);
     x \<leftarrow> load_bytes d off (nat (to_size_t n));
     y \<leftarrow> load_bytes dat 0 (nat (to_size_t n));
     Some (x = y)
   }"

function findFrom :: "arrayList \<Rightarrow> byte list \<Rightarrow> int \<Rightarrow> int \<Rightarrow> int option" where
  "findFrom l dat dataLen i =
     (if i < al_length l then do {
        eq \<leftarrow> slot_equals l (elem_off l i) dat dataLen;
        if eq then Some i else findFrom l dat dataLen (i + 1)
      } else Some (- 1))"
  by pat_completeness auto
termination
  by (relation "measure (\<lambda>(l, dat, n, i). nat (al_length l - i))") auto

declare findFrom.simps [simp del]

definition findInList :: "arrayList \<Rightarrow> byte list \<Rightarrow> int \<Rightarrow> int option" where
  "findInList l dat dataLen = findFrom l dat dataLen 0"

definition removeFromList :: "arrayList \<Rightarrow> int \<Rightarrow> (int \<times> arrayList) option" where
  "removeFromList l index =
     (if index < al_length l \<and> index \<ge> 0 then
        let itemsToMove = al_length l - index - 1 in do {
          d \<leftarrow> deref (al_data l);
          src \<leftarrow> load_bytes d (elem_off l (index + 1))
                  (nat (to_size_t (int (dataSize l) * itemsToMove)));
          d \<leftarrow> store_bytes d (elem_off l index) src;
          Some (0, l\<lparr>al_data := Block d, al_length := al_length l - 1\<rparr>)
        }
      else Some (- 1, l))"

definition freeArrayList :: "arrayList \<Rightarrow> (int \<times> arrayList) option" where
  "freeArrayList l =
     (case al_data l of
        Null \<Rightarrow> Some (1, l)
      | Dangling \<Rightarrow> None
      | Block _ \<Rightarrow> Some (1, l\<lparr>al_data := Dangling\<rparr>))"

section \<open>The invariant and the list a block stands for\<close>

text \<open>
  The block is large enough for the allocated slots and its size is an \<open>int\<close>, which is
  what the size computations of the code rely on.
\<close>

definition al_ok :: "arrayList \<Rightarrow> bool" where
  "al_ok l \<longleftrightarrow>
     (case al_data l of
        Block d \<Rightarrow> 0 < dataSize l \<and> 0 \<le> al_length l \<and> al_length l \<le> allocated l
          \<and> nat (allocated l) * dataSize l \<le> length d \<and> length d < 2 ^ 31
          \<and> 0 < listIncrement l
      | _ \<Rightarrow> False)"

definition slots :: "nat \<Rightarrow> nat \<Rightarrow> byte list \<Rightarrow> byte list list" where
  "slots ds n d = map (\<lambda>i. take ds (drop (i * ds) d)) [0..<n]"

definition al_elems :: "arrayList \<Rightarrow> byte list list" where
  "al_elems l = (case al_data l of Block d \<Rightarrow> slots (dataSize l) (nat (al_length l)) d | _ \<Rightarrow> [])"

lemma length_slots [simp]: "length (slots ds n d) = n"
  by (simp add: slots_def)

lemma slots_nth [simp]: "i < n \<Longrightarrow> slots ds n d ! i = take ds (drop (i * ds) d)"
  by (simp add: slots_def)

lemma slots_Suc: "slots ds (Suc n) d = slots ds n d @ [take ds (drop (n * ds) d)]"
  by (simp add: slots_def)

lemma slots_add: "slots ds (a + b) d = slots ds a d @ slots ds b (drop (a * ds) d)"
  by (rule nth_equalityI) (auto simp: nth_append algebra_simps)

lemma slots_take: "k = n * ds \<Longrightarrow> k \<le> length d \<Longrightarrow> take k d' = take k d \<Longrightarrow> slots ds n d' = slots ds n d"
proof (rule nth_equalityI)
  fix i
  assume k: "k = n * ds" "take k d' = take k d" and i: "i < length (slots ds n d')"
  then have "i * ds + ds \<le> k"
    by (metis Suc_leI add.commute length_slots mult_Suc mult_le_mono1)
  then have "take ds (drop (i * ds) x) = take ds (drop (i * ds) (take k x))" for x :: "byte list"
    by (simp add: drop_take min_def)
  then have "take ds (drop (i * ds) d') = take ds (drop (i * ds) d)"
    using k(2) by metis
  then show "slots ds n d' ! i = slots ds n d ! i"
    using i by simp
qed simp

lemma al_okE [elim?]:
  assumes "al_ok l"
  obtains d where "al_data l = Block d" "0 < dataSize l" "0 \<le> al_length l"
    "al_length l \<le> allocated l" "nat (allocated l) * dataSize l \<le> length d" "length d < 2 ^ 31"
    "0 < listIncrement l"
  using assms by (auto simp: al_ok_def split: data_ptr.splits)

lemma length_al_elems: "al_ok l \<Longrightarrow> int (length (al_elems l)) = al_length l"
  by (erule al_okE) (simp add: al_elems_def)

lemma slot_in_block:
  assumes "al_ok l" "al_data l = Block d" "0 \<le> i" "i < allocated l"
  shows "nat i * dataSize l + dataSize l \<le> length d"
proof -
  have "nat i * dataSize l + dataSize l = Suc (nat i) * dataSize l" by simp
  also have "\<dots> \<le> nat (allocated l) * dataSize l"
    using assms(3,4) by (intro mult_le_mono1) linarith
  also have "\<dots> \<le> length d" using assms(1,2) by (auto elim: al_okE)
  finally show ?thesis .
qed

text \<open>Inside the block, the offset of a slot is the product: no \<open>size_t\<close> wrap-around.\<close>

lemma elem_off_eq:
  assumes "0 \<le> i" "nat i * dataSize l < 2 ^ 31"  "i < 2 ^ 31"
  shows "elem_off l i = nat i * dataSize l"
proof -
  have "i * int (dataSize l) = int (nat i * dataSize l)" using assms(1) by simp
  moreover have "int (nat i * dataSize l) < 2 ^ 64"
  proof (rule less_trans)
    show "int (nat i * dataSize l) < 2 ^ 31"
      using assms(2) by (simp only: of_nat_less_numeral_power_cancel_iff)
  qed simp
  ultimately show ?thesis using assms by (simp add: elem_off_def nat_mult_distrib)
qed

lemma elem_off_ok:
  assumes "al_ok l" "0 \<le> i" "i \<le> allocated l"
  shows "elem_off l i = nat i * dataSize l"
proof -
  from assms(1) obtain d :: "byte list" where d: "nat (allocated l) * dataSize l \<le> length d" "length d < 2 ^ 31"
    "0 < dataSize l" by (elim al_okE) blast
  have le: "nat i * dataSize l \<le> nat (allocated l) * dataSize l"
    using assms(2,3) by (intro mult_le_mono1) linarith
  moreover have "nat i \<le> nat i * dataSize l" using d(3) by simp
  ultimately have "nat i < 2 ^ 31" using d by linarith
  then have "i < 2 ^ 31" by simp
  moreover have "nat i * dataSize l < 2 ^ 31" using le d by linarith
  ultimately show ?thesis using assms(2) by (intro elem_off_eq)
qed

section \<open>Each operation is its list operation\<close>

text \<open>Writing the slot after the last used one appends it.\<close>

lemma write_last_slot:
  assumes ok: "al_ok l" and d: "al_data l = Block d" and room: "al_length l < allocated l"
    and x: "length x = dataSize l"
  obtains d' where "store_bytes d (elem_off l (al_length l)) x = Some d'" "length d' = length d"
    "slots (dataSize l) (nat (al_length l + 1)) d' = al_elems l @ [x]"
proof -
  let ?n = "nat (al_length l)" and ?ds = "dataSize l"
  define d' where "d' = take (?n * ?ds) d @ x @ drop (?n * ?ds + ?ds) d"
  have pos: "0 \<le> al_length l" using ok by (rule al_okE)
  have off: "elem_off l (al_length l) = ?n * ?ds"
    using ok pos room by (intro elem_off_ok) auto
  have fits: "?n * ?ds + ?ds \<le> length d"
    using slot_in_block [OF ok d pos room] .
  have st: "store_bytes d (elem_off l (al_length l)) x = Some d'"
    using fits by (simp add: off store_bytes_def x d'_def)
  have "slots ?ds (Suc ?n) d' = slots ?ds ?n d' @ [x]"
    using fits x by (simp add: slots_Suc d'_def)
  also have "slots ?ds ?n d' = slots ?ds ?n d"
    by (rule slots_take [OF refl]) (use fits in \<open>simp_all add: d'_def\<close>)
  finally have "slots ?ds (nat (al_length l + 1)) d' = al_elems l @ [x]"
    using pos by (simp add: al_elems_def d nat_add_distrib)
  with st store_bytes_length [OF st] show thesis by (rule that)
qed

lemma addToList_room:
  assumes ok: "al_ok l" and room: "al_length l < allocated l" and x: "length x = dataSize l"
  shows "\<exists>l'. addToList a l x = Some (0, l') \<and> al_ok l' \<and> al_elems l' = al_elems l @ [x]
    \<and> dataSize l' = dataSize l \<and> allocated l' = allocated l"
proof -
  from ok obtain d where d: "al_data l = Block d" by (rule al_okE)
  obtain d' where d': "store_bytes d (elem_off l (al_length l)) x = Some d'" "length d' = length d"
    "slots (dataSize l) (nat (al_length l + 1)) d' = al_elems l @ [x]"
    by (rule write_last_slot [OF ok d room x])
  let ?l' = "l\<lparr>al_data := Block d', al_length := al_length l + 1\<rparr>"
  have "addToList a l x = Some (0, ?l')"
    using room d d' x by (simp add: addToList_def load_bytes_whole)
  moreover have "al_ok ?l'" using ok d d' room by (auto simp: al_ok_def)
  moreover have "al_elems ?l' = al_elems l @ [x]" using d'(3) by (simp add: al_elems_def)
  ultimately show ?thesis by auto
qed

text \<open>
  Growing a full list: with the new size still an \<open>int\<close>, \<open>realloc\<close> is called with exactly
  that size, and its failure is reported as 1 with the elements untouched.
\<close>

definition grown_size :: "arrayList \<Rightarrow> int" where
  "grown_size l = (allocated l + 2 * listIncrement l) * int (dataSize l)"

lemma grown_size_int:
  assumes "al_ok l" "grown_size l < 2 ^ 31"
  shows "to_int32 (to_size_t (to_size_t (allocated l * int (dataSize l))
           + to_size_t (int (dataSize l) * (listIncrement l * 2)))) = grown_size l"
    and "0 \<le> grown_size l" and "listIncrement l * 2 < 2 ^ 31"
proof -
  let ?A = "allocated l * int (dataSize l)" and ?B = "int (dataSize l) * (listIncrement l * 2)"
  have pos: "0 < dataSize l" "0 \<le> allocated l" "0 < listIncrement l"
    using assms(1) by (auto elim: al_okE)
  have g: "grown_size l = ?A + ?B" by (simp add: grown_size_def algebra_simps)
  have nn: "0 \<le> ?A" "0 \<le> ?B" using pos by auto
  then show nn': "0 \<le> grown_size l" by (simp add: g)
  have lt: "?A < 2 ^ 31" "?B < 2 ^ 31" using assms(2) nn unfolding g by linarith+
  have "to_size_t ?A = ?A" "to_size_t ?B = ?B"
    using nn lt by (auto intro!: to_size_t_id)
  moreover have "to_size_t (grown_size l) = grown_size l"
    using assms(2) nn' by (intro to_size_t_id) simp_all
  moreover have "to_int32 (grown_size l) = grown_size l"
    using assms(2) nn' by (intro to_int32_id) linarith+
  ultimately show "to_int32 (to_size_t (to_size_t ?A + to_size_t ?B)) = grown_size l"
    unfolding g by (simp only:)
  have "listIncrement l * 2 * 1 \<le> listIncrement l * 2 * int (dataSize l)"
    using pos by (intro mult_left_mono) auto
  then show "listIncrement l * 2 < 2 ^ 31" using lt(2) by (simp add: mult.commute)
qed

lemma growList_result:
  assumes ok: "al_ok l" and sz: "grown_size l < 2 ^ 31" and d: "al_data l = Block d"
  shows "growList a l =
    (case realloc a d (nat (grown_size l)) of
       None \<Rightarrow> Some (1, l\<lparr>listIncrement := listIncrement l * 2\<rparr>)
     | Some p \<Rightarrow> Some (0, l\<lparr>listIncrement := listIncrement l * 2, al_data := Block p,
                            allocated := allocated l + 2 * listIncrement l\<rparr>))"
proof -
  note gs = grown_size_int [OF ok sz]
  have pos: "0 < dataSize l" "0 \<le> allocated l" "0 < listIncrement l"
    using ok by (auto elim: al_okE)
  have "grown_size l div int (dataSize l) = allocated l + 2 * listIncrement l"
    using pos by (simp add: grown_size_def)
  moreover have "allocated l + 2 * listIncrement l \<le> grown_size l"
    using pos mult_left_mono [of 1 "int (dataSize l)" "allocated l + 2 * listIncrement l"]
    by (simp add: grown_size_def)
  ultimately have "to_int32 (grown_size l div int (dataSize l)) = allocated l + 2 * listIncrement l"
    using pos sz by simp
  then show ?thesis
    using gs pos d sz by (auto simp: growList_def Let_def split: option.splits)
qed

lemma growList_ok:
  assumes ok: "al_ok l" and sz: "grown_size l < 2 ^ 31" and full: "al_length l = allocated l"
    and g: "growList a l = Some (0, l')"
  shows "al_ok l' \<and> al_elems l' = al_elems l \<and> al_length l' < allocated l' \<and> dataSize l' = dataSize l"
proof -
  from ok obtain d where D: "al_data l = Block d" "0 < dataSize l" "0 \<le> al_length l"
    "nat (allocated l) * dataSize l \<le> length d" "0 < listIncrement l" by (rule al_okE)
  from g obtain p where p: "realloc a d (nat (grown_size l)) = Some p"
    "l' = l\<lparr>listIncrement := listIncrement l * 2, al_data := Block p,
            allocated := allocated l + 2 * listIncrement l\<rparr>"
    by (auto simp: growList_result [OF ok sz D(1)] split: option.splits)
  have lenp: "length p = nat (grown_size l)" using p(1) by (rule realloc_length)
  let ?k = "nat (al_length l) * dataSize l"
  have k: "?k \<le> length d" "?k \<le> nat (grown_size l)"
    using D full by (auto simp: grown_size_def nat_mult_distrib)
  have "slots (dataSize l) (nat (al_length l)) p = slots (dataSize l) (nat (al_length l)) d"
    by (rule slots_take [OF refl k(1) realloc_keeps [OF p(1) k]])
  then have "al_elems l' = al_elems l"
    by (simp add: al_elems_def p(2) D(1))
  moreover have "length p < 2 ^ 31"
    using sz lenp grown_size_int(2) [OF ok sz] by (simp add: nat_less_iff)
  then have "al_ok l'"
    using D full lenp by (auto simp: al_ok_def p(2) grown_size_def nat_mult_distrib)
  ultimately show ?thesis using D full by (simp add: p(2))
qed

lemma addToList_after_grow:
  assumes "al_length l = allocated l"
  shows "addToList a l x = (case growList a l of None \<Rightarrow> None
    | Some (r, l') \<Rightarrow> if r \<noteq> 0 then Some (r, l') else do {
        d \<leftarrow> deref (al_data l');
        src \<leftarrow> load_bytes x 0 (dataSize l');
        d \<leftarrow> store_bytes d (elem_off l' (al_length l')) src;
        Some (0, l'\<lparr>al_data := Block d, al_length := al_length l' + 1\<rparr>) })"
  using assms by (auto simp: addToList_def split: option.splits)

lemma addToList_full:
  assumes ok: "al_ok l" and full: "al_length l = allocated l" and sz: "grown_size l < 2 ^ 31"
    and x: "length x = dataSize l"
  shows "\<exists>r l'. addToList a l x = Some (r, l') \<and> al_ok l' \<and> dataSize l' = dataSize l
    \<and> (r = 0 \<and> al_elems l' = al_elems l @ [x] \<or> r = 1 \<and> al_elems l' = al_elems l)"
proof -
  from ok obtain d where d: "al_data l = Block d" by (rule al_okE)
  show ?thesis
  proof (cases "realloc a d (nat (grown_size l))")
    case None
    let ?l = "l\<lparr>listIncrement := listIncrement l * 2\<rparr>"
    have "addToList a l x = Some (1, ?l)"
      by (simp add: addToList_after_grow [OF full] growList_result [OF ok sz d] None)
    moreover have "al_ok ?l" "al_elems ?l = al_elems l"
      using ok by (auto simp: al_ok_def al_elems_def split: data_ptr.splits)
    ultimately show ?thesis by auto
  next
    case (Some p)
    then obtain l1 where g: "growList a l = Some (0, l1)"
      by (simp add: growList_result [OF ok sz d])
    note l1 = growList_ok [OF ok sz full g]
    have "addToList a l x = addToList a l1 x"
      unfolding addToList_after_grow [OF full] g using l1 by (simp add: addToList_def)
    then show ?thesis
      using addToList_room [of l1 x a] l1 x by auto
  qed
qed

lemma initList_ok:
  assumes "0 < ds" "ds < 2 ^ 28" "initList a ds = (0, l)"
  shows "al_ok l \<and> al_elems l = [] \<and> dataSize l = ds"
proof -
  have "to_size_t (int ds * 5) = int ds * 5" using assms(2) by (intro to_size_t_id) simp_all
  then show ?thesis using assms
    by (auto simp: initList_def Let_def al_ok_def al_elems_def slots_def
        dest!: malloc_length split: option.splits)
qed

lemma read_slot:
  assumes ok: "al_ok l" and i: "0 \<le> i" "i < al_length l"
  shows "getFromList l i = Some (nat i * dataSize l)"
    and "read_elem l (nat i * dataSize l) = Some (al_elems l ! nat i)"
proof -
  from ok obtain d where d: "al_data l = Block d" "al_length l \<le> allocated l" by (rule al_okE)
  then have "nat i * dataSize l + dataSize l \<le> length d"
    using slot_in_block [OF ok d(1)] i by simp
  then show "read_elem l (nat i * dataSize l) = Some (al_elems l ! nat i)"
    using d(1) i by (simp add: read_elem_def load_bytes_def al_elems_def nat_less_iff)
  show "getFromList l i = Some (nat i * dataSize l)"
    using i d(2) by (simp add: getFromList_def elem_off_ok [OF ok])
qed

text \<open>\<open>memcmp\<close> over the whole element compares the element.\<close>

lemma slot_equals_elem:
  assumes ok: "al_ok l" and i: "0 \<le> i" "i < al_length l" and x: "length x = dataSize l"
  shows "slot_equals l (elem_off l i) x (int (dataSize l)) = Some (al_elems l ! nat i = x)"
proof -
  from ok obtain d where d: "al_data l = Block d" "al_length l \<le> allocated l"
    "0 < dataSize l" "length d < 2 ^ 31" by (rule al_okE)
  have fits: "nat i * dataSize l + dataSize l \<le> length d"
    using slot_in_block [OF ok d(1)] d(2) i by simp
  then have "dataSize l < 2 ^ 31" using d(4) by linarith
  then have "to_size_t (int (dataSize l)) = int (dataSize l)"
    by (intro to_size_t_id) simp_all
  moreover have "elem_off l i = nat i * dataSize l"
    using i d(2) by (intro elem_off_ok [OF ok]) simp_all
  moreover have "nat i < nat (al_length l)" using i by simp
  ultimately show ?thesis
    using d(1) fits x by (simp add: slot_equals_def load_bytes_def al_elems_def)
qed

lemma removeFromList_slots:
  assumes ok: "al_ok l" and i: "0 \<le> i" "i < al_length l"
  shows "\<exists>l'. removeFromList l i = Some (0, l') \<and> al_ok l' \<and> dataSize l' = dataSize l
    \<and> al_elems l' = take (nat i) (al_elems l) @ drop (Suc (nat i)) (al_elems l)"
proof -
  from ok obtain d where d: "al_data l = Block d" "al_length l \<le> allocated l"
    "0 < dataSize l" "length d < 2 ^ 31" "nat (allocated l) * dataSize l \<le> length d" by (rule al_okE)
  define k n ds where "k = nat i" and "n = nat (al_length l)" and "ds = dataSize l"
  have kn: "k < n" using i by (simp add: k_def n_def)
  have fits: "n * ds \<le> length d"
  proof -
    have "n \<le> nat (allocated l)" using d(2) by (simp add: n_def)
    then have "n * ds \<le> nat (allocated l) * ds" by (rule mult_le_mono1)
    then show ?thesis using d(5) unfolding ds_def by (rule le_trans)
  qed
  have offs: "elem_off l i = k * ds" "elem_off l (i + 1) = Suc k * ds"
    using i d(2) elem_off_ok [OF ok, of i] elem_off_ok [OF ok, of "i + 1"]
    by (simp_all add: k_def ds_def nat_add_distrib)
  have move: "int ds * (al_length l - i - 1) = int ((n - Suc k) * ds)"
  proof -
    have "al_length l - i - 1 = int (n - Suc k)" using i kn by (simp add: k_def n_def)
    then show ?thesis by simp
  qed
  have sum: "Suc k * ds + (n - Suc k) * ds = n * ds"
    using kn by (metis Suc_leI add_mult_distrib le_add_diff_inverse)
  then have "(n - Suc k) * ds < 2 ^ 31" using fits d(4) by linarith
  then have sz: "nat (to_size_t (int ds * (al_length l - i - 1))) = (n - Suc k) * ds"
    unfolding move by (subst to_size_t_id) (simp_all del: of_nat_mult)
  let ?src = "take ((n - Suc k) * ds) (drop (Suc k * ds) d)"
  define d' where "d' = take (k * ds) d @ ?src @ drop (k * ds + (n - Suc k) * ds) d"
  have src: "load_bytes d (Suc k * ds) ((n - Suc k) * ds) = Some ?src"
    using sum fits by (simp add: load_bytes_def)
  have lsrc: "length ?src = (n - Suc k) * ds"
    using load_bytes_length [OF src] .
  have st: "store_bytes d (k * ds) ?src = Some d'"
    using sum fits lsrc unfolding d'_def store_bytes_def by simp
  let ?l' = "l\<lparr>al_data := Block d', al_length := al_length l - 1\<rparr>"
  have res: "removeFromList l i = Some (0, ?l')"
    using i d(1) src st sz by (simp add: removeFromList_def offs Let_def ds_def)
  have ok': "al_ok ?l'"
    using ok i d(1) store_bytes_length [OF st] by (auto simp: al_ok_def)
  have "slots ds (n - 1) d' = slots ds k d' @ slots ds (n - Suc k) (drop (k * ds) d')"
    using slots_add [of ds k "n - Suc k" d'] kn by simp
  also have "slots ds k d' = slots ds k d"
    by (rule slots_take [OF refl]) (use fits kn sum in \<open>simp_all add: d'_def\<close>)
  also have "slots ds (n - Suc k) (drop (k * ds) d') = slots ds (n - Suc k) (drop (Suc k * ds) d)"
  proof (rule slots_take [OF refl])
    show "take ((n - Suc k) * ds) (drop (k * ds) d') = take ((n - Suc k) * ds) (drop (Suc k * ds) d)"
      using lsrc sum fits by (simp add: d'_def)
  qed (use fits sum in simp)
  also have "slots ds k d @ slots ds (n - Suc k) (drop (Suc k * ds) d)
      = take k (slots ds n d) @ drop (Suc k) (slots ds n d)"
    using slots_add [of ds k "n - k" d] slots_add [of ds "Suc k" "n - Suc k" d] kn
    by (simp add: slots_Suc)
  finally have "slots ds (n - 1) d' = take k (slots ds n d) @ drop (Suc k) (slots ds n d)" .
  then have "al_elems ?l' = take (nat i) (al_elems l) @ drop (Suc (nat i)) (al_elems l)"
    using i d(1) by (simp add: al_elems_def n_def k_def ds_def nat_diff_distrib)
  with res ok' show ?thesis by (intro exI [of _ ?l']) simp
qed

lemma findFrom_elems:
  assumes ok: "al_ok l" and x: "length x = dataSize l" and i: "0 \<le> i" "i \<le> al_length l"
  shows "findFrom l x (int (dataSize l)) i = Some
    (case find_index (\<lambda>y. y = x) (drop (nat i) (al_elems l)) of
       None \<Rightarrow> - 1 | Some k \<Rightarrow> i + int k)"
  using i
proof (induction "nat (al_length l - i)" arbitrary: i)
  case 0
  then have "drop (nat i) (al_elems l) = []" using length_al_elems [OF ok] by simp
  then show ?case using 0 by (subst findFrom.simps) simp
next
  case (Suc m)
  then have lt: "i < al_length l" by simp
  then have len: "nat i < length (al_elems l)"
    using length_al_elems [OF ok] Suc.prems by simp
  then have "drop (nat i) (al_elems l) = al_elems l ! nat i # drop (nat (i + 1)) (al_elems l)"
    using Suc.prems by (simp add: Cons_nth_drop_Suc nat_add_distrib)
  moreover have "findFrom l x (int (dataSize l)) (i + 1) = Some
    (case find_index (\<lambda>y. y = x) (drop (nat (i + 1)) (al_elems l)) of
       None \<Rightarrow> - 1 | Some k \<Rightarrow> i + 1 + int k)"
    using Suc lt by (intro Suc.hyps(1)) auto
  ultimately show ?case
    using lt slot_equals_elem [OF ok Suc.prems(1) lt x]
    by (subst findFrom.simps) (auto split: option.splits)
qed

lemma findInList_elems:
  assumes "al_ok l" "length x = dataSize l"
  shows "findInList l x (int (dataSize l)) = Some
    (case find_index (\<lambda>y. y = x) (al_elems l) of None \<Rightarrow> - 1 | Some k \<Rightarrow> int k)"
proof -
  have "0 \<le> al_length l" using assms(1) by (rule al_okE)
  then show ?thesis using findFrom_elems [OF assms, of 0] by (simp add: findInList_def split: option.splits)
qed

section \<open>The contract of an element store\<close>

text \<open>
  The two loops the rest of the program runs over an \<open>arrayList\<close>, over any store given by
  its operations: the linear search, and taking the first element off the front. A NULL
  from \<open>getFromList\<close> that the loop dereferences is \<open>None\<close>.
\<close>

function scan_from :: "(int \<Rightarrow> 'e option) \<Rightarrow> int \<Rightarrow> ('e \<Rightarrow> bool) \<Rightarrow> int \<Rightarrow> int option" where
  "scan_from get n P i =
     (if i < n then do { e \<leftarrow> get i; if P e then Some i else scan_from get n P (i + 1) }
      else Some (- 1))"
  by pat_completeness auto
termination
  by (relation "measure (\<lambda>(get, n, P, i). nat (n - i))") auto

declare scan_from.simps [simp del]

definition store_pop :: "('s \<Rightarrow> int \<Rightarrow> 'e option) \<Rightarrow> ('s \<Rightarrow> int \<Rightarrow> (int \<times> 's) option)
    \<Rightarrow> 's \<Rightarrow> ('e \<times> 's) option" where
  "store_pop get delete s = do { e \<leftarrow> get s 0; (_, s') \<leftarrow> delete s 0; Some (e, s') }"

locale element_store =
  fixes inv :: "'s \<Rightarrow> bool"
    and elems :: "'s \<Rightarrow> 'e list"
    and admits :: "'s \<Rightarrow> 'e \<Rightarrow> bool"
    and size_of :: "'s \<Rightarrow> int"
    and get :: "'s \<Rightarrow> int \<Rightarrow> 'e option"
    and push :: "'s \<Rightarrow> 'e \<Rightarrow> (int \<times> 's) option"
    and delete :: "'s \<Rightarrow> int \<Rightarrow> (int \<times> 's) option"
  assumes size_elems: "inv s \<Longrightarrow> size_of s = int (length (elems s))"
    and get_inside: "inv s \<Longrightarrow> 0 \<le> i \<Longrightarrow> i < size_of s \<Longrightarrow> get s i = Some (elems s ! nat i)"
    and get_outside: "i < 0 \<or> size_of s \<le> i \<Longrightarrow> get s i = None"
    and push_result: "inv s \<Longrightarrow> admits s e \<Longrightarrow> \<exists>r s'. push s e = Some (r, s') \<and> inv s'
          \<and> (r = 0 \<and> elems s' = elems s @ [e] \<or> r = 1 \<and> elems s' = elems s)"
    and delete_inside: "inv s \<Longrightarrow> 0 \<le> i \<Longrightarrow> i < size_of s \<Longrightarrow> \<exists>s'. delete s i = Some (0, s')
          \<and> inv s' \<and> elems s' = take (nat i) (elems s) @ drop (Suc (nat i)) (elems s)"
    and delete_outside: "i < 0 \<or> size_of s \<le> i \<Longrightarrow> delete s i = Some (- 1, s)"
begin

lemma scan_from_elems:
  assumes s: "inv s" and i: "0 \<le> i" "i \<le> size_of s"
  shows "scan_from (get s) (size_of s) P i = Some
    (case find_index P (drop (nat i) (elems s)) of None \<Rightarrow> - 1 | Some k \<Rightarrow> i + int k)"
  using i
proof (induction "nat (size_of s - i)" arbitrary: i)
  case 0
  then have "drop (nat i) (elems s) = []" using size_elems [OF s] by simp
  then show ?case using 0 by (subst scan_from.simps) simp
next
  case (Suc m)
  then have lt: "i < size_of s" by simp
  then have "nat i < length (elems s)" using size_elems [OF s] Suc.prems by simp
  then have "drop (nat i) (elems s) = elems s ! nat i # drop (nat (i + 1)) (elems s)"
    using Suc.prems by (simp add: Cons_nth_drop_Suc nat_add_distrib)
  moreover have "scan_from (get s) (size_of s) P (i + 1) = Some
    (case find_index P (drop (nat (i + 1)) (elems s)) of None \<Rightarrow> - 1 | Some k \<Rightarrow> i + 1 + int k)"
    using Suc lt by (intro Suc.hyps(1)) auto
  ultimately show ?case
    using lt get_inside [OF s Suc.prems(1) lt]
    by (subst scan_from.simps) (auto split: option.splits)
qed

lemma scan_first:
  assumes "inv s"
  shows "scan_from (get s) (size_of s) P 0 = Some
    (case find_index P (elems s) of None \<Rightarrow> - 1 | Some k \<Rightarrow> int k)"
  using scan_from_elems [OF assms, of 0] size_elems [OF assms]
  by (simp split: option.splits)

lemma pop_first:
  assumes "inv s" "elems s = e # es"
  shows "\<exists>s'. store_pop get delete s = Some (e, s') \<and> inv s' \<and> elems s' = es"
proof -
  have pos: "0 < size_of s" using size_elems [OF assms(1)] assms(2) by simp
  from delete_inside [OF assms(1) _ pos] obtain s' where
    "delete s 0 = Some (0, s')" "inv s'" "elems s' = es" using assms(2) by auto
  then show ?thesis
    using get_inside [OF assms(1) _ pos] assms(2) by (auto simp: store_pop_def)
qed

lemma pop_empty: "inv s \<Longrightarrow> elems s = [] \<Longrightarrow> store_pop get delete s = None"
  using get_outside [of 0 s] size_elems [of s] by (simp add: store_pop_def)

text \<open>First in, first out: what is pushed on a non-empty store waits behind what was there.\<close>

lemma push_pop:
  assumes "inv s" "admits s e" "push s e = Some (0, s1)" "elems s = x # xs"
  shows "\<exists>s2. store_pop get delete s1 = Some (x, s2) \<and> inv s2 \<and> elems s2 = xs @ [e]"
proof -
  from push_result [OF assms(1,2)] assms(3,4) have "inv s1" "elems s1 = x # xs @ [e]" by auto
  then show ?thesis by (rule pop_first)
qed

end

subsection \<open>The byte-level list provides it\<close>

definition al_get :: "arrayList \<Rightarrow> int \<Rightarrow> byte list option" where
  "al_get l i = do { off \<leftarrow> getFromList l i; read_elem l off }"

text \<open>An element is admitted when it has the element size and the growth stays an \<open>int\<close>.\<close>

definition al_admits :: "arrayList \<Rightarrow> byte list \<Rightarrow> bool" where
  "al_admits l x \<longleftrightarrow> length x = dataSize l
     \<and> (al_length l < allocated l \<or> grown_size l < 2 ^ 31)"

lemma addToList_result:
  assumes "al_ok l" "al_admits l x"
  shows "\<exists>r l'. addToList a l x = Some (r, l') \<and> al_ok l' \<and> dataSize l' = dataSize l
    \<and> (r = 0 \<and> al_elems l' = al_elems l @ [x] \<or> r = 1 \<and> al_elems l' = al_elems l)"
proof (cases "al_length l < allocated l")
  case True
  then show ?thesis using addToList_room [OF assms(1)] assms(2) by (fastforce simp: al_admits_def)
next
  case False
  then have "al_length l = allocated l" using assms(1) by (auto elim: al_okE)
  then show ?thesis using addToList_full [OF assms(1)] assms(2) False by (simp add: al_admits_def)
qed

interpretation al: element_store al_ok al_elems al_admits al_length al_get "addToList a" removeFromList
  for a
proof unfold_locales
  show "al_length l = int (length (al_elems l))" if "al_ok l" for l
    using length_al_elems [OF that] by simp
  show "al_get l i = Some (al_elems l ! nat i)" if "al_ok l" "0 \<le> i" "i < al_length l" for l i
    using read_slot [OF that] by (simp add: al_get_def)
  show "\<exists>r l'. addToList a l x = Some (r, l') \<and> al_ok l'
      \<and> (r = 0 \<and> al_elems l' = al_elems l @ [x] \<or> r = 1 \<and> al_elems l' = al_elems l)"
    if "al_ok l" "al_admits l x" for l x
    using addToList_result [OF that, of a] by blast
  show "\<exists>l'. removeFromList l i = Some (0, l') \<and> al_ok l'
      \<and> al_elems l' = take (nat i) (al_elems l) @ drop (Suc (nat i)) (al_elems l)"
    if "al_ok l" "0 \<le> i" "i < al_length l" for l i
    using removeFromList_slots [OF that] by blast
qed (auto simp: al_get_def getFromList_def removeFromList_def)

subsection \<open>The typed view provides it\<close>

text \<open>
  An \<open>arrayList\<close> of structs, as the other theories see it: the list of the structs. The
  operations are those of \<open>al_elems\<close> under any fixed-width encoding of the struct; an
  allocation failure is the flag \<open>full\<close> the allocator answered with.
\<close>

definition sl_length :: "'e list \<Rightarrow> int" where
  "sl_length xs = int (length xs)"

definition sl_get :: "'e list \<Rightarrow> int \<Rightarrow> 'e option" where
  "sl_get xs i = (if i < sl_length xs \<and> i \<ge> 0 then Some (xs ! nat i) else None)"

definition sl_push :: "bool \<Rightarrow> 'e list \<Rightarrow> 'e \<Rightarrow> int \<times> 'e list" where
  "sl_push full xs e = (if full then (1, xs) else (0, xs @ [e]))"

definition sl_delete :: "'e list \<Rightarrow> int \<Rightarrow> int \<times> 'e list" where
  "sl_delete xs i = (if i < sl_length xs \<and> i \<ge> 0
     then (0, take (nat i) xs @ drop (Suc (nat i)) xs) else (- 1, xs))"

interpretation sl: element_store "\<lambda>_. True" "\<lambda>xs. xs" "\<lambda>_ _. True" sl_length sl_get
    "\<lambda>xs e. Some (sl_push full xs e)" "\<lambda>xs i. Some (sl_delete xs i)"
  for full
  by unfold_locales (auto simp: sl_length_def sl_get_def sl_push_def sl_delete_def)

text \<open>
  The typed view is the byte-level list read through the encoding: \<open>represents enc l xs\<close>
  says that \<open>l\<close> holds the encodings of \<open>xs\<close>, and each byte-level operation on \<open>l\<close> is the
  typed operation on \<open>xs\<close>.
\<close>

definition represents :: "('e \<Rightarrow> byte list) \<Rightarrow> arrayList \<Rightarrow> 'e list \<Rightarrow> bool" where
  "represents enc l xs \<longleftrightarrow> al_ok l \<and> al_elems l = map enc xs"

lemma represents_length: "represents enc l xs \<Longrightarrow> al_length l = sl_length xs"
  using length_al_elems [of l] by (simp add: represents_def sl_length_def)

lemma represents_get: "represents enc l xs \<Longrightarrow> al_get l i = map_option enc (sl_get xs i)"
  using represents_length [of enc l xs] al.get_inside [of l i] al.get_outside [of i l]
  by (auto simp: represents_def sl_get_def sl_length_def nat_less_iff not_le)

lemma represents_delete:
  assumes "represents enc l xs"
  shows "\<exists>l'. removeFromList l i = Some (fst (sl_delete xs i), l')
    \<and> represents enc l' (snd (sl_delete xs i))"
proof (cases "0 \<le> i \<and> i < sl_length xs")
  case True
  then show ?thesis
    using al.delete_inside [of l i] assms represents_length [OF assms]
    by (auto simp: represents_def sl_delete_def take_map drop_map)
next
  case False
  then show ?thesis
    using al.delete_outside [of i l] assms represents_length [OF assms]
    by (auto simp: represents_def sl_delete_def)
qed

lemma represents_push:
  assumes "represents enc l xs" "al_admits l (enc e)"
  shows "\<exists>full l'. addToList a l (enc e) = Some (fst (sl_push full xs e), l')
    \<and> represents enc l' (snd (sl_push full xs e))"
proof -
  from al.push_result [of l "enc e" a] assms obtain r l' where
    "addToList a l (enc e) = Some (r, l')" "al_ok l'"
    "r = 0 \<and> al_elems l' = map enc xs @ [enc e] \<or> r = 1 \<and> al_elems l' = map enc xs"
    by (auto simp: represents_def)
  then show ?thesis
    by (intro exI [of _ "r = 1"] exI [of _ l']) (auto simp: represents_def sl_push_def)
qed

section \<open>Properties\<close>

text \<open>
  Adding an element to a well-formed list keeps it well-formed and either appends the
  element (result 0, growing the block if every slot is used) or, when \<open>realloc\<close> fails,
  reports 1 and leaves the elements as they were.
\<close>

lemma addToList_appends:
  assumes "al_ok l" "al_admits l x"
  shows "\<exists>r l'. addToList a l x = Some (r, l') \<and> al_ok l'
    \<and> (r = 0 \<and> al_elems l' = al_elems l @ [x] \<or> r = 1 \<and> al_elems l' = al_elems l)"
  using assms by (rule al.push_result)

definition full_list :: arrayList where
  "full_list = \<lparr>al_data = Block [1, 2, 3, 4], dataSize = 2, allocated = 2, al_length = 2,
                listIncrement = 5\<rparr>"

lemma full_list_ok: "al_ok full_list" "al_admits full_list [5, 6]"
  "al_elems full_list = [[1, 2], [3, 4]]"
  by (simp_all add: full_list_def al_ok_def al_admits_def grown_size_def al_elems_def slots_def
      upt_rec)

text \<open>
  Removing from a list deletes exactly the element at the index when the index is
  inside, and otherwise reports -1 and changes nothing.
\<close>

lemma removeFromList_deletes:
  assumes "represents enc l xs"
  shows "\<exists>l'. removeFromList l i = Some (fst (sl_delete xs i), l')
    \<and> represents enc l' (snd (sl_delete xs i))"
  using assms by (rule represents_delete)

lemma full_list_represents: "represents (\<lambda>x. x) full_list [[1, 2], [3, 4]]"
  by (simp add: represents_def full_list_ok)

text \<open>
  Searching a list for a whole element returns the least index that holds it, or -1
  when no slot does.
\<close>

lemma findInList_least:
  assumes "al_ok l" "length x = dataSize l"
  shows "findInList l x (int (dataSize l)) = Some
    (case find_index (\<lambda>y. y = x) (al_elems l) of None \<Rightarrow> - 1 | Some k \<Rightarrow> int k)"
  using assms by (rule findInList_elems)

end
