(* ===== verification/PckData.thy ===== *)
theory PckData
  imports C_Prelude
begin

text \<open>
  The binary container of \<open>protocol/pckData/pckData.c\<close>: total length, allocation limit,
  then each element as a 4-byte length and its bytes. The operations work on the bytes of
  the block that holds it, at an offset \<open>p\<close> (0 for a container of its own, the position
  of the field for one inside a message). \<open>pck_host\<close> and \<open>pck_net\<close> are the layouts of a
  list of elements in host and in network byte order; the lemmas show that the operations
  implement appending to, converting and indexing that list.
\<close>

section \<open>Operations\<close>

definition pckDataIncrements :: nat where
  "pckDataIncrements = 255"

definition initPckData :: "allocator \<Rightarrow> (int \<times> byte list option) option" where
  "initPckData a =
     (case malloc a pckDataIncrements of
        None \<Rightarrow> Some (- 1, None)
      | Some m \<Rightarrow> do {
          m \<leftarrow> store32 m 0 8;
          m \<leftarrow> store32 m 4 (of_nat pckDataIncrements);
          Some (0, Some m)
        })"

text \<open>
  The growth loop calls \<open>realloc(pckData, ...)\<close> with the address of the caller's pointer
  variable instead of the block it points to; that is not a block of the allocator, so a
  container that has to grow has no defined behaviour. The container stands at the start
  of its own block, as every caller has it.
\<close>

definition appendToPckData :: "byte list \<Rightarrow> byte list \<Rightarrow> u32 \<Rightarrow> (int \<times> byte list) option" where
  "appendToPckData m newData newDataLen = do {
     currentLen \<leftarrow> load32 m 0;
     currentLim \<leftarrow> load32 m 4;
     if currentLen + newDataLen > currentLim then None else do {
       m \<leftarrow> store32 m (unat currentLen) newDataLen;
       src \<leftarrow> load_bytes newData 0 (unat newDataLen);
       m \<leftarrow> store_bytes m (unat currentLen + 4) src;
       let currentLen = currentLen + 4 + newDataLen;
       m \<leftarrow> store32 m 0 currentLen;
       m \<leftarrow> store32 m 4 currentLim;
       Some (0, m)
     }
   }"

partial_function (option) toNetwork_loop :: "byte list \<Rightarrow> nat \<Rightarrow> u32 \<Rightarrow> u32 \<Rightarrow> byte list option" where
  "toNetwork_loop m p totalLen currentLen =
     (if currentLen < totalLen then do {
        currentElementLen \<leftarrow> load32 m (p + unat currentLen);
        m \<leftarrow> store32 m (p + unat currentLen) (htonl currentElementLen);
        toNetwork_loop m p totalLen (currentLen + (currentElementLen + 4))
      } else Some m)"

definition pckDataToNetworkOrder :: "byte list option \<Rightarrow> nat \<Rightarrow> (int \<times> byte list option) option" where
  "pckDataToNetworkOrder pckData p =
     (case pckData of
        None \<Rightarrow> Some (- 1, None)
      | Some m \<Rightarrow> do {
          totalLen \<leftarrow> load32 m p;
          m \<leftarrow> store32 m p (htonl totalLen);
          lim \<leftarrow> load32 m (p + 4);
          m \<leftarrow> store32 m (p + 4) (htonl lim);
          m \<leftarrow> toNetwork_loop m p totalLen 8;
          Some (0, Some m)
        })"

partial_function (option) toHost_loop :: "byte list \<Rightarrow> nat \<Rightarrow> u32 \<Rightarrow> u32 \<Rightarrow> byte list option" where
  "toHost_loop m p totalLen currentLen =
     (if currentLen < totalLen then do {
        w \<leftarrow> load32 m (p + unat currentLen);
        let currentElementLen = ntohl w;
        m \<leftarrow> store32 m (p + unat currentLen) currentElementLen;
        toHost_loop m p totalLen (currentLen + (currentElementLen + 4))
      } else Some m)"

definition pckDataToHostOrder :: "byte list option \<Rightarrow> nat \<Rightarrow> (int \<times> byte list option) option" where
  "pckDataToHostOrder pckData p =
     (case pckData of
        None \<Rightarrow> Some (- 1, None)
      | Some m \<Rightarrow> do {
          w \<leftarrow> load32 m p;
          let totalLen = ntohl w;
          m \<leftarrow> store32 m p totalLen;
          lim \<leftarrow> load32 m (p + 4);
          m \<leftarrow> store32 m (p + 4) (ntohl lim);
          m \<leftarrow> toHost_loop m p totalLen 8;
          Some (0, Some m)
        })"

text \<open>
  \<open>getElementFromPckData\<close> copies the element into \<open>output\<close> and returns its length; the
  error value \<open>-1\<close> is the largest \<open>uint32_t\<close>. The length field is read before the check
  that it is inside the container.
\<close>

partial_function (option) getElement_loop ::
    "byte list \<Rightarrow> nat \<Rightarrow> byte list \<Rightarrow> u32 \<Rightarrow> u32 \<Rightarrow> u32 \<Rightarrow> u32 \<Rightarrow> (u32 \<times> byte list) option" where
  "getElement_loop m p output totalLen index currentPosition currentIndex = do {
     currentElemLen \<leftarrow> load32 m (p + unat currentPosition);
     if currentPosition + 4 \<ge> totalLen then Some (- 1, output)
     else if index = currentIndex then do {
       src \<leftarrow> load_bytes m (p + unat currentPosition + 4) (unat currentElemLen);
       output \<leftarrow> store_bytes output 0 src;
       Some (currentElemLen, output)
     } else
       let currentPosition = currentPosition + 4 + currentElemLen; currentIndex = currentIndex + 1 in
       if currentPosition \<ge> totalLen then Some (- 1, output)
       else getElement_loop m p output totalLen index currentPosition currentIndex
   }"

definition getElementFromPckData ::
    "byte list \<Rightarrow> nat \<Rightarrow> byte list \<Rightarrow> u32 \<Rightarrow> (u32 \<times> byte list) option" where
  "getElementFromPckData m p output index = do {
     totalLen \<leftarrow> load32 m p;
     getElement_loop m p output totalLen index 8 0
   }"

partial_function (option) getElementLength_loop ::
    "byte list \<Rightarrow> nat \<Rightarrow> u32 \<Rightarrow> u32 \<Rightarrow> u32 \<Rightarrow> u32 \<Rightarrow> u32 option" where
  "getElementLength_loop m p totalLen index currentPosition currentIndex = do {
     currentElemLen \<leftarrow> load32 m (p + unat currentPosition);
     if index = currentIndex then Some currentElemLen
     else
       let currentPosition = currentPosition + 4 + currentElemLen; currentIndex = currentIndex + 1 in
       if currentPosition \<ge> totalLen then Some (- 1)
       else getElementLength_loop m p totalLen index currentPosition currentIndex
   }"

definition getElementLengthFromPckData :: "byte list \<Rightarrow> nat \<Rightarrow> u32 \<Rightarrow> u32 option" where
  "getElementLengthFromPckData m p index = do {
     totalLen \<leftarrow> load32 m p;
     getElementLength_loop m p totalLen index 8 0
   }"

text \<open>
  The coloured dump. Each byte is printed in the colour of its segment; a colour scheme
  other than 0, 1, 2 prints no bytes. The state effect is the byte order: a serialised
  container is converted to host order for reading and back at the end.
\<close>

datatype colour = Orange | Cyan | DarkBlue | LightYellow | DarkGreen | Red
  | Message1 | Message2 | Message3 | Message4 | Message5 | Message6 | Message7 | Message8 | Message9

definition length_colour :: "int \<Rightarrow> colour option" where
  "length_colour scheme = (if scheme = 0 then Some Orange else if scheme = 1 then Some DarkBlue
     else if scheme = 2 then Some DarkGreen else None)"

definition data_colour :: "int \<Rightarrow> colour option" where
  "data_colour scheme = (if scheme = 0 then Some Cyan else if scheme = 1 then Some LightYellow
     else if scheme = 2 then Some Red else None)"

text \<open>A field of \<open>n\<close> bytes at an offset, read and printed only if the scheme has a colour.\<close>

definition print_field :: "byte list \<Rightarrow> colour option \<Rightarrow> nat \<Rightarrow> nat \<Rightarrow> (colour \<times> byte) list option" where
  "print_field m c off n =
     (case c of None \<Rightarrow> Some [] | Some c \<Rightarrow> map_option (map (Pair c)) (load_bytes m off n))"

text \<open>A position past \<open>INT_MAX\<close> becomes a negative offset of the block.\<close>

partial_function (option) printPck_loop ::
    "byte list \<Rightarrow> nat \<Rightarrow> int \<Rightarrow> u32 \<Rightarrow> u32 \<Rightarrow> (colour \<times> byte) list \<Rightarrow> (colour \<times> byte) list option" where
  "printPck_loop m p scheme pckDataLen pos out =
     (if unat pos \<ge> 2 ^ 31 then None else do {
        currentElementLen \<leftarrow> load32 m (p + unat pos);
        len_field \<leftarrow> print_field m (length_colour scheme) (p + unat pos) 4;
        elem \<leftarrow> print_field m (data_colour scheme) (p + unat pos + 4) (unat currentElementLen);
        let out = out @ len_field @ elem;
        let pos = pos + currentElementLen + 4;
        if pos \<ge> pckDataLen then Some out else printPck_loop m p scheme pckDataLen pos out
      })"

definition printPckData ::
    "byte list \<Rightarrow> nat \<Rightarrow> bool \<Rightarrow> int \<Rightarrow> ((colour \<times> byte) list \<times> byte list) option" where
  "printPckData m p isSerialized scheme = do {
     m \<leftarrow> (if isSerialized then map_option (the \<circ> snd) (pckDataToHostOrder (Some m) p) else Some m);
     pckDataLen \<leftarrow> load32 m p;
     if pckDataLen \<le> 8 then Some ([], m) else do {
       total \<leftarrow> print_field m (length_colour scheme) p 4;
       lim \<leftarrow> print_field m (data_colour scheme) (p + 4) 4;
       out \<leftarrow> printPck_loop m p scheme pckDataLen 8 (total @ lim);
       m \<leftarrow> (if isSerialized then map_option (the \<circ> snd) (pckDataToNetworkOrder (Some m) p)
             else Some m);
       Some (out, m)
     }
   }"

section \<open>The list of elements a container stands for\<close>

definition elem_host :: "byte list \<Rightarrow> byte list" where
  "elem_host e = bytes_of_u32 (of_nat (length e)) @ e"

definition elem_net :: "byte list \<Rightarrow> byte list" where
  "elem_net e = bytes_of_u32 (htonl (of_nat (length e))) @ e"

definition elems_len :: "byte list list \<Rightarrow> nat" where
  "elems_len es = sum_list (map (\<lambda>e. 4 + length e) es)"

definition pck_len :: "byte list list \<Rightarrow> nat" where
  "pck_len es = 8 + elems_len es"

definition pck_host :: "u32 \<Rightarrow> byte list list \<Rightarrow> byte list" where
  "pck_host lim es = bytes_of_u32 (of_nat (pck_len es)) @ bytes_of_u32 lim @ concat (map elem_host es)"

definition pck_net :: "u32 \<Rightarrow> byte list list \<Rightarrow> byte list" where
  "pck_net lim es = bytes_of_u32 (htonl (of_nat (pck_len es))) @ bytes_of_u32 (htonl lim)
     @ concat (map elem_net es)"

lemma elems_len_simps [simp]:
  "elems_len [] = 0" "elems_len (e # es) = 4 + length e + elems_len es"
  "elems_len (es @ es') = elems_len es + elems_len es'"
  by (simp_all add: elems_len_def)

lemma length_elems [simp]:
  "length (concat (map elem_host es)) = elems_len es"
  "length (concat (map elem_net es)) = elems_len es"
  by (simp_all add: length_concat_map elem_host_def elem_net_def elems_len_def)

lemma length_pck [simp]: "length (pck_host lim es) = pck_len es" "length (pck_net lim es) = pck_len es"
  by (simp_all add: pck_host_def pck_net_def pck_len_def)

lemma toNetwork_loop_elems:
  assumes "length A = p + c" "c + elems_len es = t" "t < 2 ^ 32"
  shows "toNetwork_loop (A @ concat (map elem_host es) @ post) p (of_nat t) (of_nat c)
    = Some (A @ concat (map elem_net es) @ post)"
  using assms
proof (induction es arbitrary: A c)
  case Nil
  then show ?case by (subst toNetwork_loop.simps) simp
next
  case (Cons e es)
  have "toNetwork_loop ((A @ elem_net e) @ concat (map elem_host es) @ post) p (of_nat t)
          (of_nat (c + (length e + 4))) = Some ((A @ elem_net e) @ concat (map elem_net es) @ post)"
    using Cons.prems by (intro Cons.IH) (simp_all add: elem_net_def)
  then show ?case
    using Cons.prems
    by (subst toNetwork_loop.simps) (simp add: mem_simps elem_host_def elem_net_def add.commute)
qed

lemma toHost_loop_elems:
  assumes "length A = p + c" "c + elems_len es = t" "t < 2 ^ 32"
  shows "toHost_loop (A @ concat (map elem_net es) @ post) p (of_nat t) (of_nat c)
    = Some (A @ concat (map elem_host es) @ post)"
  using assms
proof (induction es arbitrary: A c)
  case Nil
  then show ?case by (subst toHost_loop.simps) simp
next
  case (Cons e es)
  have "toHost_loop ((A @ elem_host e) @ concat (map elem_net es) @ post) p (of_nat t)
          (of_nat (c + (length e + 4))) = Some ((A @ elem_host e) @ concat (map elem_host es) @ post)"
    using Cons.prems by (intro Cons.IH) (simp_all add: elem_host_def)
  then show ?case
    using Cons.prems
    by (subst toHost_loop.simps) (simp add: mem_simps elem_host_def elem_net_def add.commute)
qed

text \<open>Conversion of a whole container, wherever it stands in its block.\<close>

lemma toNetwork_pck:
  assumes "pck_len es < 2 ^ 32" "p = length pre"
  shows "pckDataToNetworkOrder (Some (pre @ pck_host lim es @ post)) p
    = Some (0, Some (pre @ pck_net lim es @ post))"
proof -
  let ?A = "pre @ bytes_of_u32 (htonl (of_nat (pck_len es))) @ bytes_of_u32 (htonl lim)"
  have "toNetwork_loop (?A @ concat (map elem_host es) @ post) p (of_nat (pck_len es)) (of_nat 8)
      = Some (?A @ concat (map elem_net es) @ post)"
    by (rule toNetwork_loop_elems) (use assms in \<open>simp_all add: pck_len_def\<close>)
  then show ?thesis
    using assms(2) load32_mid [of "p + 4" "pre @ bytes_of_u32 (htonl (of_nat (pck_len es)))" lim]
      store32_mid [of "p + 4" "pre @ bytes_of_u32 (htonl (of_nat (pck_len es)))" "bytes_of_u32 lim"]
    by (simp add: pckDataToNetworkOrder_def pck_host_def pck_net_def mem_simps)
qed

lemma toHost_pck:
  assumes "pck_len es < 2 ^ 32" "p = length pre"
  shows "pckDataToHostOrder (Some (pre @ pck_net lim es @ post)) p
    = Some (0, Some (pre @ pck_host lim es @ post))"
proof -
  let ?A = "pre @ bytes_of_u32 (of_nat (pck_len es)) @ bytes_of_u32 lim"
  have "toHost_loop (?A @ concat (map elem_net es) @ post) p (of_nat (pck_len es)) (of_nat 8)
      = Some (?A @ concat (map elem_host es) @ post)"
    by (rule toHost_loop_elems) (use assms in \<open>simp_all add: pck_len_def\<close>)
  then show ?thesis
    using assms(2) load32_mid [of "p + 4" "pre @ bytes_of_u32 (of_nat (pck_len es))" "htonl lim"]
      store32_mid [of "p + 4" "pre @ bytes_of_u32 (of_nat (pck_len es))" "bytes_of_u32 (htonl lim)"]
    by (simp add: pckDataToHostOrder_def pck_host_def pck_net_def mem_simps)
qed

section \<open>Building and indexing\<close>

lemma initPckData_empty:
  "initPckData a = Some (0, Some m) \<Longrightarrow> \<exists>junk. m = pck_host 255 [] @ junk \<and> length m = 255"
proof -
  assume r: "initPckData a = Some (0, Some m)"
  then obtain m0 where m0: "malloc a 255 = Some m0"
    by (auto simp: initPckData_def pckDataIncrements_def split: option.splits)
  note len = malloc_length [OF m0]
  from len have "4 + 4 \<le> length m0" by simp
  then obtain x y z where z: "m0 = x @ y @ z" "length x = 4" "length y = 4"
    by (rule split_at_offset)
  then have "m = bytes_of_u32 8 @ bytes_of_u32 255 @ z"
    using r m0 store32_mid [of 4 "bytes_of_u32 8" y z 255]
    by (simp add: initPckData_def pckDataIncrements_def mem_simps)
  then show ?thesis
    using z len by (intro exI [of _ z]) (simp add: pck_host_def pck_len_def)
qed

text \<open>
  Appending within the limit and the block: the new element is at the end of the list. The
  last two lemmas are the cases without a defined behaviour: the length field of the new
  element is not counted by the limit check, and a container over its limit cannot grow.
\<close>

lemma append_header:
  assumes "pck_len es < 2 ^ 32"
  shows "load32 (pck_host lim es @ post) 0 = Some (of_nat (pck_len es))"
    and "load32 (pck_host lim es @ post) 4 = Some lim"
  by (simp_all add: pck_host_def mem_simps)

lemma appendToPckData_room:
  assumes fits: "pck_len es + 4 + length new + length rest < 2 ^ 32"
    and lim: "pck_len es + length new \<le> unat lim"
    and gap: "length gap = 4 + length new"
  shows "appendToPckData (pck_host lim es @ gap @ rest) new (of_nat (length new))
    = Some (0, pck_host lim (es @ [new]) @ rest)"
proof -
  let ?n = "of_nat (length new) :: u32"
  obtain g1 g2 where g: "gap = g1 @ g2" "length g1 = 4" "length g2 = length new"
    using gap by (intro that [of "take 4 gap" "drop 4 gap"]) simp_all
  have no_grow: "\<not> of_nat (pck_len es) + ?n > lim"
  proof -
    have "unat (of_nat (pck_len es + length new) :: u32) = pck_len es + length new"
      using fits by (intro unat_u32_of_nat) simp
    then show ?thesis using lim by (simp add: word_less_nat_alt)
  qed
  have w1: "store32 (pck_host lim es @ gap @ rest) (pck_len es) ?n
      = Some (pck_host lim es @ bytes_of_u32 ?n @ g2 @ rest)"
    using store32_mid [of "pck_len es" "pck_host lim es" g1 "g2 @ rest" ?n] g by simp
  have w2: "store_bytes (pck_host lim es @ bytes_of_u32 ?n @ g2 @ rest) (pck_len es + 4) new
      = Some (pck_host lim es @ elem_host new @ rest)"
    using store_bytes_mid [of "pck_len es + 4" "pck_host lim es @ bytes_of_u32 ?n" g2 new rest] g
    by (simp add: elem_host_def)
  have w3: "store32 (pck_host lim es @ elem_host new @ rest) 0 (of_nat (pck_len (es @ [new])))
      = Some (bytes_of_u32 (of_nat (pck_len (es @ [new]))) @ bytes_of_u32 lim
              @ concat (map elem_host es) @ elem_host new @ rest)"
    by (simp add: pck_host_def mem_simps)
  have len: "of_nat (pck_len es) + 4 + ?n = of_nat (pck_len (es @ [new]))"
    by (simp add: pck_len_def)
  show ?thesis
    using fits no_grow w1 w2 w3
      store32_mid [of 4 "bytes_of_u32 (of_nat (pck_len (es @ [new])))" "bytes_of_u32 lim"]
    by (simp add: appendToPckData_def append_header len load_bytes_whole)
      (simp add: pck_host_def)
qed

lemma appendToPckData_over_limit:
  assumes "pck_len es + length new < 2 ^ 32" "unat lim < pck_len es + length new"
  shows "appendToPckData (pck_host lim es @ rest) new (of_nat (length new)) = None"
proof -
  have "unat (of_nat (pck_len es + length new) :: u32) = pck_len es + length new"
    using assms(1) by (intro unat_u32_of_nat) simp
  then have "of_nat (pck_len es) + of_nat (length new) > lim"
    using assms(2) by (simp add: word_less_nat_alt)
  moreover have "pck_len es < 2 ^ 32" using assms(1) by simp
  ultimately show ?thesis
    by (simp add: appendToPckData_def append_header)
qed

lemma appendToPckData_past_block:
  assumes fits: "pck_len es + 4 + length new < 2 ^ 32"
    and over: "length rest < 4 + length new"
  shows "appendToPckData (pck_host lim es @ rest) new (of_nat (length new)) = None"
proof -
  let ?n = "of_nat (length new) :: u32"
  have *: "store32 (pck_host lim es @ rest) (pck_len es) ?n = Some m \<Longrightarrow>
      store_bytes m (pck_len es + 4) new = None" for m
    using over by (auto dest!: store32_length simp: store_bytes_def)
  show ?thesis
    using fits by (auto simp: appendToPckData_def append_header load_bytes_whole
        split: Option.bind_split dest: *)
qed

text \<open>
  What indexing finds: the element, unless it is the last one and empty, which the check
  for the end of the container takes for an empty container.
\<close>

definition pck_at :: "byte list list \<Rightarrow> nat \<Rightarrow> byte list option" where
  "pck_at es j = (if j < length es \<and> \<not> (es ! j = [] \<and> Suc j = length es) then Some (es ! j) else None)"

lemma pck_at_Cons:
  "pck_at (e # es) j = (case j of 0 \<Rightarrow> if e = [] \<and> es = [] then None else Some e | Suc j \<Rightarrow> pck_at es j)"
  by (cases j) (auto simp: pck_at_def)

lemma pck_at_Nil [simp]: "pck_at [] j = None"
  by (simp add: pck_at_def)

lemma getElement_loop_elems:
  assumes "es \<noteq> []" "length A = p + c" "c + elems_len es = t" "t < 2 ^ 32" "k + j < 2 ^ 32"
    "k + length es < 2 ^ 32" "\<And>e. pck_at es j = Some e \<Longrightarrow> length e \<le> length output"
  shows "getElement_loop (A @ concat (map elem_host es) @ post) p output (of_nat t)
      (of_nat (k + j)) (of_nat c) (of_nat k)
    = Some (case pck_at es j of None \<Rightarrow> (- 1, output)
            | Some e \<Rightarrow> (of_nat (length e), e @ drop (length e) output))"
  using assms
proof (induction es arbitrary: A c k j)
  case Nil
  then show ?case by simp
next
  case (Cons e es)
  let ?M = "A @ concat (map elem_host (e # es)) @ post"
  let ?run = "getElement_loop ?M p output (of_nat t) (of_nat (k + j)) (of_nat c) (of_nat k)"
  have t: "t = c + (4 + length e + elems_len es)" using Cons.prems(3) by simp
  have c: "c < 2 ^ 32" "c + 4 < 2 ^ 32" "c + 4 + length e < 2 ^ 32"
    using Cons.prems(4) t by auto
  have le: "of_nat (length e) = (of_nat (length e) :: u32)" "length e < 2 ^ 32"
    using c by simp_all
  have ld: "load32 ?M (p + c) = Some (of_nat (length e))"
    using Cons.prems(2) by (simp add: elem_host_def mem_simps)
  have end': "(of_nat t \<le> (of_nat c + 4 :: u32)) = (length e = 0 \<and> es = [])"
  proof -
    have "(of_nat t \<le> (of_nat (c + 4) :: u32)) = (t \<le> c + 4)"
      using Cons.prems(4) c by (intro u32_le_of_nat) auto
    then show ?thesis by (cases es) (auto simp: t)
  qed
  have idx: "(of_nat (k + j) = (of_nat k :: u32)) = (j = 0)"
    using Cons.prems(5) u32_of_nat_eq [of "k + j" k] by (simp del: of_nat_add u32_of_nat_eq)
  show ?case
  proof (cases "e = [] \<and> es = []")
    case True
    then show ?thesis
      by (subst getElement_loop.simps)
        (use ld c end' in \<open>simp add: pck_at_Cons split: nat.split\<close>)
  next
    case False
    note nf = False
    show ?thesis
    proof (cases "j = 0")
      case True
      have "load_bytes ?M (p + c + 4) (length e) = Some e"
        using load_bytes_mid [of "p + c + 4" "A @ bytes_of_u32 (of_nat (length e))" "length e" e]
          Cons.prems(2) by (simp add: elem_host_def)
      moreover have "store_bytes output 0 e = Some (e @ drop (length e) output)"
        using Cons.prems(7) [of e] True nf by (simp add: store_bytes_def pck_at_Cons)
      ultimately show ?thesis
        by (subst getElement_loop.simps)
          (use ld c le end' idx nf True in \<open>simp add: pck_at_Cons\<close>)
    next
      case False
      then obtain j' where j: "j = Suc j'" by (cases j) auto
      have pos: "of_nat c + 4 + of_nat (length e) = (of_nat (c + 4 + length e) :: u32)" by simp
      have over: "(of_nat t \<le> (of_nat (c + 4 + length e) :: u32)) = (es = [])"
        using Cons.prems(4) c u32_le_of_nat [of t "c + 4 + length e"]
        by (cases es) (auto simp: t simp del: of_nat_add u32_le_of_nat)
      have step: "?run = (if es = [] then Some (- 1, output) else
          getElement_loop ?M p output (of_nat t) (of_nat (k + j)) (of_nat (c + 4 + length e))
            (of_nat (Suc k)))"
        by (subst getElement_loop.simps)
          (use ld c le end' idx nf False over pos in \<open>simp add: add.commute del: of_nat_add\<close>)
      show ?thesis
      proof (cases "es = []")
        case True
        then show ?thesis using step j by (simp add: pck_at_Cons)
      next
        case False
        have "getElement_loop ((A @ elem_host e) @ concat (map elem_host es) @ post) p output
            (of_nat t) (of_nat (Suc k + j')) (of_nat (c + 4 + length e)) (of_nat (Suc k))
          = Some (case pck_at es j' of None \<Rightarrow> (- 1, output)
              | Some e \<Rightarrow> (of_nat (length e), e @ drop (length e) output))"
          using False Cons.prems j by (intro Cons.IH) (auto simp: elem_host_def pck_at_Cons)
        then show ?thesis using step False j by (simp add: pck_at_Cons del: of_nat_add of_nat_Suc)
      qed
    qed
  qed
qed

lemma getElement_pck_room:
  assumes "es \<noteq> []" "pck_len es < 2 ^ 32" "j < 2 ^ 32"
    "\<And>e. pck_at es j = Some e \<Longrightarrow> length e \<le> length output" "p = length pre"
  shows "getElementFromPckData (pre @ pck_host lim es @ post) p output (of_nat j)
    = Some (case pck_at es j of None \<Rightarrow> (- 1, output)
            | Some e \<Rightarrow> (of_nat (length e), e @ drop (length e) output))"
proof -
  have "length es \<le> elems_len es" by (induction es) auto
  then have "getElement_loop ((pre @ bytes_of_u32 (of_nat (pck_len es)) @ bytes_of_u32 lim)
        @ concat (map elem_host es) @ post) p output (of_nat (pck_len es)) (of_nat (0 + j)) (of_nat 8) (of_nat 0)
      = Some (case pck_at es j of None \<Rightarrow> (- 1, output)
            | Some e \<Rightarrow> (of_nat (length e), e @ drop (length e) output))"
    using assms by (intro getElement_loop_elems) (auto simp: pck_len_def)
  then show ?thesis
    using assms(5) by (simp add: getElementFromPckData_def pck_host_def mem_simps)
qed

lemma getElement_pck:
  assumes "es \<noteq> []" "pck_len es < 2 ^ 32" "j < 2 ^ 32" "\<forall>e\<in>set es. length e \<le> length output"
    "p = length pre"
  shows "getElementFromPckData (pre @ pck_host lim es @ post) p output (of_nat j)
    = Some (case pck_at es j of None \<Rightarrow> (- 1, output)
            | Some e \<Rightarrow> (of_nat (length e), e @ drop (length e) output))"
  using assms by (intro getElement_pck_room) (auto simp: pck_at_def split: if_splits)

lemma getElement_empty:
  assumes "4 \<le> length post"
  shows "getElementFromPckData (pck_host lim [] @ post) 0 output j = Some (- 1, output)"
proof -
  have "load32 (pck_host lim [] @ post) 8 \<noteq> None"
    using assms by (simp add: load32_def load_bytes_def pck_len_def)
  then show ?thesis
    by (auto simp: getElementFromPckData_def append_header pck_len_def getElement_loop.simps [of _ _ _ _ _ 8])
qed

lemma getElementLength_loop_elems:
  assumes "es \<noteq> []" "length A = p + c" "c + elems_len es = t" "t < 2 ^ 32" "k + j < 2 ^ 32"
    "k + length es < 2 ^ 32"
  shows "getElementLength_loop (A @ concat (map elem_host es) @ post) p (of_nat t)
      (of_nat (k + j)) (of_nat c) (of_nat k)
    = Some (if j < length es then of_nat (length (es ! j)) else - 1)"
  using assms
proof (induction es arbitrary: A c k j)
  case Nil
  then show ?case by simp
next
  case (Cons e es)
  let ?M = "A @ concat (map elem_host (e # es)) @ post"
  let ?run = "getElementLength_loop ?M p (of_nat t) (of_nat (k + j)) (of_nat c) (of_nat k)"
  have t: "t = c + (4 + length e + elems_len es)" using Cons.prems(3) by simp
  have c: "c < 2 ^ 32" "c + 4 + length e < 2 ^ 32" using Cons.prems(4) t by auto
  have ld: "load32 ?M (p + c) = Some (of_nat (length e))"
    using Cons.prems(2) by (simp add: elem_host_def mem_simps)
  have idx: "(of_nat (k + j) = (of_nat k :: u32)) = (j = 0)"
    using Cons.prems(5) u32_of_nat_eq [of "k + j" k] by (simp del: of_nat_add u32_of_nat_eq)
  have pos: "of_nat c + 4 + of_nat (length e) = (of_nat (c + 4 + length e) :: u32)" by simp
  have over: "(of_nat t \<le> (of_nat (c + 4 + length e) :: u32)) = (es = [])"
    using Cons.prems(4) c u32_le_of_nat [of t "c + 4 + length e"]
    by (cases es) (auto simp: t simp del: of_nat_add u32_le_of_nat)
  have step: "?run = (if j = 0 then Some (of_nat (length e)) else if es = [] then Some (- 1) else
      getElementLength_loop ?M p (of_nat t) (of_nat (k + j)) (of_nat (c + 4 + length e))
        (of_nat (Suc k)))"
    by (subst getElementLength_loop.simps)
      (use ld c idx over pos in \<open>simp add: add.commute del: of_nat_add\<close>)
  show ?case
  proof (cases "j = 0 \<or> es = []")
    case True
    then show ?thesis unfolding step by auto
  next
    case False
    then obtain j' where j: "j = Suc j'" by (cases j) auto
    have "getElementLength_loop ((A @ elem_host e) @ concat (map elem_host es) @ post) p
        (of_nat t) (of_nat (Suc k + j')) (of_nat (c + 4 + length e)) (of_nat (Suc k))
      = Some (if j' < length es then of_nat (length (es ! j')) else - 1)"
      using False Cons.prems j by (intro Cons.IH) (auto simp: elem_host_def)
    then show ?thesis unfolding step using False j by (simp del: of_nat_add of_nat_Suc)
  qed
qed

lemma getElementLength_pck:
  assumes "es \<noteq> []" "pck_len es < 2 ^ 32" "j < 2 ^ 32" "p = length pre"
  shows "getElementLengthFromPckData (pre @ pck_host lim es @ post) p (of_nat j)
    = Some (if j < length es then of_nat (length (es ! j)) else - 1)"
proof -
  have "length es \<le> elems_len es" by (induction es) auto
  then have "getElementLength_loop ((pre @ bytes_of_u32 (of_nat (pck_len es)) @ bytes_of_u32 lim)
        @ concat (map elem_host es) @ post) p (of_nat (pck_len es)) (of_nat (0 + j)) (of_nat 8) (of_nat 0)
      = Some (if j < length es then of_nat (length (es ! j)) else - 1)"
    using assms by (intro getElementLength_loop_elems) (auto simp: pck_len_def)
  then show ?thesis
    using assms(4) by (simp add: getElementLengthFromPckData_def pck_host_def mem_simps)
qed

section \<open>Printing\<close>

definition print_elem :: "int \<Rightarrow> byte list \<Rightarrow> (colour \<times> byte) list" where
  "print_elem scheme e =
     (case length_colour scheme of None \<Rightarrow> [] | Some c \<Rightarrow> map (Pair c) (bytes_of_u32 (of_nat (length e))))
     @ (case data_colour scheme of None \<Rightarrow> [] | Some c \<Rightarrow> map (Pair c) e)"

lemma printPck_loop_elems:
  assumes "es \<noteq> []" "length A = p + c" "c + elems_len es = t" "t < 2 ^ 31"
  shows "printPck_loop (A @ concat (map elem_host es) @ post) p scheme (of_nat t) (of_nat c) out
    = Some (out @ concat (map (print_elem scheme) es))"
  using assms
proof (induction es arbitrary: A c out)
  case Nil
  then show ?case by simp
next
  case (Cons e es)
  define M where "M = A @ concat (map elem_host (e # es)) @ post"
  have t: "t = c + (4 + length e + elems_len es)" using Cons.prems(3) by simp
  have c: "c < 2 ^ 32" "length e < 2 ^ 32" "c < 2 ^ 31" using Cons.prems(4) t by auto
  have ld: "load32 M (p + c) = Some (of_nat (length e))"
    "load_bytes M (p + c) 4 = Some (bytes_of_u32 (of_nat (length e)))"
    using Cons.prems(2) by (simp_all add: M_def elem_host_def mem_simps)
  have ld': "load_bytes M (p + c + 4) (length e) = Some e"
    using load_bytes_mid [of "p + c + 4" "A @ bytes_of_u32 (of_nat (length e))" "length e" e]
      Cons.prems(2) by (simp add: M_def elem_host_def)
  have pos: "of_nat c + of_nat (length e) + 4 = (of_nat (c + length e + 4) :: u32)" by simp
  have over: "(of_nat t \<le> (of_nat (c + length e + 4) :: u32)) = (es = [])"
    using Cons.prems(4) t u32_le_of_nat [of t "c + length e + 4"]
    by (cases es) (auto simp: t simp del: of_nat_add u32_le_of_nat)
  have step: "printPck_loop M p scheme (of_nat t) (of_nat c) out =
      (if es = [] then Some (out @ print_elem scheme e)
       else printPck_loop M p scheme (of_nat t) (of_nat (c + length e + 4)) (out @ print_elem scheme e))"
    by (subst printPck_loop.simps)
      (use ld ld' c over pos in \<open>simp add: print_field_def print_elem_def split: option.splits del: of_nat_add\<close>)
  show ?case
  proof (cases "es = []")
    case False
    have "printPck_loop ((A @ elem_host e) @ concat (map elem_host es) @ post) p scheme (of_nat t)
        (of_nat (c + length e + 4)) (out @ print_elem scheme e)
      = Some ((out @ print_elem scheme e) @ concat (map (print_elem scheme) es))"
      using False Cons.prems by (intro Cons.IH) (auto simp: elem_host_def)
    then show ?thesis using False step by (simp add: M_def del: of_nat_add)
  qed (use step in \<open>simp add: M_def\<close>)
qed

lemma printPck_host:
  assumes "es \<noteq> []" "pck_len es < 2 ^ 31" "p = length pre"
  obtains out where "printPck_loop (pre @ pck_host lim es @ post) p scheme (of_nat (pck_len es)) 8 hdr
      = Some (hdr @ out)" "out = concat (map (print_elem scheme) es)"
proof -
  have "printPck_loop ((pre @ bytes_of_u32 (of_nat (pck_len es)) @ bytes_of_u32 lim)
        @ concat (map elem_host es) @ post) p scheme (of_nat (pck_len es)) (of_nat 8) hdr
      = Some (hdr @ concat (map (print_elem scheme) es))"
    using assms by (intro printPck_loop_elems) (auto simp: pck_len_def)
  then show thesis using that by (simp add: pck_host_def)
qed

lemma print_field_header:
  assumes "p = length pre"
  shows "\<exists>x. print_field (pre @ pck_host lim es @ post) c p 4 = Some x"
    "\<exists>x. print_field (pre @ pck_host lim es @ post) c (p + 4) 4 = Some x"
  using assms by (auto simp: print_field_def load_bytes_def pck_len_def split: option.split)

text \<open>
  Printing a serialised container gives it back serialised when it has an element; when it
  is empty the early return leaves it in host order.
\<close>

lemma printPckData_serialised:
  assumes "pck_len es < 2 ^ 31" "p = length pre"
  shows "\<exists>out. printPckData (pre @ pck_net lim es @ post) p True scheme
    = Some (out, pre @ (if es = [] then pck_host lim es else pck_net lim es) @ post)"
proof -
  have lt: "pck_len es < 2 ^ 32" using assms(1) by simp
  have ld: "load32 (pre @ pck_host lim es @ post) p = Some (of_nat (pck_len es))"
    using assms(2) by (simp add: pck_host_def mem_simps)
  have empty: "((of_nat (pck_len es) :: u32) \<le> 8) = (es = [])"
    using u32_le_of_nat [of "pck_len es" 8] lt by (cases es) (auto simp: pck_len_def simp del: u32_le_of_nat)
  show ?thesis
  proof (cases "es = []")
    case True
    then show ?thesis
      using toHost_pck [OF lt assms(2), of lim post] ld empty by (simp add: printPckData_def)
  next
    case False
    obtain x y where xy: "print_field (pre @ pck_host lim es @ post) (length_colour scheme) p 4 = Some x"
      "print_field (pre @ pck_host lim es @ post) (data_colour scheme) (p + 4) 4 = Some y"
      using print_field_header [OF assms(2)] by metis
    obtain out where
      "printPck_loop (pre @ pck_host lim es @ post) p scheme (of_nat (pck_len es)) 8 (x @ y) = Some (x @ y @ out)"
      by (rule printPck_host [OF False assms(1,2), of lim post scheme "x @ y"]) simp
    then show ?thesis
      using toHost_pck [OF lt assms(2), of lim post] toNetwork_pck [OF lt assms(2), of lim post]
        ld empty False xy by (simp add: printPckData_def)
  qed
qed

section \<open>The contract of a container\<close>

text \<open>
  What the message composers and readers rely on: a sequence of appends, whose results
  the callers do not look at, and the index of an element of the result.
\<close>

fun append_all :: "('s \<Rightarrow> 'e \<Rightarrow> (int \<times> 's) option) \<Rightarrow> 's \<Rightarrow> 'e list \<Rightarrow> 's option" where
  "append_all app s [] = Some s"
| "append_all app s (e # es) = do { (_, s) \<leftarrow> app s e; append_all app s es }"

locale container =
  fixes holds :: "'s \<Rightarrow> 'e list \<Rightarrow> bool"
    and admits :: "'e list \<Rightarrow> 'e \<Rightarrow> bool"
    and seen :: "'e list \<Rightarrow> nat \<Rightarrow> bool"
    and app :: "'s \<Rightarrow> 'e \<Rightarrow> (int \<times> 's) option"
    and index :: "'s \<Rightarrow> u32 \<Rightarrow> 'e option option"
  assumes append_holds: "holds s es \<Longrightarrow> admits es e \<Longrightarrow> \<exists>s'. app s e = Some (0, s') \<and> holds s' (es @ [e])"
    and index_holds: "holds s es \<Longrightarrow>
          index s j = Some (if unat j < length es \<and> seen es (unat j) then Some (es ! unat j) else None)"
begin

lemma append_all_holds:
  assumes "holds s es" "\<And>k. k < length new \<Longrightarrow> admits (es @ take k new) (new ! k)"
  shows "\<exists>s'. append_all app s new = Some s' \<and> holds s' (es @ new)"
  using assms
proof (induction new arbitrary: s es)
  case (Cons e new)
  have "admits es e" using Cons.prems(2) [of 0] by simp
  then obtain s1 where s1: "app s e = Some (0, s1)" "holds s1 (es @ [e])"
    using append_holds [OF Cons.prems(1)] by blast
  have "admits ((es @ [e]) @ take k new) (new ! k)" if "k < length new" for k
    using Cons.prems(2) [of "Suc k"] that by simp
  then show ?case using Cons.IH [OF s1(2)] s1(1) by simp
qed simp

lemma build_then_index:
  assumes "holds s []" "\<And>k. k < length new \<Longrightarrow> admits (take k new) (new ! k)"
  shows "\<exists>s'. append_all app s new = Some s' \<and> holds s' new
    \<and> index s' j = Some (if unat j < length new \<and> seen new (unat j) then Some (new ! unat j) else None)"
  using append_all_holds [OF assms(1), of new] assms(2) index_holds by fastforce

end

text \<open>The contract holds of a block made by \<open>initPckData\<close>.\<close>

definition pck_holds :: "byte list \<Rightarrow> byte list list \<Rightarrow> bool" where
  "pck_holds m es \<longleftrightarrow> length m = pckDataIncrements \<and> (\<exists>rest. m = pck_host 255 es @ rest)"

definition pck_admits :: "byte list list \<Rightarrow> byte list \<Rightarrow> bool" where
  "pck_admits es e \<longleftrightarrow> pck_len es + 4 + length e \<le> pckDataIncrements"

definition pck_append :: "byte list \<Rightarrow> byte list \<Rightarrow> (int \<times> byte list) option" where
  "pck_append m e = appendToPckData m e (of_nat (length e))"

text \<open>Reading an element into a buffer as large as the container; \<open>-1\<close> is no element.\<close>

definition pck_index :: "byte list \<Rightarrow> u32 \<Rightarrow> byte list option option" where
  "pck_index m j = do {
     (n, out) \<leftarrow> getElementFromPckData m 0 (replicate pckDataIncrements 0) j;
     Some (if n = - 1 then None else Some (take (unat n) out))
   }"

lemma pck_append_holds:
  assumes "pck_holds m es" "pck_admits es e"
  shows "\<exists>m'. pck_append m e = Some (0, m') \<and> pck_holds m' (es @ [e])"
proof -
  from assms(1) obtain rest where rest: "m = pck_host 255 es @ rest" "length m = 255"
    by (auto simp: pck_holds_def pckDataIncrements_def)
  let ?gap = "take (4 + length e) rest" and ?rest = "drop (4 + length e) rest"
  have len: "pck_len es + length rest = 255" using rest by simp
  have bound: "pck_len es + 4 + length e \<le> 255"
    using assms(2) by (simp add: pck_admits_def pckDataIncrements_def)
  have "appendToPckData (pck_host 255 es @ ?gap @ ?rest) e (of_nat (length e))
      = Some (0, pck_host 255 (es @ [e]) @ ?rest)"
    using bound len by (intro appendToPckData_room) auto
  then have "pck_append m e = Some (0, pck_host 255 (es @ [e]) @ ?rest)"
    by (simp add: pck_append_def rest(1))
  moreover have "pck_holds (pck_host 255 (es @ [e]) @ ?rest) (es @ [e])"
    using bound len by (simp add: pck_holds_def pckDataIncrements_def pck_len_def)
  ultimately show ?thesis by blast
qed

lemma pck_index_holds:
  assumes "pck_holds m es" "es \<noteq> []"
  shows "pck_index m j = Some (pck_at es (unat j))"
proof -
  from assms(1) obtain rest where rest: "m = pck_host 255 es @ rest" "length m = 255"
    by (auto simp: pck_holds_def pckDataIncrements_def)
  have small: "length e \<le> 255" if "e \<in> set es" for e
  proof -
    have "4 + length e \<le> elems_len es"
      unfolding elems_len_def using that by (rule sum_list_pos_member)
    then show ?thesis using rest by (simp add: pck_len_def)
  qed
  have lt: "pck_len es < 2 ^ 32" "unat j < 2 ^ 32"
    using rest unsigned_less [of j, where 'a = nat] by simp_all
  have "getElementFromPckData ([] @ pck_host 255 es @ rest) 0 (replicate 255 0) (of_nat (unat j))
      = Some (case pck_at es (unat j) of None \<Rightarrow> (- 1, replicate 255 0)
            | Some e \<Rightarrow> (of_nat (length e), e @ drop (length e) (replicate 255 0)))"
    using small lt by (intro getElement_pck [OF assms(2)]) auto
  moreover have "(of_nat (length e) :: u32) \<noteq> - 1 \<and> length e < 2 ^ 32" if "pck_at es (unat j) = Some e" for e
  proof -
    have le: "length e \<le> 255" using that small by (auto simp: pck_at_def split: if_splits)
    then have n: "unat (of_nat (length e) :: u32) = length e" by (intro unat_u32_of_nat) simp
    have top: "unat (- 1 :: u32) = 4294967295"
      by (simp add: unsigned_minus_1_eq_mask mask_eq_exp_minus_1)
    have "of_nat (length e) \<noteq> (- 1 :: u32)"
    proof
      assume "of_nat (length e) = (- 1 :: u32)"
      then have "length e = 4294967295" using n top by simp
      then show False using le by simp
    qed
    then show ?thesis using le by simp
  qed
  ultimately show ?thesis
    by (auto simp: pck_index_def rest(1) pckDataIncrements_def split: option.splits)
qed

lemma pck_index_empty: "pck_holds m [] \<Longrightarrow> pck_index m j = Some None"
  using getElement_empty [of _ 255 "replicate 255 0" j]
  by (auto simp: pck_holds_def pck_index_def pckDataIncrements_def pck_len_def)

text \<open>Every element but an empty last one is seen.\<close>

interpretation pck: container pck_holds pck_admits "\<lambda>es j. es ! j \<noteq> [] \<or> Suc j < length es" pck_append pck_index
proof unfold_locales
  show "\<exists>m'. pck_append m e = Some (0, m') \<and> pck_holds m' (es @ [e])"
    if "pck_holds m es" "pck_admits es e" for m es e using that by (rule pck_append_holds)
  show "pck_index m j = Some (if unat j < length es \<and> (es ! unat j \<noteq> [] \<or> Suc (unat j) < length es)
      then Some (es ! unat j) else None)" if "pck_holds m es" for m es j
    using pck_index_holds [OF that, of j] pck_index_empty [of m j] that
    by (cases "es = []") (auto simp: pck_at_def)
qed

section \<open>Properties\<close>

text \<open>
  C15. A container built by appending any list of elements, empty ones included, that fits its block
  holds that list; indexing gives back every element except a last one that is empty, and reports no
  element for that one and for every index past the end.
\<close>

theorem build_then_read:
  assumes "pck_holds m []" "\<And>k. k < length new \<Longrightarrow> pck_admits (take k new) (new ! k)"
  shows "\<exists>m'. append_all pck_append m new = Some m' \<and> pck_holds m' new
    \<and> pck_index m' j = Some (if unat j < length new \<and> (new ! unat j \<noteq> [] \<or> Suc (unat j) < length new)
        then Some (new ! unat j) else None)"
  using assms by (rule pck.build_then_index)

definition empty_pck :: "byte list" where
  "empty_pck = pck_host 255 [] @ replicate 247 0"

lemma empty_pck_holds: "pck_holds empty_pck []"
  by (auto simp: pck_holds_def empty_pck_def pckDataIncrements_def pck_len_def)

text \<open>An empty element in the middle is read, an empty one at the end is not.\<close>

theorem build_then_read_witness:
  "\<exists>m'. append_all pck_append empty_pck [[7], [], [8, 9], []] = Some m' \<and> pck_holds m' [[7], [], [8, 9], []]
    \<and> map (pck_index m') [0, 1, 2, 3, 4] = [Some (Some [7]), Some (Some []), Some (Some [8, 9]), Some None, Some None]"
proof -
  let ?new = "[[7], [], [8, 9], []] :: byte list list"
  have "pck_admits (take k ?new) (?new ! k)" if "k < length ?new" for k
    using that by (auto simp: pck_admits_def pckDataIncrements_def pck_len_def less_Suc_eq)
  note read = build_then_read [OF empty_pck_holds this]
  obtain m' where m': "append_all pck_append empty_pck ?new = Some m'" "pck_holds m' ?new" using read by blast
  have "pck_index m' j = Some (if unat j < length ?new \<and> (?new ! unat j \<noteq> [] \<or> Suc (unat j) < length ?new)
      then Some (?new ! unat j) else None)" for j using read [of j] m'(1) by simp
  then show ?thesis using m' by (intro exI [of _ m']) simp
qed

text \<open>
  Converting a container to network order, wherever it stands in its block, reverses
  the bytes of every length field and nothing else, and converting back restores it.
\<close>

lemma byte_order_roundtrip:
  assumes "pck_len es < 2 ^ 32"
  shows "do { (_, m) \<leftarrow> pckDataToNetworkOrder (Some (pre @ pck_host lim es @ post)) (length pre);
              pckDataToHostOrder m (length pre) }
      = Some (0, Some (pre @ pck_host lim es @ post))
    \<and> pckDataToNetworkOrder (Some (pre @ pck_host lim es @ post)) (length pre)
      = Some (0, Some (pre @ pck_net lim es @ post))"
  using assms by (simp add: toNetwork_pck toHost_pck)

text \<open>
  Indexing a container in host order inside any block returns the length and the bytes
  of the element, and \<open>-1\<close> with an untouched buffer for an index past the end and for a
  last element that is empty.
\<close>

lemma getElement_correct:
  assumes "es \<noteq> []" "pck_len es < 2 ^ 32" "j < 2 ^ 32" "\<forall>e\<in>set es. length e \<le> length output"
  shows "getElementFromPckData (pre @ pck_host lim es @ post) (length pre) output (of_nat j)
    = Some (case pck_at es j of None \<Rightarrow> (- 1, output)
            | Some e \<Rightarrow> (of_nat (length e), e @ drop (length e) output))"
  using getElement_pck [OF assms refl] .

text \<open>
  The length of an element, an empty one included, and \<open>-1\<close> past the end.
\<close>

lemma getElementLength_correct:
  assumes "es \<noteq> []" "pck_len es < 2 ^ 32" "j < 2 ^ 32"
  shows "getElementLengthFromPckData (pre @ pck_host lim es @ post) (length pre) (of_nat j)
    = Some (if j < length es then of_nat (length (es ! j)) else - 1)"
  using getElementLength_pck [OF assms refl] .

text \<open>
  The limit check of an append leaves the 4-byte length field of the new element out:
  within four bytes of the end of the block the append passes the check and writes past
  the block; over the limit it reallocates a pointer that is not a block. Neither has a
  defined behaviour.
\<close>

lemma append_at_limit_undefined:
  assumes "pck_len es + 4 + length new < 2 ^ 32" "length rest < 4 + length new"
  shows "appendToPckData (pck_host lim es @ rest) new (of_nat (length new)) = None"
  using assms by (rule appendToPckData_past_block)

text \<open>
  Printing a serialised container leaves it serialised when it has an element, and in
  host order when it is empty.
\<close>

lemma printPckData_byte_order:
  assumes "pck_len es < 2 ^ 31"
  shows "\<exists>out. printPckData (pre @ pck_net lim es @ post) (length pre) True scheme
    = Some (out, pre @ (if es = [] then pck_host lim es else pck_net lim es) @ post)"
  using printPckData_serialised [OF assms refl] .

end
