(* ===== verification/Gcm.thy ===== *)
theory Gcm
  imports C_Prelude
begin

text \<open>
  AES-GCM as the program uses it: the mode of \<open>misc/mbedtls/library/gcm.c\<close> and its wrapper
  \<open>misc/AES-GCM/aes-gcm.c\<close>. The block cipher below it (\<open>mbedtls_cipher_update\<close> after
  \<open>mbedtls_cipher_setkey\<close>) is an argument: a function from a block to a block or to an
  error code; \<open>Aes\<close> gives the library's own. The carry-less multiplication instruction the library uses when the
  processor has it is a parameter too; without it the table method of the file runs.
  The parameter-validation macros are empty in the library's configuration.
\<close>

section \<open>Bytes, words and blocks\<close>

definition get_uint32_be :: "byte list \<Rightarrow> nat \<Rightarrow> u32" where
  "get_uint32_be b i = push_bit 24 (ucast (b ! i)) OR push_bit 16 (ucast (b ! (i + 1)))
     OR push_bit 8 (ucast (b ! (i + 2))) OR ucast (b ! (i + 3))"

definition put_uint32_be :: "u32 \<Rightarrow> byte list" where
  "put_uint32_be n = [ucast (drop_bit 24 n), ucast (drop_bit 16 n), ucast (drop_bit 8 n), ucast n]"

definition get_uint64_be :: "byte list \<Rightarrow> nat \<Rightarrow> u64" where
  "get_uint64_be b i = push_bit 32 (ucast (get_uint32_be b i)) OR ucast (get_uint32_be b (i + 4))"

definition put_uint64_be :: "u64 \<Rightarrow> byte list" where
  "put_uint64_be n = put_uint32_be (ucast (drop_bit 32 n)) @ put_uint32_be (ucast n)"

text \<open>\<open>for (i = 0; i < len; i++) y[i] ^= p[i]\<close>, \<open>p\<close> no longer than \<open>y\<close>.\<close>

fun xor_into :: "byte list \<Rightarrow> byte list \<Rightarrow> byte list" where
  "xor_into (a # y) (b # p) = (a XOR b) # xor_into y p"
| "xor_into y [] = y"
| "xor_into [] (b # p) = []"

section \<open>The context\<close>

type_synonym cipher_fun = "byte list \<Rightarrow> int + byte list"

record gcm_context =
  cipher_ctx :: cipher_fun
  clmul :: "(byte list \<Rightarrow> byte list \<Rightarrow> byte list) option"
  HL :: "u64 list"
  HH :: "u64 list"
  gcm_len :: u64
  gcm_add_len :: u64
  base_ectr :: "byte list"
  gcm_y :: "byte list"
  gcm_buf :: "byte list"
  gcm_mode :: int

definition MBEDTLS_GCM_ENCRYPT :: int where "MBEDTLS_GCM_ENCRYPT = 1"
definition MBEDTLS_GCM_DECRYPT :: int where "MBEDTLS_GCM_DECRYPT = 0"
definition MBEDTLS_ERR_GCM_AUTH_FAILED :: int where "MBEDTLS_ERR_GCM_AUTH_FAILED = - 18"
definition MBEDTLS_ERR_GCM_BAD_INPUT :: int where "MBEDTLS_ERR_GCM_BAD_INPUT = - 20"

lemmas gcm_consts = MBEDTLS_GCM_ENCRYPT_def MBEDTLS_GCM_DECRYPT_def
  MBEDTLS_ERR_GCM_AUTH_FAILED_def MBEDTLS_ERR_GCM_BAD_INPUT_def

definition mbedtls_gcm_init :: "(byte list \<Rightarrow> byte list \<Rightarrow> byte list) option \<Rightarrow> gcm_context" where
  "mbedtls_gcm_init cpu =
     \<lparr>cipher_ctx = (\<lambda>_. Inl MBEDTLS_ERR_GCM_BAD_INPUT), clmul = cpu,
      HL = replicate 16 0, HH = replicate 16 0, gcm_len = 0, gcm_add_len = 0,
      base_ectr = replicate 16 0, gcm_y = replicate 16 0, gcm_buf = replicate 16 0, gcm_mode = 0\<rparr>"

section \<open>Multiplication by H\<close>

text \<open>One step of the first table loop: the element times P.\<close>

definition times_P :: "u64 \<times> u64 \<Rightarrow> u64 \<times> u64" where
  "times_P v = (let (vh, vl) = v; T = (ucast ((vl AND 1) * 0xe1000000) :: u32) in
     (drop_bit 1 vh XOR push_bit 32 (ucast T), push_bit 63 vh OR drop_bit 1 vl))"

definition halve_rows :: "u64 \<times> u64 \<Rightarrow> u64 list \<Rightarrow> u64 list \<Rightarrow> u64 list \<times> u64 list" where
  "halve_rows v hh hl =
     snd (fold (\<lambda>i (v, hh, hl). let (vh, vl) = times_P v in ((vh, vl), hh[i := vh], hl[i := vl]))
       [4, 2, 1] (v, hh, hl))"

definition combine_rows :: "u64 list \<Rightarrow> u64 list" where
  "combine_rows h =
     fold (\<lambda>i h. fold (\<lambda>j h'. h'[i + j := h ! i XOR h' ! j]) [1..<i] h) [2, 4, 8] h"

definition gcm_gen_table :: "gcm_context \<Rightarrow> int \<times> gcm_context" where
  "gcm_gen_table ctx =
     (case cipher_ctx ctx (replicate 16 0) of
        Inl ret \<Rightarrow> (ret, ctx)
      | Inr h \<Rightarrow>
          let vh = get_uint64_be h 0; vl = get_uint64_be h 8;
              ctx = ctx\<lparr>HL := (HL ctx)[8 := vl], HH := (HH ctx)[8 := vh]\<rparr>
          in if clmul ctx \<noteq> None then (0, ctx)
             else let (hh, hl) = halve_rows (vh, vl) ((HH ctx)[0 := 0]) ((HL ctx)[0 := 0])
                  in (0, ctx\<lparr>HH := combine_rows hh, HL := combine_rows hl\<rparr>))"

definition last4 :: "u64 list" where
  "last4 = [0x0000, 0x1c20, 0x3840, 0x2460, 0x7080, 0x6ca0, 0x48c0, 0x54e0,
            0xe100, 0xfd20, 0xd940, 0xc560, 0x9180, 0x8da0, 0xa9c0, 0xb5e0]"

definition shift_row :: "gcm_context \<Rightarrow> byte \<Rightarrow> u64 \<times> u64 \<Rightarrow> u64 \<times> u64" where
  "shift_row ctx n z =
     (let (zh, zl) = z; rem = ucast zl AND (0xf :: byte);
          zl = push_bit 60 zh OR drop_bit 4 zl;
          zh = drop_bit 4 zh;
          zh = zh XOR push_bit 48 (last4 ! unat rem)
      in (zh XOR HH ctx ! unat n, zl XOR HL ctx ! unat n))"

fun mult_loop :: "gcm_context \<Rightarrow> byte list \<Rightarrow> nat \<Rightarrow> u64 \<times> u64 \<Rightarrow> u64 \<times> u64" where
  "mult_loop ctx x i z =
     (let lo = x ! i AND 0xf; hi = drop_bit 4 (x ! i) AND 0xf;
          z = (if i \<noteq> 15 then shift_row ctx lo z else z);
          z = shift_row ctx hi z
      in case i of 0 \<Rightarrow> z | Suc i' \<Rightarrow> mult_loop ctx x i' z)"

declare mult_loop.simps [simp del]

definition gcm_mult :: "gcm_context \<Rightarrow> byte list \<Rightarrow> byte list" where
  "gcm_mult ctx x =
     (case clmul ctx of
        Some aesni_gcm_mult \<Rightarrow>
          aesni_gcm_mult x (put_uint64_be (HH ctx ! 8) @ put_uint64_be (HL ctx ! 8))
      | None \<Rightarrow>
          let lo = x ! 15 AND 0xf; (zh, zl) = mult_loop ctx x 15 (HH ctx ! unat lo, HL ctx ! unat lo)
          in put_uint64_be zh @ put_uint64_be zl)"

section \<open>Setting the key\<close>

text \<open>What the cipher layer answers: the block size of the cipher, setup and key schedule.\<close>

record cipher_layer =
  info_block_size :: "int \<Rightarrow> nat \<Rightarrow> nat option"
  cipher_setup :: int
  cipher_setkey :: "byte list \<Rightarrow> nat \<Rightarrow> int + cipher_fun"

definition mbedtls_gcm_setkey ::
    "cipher_layer \<Rightarrow> gcm_context \<Rightarrow> int \<Rightarrow> byte list \<Rightarrow> nat \<Rightarrow> int \<times> gcm_context" where
  "mbedtls_gcm_setkey lib ctx cipher key keybits =
     (case info_block_size lib cipher keybits of
        None \<Rightarrow> (MBEDTLS_ERR_GCM_BAD_INPUT, ctx)
      | Some bs \<Rightarrow>
          if bs \<noteq> 16 then (MBEDTLS_ERR_GCM_BAD_INPUT, ctx)
          else if cipher_setup lib \<noteq> 0 then (cipher_setup lib, ctx)
          else case cipher_setkey lib key keybits of
            Inl ret \<Rightarrow> (ret, ctx)
          | Inr enc \<Rightarrow> gcm_gen_table (ctx\<lparr>cipher_ctx := enc\<rparr>))"

definition MBEDTLS_CIPHER_ID_AES :: int where "MBEDTLS_CIPHER_ID_AES = 2"

definition initGCM :: "(byte list \<Rightarrow> byte list \<Rightarrow> byte list) option \<Rightarrow> cipher_layer \<Rightarrow> byte list \<Rightarrow> nat
    \<Rightarrow> int \<times> gcm_context" where
  "initGCM cpu lib gcmKey keybits =
     (let (r, ctx) = mbedtls_gcm_setkey lib (mbedtls_gcm_init cpu) MBEDTLS_CIPHER_ID_AES gcmKey keybits
      in (if r \<noteq> 0 then 1 else 0, ctx))"

section \<open>Starting, updating, finishing\<close>

text \<open>Absorbing data into the hash state, 16 bytes at a time.\<close>

function absorb :: "gcm_context \<Rightarrow> byte list \<Rightarrow> byte list \<Rightarrow> byte list" where
  "absorb ctx buf p =
     (if p = [] then buf
      else absorb ctx (gcm_mult ctx (xor_into buf (take 16 p))) (drop 16 p))"
  by pat_completeness auto
termination by (relation "measure (\<lambda>(ctx, buf, p). length p)") auto

declare absorb.simps [simp del]

definition mbedtls_gcm_starts ::
    "gcm_context \<Rightarrow> int \<Rightarrow> byte list \<Rightarrow> byte list \<Rightarrow> int \<times> gcm_context" where
  "mbedtls_gcm_starts ctx mode iv add =
     (if length iv = 0 \<or> drop_bit 61 (of_nat (length iv) :: u64) \<noteq> 0
         \<or> drop_bit 61 (of_nat (length add) :: u64) \<noteq> 0
      then (MBEDTLS_ERR_GCM_BAD_INPUT, ctx)
      else
        let ctx = ctx\<lparr>gcm_y := replicate 16 0, gcm_buf := replicate 16 0, gcm_mode := mode,
                      gcm_len := 0, gcm_add_len := 0\<rparr>;
            y = (if length iv = 12 then (iv @ [0, 0, 0, 0])[15 := 1]
                 else let work_buf = replicate 12 0 @ put_uint32_be (of_nat (length iv * 8))
                      in gcm_mult ctx (xor_into (absorb ctx (gcm_y ctx) iv) work_buf));
            ctx = ctx\<lparr>gcm_y := y\<rparr>
        in case cipher_ctx ctx (gcm_y ctx) of
             Inl ret \<Rightarrow> (ret, ctx)
           | Inr e \<Rightarrow>
               (0, ctx\<lparr>base_ectr := e, gcm_add_len := of_nat (length add),
                       gcm_buf := absorb ctx (gcm_buf ctx) add\<rparr>))"

text \<open>\<open>for (i = 16; i > 12; i--) if (++y[i - 1] != 0) break;\<close>\<close>

fun inc_counter :: "byte list \<Rightarrow> nat \<Rightarrow> byte list" where
  "inc_counter y i =
     (if i > 12 then
        let y = y[i - 1 := y ! (i - 1) + 1] in if y ! (i - 1) \<noteq> 0 then y else inc_counter y (i - 1)
      else y)"

declare inc_counter.simps [simp del]

text \<open>
  The loop of \<open>mbedtls_gcm_update\<close>: one block, then all of them; the third result of the
  loop is the output written.
\<close>

definition update_block :: "gcm_context \<Rightarrow> byte list \<Rightarrow> gcm_context \<times> (int + byte list)" where
  "update_block ctx p =
     (let ctx = ctx\<lparr>gcm_y := inc_counter (gcm_y ctx) 16\<rparr> in
      case cipher_ctx ctx (gcm_y ctx) of
        Inl ret \<Rightarrow> (ctx, Inl ret)
      | Inr ectr \<Rightarrow>
          let buf = (if gcm_mode ctx = MBEDTLS_GCM_DECRYPT then xor_into (gcm_buf ctx) p
                     else gcm_buf ctx);
              out = map2 (XOR) ectr p;
              buf = (if gcm_mode ctx = MBEDTLS_GCM_ENCRYPT then xor_into buf out else buf)
          in (ctx\<lparr>gcm_buf := gcm_mult ctx buf\<rparr>, Inr out))"

function update_loop :: "gcm_context \<Rightarrow> byte list \<Rightarrow> int \<times> gcm_context \<times> byte list" where
  "update_loop ctx p =
     (if p = [] then (0, ctx, [])
      else case update_block ctx (take 16 p) of
        (ctx, Inl ret) \<Rightarrow> (ret, ctx, [])
      | (ctx, Inr out) \<Rightarrow>
          let (ret, ctx, rest) = update_loop ctx (drop 16 p) in (ret, ctx, out @ rest))"
  by pat_completeness auto
termination by (relation "measure (\<lambda>(ctx, p). length p)") auto

declare update_loop.simps [simp del]

text \<open>\<open>shift\<close> is \<open>output - input\<close>, 0 for an operation in place.\<close>

definition mbedtls_gcm_update ::
    "gcm_context \<Rightarrow> byte list \<Rightarrow> int \<Rightarrow> int \<times> gcm_context \<times> byte list" where
  "mbedtls_gcm_update ctx input shift =
     (let n = of_nat (length input) in
      if shift > 0 \<and> shift < int (length input) then (MBEDTLS_ERR_GCM_BAD_INPUT, ctx, [])
      else if gcm_len ctx + n < gcm_len ctx \<or> gcm_len ctx + n > 0xFFFFFFFE0
      then (MBEDTLS_ERR_GCM_BAD_INPUT, ctx, [])
      else update_loop (ctx\<lparr>gcm_len := gcm_len ctx + n\<rparr>) input)"

definition mbedtls_gcm_finish :: "gcm_context \<Rightarrow> nat \<Rightarrow> int \<times> gcm_context \<times> byte list" where
  "mbedtls_gcm_finish ctx tag_len =
     (let orig_len = gcm_len ctx * 8; orig_add_len = gcm_add_len ctx * 8 in
      if tag_len > 16 \<or> tag_len < 4 then (MBEDTLS_ERR_GCM_BAD_INPUT, ctx, [])
      else
        let tag = take tag_len (base_ectr ctx) in
        if orig_len \<noteq> 0 \<or> orig_add_len \<noteq> 0 then
          let work_buf = put_uint64_be orig_add_len @ put_uint64_be orig_len;
              ctx = ctx\<lparr>gcm_buf := gcm_mult ctx (xor_into (gcm_buf ctx) work_buf)\<rparr>
          in (0, ctx, xor_into tag (take tag_len (gcm_buf ctx)))
        else (0, ctx, tag))"

text \<open>The results are the code, the context, the output and the tag.\<close>

definition mbedtls_gcm_crypt_and_tag ::
    "gcm_context \<Rightarrow> int \<Rightarrow> byte list \<Rightarrow> byte list \<Rightarrow> byte list \<Rightarrow> int \<Rightarrow> nat
     \<Rightarrow> int \<times> gcm_context \<times> byte list \<times> byte list" where
  "mbedtls_gcm_crypt_and_tag ctx mode iv add input shift tag_len =
     (let (ret, ctx) = mbedtls_gcm_starts ctx mode iv add in
      if ret \<noteq> 0 then (ret, ctx, [], [])
      else let (ret, ctx, output) = mbedtls_gcm_update ctx input shift in
      if ret \<noteq> 0 then (ret, ctx, output, [])
      else let (ret, ctx, tag) = mbedtls_gcm_finish ctx tag_len in (ret, ctx, output, tag))"

definition mbedtls_gcm_auth_decrypt ::
    "gcm_context \<Rightarrow> byte list \<Rightarrow> byte list \<Rightarrow> byte list \<Rightarrow> byte list \<Rightarrow> int
     \<Rightarrow> int \<times> gcm_context \<times> byte list" where
  "mbedtls_gcm_auth_decrypt ctx iv add tag input shift =
     (let (ret, ctx, output, check_tag) =
        mbedtls_gcm_crypt_and_tag ctx MBEDTLS_GCM_DECRYPT iv add input shift (length tag) in
      if ret \<noteq> 0 then (ret, ctx, output)
      else let diff = foldr (OR) (map2 (XOR) tag check_tag) 0 in
      if diff \<noteq> 0 then (MBEDTLS_ERR_GCM_AUTH_FAILED, ctx, replicate (length input) 0)
      else (0, ctx, output))"

section \<open>The wrapper\<close>

definition encryptGcm :: "gcm_context \<Rightarrow> byte list \<Rightarrow> byte list \<Rightarrow> byte list \<Rightarrow> nat \<Rightarrow> int
    \<Rightarrow> int \<times> gcm_context \<times> byte list \<times> byte list" where
  "encryptGcm gcmCtx msg iv add tagLen shift =
     (let (result, ctx, out, tag) =
        mbedtls_gcm_crypt_and_tag gcmCtx MBEDTLS_GCM_ENCRYPT iv add msg shift tagLen in
      (if result \<noteq> 0 then if result = MBEDTLS_ERR_GCM_BAD_INPUT then 1 else 2 else 0, ctx, out, tag))"

definition decryptGcm :: "gcm_context \<Rightarrow> byte list \<Rightarrow> byte list \<Rightarrow> byte list \<Rightarrow> byte list \<Rightarrow> int
    \<Rightarrow> int \<times> gcm_context \<times> byte list" where
  "decryptGcm gcmCtx msg iv add tag shift =
     (let (result, ctx, out) = mbedtls_gcm_auth_decrypt gcmCtx iv add tag msg shift in
      (if result \<noteq> 0 then if result = MBEDTLS_ERR_GCM_AUTH_FAILED then 1
         else if result = MBEDTLS_ERR_GCM_BAD_INPUT then 2 else 3 else 0, ctx, out))"

definition mbedtls_gcm_free :: "gcm_context option \<Rightarrow> gcm_context option" where
  "mbedtls_gcm_free ctx = map_option (\<lambda>c. mbedtls_gcm_init (clmul c)) ctx"

section \<open>Decryption undoes encryption\<close>

text \<open>
  A cipher of 16-byte blocks that does not fail, which is what the cipher layer documents
  for AES once a key is set.
\<close>

definition block_cipher :: "cipher_fun \<Rightarrow> bool" where
  "block_cipher c \<longleftrightarrow> (\<forall>x. \<exists>y. c x = Inr y \<and> length y = 16)"

lemma block_cipherE:
  assumes "block_cipher c"
  obtains y where "c x = Inr y" "length y = 16"
  using assms by (auto simp: block_cipher_def)

lemma length_xor_into [simp]: "length (xor_into y p) = length y"
  by (induction y p rule: xor_into.induct) auto

lemma xor_into_nth:
  "i < length y \<Longrightarrow> xor_into y p ! i = (if i < length p then y ! i XOR p ! i else y ! i)"
  by (induction y p arbitrary: i rule: xor_into.induct) (auto simp: nth_Cons split: nat.splits)

lemma map2_xor_cancel:
  "length b \<le> length a \<Longrightarrow> map2 (XOR) a (map2 (XOR) a b) = (b :: byte list)"
  by (intro nth_equalityI) (auto simp: bit_eq_iff bit_simps)

text \<open>Two contexts with the same key, counter and hash state.\<close>

definition same_stream :: "gcm_context \<Rightarrow> gcm_context \<Rightarrow> bool" where
  "same_stream c d \<longleftrightarrow> cipher_ctx c = cipher_ctx d \<and> clmul c = clmul d \<and> HL c = HL d \<and> HH c = HH d
     \<and> gcm_y c = gcm_y d \<and> gcm_buf c = gcm_buf d"

definition same_key :: "gcm_context \<Rightarrow> gcm_context \<Rightarrow> bool" where
  "same_key c d \<longleftrightarrow> cipher_ctx c = cipher_ctx d \<and> clmul c = clmul d \<and> HL c = HL d \<and> HH c = HH d"

lemma mult_loop_cong: "HH c = HH d \<Longrightarrow> HL c = HL d \<Longrightarrow> mult_loop c x i z = mult_loop d x i z"
proof (induction i arbitrary: z)
  case 0
  then show ?case by (simp add: mult_loop.simps [of _ x 0] shift_row_def)
next
  case (Suc i)
  then show ?case by (simp add: mult_loop.simps [of _ x "Suc i"] shift_row_def Let_def)
qed

lemma gcm_mult_cong: "same_key c d \<Longrightarrow> gcm_mult c x = gcm_mult d x"
  using mult_loop_cong [of c d] by (simp add: same_key_def gcm_mult_def split: option.split)

lemma absorb_cong: "same_key c d \<Longrightarrow> absorb c buf p = absorb d buf p"
proof (induction c buf p rule: absorb.induct)
  case (1 c buf p)
  then show ?case
    by (subst (1 2) absorb.simps) (simp add: gcm_mult_cong [of c d])
qed

lemma same_stream_key: "same_stream c d \<Longrightarrow> same_key c d"
  by (simp add: same_stream_def same_key_def)

lemma update_block_total:
  assumes "block_cipher (cipher_ctx c)" "length p \<le> 16"
  shows "\<exists>c' out. update_block c p = (c', Inr out) \<and> length out = length p \<and> same_key c c'
    \<and> gcm_len c' = gcm_len c \<and> gcm_add_len c' = gcm_add_len c \<and> base_ectr c' = base_ectr c"
proof -
  obtain e where "cipher_ctx c (inc_counter (gcm_y c) 16) = Inr e" "length e = 16"
    using assms(1) by (rule block_cipherE)
  then show ?thesis using assms(2) by (auto simp: update_block_def Let_def same_key_def)
qed

lemma update_loop_total:
  assumes "block_cipher (cipher_ctx c)"
  shows "\<exists>c' out. update_loop c p = (0, c', out) \<and> length out = length p \<and> same_key c c'
    \<and> gcm_len c' = gcm_len c \<and> gcm_add_len c' = gcm_add_len c \<and> base_ectr c' = base_ectr c"
  using assms
proof (induction "length p" arbitrary: c p rule: less_induct)
  case less
  show ?case
  proof (cases "p = []")
    case True
    then show ?thesis by (simp add: update_loop.simps same_key_def)
  next
    case False
    obtain c1 o1 where c1: "update_block c (take 16 p) = (c1, Inr o1)" "length o1 = length (take 16 p)"
      "same_key c c1" "gcm_len c1 = gcm_len c" "gcm_add_len c1 = gcm_add_len c"
      "base_ectr c1 = base_ectr c"
      using update_block_total [OF less.prems, of "take 16 p"] by auto
    have "\<exists>c' out. update_loop c1 (drop 16 p) = (0, c', out) \<and> length out = length (drop 16 p)
        \<and> same_key c1 c' \<and> gcm_len c' = gcm_len c1 \<and> gcm_add_len c' = gcm_add_len c1
        \<and> base_ectr c' = base_ectr c1"
      using False less.prems c1(3) by (intro less.hyps) (auto simp: same_key_def)
    then show ?thesis
      using False c1 by (subst update_loop.simps) (auto simp: same_key_def)
  qed
qed

text \<open>A block decrypted after it was encrypted, in contexts in the same state.\<close>

lemma update_block_inverse:
  assumes "update_block c p = (c', Inr out)" "block_cipher (cipher_ctx c)" "length p \<le> 16"
    "same_stream c d" "gcm_mode c = MBEDTLS_GCM_ENCRYPT" "gcm_mode d = MBEDTLS_GCM_DECRYPT"
  obtains d' where "update_block d out = (d', Inr p)" "same_stream c' d'" "length out = length p"
    "gcm_mode c' = MBEDTLS_GCM_ENCRYPT" "gcm_mode d' = MBEDTLS_GCM_DECRYPT"
proof -
  let ?y = "inc_counter (gcm_y c) 16"
  have same: "cipher_ctx d = cipher_ctx c" "gcm_y d = gcm_y c" "gcm_buf d = gcm_buf c"
    using assms(4) by (auto simp: same_stream_def)
  obtain e where e: "cipher_ctx c ?y = Inr e" "length e = 16"
    using assms(2) by (rule block_cipherE)
  have out: "out = map2 (XOR) e p"
    "c' = c\<lparr>gcm_y := ?y, gcm_buf := gcm_mult (c\<lparr>gcm_y := ?y\<rparr>) (xor_into (gcm_buf c) out)\<rparr>"
    using assms(1,5) e by (auto simp: update_block_def Let_def gcm_consts)
  have "gcm_mult (d\<lparr>gcm_y := ?y\<rparr>) x = gcm_mult (c\<lparr>gcm_y := ?y\<rparr>) x" for x
    using assms(4) by (intro gcm_mult_cong) (simp add: same_stream_def same_key_def)
  then have "update_block d out
      = (d\<lparr>gcm_y := ?y, gcm_buf := gcm_mult (c\<lparr>gcm_y := ?y\<rparr>) (xor_into (gcm_buf c) out)\<rparr>, Inr p)"
    using assms(3,6) e same out(1) by (simp add: update_block_def Let_def gcm_consts map2_xor_cancel)
  then show thesis
    using assms(3-6) e out by (intro that [of "d\<lparr>gcm_y := ?y, gcm_buf := gcm_buf c'\<rparr>"])
      (simp_all add: same_stream_def)
qed

lemma update_loop_inverse:
  assumes "block_cipher (cipher_ctx c)" "same_stream c d"
    "gcm_mode c = MBEDTLS_GCM_ENCRYPT" "gcm_mode d = MBEDTLS_GCM_DECRYPT"
    "update_loop c p = (0, c', out)"
  shows "\<exists>d'. update_loop d out = (0, d', p) \<and> same_stream c' d'"
  using assms
proof (induction "length p" arbitrary: c d p c' out rule: less_induct)
  case less
  show ?case
  proof (cases "p = []")
    case True
    then show ?thesis using less.prems by (simp add: update_loop.simps)
  next
    case False
    obtain c1 o1 where c1: "update_block c (take 16 p) = (c1, Inr o1)" "same_key c c1"
      using update_block_total [OF less.prems(1), of "take 16 p"] by auto
    obtain d1 where d1: "update_block d o1 = (d1, Inr (take 16 p))" "same_stream c1 d1"
      "length o1 = length (take 16 p)"
      "gcm_mode c1 = MBEDTLS_GCM_ENCRYPT" "gcm_mode d1 = MBEDTLS_GCM_DECRYPT"
      using less.prems by (elim update_block_inverse [OF c1(1)]) auto
    obtain rest where rest: "update_loop c1 (drop 16 p) = (0, c', rest)" "out = o1 @ rest"
      using less.prems(5) False c1(1) by (subst (asm) update_loop.simps) (auto split: prod.splits)
    have bc: "block_cipher (cipher_ctx c1)" using less.prems(1) c1(2) by (simp add: same_key_def)
    obtain d' where d': "update_loop d1 rest = (0, d', drop 16 p)" "same_stream c' d'"
      using less.hyps [OF _ bc d1(2,4,5) rest(1)] False by auto
    have len: "length rest = length (drop 16 p)"
      using update_loop_total [OF bc, of "drop 16 p"] rest(1) by auto
    have "take 16 out = o1" "drop 16 out = rest"
      using d1(3) len by (cases "16 \<le> length p"; simp add: rest(2))+
    moreover have "out \<noteq> []" using d1(3) False by (cases p; cases o1; simp add: rest(2))
    ultimately show ?thesis
      using d1(1) d' by (subst update_loop.simps) auto
  qed
qed

text \<open>Starting: everything but the key is overwritten, so only the key of the context matters.\<close>

definition lengths_ok :: "byte list \<Rightarrow> byte list \<Rightarrow> bool" where
  "lengths_ok iv add \<longleftrightarrow> iv \<noteq> [] \<and> length iv < 2 ^ 61 \<and> length add < 2 ^ 61"

lemma drop_bit_61:
  assumes "n < 2 ^ 61"
  shows "drop_bit 61 (of_nat n :: u64) = 0"
proof -
  have "unat (drop_bit 61 (of_nat n :: u64)) = drop_bit 61 (unat (of_nat n :: u64))"
    by (rule unat_drop_bit_eq)
  also have "\<dots> = n div 2 ^ 61" using assms by (simp add: unat_of_nat drop_bit_eq_div)
  also have "\<dots> = 0" using assms by simp
  finally show ?thesis by (simp only: unsigned_eq_0_iff)
qed

lemma starts_total:
  assumes "block_cipher (cipher_ctx c)" "lengths_ok iv add"
  shows "\<exists>c'. mbedtls_gcm_starts c mode iv add = (0, c') \<and> same_key c c' \<and> gcm_mode c' = mode
    \<and> gcm_len c' = 0 \<and> gcm_add_len c' = of_nat (length add) \<and> length (base_ectr c') = 16"
proof -
  define c0 where "c0 = c\<lparr>gcm_y := replicate 16 0, gcm_buf := replicate 16 0, gcm_mode := mode,
    gcm_len := 0, gcm_add_len := 0\<rparr>"
  obtain y where y: "mbedtls_gcm_starts c mode iv add = (let ctx = c0\<lparr>gcm_y := y\<rparr> in
    case cipher_ctx ctx (gcm_y ctx) of Inl ret \<Rightarrow> (ret, ctx)
    | Inr e \<Rightarrow> (0, ctx\<lparr>base_ectr := e, gcm_add_len := of_nat (length add),
                      gcm_buf := absorb ctx (gcm_buf ctx) add\<rparr>))"
    using assms(2) unfolding mbedtls_gcm_starts_def lengths_ok_def
    by (simp add: drop_bit_61 c0_def [symmetric] Let_def)
  obtain e where "cipher_ctx c y = Inr e" "length e = 16"
    using assms(1) by (rule block_cipherE)
  then show ?thesis by (simp add: y c0_def same_key_def Let_def)
qed

lemma starts_same:
  assumes "same_key c d" "mbedtls_gcm_starts c m iv add = (0, c')"
    "mbedtls_gcm_starts d m' iv add = (0, d')" "block_cipher (cipher_ctx c)"
  shows "same_stream c' d' \<and> base_ectr c' = base_ectr d' \<and> gcm_add_len c' = gcm_add_len d'"
proof -
  let ?z = "\<lambda>c m. c\<lparr>gcm_y := replicate 16 0, gcm_buf := replicate 16 0, gcm_mode := m,
    gcm_len := 0, gcm_add_len := 0\<rparr>"
  let ?cz = "?z c m" and ?dz = "?z d m'"
  have z: "same_key ?cz ?dz" using assms(1) by (simp add: same_key_def)
  have ab: "absorb (?cz\<lparr>gcm_y := y\<rparr>) b p = absorb (?dz\<lparr>gcm_y := y\<rparr>) b p" for y b p
    by (rule absorb_cong) (use assms(1) in \<open>simp add: same_key_def\<close>)
  have cc: "cipher_ctx c = cipher_ctx d" using assms(1) by (simp add: same_key_def)
  have ne: "cipher_ctx d x \<noteq> Inl r" for x r
    using assms(4) by (metis block_cipherE cc sum.distinct(1))
  show ?thesis
    using assms(2,3) ab absorb_cong [OF z] gcm_mult_cong [OF z] assms(1) cc ne
    by (auto simp: mbedtls_gcm_starts_def Let_def same_stream_def same_key_def gcm_consts
        split: if_splits sum.splits)
qed

lemma update_from_start:
  assumes "gcm_len c = 0" "length input \<le> 0xFFFFFFFE0" "shift \<le> 0 \<or> int (length input) \<le> shift"
  shows "mbedtls_gcm_update c input shift = update_loop (c\<lparr>gcm_len := of_nat (length input)\<rparr>) input"
proof -
  have "unat (of_nat (length input) :: u64) = length input"
    using assms(2) by (simp add: unat_of_nat)
  then have "\<not> (of_nat (length input) :: u64) > 0xFFFFFFFE0"
    using assms(2) by (simp add: word_less_nat_alt)
  then show ?thesis using assms by (auto simp: mbedtls_gcm_update_def)
qed

lemma finish_total:
  assumes "4 \<le> tag_len" "tag_len \<le> 16" "length (base_ectr c) = 16"
  shows "\<exists>c' tag. mbedtls_gcm_finish c tag_len = (0, c', tag) \<and> length tag = tag_len \<and> same_key c c'"
  using assms by (auto simp: mbedtls_gcm_finish_def Let_def same_key_def)

lemma finish_same:
  assumes "same_stream c d" "base_ectr c = base_ectr d" "gcm_len c = gcm_len d" "gcm_add_len c = gcm_add_len d"
  shows "snd (snd (mbedtls_gcm_finish c tag_len)) = snd (snd (mbedtls_gcm_finish d tag_len))"
  using assms gcm_mult_cong [OF same_stream_key [OF assms(1)]]
  by (simp add: mbedtls_gcm_finish_def Let_def same_stream_def)

definition gcm_sizes :: "byte list \<Rightarrow> byte list \<Rightarrow> nat \<Rightarrow> int \<Rightarrow> nat \<Rightarrow> bool" where
  "gcm_sizes iv add n shift tag_len \<longleftrightarrow> lengths_ok iv add \<and> n \<le> 0xFFFFFFFE0
     \<and> (shift \<le> 0 \<or> int n \<le> shift) \<and> 4 \<le> tag_len \<and> tag_len \<le> 16"

lemma crypt_and_tag_total:
  assumes "block_cipher (cipher_ctx c)" "gcm_sizes iv add (length input) shift tag_len"
  shows "\<exists>c' out tag. mbedtls_gcm_crypt_and_tag c mode iv add input shift tag_len = (0, c', out, tag)
    \<and> length out = length input \<and> length tag = tag_len \<and> same_key c c'"
proof -
  obtain c1 where c1: "mbedtls_gcm_starts c mode iv add = (0, c1)" "same_key c c1" "gcm_len c1 = 0"
    "length (base_ectr c1) = 16"
    using starts_total [OF assms(1), of iv add mode] assms(2) by (auto simp: gcm_sizes_def)
  let ?c1 = "c1\<lparr>gcm_len := of_nat (length input)\<rparr>"
  have u: "mbedtls_gcm_update c1 input shift = update_loop ?c1 input"
    using assms(2) by (intro update_from_start [OF c1(3)]) (auto simp: gcm_sizes_def)
  have "block_cipher (cipher_ctx ?c1)" using assms(1) c1(2) by (simp add: same_key_def)
  from update_loop_total [OF this, of input] obtain c2 out where c2:
    "update_loop ?c1 input = (0, c2, out)" "length out = length input" "same_key ?c1 c2"
    "base_ectr c2 = base_ectr c1" by auto
  obtain c3 tag where "mbedtls_gcm_finish c2 tag_len = (0, c3, tag)" "length tag = tag_len" "same_key c2 c3"
    using finish_total [of tag_len c2] assms(2) c1(4) c2(4) by (auto simp: gcm_sizes_def)
  then show ?thesis
    using c1 c2 by (simp add: mbedtls_gcm_crypt_and_tag_def u same_key_def)
qed

lemma crypt_roundtrip:
  assumes bc: "block_cipher (cipher_ctx c)" and same: "same_key c d"
    and sz: "gcm_sizes iv add (length input) shift tag_len"
    and sz': "gcm_sizes iv add (length input) shift' tag_len"
    and enc: "mbedtls_gcm_crypt_and_tag c MBEDTLS_GCM_ENCRYPT iv add input shift tag_len = (0, c', out, tag)"
  shows "\<exists>d'. mbedtls_gcm_crypt_and_tag d MBEDTLS_GCM_DECRYPT iv add out shift' tag_len
    = (0, d', input, tag) \<and> same_key c d'"
proof -
  have bd: "block_cipher (cipher_ctx d)" using bc same by (simp add: same_key_def)
  have lo: "lengths_ok iv add" using sz by (simp add: gcm_sizes_def)
  obtain c1 where c1: "mbedtls_gcm_starts c MBEDTLS_GCM_ENCRYPT iv add = (0, c1)" "same_key c c1"
    "gcm_len c1 = 0" "gcm_mode c1 = MBEDTLS_GCM_ENCRYPT" "length (base_ectr c1) = 16"
    using starts_total [OF bc lo] by blast
  obtain d1 where d1: "mbedtls_gcm_starts d MBEDTLS_GCM_DECRYPT iv add = (0, d1)" "same_key d d1"
    "gcm_len d1 = 0" "gcm_mode d1 = MBEDTLS_GCM_DECRYPT"
    using starts_total [OF bd lo] by blast
  note st = starts_same [OF same c1(1) d1(1) bc]
  let ?n = "of_nat (length input)"
  let ?c1 = "c1\<lparr>gcm_len := ?n\<rparr>" and ?d1 = "d1\<lparr>gcm_len := ?n\<rparr>"
  have uc: "mbedtls_gcm_update c1 input shift = update_loop ?c1 input"
    using sz by (intro update_from_start [OF c1(3)]) (auto simp: gcm_sizes_def)
  have bc1: "block_cipher (cipher_ctx ?c1)" "block_cipher (cipher_ctx ?d1)"
    using bc bd c1(2) d1(2) by (simp_all add: same_key_def)
  obtain c2 where c2: "update_loop ?c1 input = (0, c2, out)" "length out = length input"
    "same_key ?c1 c2" "gcm_len c2 = ?n" "gcm_add_len c2 = gcm_add_len c1" "base_ectr c2 = base_ectr c1"
    "snd (snd (mbedtls_gcm_finish c2 tag_len)) = tag"
    using update_loop_total [OF bc1(1), of input] enc c1(1) uc
    by (auto simp: mbedtls_gcm_crypt_and_tag_def split: prod.splits if_splits)
  have "same_stream ?c1 ?d1" using st by (simp add: same_stream_def)
  from update_loop_inverse [OF bc1(1) this _ _ c2(1)] c1(4) d1(4)
  obtain d2 where d2: "update_loop ?d1 out = (0, d2, input)" "same_stream c2 d2" by auto
  have d2': "same_key ?d1 d2" "gcm_len d2 = ?n" "gcm_add_len d2 = gcm_add_len d1" "base_ectr d2 = base_ectr d1"
    using update_loop_total [OF bc1(2), of out] d2(1) by auto
  have ud: "mbedtls_gcm_update d1 out shift' = update_loop ?d1 out"
    using sz' c2(2) update_from_start [OF d1(3), of out shift'] by (auto simp: gcm_sizes_def)
  have tags: "snd (snd (mbedtls_gcm_finish d2 tag_len)) = tag"
    using finish_same [OF d2(2)] c2 d2' st by simp
  obtain d3 where "mbedtls_gcm_finish d2 tag_len = (0, d3, tag)" "same_key d2 d3"
    using finish_total [of tag_len d2] tags sz st d2'(4) c1(5) by (auto simp: gcm_sizes_def)
  then show ?thesis
    using d1 d2 d2' ud same by (simp add: mbedtls_gcm_crypt_and_tag_def same_key_def)
qed

text \<open>The constant-time comparison is equality.\<close>

lemma byte_xor_eq_0 [simp]: "(a XOR b = (0 :: byte)) = (a = b)"
  by (auto simp: bit_eq_iff bit_simps)

lemma tag_diff_zero:
  "length a = length b \<Longrightarrow> (foldr (OR) (map2 (XOR) a b) 0 = (0 :: byte)) = (a = b)"
  by (induction a b rule: list_induct2) (auto simp: or_eq_0_iff)

lemma auth_decrypt_verdict:
  assumes "block_cipher (cipher_ctx c)" "gcm_sizes iv add (length input) shift (length tag)"
  obtains c' out expected where
    "mbedtls_gcm_crypt_and_tag c MBEDTLS_GCM_DECRYPT iv add input shift (length tag) = (0, c', out, expected)"
    "mbedtls_gcm_auth_decrypt c iv add tag input shift =
      (if tag = expected then (0, c', out)
       else (MBEDTLS_ERR_GCM_AUTH_FAILED, c', replicate (length input) 0))"
    "length out = length input" "same_key c c'"
proof -
  obtain c' out expected where r:
    "mbedtls_gcm_crypt_and_tag c MBEDTLS_GCM_DECRYPT iv add input shift (length tag) = (0, c', out, expected)"
    "length out = length input" "length expected = length tag" "same_key c c'"
    using crypt_and_tag_total [OF assms] by blast
  then show thesis
    using that [OF r(1) _ r(2,4)] tag_diff_zero [of tag expected]
    by (simp add: mbedtls_gcm_auth_decrypt_def Let_def)
qed

section \<open>The contract of authenticated encryption\<close>

text \<open>
  What the packet layer relies on: sealing gives a ciphertext of the length of the message
  and a tag; opening gives the message back exactly when the tag is the one of that
  ciphertext, and otherwise reports an error. \<open>keyed\<close> is the precondition on the state,
  \<open>same\<close> relates two states with the same key.
\<close>

locale aead =
  fixes keyed :: "'k \<Rightarrow> bool"
    and same :: "'k \<Rightarrow> 'k \<Rightarrow> bool"
    and sizes :: "byte list \<Rightarrow> byte list \<Rightarrow> nat \<Rightarrow> bool"
    and seal :: "'k \<Rightarrow> byte list \<Rightarrow> byte list \<Rightarrow> byte list \<Rightarrow> int \<times> 'k \<times> byte list \<times> byte list"
    and unseal :: "'k \<Rightarrow> byte list \<Rightarrow> byte list \<Rightarrow> byte list \<Rightarrow> byte list \<Rightarrow> int \<times> 'k \<times> byte list"
    and tag_len :: nat
  assumes same_keyed: "keyed k \<Longrightarrow> same k l \<Longrightarrow> keyed l"
    and same_refl: "same k k"
    and same_trans: "same k l \<Longrightarrow> same l m \<Longrightarrow> same k m"
    and seal_total: "keyed k \<Longrightarrow> sizes iv add (length p) \<Longrightarrow>
          \<exists>k' c t. seal k p iv add = (0, k', c, t) \<and> length c = length p \<and> length t = tag_len \<and> same k k'"
    and unseal_seal: "keyed k \<Longrightarrow> same k l \<Longrightarrow> sizes iv add (length p) \<Longrightarrow>
          seal k p iv add = (0, k', c, t) \<Longrightarrow> \<exists>l'. unseal l c iv add t = (0, l', p) \<and> same k l'"
    and unseal_unique: "keyed k \<Longrightarrow> sizes iv add (length c) \<Longrightarrow> length t = tag_len \<Longrightarrow> length t' = tag_len \<Longrightarrow>
          unseal k c iv add t = (0, k', p) \<Longrightarrow> unseal k c iv add t' = (0, k'', p') \<Longrightarrow> t = t'"
    and unseal_fails: "keyed k \<Longrightarrow> sizes iv add (length c) \<Longrightarrow> length t = tag_len \<Longrightarrow>
          unseal k c iv add t = (r, k', p) \<Longrightarrow> r \<noteq> 0 \<Longrightarrow> r = 1 \<and> p = replicate (length c) 0"
begin

text \<open>The tag of a sealed message is the only one with which its ciphertext opens.\<close>

lemma tampered_tag:
  assumes "keyed k" "same k l" "sizes iv add (length p)" "seal k p iv add = (0, k', c, t)"
    "length t' = tag_len" "t' \<noteq> t"
  shows "\<exists>l'. unseal l c iv add t' = (1, l', replicate (length c) 0)"
proof -
  have kl: "keyed l" by (rule same_keyed [OF assms(1,2)])
  have len: "length c = length p" "length t = tag_len"
    using seal_total [OF assms(1,3)] assms(4) by auto
  obtain l1 where l1: "unseal l c iv add t = (0, l1, p)"
    using unseal_seal [OF assms(1-4)] by blast
  obtain r l' q where u: "unseal l c iv add t' = (r, l', q)" by (cases "unseal l c iv add t'") auto
  have "r \<noteq> 0"
    using unseal_unique [OF kl _ len(2) assms(5) l1, of l' q] assms(3,6) len(1) u by auto
  then show ?thesis
    using unseal_fails [OF kl _ assms(5) u] assms(3) len(1) u by simp
qed

end

text \<open>The wrapper on the model of the library, with an initialisation vector of 12 bytes and a tag of 16.\<close>

definition gcm_keyed :: "gcm_context \<Rightarrow> bool" where
  "gcm_keyed c \<longleftrightarrow> block_cipher (cipher_ctx c)"

definition aead_sizes :: "byte list \<Rightarrow> byte list \<Rightarrow> nat \<Rightarrow> bool" where
  "aead_sizes iv add n \<longleftrightarrow> length iv = 12 \<and> length add < 2 ^ 61 \<and> n \<le> 0xFFFFFFFE0"

lemma aead_sizes_gcm: "aead_sizes iv add n \<Longrightarrow> gcm_sizes iv add n 0 16"
  by (auto simp: aead_sizes_def gcm_sizes_def lengths_ok_def)

lemma encryptGcm_total:
  assumes "gcm_keyed k" "aead_sizes iv add (length p)"
  shows "\<exists>k' c t. encryptGcm k p iv add 16 0 = (0, k', c, t) \<and> length c = length p \<and> length t = 16
    \<and> same_key k k'"
proof -
  obtain k' c t where
    "mbedtls_gcm_crypt_and_tag k MBEDTLS_GCM_ENCRYPT iv add p 0 16 = (0, k', c, t)"
    "length c = length p" "length t = 16" "same_key k k'"
    using crypt_and_tag_total [OF _ aead_sizes_gcm [OF assms(2)]] assms(1)
    unfolding gcm_keyed_def by blast
  then show ?thesis by (simp add: encryptGcm_def)
qed

lemma decryptGcm_verdict:
  assumes "gcm_keyed k" "aead_sizes iv add (length c)" "length t = 16"
  obtains k' p expected where
    "mbedtls_gcm_crypt_and_tag k MBEDTLS_GCM_DECRYPT iv add c 0 16 = (0, k', p, expected)"
    "decryptGcm k c iv add t 0 = (if t = expected then (0, k', p) else (1, k', replicate (length c) 0))"
proof -
  have sz: "gcm_sizes iv add (length c) 0 (length t)"
    using aead_sizes_gcm [OF assms(2)] assms(3) by simp
  show thesis
    by (rule auth_decrypt_verdict [OF _ sz])
      (use assms that in \<open>auto simp: gcm_keyed_def decryptGcm_def gcm_consts\<close>)
qed

interpretation gcm: aead gcm_keyed same_key aead_sizes "\<lambda>k p iv add. encryptGcm k p iv add 16 0"
    "\<lambda>k c iv add t. decryptGcm k c iv add t 0" 16
proof unfold_locales
  show "gcm_keyed l" if "gcm_keyed k" "same_key k l" for k l
    using that by (simp add: gcm_keyed_def same_key_def)
  show "same_key k k" for k by (simp add: same_key_def)
  show "same_key k m" if "same_key k l" "same_key l m" for k l m
    using that by (simp add: same_key_def)
  show "\<exists>k' c t. encryptGcm k p iv add 16 0 = (0, k', c, t) \<and> length c = length p \<and> length t = 16
      \<and> same_key k k'" if "gcm_keyed k" "aead_sizes iv add (length p)" for k iv add p
    using that by (rule encryptGcm_total)
  show "\<exists>l'. decryptGcm l c iv add t 0 = (0, l', p) \<and> same_key k l'"
    if "gcm_keyed k" "same_key k l" "aead_sizes iv add (length p)"
      "encryptGcm k p iv add 16 0 = (0, k', c, t)" for k l iv add p k' c t
  proof -
    have enc: "mbedtls_gcm_crypt_and_tag k MBEDTLS_GCM_ENCRYPT iv add p 0 16 = (0, k', c, t)"
      using that(4) by (auto simp: encryptGcm_def split: prod.splits if_splits)
    have "length t = 16" using encryptGcm_total [OF that(1,3)] that(4) by simp
    then show ?thesis
      using crypt_roundtrip [OF _ that(2) aead_sizes_gcm [OF that(3)] aead_sizes_gcm [OF that(3)] enc]
        that(1) tag_diff_zero [of t t]
      by (auto simp: gcm_keyed_def decryptGcm_def mbedtls_gcm_auth_decrypt_def Let_def)
  qed
  show "t = t'"
    if "gcm_keyed k" "aead_sizes iv add (length c)" "length t = 16" "length t' = 16"
      "decryptGcm k c iv add t 0 = (0, k', p)" "decryptGcm k c iv add t' 0 = (0, k'', p')"
    for k iv add c t t' k' k'' p p'
    by (rule decryptGcm_verdict [OF that(1-3)], rule decryptGcm_verdict [OF that(1,2,4)])
      (use that in \<open>auto split: if_splits\<close>)
  show "r = 1 \<and> p = replicate (length c) 0"
    if "gcm_keyed k" "aead_sizes iv add (length c)" "length t = 16"
      "decryptGcm k c iv add t 0 = (r, k', p)" "r \<noteq> 0" for k iv add c t r k' p
    by (rule decryptGcm_verdict [OF that(1-3)]) (use that in \<open>auto split: if_splits\<close>)
qed

end
