(* ===== verification/GcmField.thy ===== *)
theory GcmField
  imports Gcm
begin

text \<open>
  The table multiplication of \<open>gcm.c\<close> computes the product of the field GF(2^128) of GCM.
  \<open>mulP\<close> is multiplication by P on a 128-bit word in the order of the standard (the high
  bit is the coefficient of P^0), \<open>field_mult\<close> the schoolbook product; the lemmas show
  that the tables hold the sixteen small multiples of H, that a shift through \<open>last4\<close> is
  four multiplications by P, and that the loop over the nibbles is the product.
\<close>

type_synonym field = "128 word"

definition field_of :: "u64 \<times> u64 \<Rightarrow> field" where
  "field_of z = word_cat (fst z) (snd z)"

definition red_P :: field where
  "red_P = push_bit 120 0xe1"

definition mulP :: "field \<Rightarrow> field" where
  "mulP z = drop_bit 1 z XOR (if bit z 0 then red_P else 0)"

fun xsum :: "(nat \<Rightarrow> field) \<Rightarrow> nat \<Rightarrow> field" where
  "xsum f 0 = 0"
| "xsum f (Suc n) = xsum f n XOR f n"

definition field_mult :: "field \<Rightarrow> field \<Rightarrow> field" where
  "field_mult x h = xsum (\<lambda>i. if bit x (127 - i) then (mulP ^^ i) h else 0) 128"

definition block_of :: "byte list \<Rightarrow> field" where
  "block_of b = field_of (get_uint64_be b 0, get_uint64_be b 8)"

section \<open>Bits\<close>

lemma bit_field_of:
  "bit (field_of z) n = (if n < 64 then bit (snd z) n else n < 128 \<and> bit (fst z) (n - 64))"
  by (simp add: field_of_def bit_word_cat_iff)

lemma field_of_xor: "field_of (a XOR c, b XOR d) = field_of (a, b) XOR field_of (c, d)"
  by (rule bit_word_eqI) (simp add: bit_field_of bit_simps)

lemma field_of_zero [simp]: "field_of (0, 0) = 0"
  by (rule bit_word_eqI) (simp add: bit_field_of)

lemma mulP_xor: "mulP (a XOR b) = mulP a XOR mulP b"
  by (rule bit_word_eqI) (auto simp: mulP_def bit_simps)

lemma mulP_pow_xor: "(mulP ^^ k) (a XOR b) = (mulP ^^ k) a XOR (mulP ^^ k) b"
  by (induction k) (simp_all add: mulP_xor)

lemma mulP_zero [simp]: "mulP 0 = 0"
  by (simp add: mulP_def)

lemma mulP_pow_zero [simp]: "(mulP ^^ k) 0 = 0"
  by (induction k) simp_all

lemma mulP_pow_if: "(mulP ^^ k) (if c then a else 0) = (if c then (mulP ^^ k) a else 0)"
  by simp

lemma xsum_cong: "(\<And>i. i < n \<Longrightarrow> f i = g i) \<Longrightarrow> xsum f n = xsum g n"
  by (induction n) simp_all

lemma xsum_add: "xsum f (a + b) = xsum f a XOR xsum (\<lambda>i. f (a + i)) b"
  by (induction b) (simp_all add: ac_simps)

lemma mulP_pow_xsum: "(mulP ^^ k) (xsum f n) = xsum (\<lambda>i. (mulP ^^ k) (f i)) n"
  by (induction n) (simp_all add: mulP_pow_xor)

lemma xsum_blocks: "xsum f (m * n) = xsum (\<lambda>b. xsum (\<lambda>k. f (m * b + k)) m) n"
proof (induction n)
  case (Suc n)
  have "xsum f (m * Suc n) = xsum f (m * n + m)" by (simp add: add.commute)
  then show ?case by (simp only: xsum_add Suc.IH xsum.simps)
qed simp

lemma red_P_field: "field_of (0xe100000000000000, 0) = red_P"
  by (simp add: field_of_def red_P_def word_cat_eq)

lemma field_of_shift:
  assumes "k < 64"
  shows "field_of (drop_bit k vh, push_bit (64 - k) vh OR drop_bit k vl) = drop_bit k (field_of (vh, vl))"
proof (rule bit_word_eqI)
  fix n assume n: "n < LENGTH(128)"
  have out: "\<not> bit w i" if "64 \<le> i" for w :: u64 and i
    using bit_imp_le_length [of w i] that by auto
  consider "n + k < 64" | "n < 64" "64 \<le> n + k" | "64 \<le> n" by linarith
  then show "bit (field_of (drop_bit k vh, push_bit (64 - k) vh OR drop_bit k vl)) n
      = bit (drop_bit k (field_of (vh, vl))) n"
  proof cases
    case 1
    then have "\<not> 64 - k \<le> n" by simp
    then show ?thesis using 1 assms by (simp add: bit_field_of bit_simps add.commute)
  next
    case 2
    then have "n - (64 - k) = n + k - 64" "64 - k \<le> n" using assms by simp_all
    then show ?thesis using 2 assms out [of "n + k" vl]
      by (simp add: bit_field_of bit_simps add.commute)
  next
    case 3
    then have "n - 64 + k = n + k - 64" by simp
    moreover have "\<not> bit vh (n + k - 64)" if "128 \<le> n + k" using that by (intro out) simp
    ultimately show ?thesis using 3 n assms
      by (cases "n + k < 128") (simp_all add: bit_field_of bit_simps add.commute)
  qed
qed

lemma times_P_mulP: "field_of (times_P v) = mulP (field_of v)"
proof (cases v)
  case (Pair vh vl)
  have T: "(vl AND 1) * 0xe1000000 = (if bit vl 0 then 0xe1000000 else 0)"
    by (auto simp: and_one_eq bit_0 odd_iff_mod_2_eq_one)
  have sh: "field_of (drop_bit 1 vh, push_bit 63 vh OR drop_bit 1 vl) = drop_bit 1 (field_of v)"
    using field_of_shift [of 1 vh vl] by (simp only: Pair) simp
  show ?thesis
  proof (cases "bit vl 0")
    case True
    then have "times_P v = (drop_bit 1 vh XOR 0xe100000000000000, (push_bit 63 vh OR drop_bit 1 vl) XOR 0)"
      using T by (simp add: times_P_def Pair)
    moreover have "mulP (field_of v) = drop_bit 1 (field_of v) XOR red_P"
      using True by (simp add: mulP_def bit_field_of Pair)
    ultimately show ?thesis by (simp only: field_of_xor sh red_P_field)
  next
    case False
    then have "times_P v = (drop_bit 1 vh, push_bit 63 vh OR drop_bit 1 vl)"
      using T by (simp add: times_P_def Pair)
    moreover have "mulP (field_of v) = drop_bit 1 (field_of v)"
      using False by (simp add: mulP_def bit_field_of Pair)
    ultimately show ?thesis by (simp only: sh)
  qed
qed

section \<open>The shift through the reduction table\<close>

definition shift4 :: "u64 \<times> u64 \<Rightarrow> u64 \<times> u64" where
  "shift4 z = (drop_bit 4 (fst z) XOR push_bit 48 (last4 ! unat (ucast (snd z) AND (0xf :: byte))),
     push_bit 60 (fst z) OR drop_bit 4 (snd z))"

lemma red_bits: "bit red_P n = (n \<in> {120, 125, 126, 127})"
proof -
  consider "n < 120" | "n \<in> {120, 121, 122, 123, 124, 125, 126, 127}" | "128 \<le> n" by fastforce
  then show ?thesis
  proof cases
    case 1
    then show ?thesis unfolding red_P_def by (simp only: bit_push_bit_iff) auto
  next
    case 2
    then show ?thesis unfolding red_P_def by (elim insertE) auto
  next
    case 3
    then show ?thesis using bit_imp_le_length [of red_P n] by auto
  qed
qed

lemma mulP4:
  "(mulP ^^ 4) z = drop_bit 4 z
     XOR ((if bit z 0 then drop_bit 3 red_P else 0) XOR (if bit z 1 then drop_bit 2 red_P else 0)
     XOR (if bit z 2 then drop_bit 1 red_P else 0) XOR (if bit z 3 then red_P else 0))"
proof -
  have d: "drop_bit 1 (a XOR b) = drop_bit 1 a XOR drop_bit 1 (b :: field)" for a b
    by (rule bit_word_eqI) (simp add: bit_simps)
  have dd: "drop_bit 1 (drop_bit 1 a) = drop_bit 2 (a :: field)"
    "drop_bit 1 (drop_bit 2 a) = drop_bit 3 a" "drop_bit 1 (drop_bit 3 a) = drop_bit 4 a" for a :: field
    by (simp_all only: drop_bit_drop_bit) (simp_all add: eval_nat_numeral)
  have di: "drop_bit 1 (if c then a else 0) = (if c then drop_bit 1 a else (0 :: field))" for c a
    by simp
  have b: "bit (mulP z) n = bit z (Suc n)" if "n < 100" for z n
    using that by (simp add: mulP_def bit_simps red_bits)
  have 1: "mulP z = drop_bit 1 z XOR (if bit z 0 then red_P else 0)"
    by (rule mulP_def)
  have 2: "mulP (mulP z) = drop_bit 1 (mulP z) XOR (if bit z 1 then red_P else 0)"
    using b [of 0 z] by (subst mulP_def) simp
  have 3: "mulP (mulP (mulP z)) = drop_bit 1 (mulP (mulP z)) XOR (if bit z 2 then red_P else 0)"
    using b [of 0 "mulP z"] b [of 1 z] by (subst mulP_def) (simp add: numeral_2_eq_2)
  have 4: "mulP (mulP (mulP (mulP z))) = drop_bit 1 (mulP (mulP (mulP z))) XOR (if bit z 3 then red_P else 0)"
    using b [of 0 "mulP (mulP z)"] b [of 1 "mulP z"] b [of 2 z]
    by (subst mulP_def) (simp add: numeral_2_eq_2 numeral_3_eq_3)
  have "(mulP ^^ 4) z = mulP (mulP (mulP (mulP z)))" by (simp add: eval_nat_numeral)
  also have "\<dots> = drop_bit 1 (drop_bit 1 (drop_bit 1 (drop_bit 1 z XOR (if bit z 0 then red_P else 0))
      XOR (if bit z 1 then red_P else 0)) XOR (if bit z 2 then red_P else 0)) XOR (if bit z 3 then red_P else 0)"
    by (subst 4, subst 3, subst 2, subst 1) (rule refl)
  finally show ?thesis
    by (simp only: d dd di) (simp only: ac_simps)
qed

text \<open>The low nibble of a word, and the table entry it selects.\<close>

definition nibble_bits :: "bool \<Rightarrow> bool \<Rightarrow> bool \<Rightarrow> bool \<Rightarrow> nat" where
  "nibble_bits b0 b1 b2 b3 = of_bool b0 + 2 * of_bool b1 + 4 * of_bool b2 + 8 * of_bool b3"

lemma low_nibble:
  "unat (ucast (w :: u64) AND (0xf :: byte)) = nibble_bits (bit w 0) (bit w 1) (bit w 2) (bit w 3)"
proof -
  have "ucast w AND (0xf :: byte) = of_bool (bit w 0) OR push_bit 1 (of_bool (bit w 1))
      OR push_bit 2 (of_bool (bit w 2)) OR push_bit 3 (of_bool (bit w 3))" (is "?l = ?r")
  proof (rule bit_word_eqI)
    fix n assume "n < LENGTH(8)"
    then have "n \<in> {0, 1, 2, 3, 4, 5, 6, 7}" by auto
    then show "bit ?l n = bit ?r n" by (elim insertE) (simp_all add: bit_simps)
  qed
  then show ?thesis
    by (cases "bit w 0"; cases "bit w 1"; cases "bit w 2"; cases "bit w 3")
      (simp_all add: nibble_bits_def)
qed

lemma last4_entry:
  "field_of (push_bit 48 (last4 ! nibble_bits b0 b1 b2 b3), 0)
     = (if b0 then drop_bit 3 red_P else 0) XOR (if b1 then drop_bit 2 red_P else 0)
       XOR (if b2 then drop_bit 1 red_P else 0) XOR (if b3 then red_P else 0)"
  by (cases b0; cases b1; cases b2; cases b3)
    (simp_all add: nibble_bits_def last4_def field_of_def red_P_def word_cat_eq)

lemma shift4_mulP: "field_of (shift4 z) = (mulP ^^ 4) (field_of z)"
proof -
  let ?n = "nibble_bits (bit (snd z) 0) (bit (snd z) 1) (bit (snd z) 2) (bit (snd z) 3)"
  have "shift4 z = (drop_bit 4 (fst z) XOR push_bit 48 (last4 ! ?n),
      (push_bit (64 - 4) (fst z) OR drop_bit 4 (snd z)) XOR 0)"
    by (simp add: shift4_def low_nibble)
  then have "field_of (shift4 z) = drop_bit 4 (field_of z) XOR field_of (push_bit 48 (last4 ! ?n), 0)"
    using field_of_shift [of 4 "fst z" "snd z"] by (simp only: field_of_xor) simp
  then show ?thesis
    by (simp only: mulP4 last4_entry) (simp add: bit_field_of)
qed

section \<open>The tables\<close>

text \<open>\<open>row h n\<close> is H times the polynomial whose coefficients are the bits of the nibble.\<close>

definition row :: "field \<Rightarrow> nat \<Rightarrow> field" where
  "row h n = xsum (\<lambda>k. if bit n (3 - k) then (mulP ^^ k) h else 0) 4"

lemma row_expand:
  "row h n = (if bit n 3 then h else 0) XOR (if bit n 2 then mulP h else 0)
     XOR (if bit n 1 then mulP (mulP h) else 0) XOR (if bit n 0 then mulP (mulP (mulP h)) else 0)"
proof -
  have "row h n = xsum (\<lambda>k. if bit n (3 - k) then (mulP ^^ k) h else 0) (Suc (Suc (Suc (Suc 0))))"
    by (simp only: row_def eval_nat_numeral BitM.simps)
  then show ?thesis by (simp add: numeral_2_eq_2 numeral_3_eq_3 ac_simps)
qed

definition tables_ok :: "gcm_context \<Rightarrow> field \<Rightarrow> bool" where
  "tables_ok ctx h \<longleftrightarrow> (\<forall>n<16. field_of (HH ctx ! n, HL ctx ! n) = row h n)"

lemma halve_rows_eval:
  assumes "times_P v = v4" "times_P v4 = v2" "times_P v2 = v1"
  shows "halve_rows v hh hl = (hh[4 := fst v4, 2 := fst v2, 1 := fst v1], hl[4 := snd v4, 2 := snd v2, 1 := snd v1])"
  using assms by (simp add: halve_rows_def case_prod_unfold)

lemma combine_rows_eval:
  "combine_rows [a0, a1, a2, a3, a4, a5, a6, a7, a8, a9, a10, a11, a12, a13, a14, a15]
   = [a0, a1, a2, a2 XOR a1, a4, a4 XOR a1, a4 XOR a2, a4 XOR (a2 XOR a1),
      a8, a8 XOR a1, a8 XOR a2, a8 XOR (a2 XOR a1), a8 XOR a4, a8 XOR (a4 XOR a1), a8 XOR (a4 XOR a2),
      a8 XOR (a4 XOR (a2 XOR a1))]"
  by (simp add: combine_rows_def upt_rec numeral_2_eq_2 [symmetric])

lemma gen_table_ok:
  assumes "cipher_ctx ctx (replicate 16 0) = Inr h" "clmul ctx = None"
    "HH ctx = replicate 16 0" "HL ctx = replicate 16 0"
  shows "\<exists>ctx'. gcm_gen_table ctx = (0, ctx') \<and> tables_ok ctx' (block_of h)
    \<and> clmul ctx' = None \<and> cipher_ctx ctx' = cipher_ctx ctx"
proof -
  define v where "v = (get_uint64_be h 0, get_uint64_be h 8)"
  define v4 where "v4 = times_P v"
  define v2 where "v2 = times_P v4"
  define v1 where "v1 = times_P v2"
  let ?t = "\<lambda>f. [0, f v1, f v2, f v2 XOR f v1, f v4, f v4 XOR f v1, f v4 XOR f v2, f v4 XOR (f v2 XOR f v1),
      f v, f v XOR f v1, f v XOR f v2, f v XOR (f v2 XOR f v1), f v XOR f v4, f v XOR (f v4 XOR f v1),
      f v XOR (f v4 XOR f v2), f v XOR (f v4 XOR (f v2 XOR f v1))]"
  have z: "replicate 16 0 = [0, 0, 0, 0, 0, 0, 0, 0, 0, 0, 0, 0, 0, 0, 0, 0 :: u64]"
    by (simp add: eval_nat_numeral)
  define ctx' where "ctx' = ctx\<lparr>HL := ?t snd, HH := ?t fst\<rparr>"
  have g: "gcm_gen_table ctx = (0, ctx')"
    using assms unfolding z
    by (simp add: gcm_gen_table_def Let_def halve_rows_eval [OF v4_def [symmetric] v2_def [symmetric] v1_def [symmetric], unfolded v_def]
        combine_rows_eval ctx'_def v_def)
  have vs: "field_of v4 = mulP (field_of v)" "field_of v2 = mulP (mulP (field_of v))"
    "field_of v1 = mulP (mulP (mulP (field_of v)))"
    by (simp_all add: v4_def v2_def v1_def times_P_mulP)
  have "field_of (?t fst ! n, ?t snd ! n) = row (field_of v) n" if "n < 16" for n
  proof -
    have "n \<in> {0, 1, 2, 3, 4, 5, 6, 7, 8, 9, 10, 11, 12, 13, 14, 15}"
      using that by (auto simp: eval_nat_numeral less_Suc_eq)
    then show ?thesis
      by (elim insertE) (simp_all add: row_expand field_of_xor vs bit_0 ac_simps)
  qed
  then have "tables_ok ctx' (block_of h)"
    by (simp add: tables_ok_def ctx'_def block_of_def v_def)
  with g show ?thesis using assms(2) by (simp add: ctx'_def)
qed

section \<open>The loop over the nibbles\<close>

text \<open>The bytes of a block, and the product of one byte with H.\<close>

definition byte_row :: "field \<Rightarrow> byte \<Rightarrow> field" where
  "byte_row h b = row h (unat (drop_bit 4 b AND 0xf)) XOR (mulP ^^ 4) (row h (unat (b AND 0xf)))"

lemma shift_row_field:
  assumes "tables_ok ctx h" "unat n < 16"
  shows "field_of (shift_row ctx n z) = (mulP ^^ 4) (field_of z) XOR row h (unat n)"
proof -
  have "shift_row ctx n z
      = (fst (shift4 z) XOR HH ctx ! unat n, snd (shift4 z) XOR HL ctx ! unat n)"
    by (simp add: shift_row_def shift4_def case_prod_unfold Let_def)
  then show ?thesis
    using assms shift4_mulP [of z] by (simp add: field_of_xor tables_ok_def)
qed

lemma nibble_lt: "unat (b AND 0xf :: byte) < 16"
proof -
  have "b AND 0xf \<le> (0xf :: byte)" by (rule word_and_le1)
  then show ?thesis by (simp add: word_le_nat_alt)
qed

lemma mult_loop_field:
  assumes t: "tables_ok ctx h"
  shows "i < 15 \<Longrightarrow> field_of (mult_loop ctx x i z)
    = (mulP ^^ (8 * Suc i)) (field_of z) XOR xsum (\<lambda>b. (mulP ^^ (8 * b)) (byte_row h (x ! b))) (Suc i)"
proof (induction i arbitrary: z)
  case 0
  then show ?case
    by (subst mult_loop.simps)
      (simp add: shift_row_field [OF t nibble_lt] mulP_pow_xor byte_row_def xor.assoc xor.commute xor.left_commute
        flip: funpow_add [THEN fun_cong, unfolded comp_apply])
next
  case (Suc i)
  let ?z = "shift_row ctx (drop_bit 4 (x ! Suc i) AND 15) (shift_row ctx (x ! Suc i AND 15) z)"
  have z: "field_of ?z = (mulP ^^ 8) (field_of z) XOR byte_row h (x ! Suc i)"
    by (simp add: shift_row_field [OF t nibble_lt] mulP_pow_xor byte_row_def xor.assoc xor.commute xor.left_commute
        flip: funpow_add [THEN fun_cong, unfolded comp_apply])
  have "mult_loop ctx x (Suc i) z = mult_loop ctx x i ?z"
    using Suc.prems by (subst mult_loop.simps) (simp add: Let_def)
  then show ?case
    using Suc z by (simp add: mulP_pow_xor ac_simps flip: funpow_add [THEN fun_cong, unfolded comp_apply])
qed

lemma byte_row_bits:
  "byte_row h b = xsum (\<lambda>k. if bit b (7 - k) then (mulP ^^ k) h else 0) 8"
proof -
  have hi: "bit (unat (drop_bit 4 b AND 0xf :: byte)) k = bit b (4 + k)"
    and lo: "bit (unat (b AND 0xf :: byte)) k = bit b k" if "k < 4" for k
  proof -
    have "k \<in> {0, 1, 2, 3}" using that by auto
    then show "bit (unat (drop_bit 4 b AND 0xf :: byte)) k = bit b (4 + k)"
      "bit (unat (b AND 0xf :: byte)) k = bit b k"
      by (elim insertE; simp add: bit_simps)+
  qed
  have "xsum (\<lambda>k. if bit b (7 - k) then (mulP ^^ k) h else 0) (4 + 4)
     = xsum (\<lambda>k. if bit b (7 - k) then (mulP ^^ k) h else 0) 4
       XOR xsum (\<lambda>k. (mulP ^^ 4) (if bit b (3 - k) then (mulP ^^ k) h else 0)) 4"
    unfolding xsum_add by (simp add: funpow_add comp_apply mulP_pow_if cong: if_cong)
  also have "xsum (\<lambda>k. (mulP ^^ 4) (if bit b (3 - k) then (mulP ^^ k) h else 0)) 4
      = (mulP ^^ 4) (row h (unat (b AND 0xf)))"
    unfolding row_def mulP_pow_xsum by (rule xsum_cong) (simp add: lo)
  also have "xsum (\<lambda>k. if bit b (7 - k) then (mulP ^^ k) h else 0) 4
      = row h (unat (drop_bit 4 b AND 0xf))"
    unfolding row_def
  proof (rule xsum_cong)
    fix i :: nat assume "i < 4"
    then show "(if bit b (7 - i) then (mulP ^^ i) h else 0)
        = (if bit (unat (drop_bit 4 b AND 15)) (3 - i) then (mulP ^^ i) h else 0)"
      using hi [of "3 - i"] by simp
  qed
  finally show ?thesis by (simp add: byte_row_def)
qed

lemma gcm_mult_rows:
  assumes "tables_ok ctx h" "clmul ctx = None"
  shows "\<exists>zh zl. gcm_mult ctx x = put_uint64_be zh @ put_uint64_be zl
    \<and> field_of (zh, zl) = xsum (\<lambda>b. (mulP ^^ (8 * b)) (byte_row h (x ! b))) 16"
proof -
  let ?lo = "x ! 15 AND 0xf" and ?hi = "drop_bit 4 (x ! 15) AND 0xf"
  let ?z0 = "(HH ctx ! unat ?lo, HL ctx ! unat ?lo)"
  have "field_of ?z0 = row h (unat ?lo)"
    using assms(1) nibble_lt by (simp add: tables_ok_def)
  then have "field_of (shift_row ctx ?hi ?z0) = byte_row h (x ! 15)"
    by (simp add: shift_row_field [OF assms(1) nibble_lt] byte_row_def xor.commute)
  moreover have "mult_loop ctx x 15 ?z0 = mult_loop ctx x 14 (shift_row ctx ?hi ?z0)"
    by (subst mult_loop.simps) (simp add: Let_def split: nat.split)
  ultimately have "field_of (mult_loop ctx x 15 ?z0)
      = (mulP ^^ (8 * 15)) (byte_row h (x ! 15)) XOR xsum (\<lambda>b. (mulP ^^ (8 * b)) (byte_row h (x ! b))) 15"
    using mult_loop_field [OF assms(1), of 14 x "shift_row ctx ?hi ?z0"] by simp
  then have "field_of (mult_loop ctx x 15 ?z0) = xsum (\<lambda>b. (mulP ^^ (8 * b)) (byte_row h (x ! b))) (Suc 15)"
    by (simp only: xsum.simps xor.commute)
  moreover have "Suc 15 = 16" by simp
  ultimately have "field_of (mult_loop ctx x 15 ?z0) = xsum (\<lambda>b. (mulP ^^ (8 * b)) (byte_row h (x ! b))) 16"
    by (simp only:)
  then show ?thesis
    using assms(2) by (cases "mult_loop ctx x 15 ?z0") (auto simp: gcm_mult_def Let_def)
qed

text \<open>The bits of words read from bytes in big-endian order.\<close>

lemma byte_bit_out: "8 \<le> n \<Longrightarrow> \<not> bit (b :: byte) n"
  using bit_imp_le_length [of b n] by auto

lemma get_uint32_be_bit:
  assumes "q < 4" "r < 8"
  shows "bit (get_uint32_be x i) (8 * q + r) = bit (x ! (i + 3 - q)) r"
proof -
  have "q \<in> {0, 1, 2, 3}" using assms(1) by auto
  then show ?thesis
    using assms(2)
    by (elim insertE) (simp_all add: get_uint32_be_def bit_simps byte_bit_out)
qed

lemma get_uint64_be_bit:
  assumes "q < 8" "r < 8"
  shows "bit (get_uint64_be x i) (8 * q + r) = bit (x ! (i + 7 - q)) r"
proof (cases "q < 4")
  case True
  then have "8 * q + r < 32" using assms by simp
  then show ?thesis
    using True assms get_uint32_be_bit [of q r x "i + 4"]
    by (simp add: get_uint64_be_def bit_simps add.commute)
next
  case False
  then have q: "8 * q + r = 8 * (q - 4) + r + 32" "i + 3 - (q - 4) = i + 7 - q" "q - 4 < 4"
    using assms by simp_all
  have "\<not> bit (get_uint32_be x (i + 4)) (8 * q + r)"
    using bit_imp_le_length [of "get_uint32_be x (i + 4)" "8 * q + r"] False by auto
  then show ?thesis
    using q assms(2) get_uint32_be_bit [OF q(3) assms(2), of x i]
    by (simp add: get_uint64_be_def bit_simps add.assoc add.commute add.left_commute)
qed

text \<open>The bit of a block, counted from the high end of byte 0.\<close>

lemma block_of_bit:
  assumes "b < 16" "k < 8"
  shows "bit (block_of x) (127 - (8 * b + k)) = bit (x ! b) (7 - k)"
proof (cases "b < 8")
  case True
  then have "127 - (8 * b + k) - 64 = 8 * (7 - b) + (7 - k)" "\<not> 127 - (8 * b + k) < 64"
    "127 - (8 * b + k) < 128"
    using assms by simp_all
  then show ?thesis
    using True assms get_uint64_be_bit [of "7 - b" "7 - k" x 0]
    by (simp add: block_of_def bit_field_of)
next
  case False
  then have n: "127 - (8 * b + k) = 8 * (15 - b) + (7 - k)" "15 - (15 - b) = b" "15 - b < 8"
    using assms by simp_all
  then have "8 * (15 - b) + (7 - k) < 64" by simp
  then show ?thesis
    using n get_uint64_be_bit [OF n(3), of "7 - k" x 8]
    by (simp add: block_of_def bit_field_of)
qed

lemma length_put_uint64_be [simp]: "length (put_uint64_be z) = 8"
  by (simp add: put_uint64_be_def put_uint32_be_def)

lemma get_put_uint64_be:
  assumes "x = pre @ put_uint64_be z @ post" "i = length pre"
  shows "get_uint64_be x i = z"
proof (rule bit_word_eqI)
  fix n assume "n < LENGTH(64)"
  then have n: "n = 8 * (n div 8) + n mod 8" "n div 8 < 8" "n mod 8 < 8" by auto
  define q r where "q = n div 8" and "r = n mod 8"
  have "q \<in> {0, 1, 2, 3, 4, 5, 6, 7}" using n(2) by (auto simp: q_def)
  then have "bit (x ! (i + 7 - q)) r = bit z (8 * q + r)"
    using n(3) by (elim insertE)
      (auto simp: assms r_def nth_append put_uint64_be_def put_uint32_be_def bit_simps)
  then show "bit (get_uint64_be x i) n = bit z n"
    using get_uint64_be_bit [OF n(2,3), of x i] n(1) by (simp add: q_def r_def)
qed

lemma block_of_put: "block_of (put_uint64_be zh @ put_uint64_be zl) = field_of (zh, zl)"
  using get_put_uint64_be [of "put_uint64_be zh @ put_uint64_be zl" "[]" zh "put_uint64_be zl" 0]
    get_put_uint64_be [of "put_uint64_be zh @ put_uint64_be zl" "put_uint64_be zh" zl "[]" 8]
  by (simp add: block_of_def)

lemma gcm_mult_field_mult:
  assumes "tables_ok ctx h" "clmul ctx = None"
  shows "block_of (gcm_mult ctx x) = field_mult (block_of x) h \<and> length (gcm_mult ctx x) = 16"
proof -
  have "field_mult (block_of x) h
      = xsum (\<lambda>b. xsum (\<lambda>k. if bit (block_of x) (127 - (8 * b + k)) then (mulP ^^ (8 * b + k)) h else 0) 8) 16"
    unfolding field_mult_def using xsum_blocks [of _ 8 16] by simp
  also have "\<dots> = xsum (\<lambda>b. (mulP ^^ (8 * b)) (byte_row h (x ! b))) 16"
  proof (rule xsum_cong)
    fix b :: nat assume b: "b < 16"
    have "xsum (\<lambda>k. if bit (block_of x) (127 - (8 * b + k)) then (mulP ^^ (8 * b + k)) h else 0) 8
        = xsum (\<lambda>k. (mulP ^^ (8 * b)) (if bit (x ! b) (7 - k) then (mulP ^^ k) h else 0)) 8"
      by (rule xsum_cong) (simp add: block_of_bit [OF b] mulP_pow_if funpow_add)
    then show "xsum (\<lambda>k. if bit (block_of x) (127 - (8 * b + k)) then (mulP ^^ (8 * b + k)) h else 0) 8
        = (mulP ^^ (8 * b)) (byte_row h (x ! b))"
      by (simp only: byte_row_bits mulP_pow_xsum)
  qed
  finally show ?thesis
    using gcm_mult_rows [OF assms, of x]
    by (auto simp: block_of_put)
qed

section \<open>Properties\<close>

text \<open>
  After the key is set, the library multiplies by H = E(0) in GF(2^128): the table
  method returns 16 bytes that are the schoolbook product of the block with H.
\<close>

lemma gcm_mult_is_field_product:
  assumes "initGCM None lib key bits = (0, ctx)" "cipher_setkey lib key bits = Inr enc"
    "enc (replicate 16 0) = Inr h"
  shows "block_of (gcm_mult ctx x) = field_mult (block_of x) (block_of h) \<and> length (gcm_mult ctx x) = 16"
proof -
  let ?ctx = "(mbedtls_gcm_init None)\<lparr>cipher_ctx := enc\<rparr>"
  have "gcm_gen_table ?ctx = (0, ctx)"
    using assms(1,2) by (auto simp: initGCM_def mbedtls_gcm_setkey_def gcm_consts
        split: option.splits if_splits prod.splits)
  moreover have "\<exists>ctx'. gcm_gen_table ?ctx = (0, ctx') \<and> tables_ok ctx' (block_of h)
      \<and> clmul ctx' = None \<and> cipher_ctx ctx' = cipher_ctx ?ctx"
    using assms(3) by (intro gen_table_ok) (simp_all add: mbedtls_gcm_init_def)
  ultimately have "tables_ok ctx (block_of h)" "clmul ctx = None" by auto
  then show ?thesis by (rule gcm_mult_field_mult)
qed

text \<open>A cipher layer whose block cipher adds a constant, for closed examples.\<close>

definition demo_layer :: cipher_layer where
  "demo_layer = \<lparr>info_block_size = (\<lambda>_ _. Some 16), cipher_setup = 0,
     cipher_setkey = (\<lambda>key _. Inr (\<lambda>b. Inr (map (\<lambda>i. (b @ replicate 16 0) ! i XOR (key @ replicate 16 0) ! i) [0..<16])))\<rparr>"

definition demo_key :: "byte list" where
  "demo_key = map word_of_nat [1..<17]"

definition demo_ctx :: gcm_context where
  "demo_ctx = snd (initGCM None demo_layer demo_key 128)"

lemma demo_init: "initGCM None demo_layer demo_key 128 = (0, demo_ctx)"
proof -
  have "fst (initGCM None demo_layer demo_key 128) = 0"
    by (simp add: initGCM_def mbedtls_gcm_setkey_def demo_layer_def gcm_gen_table_def
        mbedtls_gcm_init_def Let_def case_prod_unfold)
  then show ?thesis by (simp add: demo_ctx_def prod_eq_iff)
qed

text \<open>
  C12. A message sealed with one context opens with any context of the same key to the
  same bytes and result 0, whatever the initialisation vector and additional data.
\<close>

theorem decrypt_inverts_encrypt:
  assumes "gcm_keyed k" "same_key k l" "aead_sizes iv add (length p)"
  shows "\<exists>k' c t l'. encryptGcm k p iv add 16 0 = (0, k', c, t) \<and> length c = length p \<and> length t = 16
    \<and> decryptGcm l c iv add t 0 = (0, l', p)"
proof -
  obtain k' c t where "encryptGcm k p iv add 16 0 = (0, k', c, t)" "length c = length p" "length t = 16"
    using gcm.seal_total [OF assms(1,3)] by blast
  then show ?thesis using gcm.unseal_seal [OF assms] by blast
qed

lemma demo_keyed: "gcm_keyed demo_ctx"
proof -
  have "cipher_ctx demo_ctx = (\<lambda>b. Inr (map (\<lambda>i. (b @ replicate 16 0) ! i XOR (demo_key @ replicate 16 0) ! i) [0..<16]))"
    by (simp add: demo_ctx_def initGCM_def mbedtls_gcm_setkey_def demo_layer_def gcm_gen_table_def
        mbedtls_gcm_init_def Let_def case_prod_unfold)
  then show ?thesis by (simp add: gcm_keyed_def block_cipher_def)
qed

theorem decrypt_inverts_encrypt_witness:
  "\<exists>k' c t l'. encryptGcm demo_ctx [1, 2, 3] (replicate 12 9) [5] 16 0 = (0, k', c, t) \<and> length c = 3
    \<and> length t = 16 \<and> decryptGcm demo_ctx c (replicate 12 9) [5] t 0 = (0, l', [1, 2, 3])"
  using decrypt_inverts_encrypt [OF demo_keyed, of demo_ctx "replicate 12 9" "[5]" "[1, 2, 3]"]
  by (simp add: aead_sizes_def gcm.same_refl numeral_3_eq_3)

text \<open>
  A sealed message presented with any other tag of 16 bytes is refused with result 1,
  and the output is zeros.
\<close>

lemma wrong_tag_refused:
  assumes "gcm_keyed k" "same_key k l" "aead_sizes iv add (length p)"
    "encryptGcm k p iv add 16 0 = (0, k', c, t)" "length t' = 16" "t' \<noteq> t"
  shows "\<exists>l'. decryptGcm l c iv add t' 0 = (1, l', replicate (length c) 0)"
  using assms by (rule gcm.tampered_tag)

end
