(* ===== verification/Packet.thy ===== *)
theory Packet
  imports PckData GcmField
begin

text \<open>
  Packets of \<open>protocol/pckData/pckData.c\<close>: the wire layout, \<open>encryptPckData\<close>,
  \<open>decryptPckData\<close> and \<open>printMessage\<close>. A packet is

    length, length of the authenticated data, length of the extra data (big-endian),
    initialisation vector, tag, extra data, authenticated data (version and the caller's
    container), then encrypted: nonce, settings and the container.

  The buffers are byte lists; the random initialisation vector is an argument.
  \<open>printMessage\<close> is modelled because it converts the containers in the packet to host order
  and back while it prints; the messages it prints around the bytes are left out.
\<close>

section \<open>Printing a packet\<close>

definition protocolSpecificAddLen :: u32 where "protocolSpecificAddLen = 4"
definition protocolSpecificExtraDataLen :: u32 where "protocolSpecificExtraDataLen = 0"
definition protocolSpecificEncryptedDataLen :: u32 where "protocolSpecificEncryptedDataLen = 8"
definition IVLEN :: nat where "IVLEN = 12"
definition TAGLEN :: nat where "TAGLEN = 16"

lemmas packet_consts = protocolSpecificAddLen_def protocolSpecificExtraDataLen_def
  protocolSpecificEncryptedDataLen_def IVLEN_def TAGLEN_def

definition header_colour :: "nat \<Rightarrow> colour" where
  "header_colour i = (if i < 4 then Message1 else if i < 8 then Message2 else if i < 12 then Message3
     else if i < 24 then Message4 else Message5)"

text \<open>A container of the packet is printed by \<open>printPckData\<close> when its length is not zero.\<close>

definition print_section ::
    "byte list \<Rightarrow> nat \<Rightarrow> u32 \<Rightarrow> bool \<Rightarrow> int \<Rightarrow> ((colour \<times> byte) list \<times> byte list) option" where
  "print_section m p n isSerialized scheme =
     (if n \<noteq> 0 then printPckData m p isSerialized scheme else Some ([], m))"

definition printMessage :: "byte list \<Rightarrow> bool \<Rightarrow> bool \<Rightarrow> ((colour \<times> byte) list \<times> byte list) option" where
  "printMessage m isEncrypted isSerialized = do {
     header \<leftarrow> load_bytes m 0 40;
     totalLen \<leftarrow> load32 m 0;
     addDataLen \<leftarrow> load32 m 4;
     extraDataLen \<leftarrow> load32 m 8;
     let (totalLen, addDataLen, extraDataLen) =
       (if isSerialized then (ntohl totalLen, ntohl addDataLen, ntohl extraDataLen)
        else (totalLen, addDataLen, extraDataLen));
     let encryptedDataLen = totalLen - (4 + 4 + 4 + of_nat IVLEN + of_nat TAGLEN + extraDataLen + addDataLen);
     let extraDataOff = 12 + IVLEN + TAGLEN;
     let addDataOff = extraDataOff + unat extraDataLen;
     let encryptedDataOff = addDataOff + unat addDataLen;
     extra1 \<leftarrow> load_bytes m extraDataOff (unat protocolSpecificExtraDataLen);
     (extra2, m) \<leftarrow> print_section m (extraDataOff + unat protocolSpecificExtraDataLen)
                     (extraDataLen - protocolSpecificExtraDataLen) isSerialized 2;
     add1 \<leftarrow> load_bytes m addDataOff (unat protocolSpecificAddLen);
     (add2, m) \<leftarrow> print_section m (addDataOff + unat protocolSpecificAddLen)
                   (addDataLen - protocolSpecificAddLen) isSerialized 1;
     let out = map (\<lambda>i. (header_colour i, header ! i)) [0..<40] @ map (Pair Message6) extra1 @ extra2
       @ map (Pair Message7) add1 @ add2;
     if isEncrypted then do {
       enc \<leftarrow> load_bytes m encryptedDataOff (unat encryptedDataLen);
       Some (out @ map (Pair Message9) enc, m)
     } else do {
       enc1 \<leftarrow> load_bytes m encryptedDataOff (unat protocolSpecificEncryptedDataLen);
       (enc2, m) \<leftarrow> print_section m (encryptedDataOff + unat protocolSpecificEncryptedDataLen)
                     (encryptedDataLen - protocolSpecificEncryptedDataLen) isSerialized 0;
       Some (out @ map (Pair Message8) enc1 @ enc2, m)
     }
   }"

section \<open>Composing and encrypting\<close>

text \<open>The length of an optional container, 0 for NULL.\<close>

definition opt_len :: "byte list option \<Rightarrow> u32 option" where
  "opt_len pck = (case pck of None \<Rightarrow> Some 0 | Some m \<Rightarrow> load32 m 0)"

text \<open>\<open>if (len > 0) memcpy(out + off, pck, len)\<close>\<close>

definition copy_opt :: "byte list \<Rightarrow> nat \<Rightarrow> byte list option \<Rightarrow> u32 \<Rightarrow> byte list option" where
  "copy_opt out off pck n =
     (if n > 0 then do { m \<leftarrow> pck; src \<leftarrow> load_bytes m 0 (unat n); store_bytes out off src }
      else Some out)"

record packet_lens =
  pl_msg :: u32
  pl_add :: u32
  pl_extra :: u32
  pl_pck :: u32

definition packet_lengths :: "byte list option \<Rightarrow> byte list option \<Rightarrow> byte list option \<Rightarrow> packet_lens option" where
  "packet_lengths pckData addDataPck extraDataPck = do {
     pckDataLen \<leftarrow> opt_len pckData;
     userAddLen \<leftarrow> opt_len addDataPck;
     let addLen = protocolSpecificAddLen + userAddLen;
     userExtraDataLen \<leftarrow> opt_len extraDataPck;
     let extraDataLen = protocolSpecificExtraDataLen + userExtraDataLen;
     let msgLen = 4 + 4 + 4 + of_nat IVLEN + of_nat TAGLEN + addLen + extraDataLen + 4 + 4 + pckDataLen;
     Some \<lparr>pl_msg = msgLen, pl_add = addLen, pl_extra = extraDataLen, pl_pck = pckDataLen\<rparr>
   }"

text \<open>The plaintext packet in the output buffer; the containers are left in network order.\<close>

definition composePacket ::
    "packet_lens \<Rightarrow> byte list option \<Rightarrow> byte list option \<Rightarrow> byte list option \<Rightarrow> u32 \<Rightarrow> u32 \<Rightarrow> byte list
     \<Rightarrow> byte list \<Rightarrow> (byte list \<times> byte list option \<times> byte list option \<times> byte list option) option" where
  "composePacket pl pckData addDataPck extraDataPck pckGSettings nonce newIv out = do {
     let tagOff = 12 + IVLEN;
     let extraDataOff = tagOff + TAGLEN;
     let addOff = extraDataOff + unat (pl_extra pl);
     let nonceOff = addOff + unat (pl_add pl);
     out \<leftarrow> store32 out addOff 0;
     out \<leftarrow> store32 out 0 (htonl (pl_msg pl));
     out \<leftarrow> store32 out 4 (htonl (pl_add pl));
     out \<leftarrow> store32 out 8 (htonl (pl_extra pl));
     out \<leftarrow> store_bytes out 12 newIv;
     out \<leftarrow> store32 out nonceOff (htonl nonce);
     out \<leftarrow> store32 out (nonceOff + 4) (htonl pckGSettings);
     (_, pckData) \<leftarrow> pckDataToNetworkOrder pckData 0;
     (_, addDataPck) \<leftarrow> pckDataToNetworkOrder addDataPck 0;
     (_, extraDataPck) \<leftarrow> pckDataToNetworkOrder extraDataPck 0;
     out \<leftarrow> copy_opt out (nonceOff + 8) pckData (pl_pck pl);
     out \<leftarrow> copy_opt out (addOff + unat protocolSpecificAddLen) addDataPck
             (pl_add pl - protocolSpecificAddLen);
     out \<leftarrow> copy_opt out (extraDataOff + unat protocolSpecificExtraDataLen) extraDataPck
             (pl_extra pl - protocolSpecificExtraDataLen);
     Some (out, pckData, addDataPck, extraDataPck)
   }"

text \<open>
  The results are the return value, the key context, the output buffer and the two
  containers of the caller, which the conversion leaves in network order; \<open>pckData\<close> is
  freed. \<open>ctx = None\<close> is the NULL context, with which the packet is not encrypted.
\<close>

definition encryptPckData ::
    "gcm_context option \<Rightarrow> byte list option \<Rightarrow> byte list option \<Rightarrow> byte list option \<Rightarrow> u32 \<Rightarrow> u32 \<Rightarrow> byte list
     \<Rightarrow> byte list \<Rightarrow> (int \<times> gcm_context option \<times> byte list \<times> byte list option \<times> byte list option) option" where
  "encryptPckData ctx pckData addDataPck extraDataPck pckGSettings nonce newIv out = do {
     pl \<leftarrow> packet_lengths pckData addDataPck extraDataPck;
     (out, pckData, addDataPck, extraDataPck) \<leftarrow>
       composePacket pl pckData addDataPck extraDataPck pckGSettings nonce newIv out;
     (_, out) \<leftarrow> printMessage out False True;
     let addOff = 12 + IVLEN + TAGLEN + unat (pl_extra pl);
     let nonceOff = addOff + unat (pl_add pl);
     (failed, ctx, out) \<leftarrow>
       (case ctx of
          None \<Rightarrow> Some (False, None, out)
        | Some k \<Rightarrow> do {
            msg \<leftarrow> load_bytes out nonceOff (unat (4 + 4 + pl_pck pl));
            iv \<leftarrow> load_bytes out 12 IVLEN;
            add \<leftarrow> load_bytes out addOff (unat (pl_add pl));
            let (r, k, enc, tag) = encryptGcm k msg iv add TAGLEN 0;
            out \<leftarrow> store_bytes out nonceOff enc;
            out \<leftarrow> store_bytes out (12 + IVLEN) tag;
            Some (r \<noteq> 0, Some k, out)
          });
     if failed then Some (- 1, ctx, out, addDataPck, extraDataPck)
     else do {
       (_, out) \<leftarrow> printMessage out True True;
       Some (to_int32 (uint (pl_msg pl)), ctx, out, addDataPck, extraDataPck)
     }
   }"

section \<open>Decrypting\<close>

text \<open>
  The packet in \<open>m\<close> is decrypted into \<open>out\<close> and, in host order, copied back over its
  encrypted part. A zero length of the authenticated data makes \<open>addPtr\<close> NULL, which the
  last statement dereferences.
\<close>

definition decryptPckData ::
    "gcm_context \<Rightarrow> byte list \<Rightarrow> byte list \<Rightarrow> (int \<times> gcm_context \<times> byte list \<times> byte list) option" where
  "decryptPckData ctx m out = do {
     msgLen \<leftarrow> map_option ntohl (load32 m 0);
     addLen \<leftarrow> map_option ntohl (load32 m 4);
     extraDataLen \<leftarrow> map_option ntohl (load32 m 8);
     let addOff = 12 + IVLEN + TAGLEN;
     let addPckDataOff = addOff + unat protocolSpecificAddLen;
     let extraDataOff = addOff + unat addLen;
     let extraDataPckOff = extraDataOff + unat protocolSpecificExtraDataLen;
     let encryptDataOff = extraDataOff + unat extraDataLen;
     let eDataLen = msgLen - (4 + 4 + 4 + of_nat IVLEN + of_nat TAGLEN + addLen);
     edata \<leftarrow> load_bytes m encryptDataOff (unat eDataLen);
     iv \<leftarrow> load_bytes m 12 IVLEN;
     tag \<leftarrow> load_bytes m (12 + IVLEN) TAGLEN;
     add \<leftarrow> load_bytes m addOff (unat addLen);
     let (r, ctx, dec) = decryptGcm ctx edata iv add tag 0;
     out \<leftarrow> store_bytes out 0 dec;
     if r \<noteq> 0 then Some (- 1, ctx, m, out)
     else do {
       nonce \<leftarrow> load32 out 0;
       out \<leftarrow> store32 out 0 (ntohl nonce);
       settings \<leftarrow> load32 out 4;
       out \<leftarrow> store32 out 4 (ntohl settings);
       out \<leftarrow> (if eDataLen > protocolSpecificEncryptedDataLen
               then map_option (the \<circ> snd) (pckDataToHostOrder (Some out) (unat protocolSpecificEncryptedDataLen))
               else Some out);
       m \<leftarrow> (if addLen - protocolSpecificAddLen > 0
             then map_option (the \<circ> snd) (pckDataToHostOrder (Some m) addPckDataOff) else Some m);
       m \<leftarrow> (if extraDataLen - protocolSpecificExtraDataLen > 0
             then map_option (the \<circ> snd) (pckDataToHostOrder (Some m) extraDataPckOff) else Some m);
       let before = 4 + 4 + 4 + of_nat IVLEN + of_nat TAGLEN + extraDataLen + addLen;
       src \<leftarrow> load_bytes out 0 (unat (msgLen - before));
       m \<leftarrow> store_bytes m (unat before) src;
       w \<leftarrow> load32 m 0;
       m \<leftarrow> store32 m 0 (ntohl w);
       w \<leftarrow> load32 m 4;
       m \<leftarrow> store32 m 4 (ntohl w);
       w \<leftarrow> load32 m 8;
       m \<leftarrow> store32 m 8 (ntohl w);
       if addLen = 0 then None else do {
         w \<leftarrow> load32 m addOff;
         m \<leftarrow> store32 m addOff (ntohl w);
         Some (0, ctx, m, out)
       }
     }
   }"

text \<open>The address of the caller's authenticated data in a packet.\<close>

definition getPointerToUserAddData :: "nat \<Rightarrow> nat" where
  "getPointerToUserAddData msg = msg + 4 + 4 + 4 + IVLEN + TAGLEN + unat protocolSpecificAddLen"

section \<open>The layout\<close>

text \<open>
  A container argument: \<open>None\<close> is NULL, \<open>Some (lim, es, junk)\<close> a block that holds the
  elements \<open>es\<close>. \<open>opt_net\<close> is what it contributes to a packet.
\<close>

type_synonym pck_arg = "(u32 \<times> byte list list \<times> byte list) option"

definition opt_host :: "pck_arg \<Rightarrow> byte list option" where
  "opt_host = map_option (\<lambda>(lim, es, junk). pck_host lim es @ junk)"

definition opt_netblock :: "pck_arg \<Rightarrow> byte list option" where
  "opt_netblock = map_option (\<lambda>(lim, es, junk). pck_net lim es @ junk)"

definition opt_net :: "pck_arg \<Rightarrow> byte list" where
  "opt_net x = (case x of None \<Rightarrow> [] | Some (lim, es, _) \<Rightarrow> pck_net lim es)"

definition opt_hostbytes :: "pck_arg \<Rightarrow> byte list" where
  "opt_hostbytes x = (case x of None \<Rightarrow> [] | Some (lim, es, _) \<Rightarrow> pck_host lim es)"

text \<open>A container with at least one element: what the printing and the reader handle.\<close>

definition nonempty_arg :: "pck_arg \<Rightarrow> bool" where
  "nonempty_arg x = (case x of None \<Rightarrow> True | Some (_, es, _) \<Rightarrow> es \<noteq> [])"

definition be32 :: "u32 \<Rightarrow> byte list" where
  "be32 n = bytes_of_u32 (htonl n)"

text \<open>The packet, with \<open>enc\<close> the encrypted part (or its plaintext).\<close>

definition packet_fields :: "byte list \<Rightarrow> byte list \<Rightarrow> byte list \<Rightarrow> byte list \<Rightarrow> byte list \<Rightarrow> byte list list" where
  "packet_fields iv tag extra add enc =
     [be32 (of_nat (44 + length extra + length add + length enc)), be32 (of_nat (4 + length add)),
      be32 (of_nat (length extra)), iv, tag, extra, be32 0, add, enc]"

definition packet_bytes :: "byte list \<Rightarrow> byte list \<Rightarrow> byte list \<Rightarrow> byte list \<Rightarrow> byte list \<Rightarrow> byte list" where
  "packet_bytes iv tag extra add enc = concat (packet_fields iv tag extra add enc)"

definition plain_part :: "u32 \<Rightarrow> u32 \<Rightarrow> byte list \<Rightarrow> byte list" where
  "plain_part nonce settings pck = be32 nonce @ be32 settings @ pck"

lemma length_be32 [simp]: "length (be32 n) = 4"
  by (simp add: be32_def)

lemma htonl_0 [simp]: "htonl 0 = 0"
  by (simp add: htonl_def bytes_of_u32_def u32_of_bytes_def)

lemma length_opt [simp]: "length (opt_hostbytes x) = length (opt_net x)"
  by (auto simp: opt_hostbytes_def opt_net_def split: option.split prod.split)

lemma opt_len_host:
  assumes "length (opt_net x) < 2 ^ 32"
  shows "opt_len (opt_host x) = Some (of_nat (length (opt_net x)))"
  using assms append_header(1)
  by (auto simp: opt_len_def opt_host_def opt_net_def split: option.split prod.split)

lemma toNetwork_opt:
  assumes "length (opt_net x) < 2 ^ 32"
  shows "\<exists>r. pckDataToNetworkOrder (opt_host x) 0 = Some (r, opt_netblock x)"
proof (cases x)
  case None
  then show ?thesis by (simp add: opt_host_def opt_netblock_def pckDataToNetworkOrder_def)
next
  case (Some y)
  then obtain lim es junk where y: "x = Some (lim, es, junk)" by (cases y) auto
  then show ?thesis
    using assms toNetwork_pck [of es 0 "[]" lim junk]
    by (simp add: opt_host_def opt_netblock_def opt_net_def)
qed

lemma copy_opt_net:
  assumes "off + length (opt_net x) \<le> length out" "length (opt_net x) < 2 ^ 32"
  shows "copy_opt out off (opt_netblock x) (of_nat (length (opt_net x))) = store_bytes out off (opt_net x)"
proof (cases "opt_net x = []")
  case True
  then show ?thesis using assms(1) by (simp add: copy_opt_def store_bytes_def)
next
  case False
  then obtain lim es junk where x: "x = Some (lim, es, junk)"
    by (auto simp: opt_net_def split: option.splits)
  then have "(of_nat (length (opt_net x)) :: u32) > 0"
    using assms(2) False u32_less_of_nat [of 0 "length (opt_net x)"] by simp
  then show ?thesis
    using assms(2) by (simp add: copy_opt_def x opt_netblock_def opt_net_def load_bytes_first)
qed

text \<open>A buffer of at least the total length splits into fields of given lengths.\<close>

lemma split_lengths:
  "sum_list ns \<le> length m \<Longrightarrow> \<exists>fs rest. m = concat fs @ rest \<and> map length fs = ns"
proof (induction ns arbitrary: m)
  case (Cons n ns)
  then obtain fs rest where "drop n m = concat fs @ rest" "map length fs = ns"
    by (metis add_leD1 diff_le_mono length_drop sum_list.Cons add_diff_cancel_left')
  then have "m = concat (take n m # fs) @ rest \<and> map length (take n m # fs) = n # ns"
    using Cons.prems by (metis append_assoc append_take_drop_id concat.simps(2) length_take
        list.simps(9) min.absorb2 add_leD1 sum_list.Cons)
  then show ?case by (intro exI)
qed (auto intro: exI [of _ "[]"])

lemma length_11_cases:
  assumes "length fs = 11"
  obtains o0 o1 o2 o3 o4 o5 o6 o7 o8 o9 o10 where "fs = [o0, o1, o2, o3, o4, o5, o6, o7, o8, o9, o10]"
proof -
  have "length fs = Suc (Suc (Suc (Suc (Suc (Suc (Suc (Suc (Suc (Suc (Suc 0))))))))))"
    using assms by simp
  then show thesis using that unfolding length_Suc_conv by blast
qed

lemma packet_lengths_host:
  assumes "44 + length (opt_net e) + length (opt_net a) + 8 + length (opt_net p) < 2 ^ 31"
  shows "packet_lengths (opt_host p) (opt_host a) (opt_host e) = Some
    \<lparr>pl_msg = of_nat (44 + length (opt_net e) + length (opt_net a) + (8 + length (opt_net p))),
     pl_add = of_nat (4 + length (opt_net a)), pl_extra = of_nat (length (opt_net e)),
     pl_pck = of_nat (length (opt_net p))\<rparr>"
  using assms by (simp add: packet_lengths_def opt_len_host packet_consts)

text \<open>The stores of \<open>composePacket\<close> one after the other, each on its field.\<close>

lemma compose_stores:
  fixes w0 w1 w2 nonce gs :: u32 and a e p :: "byte list"
  assumes "map length [o0, o1, o2, ov, ot, oe, oV, oa, on, og, op] = [4, 4, 4, 12, 16, length e, 4, length a, 4, 4, length p]"
    and "length iv = 12"
  shows "store32 (concat [o0, o1, o2, ov, ot, oe, oV, oa, on, og, op, rest]) (40 + length e) 0
      = Some (concat [o0, o1, o2, ov, ot, oe, be32 0, oa, on, og, op, rest])"
    and "store32 (concat [o0, o1, o2, ov, ot, oe, be32 0, oa, on, og, op, rest]) 0 (htonl w0)
      = Some (concat [be32 w0, o1, o2, ov, ot, oe, be32 0, oa, on, og, op, rest])"
    and "store32 (concat [be32 w0, o1, o2, ov, ot, oe, be32 0, oa, on, og, op, rest]) 4 (htonl w1)
      = Some (concat [be32 w0, be32 w1, o2, ov, ot, oe, be32 0, oa, on, og, op, rest])"
    and "store32 (concat [be32 w0, be32 w1, o2, ov, ot, oe, be32 0, oa, on, og, op, rest]) 8 (htonl w2)
      = Some (concat [be32 w0, be32 w1, be32 w2, ov, ot, oe, be32 0, oa, on, og, op, rest])"
    and "store_bytes (concat [be32 w0, be32 w1, be32 w2, ov, ot, oe, be32 0, oa, on, og, op, rest]) 12 iv
      = Some (concat [be32 w0, be32 w1, be32 w2, iv, ot, oe, be32 0, oa, on, og, op, rest])"
    and "store32 (concat [be32 w0, be32 w1, be32 w2, iv, ot, oe, be32 0, oa, on, og, op, rest]) (40 + length e + (4 + length a)) (htonl nonce)
      = Some (concat [be32 w0, be32 w1, be32 w2, iv, ot, oe, be32 0, oa, be32 nonce, og, op, rest])"
    and "store32 (concat [be32 w0, be32 w1, be32 w2, iv, ot, oe, be32 0, oa, be32 nonce, og, op, rest])
        (40 + length e + (4 + length a) + 4) (htonl gs)
      = Some (concat [be32 w0, be32 w1, be32 w2, iv, ot, oe, be32 0, oa, be32 nonce, be32 gs, op, rest])"
    and "store_bytes (concat [be32 w0, be32 w1, be32 w2, iv, ot, oe, be32 0, oa, be32 nonce, be32 gs, op, rest])
        (40 + length e + (4 + length a) + 8) (p)
      = Some (concat [be32 w0, be32 w1, be32 w2, iv, ot, oe, be32 0, oa, be32 nonce, be32 gs, p, rest])"
    and "store_bytes (concat [be32 w0, be32 w1, be32 w2, iv, ot, oe, be32 0, oa, be32 nonce, be32 gs, p, rest])
        (40 + length e + 4) (a)
      = Some (concat [be32 w0, be32 w1, be32 w2, iv, ot, oe, be32 0, a, be32 nonce, be32 gs, p, rest])"
    and "store_bytes (concat [be32 w0, be32 w1, be32 w2, iv, ot, oe, be32 0, a, be32 nonce, be32 gs, p, rest])
        40 (e)
      = Some (concat [be32 w0, be32 w1, be32 w2, iv, ot, e, be32 0, a, be32 nonce, be32 gs, p, rest])"
proof -
  note ls = assms(1) [simplified]
  show "store32 (concat [o0, o1, o2, ov, ot, oe, oV, oa, on, og, op, rest]) (40 + length e) 0
      = Some (concat [o0, o1, o2, ov, ot, oe, be32 0, oa, on, og, op, rest])"
    by (rule store32_field [where i = 6]) (simp_all add: ls assms(2) be32_def)
  show "store32 (concat [o0, o1, o2, ov, ot, oe, be32 0, oa, on, og, op, rest]) 0 (htonl w0)
      = Some (concat [be32 w0, o1, o2, ov, ot, oe, be32 0, oa, on, og, op, rest])"
    by (rule store32_field [where i = 0]) (simp_all add: ls assms(2) be32_def)
  show "store32 (concat [be32 w0, o1, o2, ov, ot, oe, be32 0, oa, on, og, op, rest]) 4 (htonl w1)
      = Some (concat [be32 w0, be32 w1, o2, ov, ot, oe, be32 0, oa, on, og, op, rest])"
    by (rule store32_field [where i = 1]) (simp_all add: ls assms(2) be32_def)
  show "store32 (concat [be32 w0, be32 w1, o2, ov, ot, oe, be32 0, oa, on, og, op, rest]) 8 (htonl w2)
      = Some (concat [be32 w0, be32 w1, be32 w2, ov, ot, oe, be32 0, oa, on, og, op, rest])"
    by (rule store32_field [where i = 2]) (simp_all add: ls assms(2) be32_def)
  show "store_bytes (concat [be32 w0, be32 w1, be32 w2, ov, ot, oe, be32 0, oa, on, og, op, rest]) 12 iv
      = Some (concat [be32 w0, be32 w1, be32 w2, iv, ot, oe, be32 0, oa, on, og, op, rest])"
    by (rule store_field [where i = 3]) (simp_all add: ls assms(2) be32_def)
  show "store32 (concat [be32 w0, be32 w1, be32 w2, iv, ot, oe, be32 0, oa, on, og, op, rest]) (40 + length e + (4 + length a)) (htonl nonce)
      = Some (concat [be32 w0, be32 w1, be32 w2, iv, ot, oe, be32 0, oa, be32 nonce, og, op, rest])"
    by (rule store32_field [where i = 8]) (simp_all add: ls assms(2) be32_def)
  show "store32 (concat [be32 w0, be32 w1, be32 w2, iv, ot, oe, be32 0, oa, be32 nonce, og, op, rest])
        (40 + length e + (4 + length a) + 4) (htonl gs)
      = Some (concat [be32 w0, be32 w1, be32 w2, iv, ot, oe, be32 0, oa, be32 nonce, be32 gs, op, rest])"
    by (rule store32_field [where i = 9]) (simp_all add: ls assms(2) be32_def)
  show "store_bytes (concat [be32 w0, be32 w1, be32 w2, iv, ot, oe, be32 0, oa, be32 nonce, be32 gs, op, rest])
        (40 + length e + (4 + length a) + 8) (p)
      = Some (concat [be32 w0, be32 w1, be32 w2, iv, ot, oe, be32 0, oa, be32 nonce, be32 gs, p, rest])"
    by (rule store_field [where i = 10]) (simp_all add: ls assms(2) be32_def)
  show "store_bytes (concat [be32 w0, be32 w1, be32 w2, iv, ot, oe, be32 0, oa, be32 nonce, be32 gs, p, rest])
        (40 + length e + 4) (a)
      = Some (concat [be32 w0, be32 w1, be32 w2, iv, ot, oe, be32 0, a, be32 nonce, be32 gs, p, rest])"
    by (rule store_field [where i = 7]) (simp_all add: ls assms(2) be32_def)
  show "store_bytes (concat [be32 w0, be32 w1, be32 w2, iv, ot, oe, be32 0, a, be32 nonce, be32 gs, p, rest])
        40 (e)
      = Some (concat [be32 w0, be32 w1, be32 w2, iv, ot, e, be32 0, a, be32 nonce, be32 gs, p, rest])"
    by (rule store_field [where i = 5]) (simp_all add: ls assms(2) be32_def)
qed

lemma composePacket_layout:
  assumes small: "44 + length (opt_net e) + length (opt_net a) + 8 + length (opt_net p) < 2 ^ 31"
    and room: "44 + length (opt_net e) + length (opt_net a) + 8 + length (opt_net p) \<le> length out"
    and iv: "length iv = 12"
    and pl: "packet_lengths (opt_host p) (opt_host a) (opt_host e) = Some pl"
  shows "\<exists>tag rest. length tag = 16 \<and> length (packet_bytes iv tag (opt_net e) (opt_net a) (plain_part nonce gs (opt_net p)) @ rest) = length out
    \<and> composePacket pl (opt_host p) (opt_host a) (opt_host e) gs nonce iv out
      = Some (packet_bytes iv tag (opt_net e) (opt_net a) (plain_part nonce gs (opt_net p)) @ rest,
              opt_netblock p, opt_netblock a, opt_netblock e)"
proof -
  let ?E = "length (opt_net e)" and ?A = "length (opt_net a)" and ?P = "length (opt_net p)"
  let ?ns = "[4, 4, 4, 12, 16, ?E, 4, ?A, 4, 4, ?P]"
  have "sum_list ?ns \<le> length out" using room by simp
  from split_lengths [OF this] obtain fs rest where fs: "out = concat fs @ rest" "map length fs = ?ns"
    by (elim exE conjE)
  have "length fs = 11" using arg_cong [OF fs(2), of length] by simp
  then obtain o0 o1 o2 ov ot oe oV oa on og op where fs_eq: "fs = [o0, o1, o2, ov, ot, oe, oV, oa, on, og, op]"
    by (rule length_11_cases)
  note ls = fs(2) [unfolded fs_eq, simplified]
  have out: "out = concat [o0, o1, o2, ov, ot, oe, oV, oa, on, og, op, rest]"
    by (simp add: fs(1) fs_eq)
  note pl = pl [unfolded packet_lengths_host [OF small]]
  have pl': "pl = \<lparr>pl_msg = of_nat (44 + ?E + ?A + (8 + ?P)), pl_add = of_nat (4 + ?A),
      pl_extra = of_nat ?E, pl_pck = of_nat ?P\<rparr>"
    using pl by (simp only: option.inject)
  let ?m = "of_nat (44 + ?E + ?A + (8 + ?P)) :: u32"
  have lt: "?E < 2 ^ 32" "4 + ?A < 2 ^ 32" "?P < 2 ^ 32" "?A < 2 ^ 32" using small by auto
  have ue: "unat (of_nat ?E :: u32) = ?E" "unat (of_nat (4 + ?A) :: u32) = 4 + ?A"
    using lt by (simp_all del: of_nat_add)
  let ?h0 = "be32 ?m" and ?h1 = "be32 (of_nat (4 + ?A))" and ?h2 = "be32 (of_nat ?E)"
  note stores = compose_stores [OF fs(2) [unfolded fs_eq] iv]
  let ?bytes = "packet_bytes iv ot (opt_net e) (opt_net a) (plain_part nonce gs (opt_net p)) @ rest"
  have result: "concat [?h0, ?h1, ?h2, iv, ot, opt_net e, be32 0, opt_net a, be32 nonce, be32 gs, opt_net p, rest]
      = ?bytes"
    by (simp add: packet_bytes_def packet_fields_def plain_part_def)
  have len: "length ?bytes = length out"
    unfolding result [symmetric] by (simp add: out ls iv)
  have c8: "copy_opt m (40 + ?E + (4 + ?A) + 8) (opt_netblock p) (of_nat ?P)
      = store_bytes m (40 + ?E + (4 + ?A) + 8) (opt_net p)" if "length m = length out" for m
    using that room lt by (intro copy_opt_net) simp_all
  have c9: "copy_opt m (40 + ?E + 4) (opt_netblock a) (of_nat (4 + ?A) - 4)
      = store_bytes m (40 + ?E + 4) (opt_net a)" if "length m = length out" for m
    using that room lt copy_opt_net [of "40 + ?E + 4" a m] by simp
  have c10: "copy_opt m 40 (opt_netblock e) (of_nat ?E) = store_bytes m 40 (opt_net e)"
    if "length m = length out" for m
    using that room lt by (intro copy_opt_net) simp_all
  obtain r1 r2 r3 where net: "pckDataToNetworkOrder (opt_host p) 0 = Some (r1, opt_netblock p)"
    "pckDataToNetworkOrder (opt_host a) 0 = Some (r2, opt_netblock a)"
    "pckDataToNetworkOrder (opt_host e) 0 = Some (r3, opt_netblock e)"
    using toNetwork_opt lt by metis
  have lens: "length (concat [?h0, ?h1, ?h2, iv, ot, oe, be32 0, oa, be32 nonce, be32 gs, op, rest]) = length out"
    "length (concat [?h0, ?h1, ?h2, iv, ot, oe, be32 0, oa, be32 nonce, be32 gs, opt_net p, rest]) = length out"
    "length (concat [?h0, ?h1, ?h2, iv, ot, oe, be32 0, opt_net a, be32 nonce, be32 gs, opt_net p, rest]) = length out"
    by (simp_all add: out ls iv)
  have offs: "12 + IVLEN = 24" "(24 :: nat) + TAGLEN = 40" "unat protocolSpecificAddLen = 4"
    "unat protocolSpecificExtraDataLen = 0" by (simp_all add: packet_consts)
  have "composePacket pl (opt_host p) (opt_host a) (opt_host e) gs nonce iv out
      = Some (?bytes, opt_netblock p, opt_netblock a, opt_netblock e)"
    unfolding composePacket_def Let_def offs out pl'
    by (simp only: packet_lens.simps packet_consts ue stores(1-7) net prod.case bind.bind_lunit
        add_0_right c8 [OF lens(1)] stores(8) c9 [OF lens(2)] stores(9) c10 [OF lens(3)] stores(10) result diff_0_right)
  then show ?thesis using ls len by (intro exI [of _ ot] exI [of _ rest]) simp
qed

section \<open>Printing keeps a packet\<close>

lemma print_section_opt:
  assumes "p = length pre" "length (opt_net x) < 2 ^ 31" "nonempty_arg x"
  shows "\<exists>out. print_section (pre @ opt_net x @ post) p (of_nat (length (opt_net x))) True scheme
    = Some (out, pre @ opt_net x @ post)"
proof (cases x)
  case None
  then show ?thesis by (simp add: print_section_def opt_net_def)
next
  case (Some y)
  then obtain lim es junk where y: "x = Some (lim, es, junk)" by (cases y) auto
  then have net: "opt_net x = pck_net lim es" "es \<noteq> []" "pck_len es < 2 ^ 31"
    using assms by (simp_all add: opt_net_def nonempty_arg_def)
  then have "(of_nat (length (opt_net x)) :: u32) \<noteq> 0"
    using u32_of_nat_eq [of "pck_len es" 0] by (simp add: pck_len_def)
  then show ?thesis
    using printPckData_serialised [OF net(3) assms(1), of lim post scheme] net
    by (simp add: print_section_def)
qed

lemma packet_header:
  assumes "length iv = 12" "length tag = 16"
    and "44 + length extra + length add + length enc < 2 ^ 31"
  shows "load32 (packet_bytes iv tag extra add enc @ rest) 0
      = Some (htonl (of_nat (44 + length extra + length add + length enc)))"
    and "load32 (packet_bytes iv tag extra add enc @ rest) 4 = Some (htonl (of_nat (4 + length add)))"
    and "load32 (packet_bytes iv tag extra add enc @ rest) 8 = Some (htonl (of_nat (length extra)))"
    and "load_bytes (packet_bytes iv tag extra add enc @ rest) 12 12 = Some iv"
    and "load_bytes (packet_bytes iv tag extra add enc @ rest) 24 16 = Some tag"
    and "load_bytes (packet_bytes iv tag extra add enc @ rest) (40 + length extra) 4 = Some (be32 0)"
    and "load_bytes (packet_bytes iv tag extra add enc @ rest) (40 + length extra + (4 + length add)) (length enc)
      = Some enc"
proof -
  let ?n = "44 + length extra + length add + length enc"
  let ?f = "[be32 (of_nat ?n), be32 (of_nat (4 + length add)), be32 (of_nat (length extra)), iv, tag, extra,
    be32 0, add, enc, rest]"
  have b: "packet_bytes iv tag extra add enc @ rest = concat ?f"
    by (simp add: packet_bytes_def packet_fields_def)
  note l = assms(1,2)
  show "load32 (packet_bytes iv tag extra add enc @ rest) 0 = Some (htonl (of_nat ?n))"
    unfolding b by (rule load32_field [where i = 0]) (simp_all add: be32_def)
  show "load32 (packet_bytes iv tag extra add enc @ rest) 4 = Some (htonl (of_nat (4 + length add)))"
    unfolding b by (rule load32_field [where i = 1]) (simp_all add: be32_def)
  show "load32 (packet_bytes iv tag extra add enc @ rest) 8 = Some (htonl (of_nat (length extra)))"
    unfolding b by (rule load32_field [where i = 2]) (simp_all add: be32_def)
  show "load_bytes (packet_bytes iv tag extra add enc @ rest) 12 12 = Some iv"
    unfolding b by (rule load_field [where i = 3]) (simp_all add: l)
  show "load_bytes (packet_bytes iv tag extra add enc @ rest) 24 16 = Some tag"
    unfolding b by (rule load_field [where i = 4]) (simp_all add: l)
  show "load_bytes (packet_bytes iv tag extra add enc @ rest) (40 + length extra) 4 = Some (be32 0)"
    unfolding b by (rule load_field [where i = 6]) (simp_all add: l)
  show "load_bytes (packet_bytes iv tag extra add enc @ rest) (40 + length extra + (4 + length add)) (length enc)
      = Some enc"
    unfolding b by (rule load_field [where i = 8]) (simp_all add: l)
qed

lemma packet_unat:
  assumes "44 + x + y + z < (2 :: nat) ^ 31"
  shows "unat (of_nat x :: u32) = x" "unat (of_nat (4 + y) :: u32) = 4 + y"
    "unat (of_nat (44 + x + y + z) - (4 + 4 + 4 + of_nat IVLEN + of_nat TAGLEN + of_nat x + of_nat (4 + y)) :: u32) = z"
proof -
  show "unat (of_nat x :: u32) = x" "unat (of_nat (4 + y) :: u32) = 4 + y"
    using assms by (simp_all del: of_nat_add)
  have "of_nat (44 + x + y + z) - (4 + 4 + 4 + of_nat IVLEN + of_nat TAGLEN + of_nat x + of_nat (4 + y)) = (of_nat z :: u32)"
    by (simp add: packet_consts)
  moreover have "unat (of_nat z :: u32) = z" using assms by (intro unat_u32_of_nat) simp
  ultimately show "unat (of_nat (44 + x + y + z) - (4 + 4 + 4 + of_nat IVLEN + of_nat TAGLEN + of_nat x + of_nat (4 + y)) :: u32) = z"
    by (simp only:)
qed

lemma printMessage_packet:
  assumes iv: "length iv = 12" and tag: "length tag = 16"
    and small: "44 + length (opt_net e) + length (opt_net a) + length enc < 2 ^ 31"
    and ne: "nonempty_arg e" "nonempty_arg a"
  shows "\<exists>out. printMessage (packet_bytes iv tag (opt_net e) (opt_net a) enc @ rest) True True
    = Some (out, packet_bytes iv tag (opt_net e) (opt_net a) enc @ rest)"
    and "\<lbrakk>enc = plain_part nonce gs (opt_net p); nonempty_arg p\<rbrakk> \<Longrightarrow>
      \<exists>out. printMessage (packet_bytes iv tag (opt_net e) (opt_net a) enc @ rest) False True
        = Some (out, packet_bytes iv tag (opt_net e) (opt_net a) enc @ rest)"
proof -
  let ?m = "packet_bytes iv tag (opt_net e) (opt_net a) enc @ rest"
  let ?E = "length (opt_net e)" and ?A = "length (opt_net a)"
  note h = packet_header [OF iv tag small, of rest]
  note u = packet_unat [OF small]
  let ?hd = "concat [be32 (of_nat (44 + ?E + ?A + length enc)), be32 (of_nat (4 + ?A)), be32 (of_nat ?E), iv, tag]"
  have b1: "?m = ?hd @ opt_net e @ (be32 0 @ opt_net a @ enc @ rest)"
    by (simp add: packet_bytes_def packet_fields_def)
  have b2: "?m = (?hd @ opt_net e @ be32 0) @ opt_net a @ (enc @ rest)"
    by (simp add: packet_bytes_def packet_fields_def)
  have "length ?hd = 40" by (simp add: iv tag)
  then obtain hdr where hdr: "load_bytes ?m 0 40 = Some hdr"
    by (simp add: b1 load_bytes_def)
  have z: "load_bytes ?m 40 0 = Some []"
    using \<open>length ?hd = 40\<close> by (simp add: b1 load_bytes_def)
  obtain o2 where o2: "print_section ?m 40 (of_nat ?E) True 2 = Some (o2, ?m)"
    using print_section_opt [of 40 ?hd e "be32 0 @ opt_net a @ enc @ rest" 2] small ne(1)
      \<open>length ?hd = 40\<close> unfolding b1 by auto
  obtain o1 where o1: "print_section ?m (40 + ?E + 4) (of_nat ?A) True 1 = Some (o1, ?m)"
    using print_section_opt [of "40 + ?E + 4" "?hd @ opt_net e @ be32 0" a "enc @ rest" 1] small ne(2)
      \<open>length ?hd = 40\<close> unfolding b2 by auto
  have offs: "12 + IVLEN + TAGLEN = 40" "unat protocolSpecificAddLen = 4"
    "unat protocolSpecificExtraDataLen = 0" "unat protocolSpecificEncryptedDataLen = 8"
    by (simp_all add: packet_consts)
  have sub: "of_nat (4 + ?A) - protocolSpecificAddLen = (of_nat ?A :: u32)"
    by (simp add: packet_consts)
  show "\<exists>out. printMessage ?m True True = Some (out, ?m)"
    unfolding printMessage_def Let_def offs
    by (simp only: hdr h if_True prod.case ntohl_htonl u z o2 o1 sub bind.bind_lunit add_0_right
        protocolSpecificExtraDataLen_def diff_0_right) simp
  show "\<exists>out. printMessage ?m False True = Some (out, ?m)"
    if enc: "enc = plain_part nonce gs (opt_net p)" and p: "nonempty_arg p"
  proof -
    have le: "length enc = 8 + length (opt_net p)" by (simp add: enc plain_part_def)
    have b3: "?m = (?hd @ opt_net e @ be32 0 @ opt_net a @ be32 nonce @ be32 gs) @ opt_net p @ rest"
      by (simp add: packet_bytes_def packet_fields_def enc plain_part_def)
    obtain e2 where e2: "print_section ?m (40 + ?E + (4 + ?A) + 8) (of_nat (length (opt_net p))) True 0 = Some (e2, ?m)"
      using print_section_opt [of "40 + ?E + (4 + ?A) + 8" "?hd @ opt_net e @ be32 0 @ opt_net a @ be32 nonce @ be32 gs" p rest 0]
        small le p \<open>length ?hd = 40\<close> unfolding b3 by auto
    have e1: "\<exists>x. load_bytes ?m (40 + ?E + (4 + ?A)) 8 = Some x"
      using \<open>length ?hd = 40\<close> by (simp add: b3 load_bytes_def)
    have sub': "of_nat (44 + ?E + ?A + length enc) - (4 + 4 + 4 + of_nat IVLEN + of_nat TAGLEN + of_nat ?E + of_nat (4 + ?A))
        - protocolSpecificEncryptedDataLen = (of_nat (length (opt_net p)) :: u32)"
      by (simp add: packet_consts le)
    from e1 obtain x where x: "load_bytes ?m (40 + ?E + (4 + ?A)) 8 = Some x" ..
    show ?thesis
      unfolding printMessage_def Let_def offs
      by (simp only: hdr h if_True if_False prod.case ntohl_htonl u z o2 o1 sub sub' x e2 bind.bind_lunit add_0_right
          protocolSpecificExtraDataLen_def diff_0_right) simp
  qed
qed

section \<open>An encrypted packet has the layout\<close>

lemma packet_replace:
  assumes "length iv = 12" "length tag = 16" "length t = 16" "length c = length enc"
  shows "store_bytes (packet_bytes iv tag extra add enc @ rest) (40 + length extra + (4 + length add)) c
      = Some (packet_bytes iv tag extra add c @ rest)"
    and "store_bytes (packet_bytes iv tag extra add enc @ rest) 24 t = Some (packet_bytes iv t extra add enc @ rest)"
    and "load_bytes (packet_bytes iv tag extra add enc @ rest) (40 + length extra) (4 + length add)
      = Some (be32 0 @ add)"
proof -
  let ?h = "[be32 (of_nat (44 + length extra + length add + length enc)), be32 (of_nat (4 + length add)),
    be32 (of_nat (length extra)), iv]"
  have b: "packet_bytes iv tag extra add enc @ rest = concat (?h @ [tag, extra, be32 0, add, enc, rest])"
    by (simp add: packet_bytes_def packet_fields_def)
  have b': "packet_bytes iv tag extra add enc @ rest = concat (?h @ [tag, extra, be32 0 @ add, enc, rest])"
    by (simp add: packet_bytes_def packet_fields_def)
  have c: "packet_bytes iv tag extra add c @ rest = concat (?h @ [tag, extra, be32 0, add, c, rest])"
    "packet_bytes iv t extra add enc @ rest = concat (?h @ [t, extra, be32 0, add, enc, rest])"
    by (simp_all add: packet_bytes_def packet_fields_def assms)
  show "store_bytes (packet_bytes iv tag extra add enc @ rest) (40 + length extra + (4 + length add)) c
      = Some (packet_bytes iv tag extra add c @ rest)"
    unfolding b c by (rule store_field [where i = 8]) (simp_all add: assms)
  show "store_bytes (packet_bytes iv tag extra add enc @ rest) 24 t = Some (packet_bytes iv t extra add enc @ rest)"
    unfolding b c by (rule store_field [where i = 4]) (simp_all add: assms)
  show "load_bytes (packet_bytes iv tag extra add enc @ rest) (40 + length extra) (4 + length add) = Some (be32 0 @ add)"
    unfolding b' by (rule load_field [where i = 6]) (simp_all add: assms)
qed

definition packet_ok :: "pck_arg \<Rightarrow> pck_arg \<Rightarrow> pck_arg \<Rightarrow> byte list \<Rightarrow> bool" where
  "packet_ok p a e iv \<longleftrightarrow> nonempty_arg p \<and> nonempty_arg a \<and> nonempty_arg e \<and> length iv = 12
     \<and> 44 + length (opt_net e) + length (opt_net a) + 8 + length (opt_net p) < 2 ^ 31"

definition packet_size :: "pck_arg \<Rightarrow> pck_arg \<Rightarrow> pck_arg \<Rightarrow> nat" where
  "packet_size p a e = 44 + length (opt_net e) + length (opt_net a) + (8 + length (opt_net p))"

lemma length_packet_bytes [simp]:
  "length iv = 12 \<Longrightarrow> length tag = 16 \<Longrightarrow>
     length (packet_bytes iv tag extra add enc) = 44 + length extra + length add + length enc"
  by (simp add: packet_bytes_def packet_fields_def)

lemma packet_aead_sizes:
  "packet_ok p a e iv \<Longrightarrow> aead_sizes iv (be32 0 @ opt_net a) (length (plain_part nonce gs (opt_net p)))"
  by (simp add: packet_ok_def aead_sizes_def plain_part_def)

lemma encryptPckData_layout:
  assumes key: "gcm_keyed k" and ok: "packet_ok p a e iv"
    and room: "packet_size p a e \<le> length out"
  shows "\<exists>k' c t rest. encryptGcm k (plain_part nonce gs (opt_net p)) iv (be32 0 @ opt_net a) 16 0 = (0, k', c, t)
    \<and> length c = 8 + length (opt_net p) \<and> length t = 16 \<and> same_key k k'
    \<and> encryptPckData (Some k) (opt_host p) (opt_host a) (opt_host e) gs nonce iv out
      = Some (int (packet_size p a e), Some k', packet_bytes iv t (opt_net e) (opt_net a) c @ rest,
              opt_netblock a, opt_netblock e)
    \<and> length rest = length out - packet_size p a e"
proof -
  let ?E = "length (opt_net e)" and ?A = "length (opt_net a)" and ?P = "length (opt_net p)"
  let ?pl = "plain_part nonce gs (opt_net p)"
  have lpl: "length ?pl = 8 + ?P" by (simp add: plain_part_def)
  have iv: "length iv = 12" and small: "44 + ?E + ?A + 8 + ?P < 2 ^ 31"
    and ne: "nonempty_arg e" "nonempty_arg a" "nonempty_arg p"
    using ok by (auto simp: packet_ok_def)
  have small': "44 + ?E + ?A + length ?pl < 2 ^ 31" using small by (simp add: lpl)
  note pl = packet_lengths_host [OF small]
  have "44 + ?E + ?A + 8 + ?P \<le> length out" using room by (simp add: packet_size_def)
  from composePacket_layout [OF small this iv pl, of nonce gs]
  obtain tag rest where tag: "length tag = 16" and comp:
    "composePacket \<lparr>pl_msg = of_nat (44 + ?E + ?A + (8 + ?P)), pl_add = of_nat (4 + ?A), pl_extra = of_nat ?E,
        pl_pck = of_nat ?P\<rparr> (opt_host p) (opt_host a) (opt_host e) gs nonce iv out
      = Some (packet_bytes iv tag (opt_net e) (opt_net a) ?pl @ rest, opt_netblock p, opt_netblock a, opt_netblock e)"
    and lr: "length (packet_bytes iv tag (opt_net e) (opt_net a) ?pl @ rest) = length out"
    by blast
  obtain k' c t where enc: "encryptGcm k ?pl iv (be32 0 @ opt_net a) 16 0 = (0, k', c, t)"
    "length c = length ?pl" "length t = 16" "same_key k k'"
    using gcm.seal_total [OF key packet_aead_sizes [OF ok]] by blast
  obtain o1 where p1: "printMessage (packet_bytes iv tag (opt_net e) (opt_net a) ?pl @ rest) False True
      = Some (o1, packet_bytes iv tag (opt_net e) (opt_net a) ?pl @ rest)"
    using printMessage_packet(2) [OF iv tag small' ne(1,2) refl ne(3)] by blast
  have small'': "44 + ?E + ?A + length c < 2 ^ 31" using small' enc(2) by simp
  obtain o2 where p2: "printMessage (packet_bytes iv t (opt_net e) (opt_net a) c @ rest) True True
      = Some (o2, packet_bytes iv t (opt_net e) (opt_net a) c @ rest)"
    using printMessage_packet(1) [OF iv enc(3) small'' ne(1,2)] by blast
  note u = packet_unat [OF small']
  have up: "unat (4 + 4 + of_nat ?P :: u32) = 8 + ?P"
  proof -
    have "unat (of_nat (8 + ?P) :: u32) = 8 + ?P" using small by (intro unat_u32_of_nat) simp
    then show ?thesis by simp
  qed
  have ret: "to_int32 (uint (of_nat (44 + ?E + ?A + (8 + ?P)) :: u32)) = int (packet_size p a e)"
  proof -
    have "uint (of_nat (44 + ?E + ?A + (8 + ?P)) :: u32) = int (44 + ?E + ?A + (8 + ?P))"
      using small by (simp add: uint_nat unat_of_nat del: of_nat_add)
    then show ?thesis using small by (simp add: packet_size_def)
  qed
  note ld = packet_header(4,7) [OF iv tag small', of rest, unfolded lpl]
    packet_replace(3) [OF iv tag enc(3,2), of "opt_net e" "opt_net a" rest]
  note st = packet_replace(1) [OF iv tag enc(3,2), of "opt_net e" "opt_net a" rest]
    packet_replace(2) [OF iv tag enc(3) refl, of "opt_net e" "opt_net a" c rest]
  have offs: "IVLEN = 12" "TAGLEN = 16" and sums: "24 + 16 = (40 :: nat)" "12 + 12 = (24 :: nat)"
    by (simp_all add: packet_consts)
  have "encryptPckData (Some k) (opt_host p) (opt_host a) (opt_host e) gs nonce iv out
      = Some (int (packet_size p a e), Some k', packet_bytes iv t (opt_net e) (opt_net a) c @ rest,
              opt_netblock a, opt_netblock e)"
    unfolding encryptPckData_def Let_def offs
    by (simp only: pl comp p1 p2 bind.bind_lunit prod.case option.case packet_lens.simps u(1,2) up ld enc(1) st ret
        sums if_False HOL.simp_thms)
  then show ?thesis
    using enc lpl lr iv tag by (intro exI conjI) (auto simp: packet_size_def)
qed

text \<open>Without a context the packet is the plaintext one, with whatever bytes the tag field had.\<close>

lemma encryptPckData_plain:
  assumes ok: "packet_ok p a e iv" and room: "packet_size p a e \<le> length out"
  shows "\<exists>tag rest. encryptPckData None (opt_host p) (opt_host a) (opt_host e) gs nonce iv out
      = Some (int (packet_size p a e), None,
              packet_bytes iv tag (opt_net e) (opt_net a) (plain_part nonce gs (opt_net p)) @ rest,
              opt_netblock a, opt_netblock e)
    \<and> length tag = 16 \<and> length rest = length out - packet_size p a e"
proof -
  let ?E = "length (opt_net e)" and ?A = "length (opt_net a)" and ?P = "length (opt_net p)"
  let ?pl = "plain_part nonce gs (opt_net p)"
  have lpl: "length ?pl = 8 + ?P" by (simp add: plain_part_def)
  have iv: "length iv = 12" and small: "44 + ?E + ?A + 8 + ?P < 2 ^ 31"
    and ne: "nonempty_arg e" "nonempty_arg a" "nonempty_arg p"
    using ok by (auto simp: packet_ok_def)
  have small': "44 + ?E + ?A + length ?pl < 2 ^ 31" using small by (simp add: lpl)
  note pl = packet_lengths_host [OF small]
  have "44 + ?E + ?A + 8 + ?P \<le> length out" using room by (simp add: packet_size_def)
  from composePacket_layout [OF small this iv pl, of nonce gs]
  obtain tag rest where tag: "length tag = 16" and comp:
    "composePacket \<lparr>pl_msg = of_nat (44 + ?E + ?A + (8 + ?P)), pl_add = of_nat (4 + ?A), pl_extra = of_nat ?E,
        pl_pck = of_nat ?P\<rparr> (opt_host p) (opt_host a) (opt_host e) gs nonce iv out
      = Some (packet_bytes iv tag (opt_net e) (opt_net a) ?pl @ rest, opt_netblock p, opt_netblock a, opt_netblock e)"
    and lr: "length (packet_bytes iv tag (opt_net e) (opt_net a) ?pl @ rest) = length out"
    by blast
  obtain o1 where p1: "printMessage (packet_bytes iv tag (opt_net e) (opt_net a) ?pl @ rest) False True
      = Some (o1, packet_bytes iv tag (opt_net e) (opt_net a) ?pl @ rest)"
    using printMessage_packet(2) [OF iv tag small' ne(1,2) refl ne(3)] by blast
  obtain o2 where p2: "printMessage (packet_bytes iv tag (opt_net e) (opt_net a) ?pl @ rest) True True
      = Some (o2, packet_bytes iv tag (opt_net e) (opt_net a) ?pl @ rest)"
    using printMessage_packet(1) [OF iv tag small' ne(1,2)] by blast
  have ret: "to_int32 (uint (of_nat (44 + ?E + ?A + (8 + ?P)) :: u32)) = int (packet_size p a e)"
  proof -
    have "uint (of_nat (44 + ?E + ?A + (8 + ?P)) :: u32) = int (44 + ?E + ?A + (8 + ?P))"
      using small by (simp add: uint_nat unat_of_nat del: of_nat_add)
    then show ?thesis using small by (simp add: packet_size_def)
  qed
  have "encryptPckData None (opt_host p) (opt_host a) (opt_host e) gs nonce iv out
      = Some (int (packet_size p a e), None, packet_bytes iv tag (opt_net e) (opt_net a) ?pl @ rest,
              opt_netblock a, opt_netblock e)"
    unfolding encryptPckData_def Let_def
    by (simp only: pl comp p1 p2 bind.bind_lunit prod.case option.case packet_lens.simps ret if_False HOL.simp_thms)
  then show ?thesis
    using lpl lr iv tag by (intro exI conjI) (auto simp: packet_size_def)
qed

section \<open>Decrypting gives the packet in host order\<close>

definition host_packet :: "byte list \<Rightarrow> byte list \<Rightarrow> pck_arg \<Rightarrow> u32 \<Rightarrow> u32 \<Rightarrow> pck_arg \<Rightarrow> byte list" where
  "host_packet iv tag a nonce gs p =
     concat [bytes_of_u32 (of_nat (packet_size p a None)), bytes_of_u32 (of_nat (4 + length (opt_net a))),
       bytes_of_u32 0, iv, tag, bytes_of_u32 0, opt_hostbytes a,
       bytes_of_u32 nonce, bytes_of_u32 gs, opt_hostbytes p]"

lemma opt_net_None [simp]: "opt_net None = []"
  by (simp add: opt_net_def)

lemma opt_host_None [simp]: "opt_host None = None"
  by (simp add: opt_host_def)

lemma toHost_opt:
  assumes "p = length pre" "length (opt_net x) < 2 ^ 31"
  shows "(if (of_nat (length (opt_net x)) :: u32) > 0
      then map_option (the \<circ> snd) (pckDataToHostOrder (Some (pre @ opt_net x @ post)) p)
      else Some (pre @ opt_net x @ post)) = Some (pre @ opt_hostbytes x @ post)"
proof (cases x)
  case None
  then show ?thesis by (simp add: opt_hostbytes_def)
next
  case (Some y)
  then obtain lim es junk where y: "x = Some (lim, es, junk)" by (cases y) auto
  then have net: "opt_net x = pck_net lim es" "opt_hostbytes x = pck_host lim es" "pck_len es < 2 ^ 32"
    using assms by (simp_all add: opt_net_def opt_hostbytes_def)
  have "(of_nat (length (opt_net x)) :: u32) > 0"
    using u32_less_of_nat [of 0 "pck_len es"] net(3) by (simp add: net(1) pck_len_def)
  then show ?thesis
    using toHost_pck [OF net(3) assms(1), of lim post] by (simp add: net)
qed

lemma plain_to_host:
  fixes nonce gs :: u32 and o1 :: "byte list"
  assumes "length (opt_net p) < 2 ^ 31"
  shows "load32 (plain_part nonce gs (opt_net p) @ o1) 0 = Some (htonl nonce)"
    and "store32 (plain_part nonce gs (opt_net p) @ o1) 0 nonce = Some (concat [bytes_of_u32 nonce, be32 gs, opt_net p, o1])"
    and "load32 (concat [bytes_of_u32 nonce, be32 gs, opt_net p, o1]) 4 = Some (htonl gs)"
    and "store32 (concat [bytes_of_u32 nonce, be32 gs, opt_net p, o1]) 4 gs
      = Some ((bytes_of_u32 nonce @ bytes_of_u32 gs) @ opt_net p @ o1)"
    and "load_bytes ((bytes_of_u32 nonce @ bytes_of_u32 gs) @ opt_hostbytes p @ o1) 0 (8 + length (opt_net p))
      = Some (bytes_of_u32 nonce @ bytes_of_u32 gs @ opt_hostbytes p)"
proof -
  show "load32 (plain_part nonce gs (opt_net p) @ o1) 0 = Some (htonl nonce)"
    "store32 (plain_part nonce gs (opt_net p) @ o1) 0 nonce = Some (concat [bytes_of_u32 nonce, be32 gs, opt_net p, o1])"
    by (simp_all add: plain_part_def be32_def mem_simps)
  show "load32 (concat [bytes_of_u32 nonce, be32 gs, opt_net p, o1]) 4 = Some (htonl gs)"
    by (rule load32_field [where i = 1]) (simp_all add: be32_def)
  show "store32 (concat [bytes_of_u32 nonce, be32 gs, opt_net p, o1]) 4 gs
      = Some ((bytes_of_u32 nonce @ bytes_of_u32 gs) @ opt_net p @ o1)"
    using store32_field [of 1 "[bytes_of_u32 nonce, be32 gs, opt_net p, o1]" 4 _ gs] by simp
  show "load_bytes ((bytes_of_u32 nonce @ bytes_of_u32 gs) @ opt_hostbytes p @ o1) 0 (8 + length (opt_net p))
      = Some (bytes_of_u32 nonce @ bytes_of_u32 gs @ opt_hostbytes p)"
    using load_bytes_first [of "8 + length (opt_net p)" "bytes_of_u32 nonce @ bytes_of_u32 gs @ opt_hostbytes p" o1] by simp
qed

text \<open>The four words of a header that the reader turns to host order.\<close>

lemma header_to_host:
  fixes tot add extra :: u32
  assumes "length iv = 12" "length t = 16"
  shows "load32 (concat (be32 tot # be32 add # be32 extra # iv # t # be32 0 # T)) 0 = Some (htonl tot)"
    and "store32 (concat (be32 tot # be32 add # be32 extra # iv # t # be32 0 # T)) 0 tot
      = Some (concat (bytes_of_u32 tot # be32 add # be32 extra # iv # t # be32 0 # T))"
    and "load32 (concat (bytes_of_u32 tot # be32 add # be32 extra # iv # t # be32 0 # T)) 4 = Some (htonl add)"
    and "store32 (concat (bytes_of_u32 tot # be32 add # be32 extra # iv # t # be32 0 # T)) 4 add
      = Some (concat (bytes_of_u32 tot # bytes_of_u32 add # be32 extra # iv # t # be32 0 # T))"
    and "load32 (concat (bytes_of_u32 tot # bytes_of_u32 add # be32 extra # iv # t # be32 0 # T)) 8 = Some (htonl extra)"
    and "store32 (concat (bytes_of_u32 tot # bytes_of_u32 add # be32 extra # iv # t # be32 0 # T)) 8 extra
      = Some (concat (bytes_of_u32 tot # bytes_of_u32 add # bytes_of_u32 extra # iv # t # be32 0 # T))"
    and "load32 (concat (bytes_of_u32 tot # bytes_of_u32 add # bytes_of_u32 extra # iv # t # be32 0 # T)) 40 = Some (htonl 0)"
    and "store32 (concat (bytes_of_u32 tot # bytes_of_u32 add # bytes_of_u32 extra # iv # t # be32 0 # T)) 40 0
      = Some (concat (bytes_of_u32 tot # bytes_of_u32 add # bytes_of_u32 extra # iv # t # bytes_of_u32 0 # T))"
  by (rule load32_field [where i = 0] store32_field [where i = 0] load32_field [where i = 1] store32_field [where i = 1]
      load32_field [where i = 2] store32_field [where i = 2] load32_field [where i = 5] store32_field [where i = 5];
    simp add: be32_def assms; fail)+

lemma decryptPckData_layout:
  assumes key: "gcm_keyed k" "same_key k l" and ok: "packet_ok p a None iv"
    and enc: "encryptGcm k (plain_part nonce gs (opt_net p)) iv (be32 0 @ opt_net a) 16 0 = (0, k', c, t)"
    and out: "8 + length (opt_net p) \<le> length out"
  shows "\<exists>l' out'. decryptPckData l (packet_bytes iv t [] (opt_net a) c @ rest) out
    = Some (0, l', host_packet iv t a nonce gs p @ rest, out') \<and> same_key k l'
    \<and> load32 out' 0 = Some nonce \<and> length out' = length out
    \<and> take (8 + length (opt_net p)) out' = bytes_of_u32 nonce @ bytes_of_u32 gs @ opt_hostbytes p"
proof -
  let ?A = "length (opt_net a)" and ?P = "length (opt_net p)"
  let ?pl = "plain_part nonce gs (opt_net p)"
  have lpl: "length ?pl = 8 + ?P" by (simp add: plain_part_def)
  have iv: "length iv = 12" and small: "44 + ?A + 8 + ?P < 2 ^ 31"
    using ok by (auto simp: packet_ok_def)
  have lc: "length c = 8 + ?P" and lt: "length t = 16"
    using gcm.seal_total [OF key(1) packet_aead_sizes [OF ok, of nonce gs]] enc lpl by auto
  obtain l' where dec: "decryptGcm l c iv (be32 0 @ opt_net a) t 0 = (0, l', ?pl)" "same_key k l'"
    using gcm.unseal_seal [OF key packet_aead_sizes [OF ok] enc] by blast
  let ?m = "packet_bytes iv t [] (opt_net a) c @ rest"
  have small': "44 + length [] + ?A + length c < 2 ^ 31" using small by (simp add: lc)
  note hd = packet_header [OF iv lt small', of rest, unfolded list.size lc add_0_right]
  note ad = packet_replace(3) [OF iv lt lt refl, of "[]" "opt_net a" c rest, unfolded list.size add_0_right]
  let ?tot = "of_nat (44 + ?A + (8 + ?P)) :: u32"
  have u: "unat (of_nat (4 + ?A) :: u32) = 4 + ?A" "unat (of_nat 0 :: u32) = 0"
    using small by (simp_all del: of_nat_add)
  have ed: "?tot - (4 + 4 + 4 + of_nat IVLEN + of_nat TAGLEN + of_nat (4 + ?A)) = of_nat (8 + ?P)"
    by (simp add: packet_consts)
  have ued: "unat (of_nat (8 + ?P) :: u32) = 8 + ?P"
    using small by (intro unat_u32_of_nat) simp
  have gt: "(of_nat (8 + ?P) > protocolSpecificEncryptedDataLen) = ((of_nat ?P :: u32) > 0)"
    using small u32_less_of_nat [of 8 "8 + ?P"] u32_less_of_nat [of 0 ?P]
    by (simp add: packet_consts del: of_nat_add)
  have ga: "of_nat (4 + ?A) - protocolSpecificAddLen = (of_nat ?A :: u32)"
    by (simp add: packet_consts)
  have bf: "4 + 4 + 4 + of_nat IVLEN + of_nat TAGLEN + of_nat 0 + of_nat (4 + ?A) = (of_nat (44 + ?A) :: u32)"
    by (simp add: packet_consts)
  have ubf: "unat (of_nat (44 + ?A) :: u32) = 44 + ?A" "?tot - of_nat (44 + ?A) = of_nat (8 + ?P)"
    using small by (simp_all del: of_nat_add) simp
  have "?A < 2 ^ 31" "?P < 2 ^ 31" using small by simp_all
  define o1 where "o1 = drop (8 + ?P) out"
  have w0: "store_bytes out 0 ?pl = Some (?pl @ o1)"
    using out lpl by (simp add: store_bytes_def o1_def)
  let ?hp = "opt_hostbytes p" and ?ha = "opt_hostbytes a"
  note w1 = plain_to_host [OF \<open>?P < 2 ^ 31\<close>, of nonce gs o1]
  have "unat protocolSpecificEncryptedDataLen = length (bytes_of_u32 nonce @ bytes_of_u32 gs)"
    by (simp add: packet_consts)
  note w4 = toHost_opt [OF this \<open>?P < 2 ^ 31\<close>, of o1]
  let ?src = "bytes_of_u32 nonce @ bytes_of_u32 gs @ ?hp"
  let ?h0 = "be32 ?tot" and ?h1 = "be32 (of_nat (4 + ?A))"
  let ?H = "[?h0, ?h1, be32 (of_nat 0), iv, t, be32 0]"
  have m0: "?m = concat ?H @ opt_net a @ (c @ rest)"
    by (simp add: packet_bytes_def packet_fields_def lc)
  have "unat (4 + (4 :: u32)) = 8" by simp
  have "40 + unat protocolSpecificAddLen = length (concat ?H)"
    by (simp add: packet_consts iv lt)
  note m1 = toHost_opt [OF this \<open>?A < 2 ^ 31\<close>, of "c @ rest", folded m0]
  have m2: "store_bytes (concat ?H @ ?ha @ (c @ rest)) (44 + ?A) ?src
      = Some (concat [?h0, ?h1, be32 (of_nat 0), iv, t, be32 0, ?ha, ?src, rest])"
  proof -
    have "concat ?H @ ?ha @ (c @ rest) = concat [?h0, ?h1, be32 (of_nat 0), iv, t, be32 0, ?ha, c, rest]"
      by simp
    then show ?thesis
      by (simp only:) (rule store_field [where i = 7]; simp add: iv lt lc)
  qed
  note m3 = header_to_host [OF iv lt, of ?tot "of_nat (4 + ?A)" "of_nat 0" "[?ha, ?src, rest]"]
  have m6: "concat [bytes_of_u32 ?tot, bytes_of_u32 (of_nat (4 + ?A)), bytes_of_u32 (of_nat 0), iv, t, bytes_of_u32 0, ?ha, ?src, rest]
      = host_packet iv t a nonce gs p @ rest"
    by (simp add: host_packet_def packet_size_def)
  have offs: "IVLEN = 12" "TAGLEN = 16" and sums: "24 + 16 = (40 :: nat)" "12 + 12 = (24 :: nat)"
    by (simp_all add: packet_consts)
  have nz: "(of_nat (4 + ?A) = (0 :: u32)) = False"
    using small u32_of_nat_eq [of "4 + ?A" 0] by (simp del: of_nat_add u32_of_nat_eq)
  have ne: "(0 < of_nat 0 - protocolSpecificExtraDataLen) = False" by (simp add: packet_consts)
  let ?out = "(bytes_of_u32 nonce @ bytes_of_u32 gs) @ ?hp @ o1"
  have "decryptPckData l ?m out = Some (0, l', host_packet iv t a nonce gs p @ rest, ?out)"
    unfolding decryptPckData_def Let_def
    by (simp only: hd(1-3) option.map ntohl_htonl bind.bind_lunit ed ued u bf ubf gt ga ne nz if_False)
      (simp only: offs sums hd(4-7) ad dec(1) prod.case w0 w1 w4 m1 m2 m3 m6
        option.map bind.bind_lunit ntohl_htonl add_0_right add_0_left HOL.simp_thms if_False)
  moreover have "load32 ?out 0 = Some nonce" by (simp add: mem_simps)
  moreover have "length ?out = length out" using out by (simp add: o1_def)
  moreover have "take (8 + ?P) ?out = ?src" by simp
  ultimately show ?thesis using dec(2) by blast
qed

text \<open>Where the reader of a packet in host order finds the nonce and the container.\<close>

lemma host_packet_nonce:
  assumes "length iv = 12" "length tag = 16"
  shows "load32 (host_packet iv tag a nonce gs p @ rest) (44 + length (opt_net a)) = Some nonce"
proof -
  have "host_packet iv tag a nonce gs p @ rest = concat [bytes_of_u32 (of_nat (packet_size p a None)),
      bytes_of_u32 (of_nat (4 + length (opt_net a))), bytes_of_u32 0, iv, tag, bytes_of_u32 0,
      opt_hostbytes a, bytes_of_u32 nonce, bytes_of_u32 gs, opt_hostbytes p, rest]"
    by (simp add: host_packet_def)
  then show ?thesis
    by (simp only:) (rule load32_field [where i = 7]; simp add: assms)
qed

lemma decryptPckData_wrong_tag:
  assumes key: "gcm_keyed k" "same_key k l" and ok: "packet_ok p a None iv"
    and enc: "encryptGcm k (plain_part nonce gs (opt_net p)) iv (be32 0 @ opt_net a) 16 0 = (0, k', c, t)"
    and t': "length t' = 16" "t' \<noteq> t" and out: "8 + length (opt_net p) \<le> length out"
  shows "\<exists>l' out'. decryptPckData l (packet_bytes iv t' [] (opt_net a) c @ rest) out
    = Some (- 1, l', packet_bytes iv t' [] (opt_net a) c @ rest, out') \<and> load32 out' 0 = Some 0"
proof -
  let ?A = "length (opt_net a)" and ?P = "length (opt_net p)"
  let ?pl = "plain_part nonce gs (opt_net p)"
  have lpl: "length ?pl = 8 + ?P" by (simp add: plain_part_def)
  have iv: "length iv = 12" and small: "44 + ?A + 8 + ?P < 2 ^ 31"
    using ok by (auto simp: packet_ok_def)
  note sz = packet_aead_sizes [OF ok, of nonce gs]
  have lc: "length c = 8 + ?P"
    using gcm.seal_total [OF key(1) sz] enc lpl by auto
  obtain l' where dec: "decryptGcm l c iv (be32 0 @ opt_net a) t' 0 = (1, l', replicate (8 + ?P) 0)"
    using gcm.tampered_tag [OF key sz enc t'] lc by auto
  have small': "44 + length [] + ?A + length c < 2 ^ 31" using small by (simp add: lc)
  note hd = packet_header [OF iv t'(1) small', of rest, unfolded list.size lc add_0_right]
  note ad = packet_replace(3) [OF iv t'(1) t'(1) refl, of "[]" "opt_net a" c rest, unfolded list.size add_0_right]
  have u: "unat (of_nat (4 + ?A) :: u32) = 4 + ?A" "unat (of_nat 0 :: u32) = 0"
    using small by (simp_all del: of_nat_add)
  have ed: "of_nat (44 + ?A + (8 + ?P)) - (4 + 4 + 4 + of_nat IVLEN + of_nat TAGLEN + of_nat (4 + ?A))
      = (of_nat (8 + ?P) :: u32)" by (simp add: packet_consts)
  have ued: "unat (of_nat (8 + ?P) :: u32) = 8 + ?P"
    using small by (intro unat_u32_of_nat) simp
  define o1 where "o1 = replicate (8 + ?P) 0 @ drop (8 + ?P) out"
  have w0: "store_bytes out 0 (replicate (8 + ?P) 0) = Some o1"
    using out by (simp add: store_bytes_def o1_def)
  have "take 4 o1 = bytes_of_u32 0" by (simp add: o1_def bytes_of_u32_def numeral_eq_Suc)
  then have zero: "load32 o1 0 = Some 0" by (simp add: load32_def load_bytes_def o1_def)
  have offs: "IVLEN = 12" "TAGLEN = 16" and sums: "24 + 16 = (40 :: nat)" "12 + 12 = (24 :: nat)"
    by (simp_all add: packet_consts)
  show ?thesis
    unfolding decryptPckData_def Let_def
    by (simp only: hd(1-3) option.map ntohl_htonl bind.bind_lunit ed ued u)
      (simp only: offs sums hd(4-7) ad dec prod.case w0 bind.bind_lunit add_0_right add_0_left HOL.simp_thms, simp add: zero)
qed

text \<open>
  With extra data in the packet the two ends disagree on the layout: the reader computes the
  length of the encrypted part without subtracting the extra data, and looks for the
  authenticated data before it.
\<close>

lemma decryptPckData_extra:
  assumes "length iv = 12" "length t = 16" "extra \<noteq> []"
    "44 + 2 * length extra + length add + length c < 2 ^ 31"
  shows "decryptPckData l (packet_bytes iv t extra add c) out = None"
proof -
  have small: "44 + length extra + length add + length c < 2 ^ 31" using assms(4) by simp
  note hd = packet_header(1-3) [OF assms(1,2) small, of "[]", unfolded append_Nil2]
  note u = packet_unat(1,2) [OF small]
  have ed: "of_nat (44 + length extra + length add + length c) - (4 + 4 + 4 + of_nat IVLEN + of_nat TAGLEN + of_nat (4 + length add))
      = (of_nat (length extra + length c) :: u32)" by (simp add: packet_consts)
  have ued: "unat (of_nat (length extra + length c) :: u32) = length extra + length c"
    using small by (intro unat_u32_of_nat) simp
  have "load_bytes (packet_bytes iv t extra add c) (12 + IVLEN + TAGLEN + (4 + length add) + length extra)
      (length extra + length c) = None"
    using assms by (simp add: load_bytes_def packet_consts)
  then show ?thesis
    unfolding decryptPckData_def Let_def
    by (simp only: hd option.map ntohl_htonl bind.bind_lunit ed ued u bind.bind_lzero)
qed

section \<open>Properties\<close>

text \<open>
  C13. A packet without extra data, whose authenticated and encrypted containers are absent or have
  elements, and which fits its buffers: encrypted with a key it decrypts with any context of that key
  to the same packet in host order: lengths, initialisation vector, tag, version, the caller's
  authenticated container, nonce, settings and the container, whatever follows the packet
  in the receiver's buffer. With extra data there is no such theorem: the two functions do not agree on
  where they are (\<open>extra_data_overruns\<close>).
\<close>

theorem packet_roundtrip:
  assumes "gcm_keyed k" "same_key k l" "packet_ok p a None iv"
    "packet_size p a None \<le> length out" "8 + length (opt_net p) \<le> length out2"
  shows "\<exists>wire t k' rest aN eN. length wire = packet_size p a None
    \<and> encryptPckData (Some k) (opt_host p) (opt_host a) None gs nonce iv out
      = Some (int (packet_size p a None), Some k', wire @ rest, aN, eN)
    \<and> (\<forall>rest'. \<exists>l' out'. decryptPckData l (wire @ rest') out2
          = Some (0, l', host_packet iv t a nonce gs p @ rest', out') \<and> same_key k l')"
proof -
  have host: "opt_host None = None" by (simp add: opt_host_def)
  obtain k' c t rest where e: "encryptGcm k (plain_part nonce gs (opt_net p)) iv (be32 0 @ opt_net a) 16 0 = (0, k', c, t)"
    "length c = 8 + length (opt_net p)" "length t = 16"
    "encryptPckData (Some k) (opt_host p) (opt_host a) None gs nonce iv out
      = Some (int (packet_size p a None), Some k', packet_bytes iv t [] (opt_net a) c @ rest,
              opt_netblock a, opt_netblock None)"
    using encryptPckData_layout [OF assms(1,3,4), of nonce gs] unfolding host opt_net_None by metis
  have "length iv = 12" using assms(3) by (simp add: packet_ok_def)
  then have "length (packet_bytes iv t [] (opt_net a) c) = packet_size p a None"
    using e(2,3) by (simp add: packet_size_def)
  then show ?thesis
    using e(4) decryptPckData_layout [OF assms(1-3) e(1) assms(5)] by blast
qed

definition demo_pck :: pck_arg where
  "demo_pck = Some (255, [[1, 2], [3]], [])"

definition demo_add :: pck_arg where
  "demo_add = Some (255, [replicate 16 9], [])"

lemma demo_packet_ok: "packet_ok demo_pck demo_add None (replicate 12 5)"
  "packet_size demo_pck demo_add None = 99" "8 + length (opt_net demo_pck) = 27"
  by (simp_all add: packet_ok_def demo_pck_def demo_add_def nonempty_arg_def opt_net_def pck_len_def packet_size_def)

theorem packet_roundtrip_witness:
  "\<exists>wire t k' rest aN eN l' out'. length wire = 99
    \<and> encryptPckData (Some demo_ctx) (opt_host demo_pck) (opt_host demo_add) None 7 42 (replicate 12 5) (replicate 255 0)
      = Some (99, Some k', wire @ rest, aN, eN)
    \<and> decryptPckData demo_ctx (wire @ [1, 2, 3]) (replicate 255 0)
      = Some (0, l', host_packet (replicate 12 5) t demo_add 42 7 demo_pck @ [1, 2, 3], out')"
  using packet_roundtrip [OF demo_keyed gcm.same_refl demo_packet_ok(1), where out = "replicate 255 0"
      and ?out2.0 = "replicate 255 0" and nonce = 42 and gs = 7]
  by (simp add: demo_packet_ok) metis

text \<open>
  A packet whose tag was changed is refused with -1 and left as it was received.
\<close>

lemma changed_tag_refused:
  assumes "gcm_keyed k" "same_key k l" "packet_ok p a None iv"
    "encryptGcm k (plain_part nonce gs (opt_net p)) iv (be32 0 @ opt_net a) 16 0 = (0, k', c, t)"
    "length t' = 16" "t' \<noteq> t" "8 + length (opt_net p) \<le> length out"
  shows "\<exists>l' out'. decryptPckData l (packet_bytes iv t' [] (opt_net a) c @ rest) out
    = Some (- 1, l', packet_bytes iv t' [] (opt_net a) c @ rest, out')"
  using decryptPckData_wrong_tag [OF assms] by blast

text \<open>
  Encrypting writes the documented layout: big-endian lengths, initialisation vector,
  tag, extra data, version and authenticated container, and the sealed nonce, settings and
  container; the return value is the length of the packet.
\<close>

lemma encryptPckData_writes_layout:
  assumes "gcm_keyed k" "packet_ok p a e iv" "packet_size p a e \<le> length out"
  shows "\<exists>k' c t rest. encryptGcm k (plain_part nonce gs (opt_net p)) iv (be32 0 @ opt_net a) 16 0 = (0, k', c, t)
    \<and> encryptPckData (Some k) (opt_host p) (opt_host a) (opt_host e) gs nonce iv out
      = Some (int (packet_size p a e), Some k', packet_bytes iv t (opt_net e) (opt_net a) c @ rest,
              opt_netblock a, opt_netblock e)"
  using encryptPckData_layout [OF assms, of nonce gs] by blast

text \<open>
  A packet with extra data cannot be read: in a buffer that ends with the packet, the
  reader takes its encrypted part past the end.
\<close>

lemma extra_data_overruns:
  assumes "length iv = 12" "length t = 16" "extra \<noteq> []"
    "44 + 2 * length extra + length add + length c < 2 ^ 31"
  shows "decryptPckData l (packet_bytes iv t extra add c) out = None"
  using assms by (rule decryptPckData_extra)

end
