(* ===== verification/Session.thy ===== *)
theory Session
  imports Packet ArrayList
begin

text \<open>
  Connections and sessions of \<open>protocol/pckData/pckData.c\<close>: the list of connections with
  \<open>connect1\<close>, \<open>accept1\<close>, \<open>close1\<close> and the look-ups, \<open>sendall\<close>, and \<open>encryptAndSendAll\<close> with
  the session nonce; and the two ends of the session handshake in the server's and the
  node's \<open>processMsg\<close>. A connection list is the typed view of the \<open>arrayList\<close>. What the
  operating system answers (file descriptors, results of \<open>send\<close>, random bytes) are arguments.
\<close>

section \<open>The connection list\<close>

record connInfo_t =
  ci_socket :: int
  connectionType :: byte
  remoteNonce :: u32
  localNonce :: u32
  sessionId :: u32
  sendSessionIncrements :: u32
  rcvSessionIncrements :: u32

type_synonym connInfos = "connInfo_t list"

definition fresh_conn :: "int \<Rightarrow> byte \<Rightarrow> connInfo_t" where
  "fresh_conn sock connType =
     \<lparr>ci_socket = sock, connectionType = connType, remoteNonce = 0, localNonce = 0, sessionId = 0,
      sendSessionIncrements = 0, rcvSessionIncrements = 0\<rparr>"

text \<open>
  \<open>connect1\<close> leaves the connection type as the stack had it. The result of \<open>addToList\<close> is
  ignored, \<open>full\<close> is the answer of the allocator.
\<close>

definition connect1 :: "int \<Rightarrow> byte \<Rightarrow> bool \<Rightarrow> int \<Rightarrow> connInfos \<Rightarrow> int \<times> connInfos" where
  "connect1 connect_result stack_type full sock connInfos =
     (if connect_result = - 1 then (- 1, connInfos)
      else (0, snd (sl_push full connInfos (fresh_conn sock stack_type))))"

definition accept1 :: "int \<Rightarrow> bool \<Rightarrow> connInfos \<Rightarrow> byte \<Rightarrow> int \<times> connInfos" where
  "accept1 newFd full connInfos connType =
     (if newFd = - 1 then (- 1, connInfos)
      else (newFd, snd (sl_push full connInfos (fresh_conn newFd connType))))"

text \<open>The search of all the look-ups; \<open>None\<close> of the result is the pointer NULL.\<close>

definition socket_index :: "connInfos \<Rightarrow> int \<Rightarrow> int option" where
  "socket_index connInfos sock =
     scan_from (sl_get connInfos) (sl_length connInfos) (\<lambda>c. ci_socket c = sock) 0"

definition findConnInfo :: "connInfos \<Rightarrow> int \<Rightarrow> int option option" where
  "findConnInfo connInfos sock = do {
     i \<leftarrow> socket_index connInfos sock;
     Some (if i = - 1 then None else Some i)
   }"

definition getConnInfo :: "connInfos \<Rightarrow> int \<Rightarrow> int option option" where
  "getConnInfo connInfos sock = do {
     i \<leftarrow> socket_index connInfos sock;
     Some (if i = - 1 then None else Some i)
   }"

definition removeConnInfo :: "connInfos \<Rightarrow> int \<Rightarrow> (int \<times> connInfos) option" where
  "removeConnInfo connInfos sock = do {
     i \<leftarrow> socket_index connInfos sock;
     Some (if i = - 1 then (1, connInfos) else (0, snd (sl_delete connInfos i)))
   }"

definition close1 :: "int \<Rightarrow> int \<Rightarrow> connInfos \<Rightarrow> (int \<times> connInfos) option" where
  "close1 close_result sock connInfos =
     (if close_result = - 1 then Some (- 1, connInfos)
      else do {
        i \<leftarrow> socket_index connInfos sock;
        Some (0, if i = - 1 then connInfos else snd (sl_delete connInfos i))
      })"

section \<open>Sending\<close>

text \<open>
  The loop of \<open>sendall\<close> over the results of \<open>send\<close>, which are -1 or a count of at most the
  bytes asked for. The third result is what went out.
\<close>

fun sendall_loop :: "int list \<Rightarrow> byte list \<Rightarrow> int \<Rightarrow> int \<Rightarrow> int \<Rightarrow> int \<Rightarrow> byte list
    \<Rightarrow> (int \<times> byte list \<times> int list) option" where
  "sendall_loop [] buf len tot bytesleft n sent =
     (if tot < len then None else Some (if n = - 1 then - 1 else 0, sent, []))"
| "sendall_loop (r # rs) buf len tot bytesleft n sent =
     (if tot < len then
        if r = - 1 then Some (- 1, sent, rs)
        else if r < 0 \<or> r > bytesleft then None
        else do {
          part \<leftarrow> load_bytes buf (nat tot) (nat r);
          sendall_loop rs buf len (tot + r) (bytesleft - r) r (sent @ part)
        }
      else Some (if n = - 1 then - 1 else 0, sent, r # rs))"

definition sendall :: "int list \<Rightarrow> byte list \<Rightarrow> int \<Rightarrow> (int \<times> byte list \<times> int list) option" where
  "sendall results buf len = sendall_loop results buf len 0 len 0 []"

record send_env =
  se_iv :: "byte list"
  se_rnd :: u32
  se_sends :: "int list"

record send_state =
  ss_ctx :: "gcm_context option"
  ss_buf :: "byte list"
  ss_add :: "byte list option"
  ss_extra :: "byte list option"

text \<open>Composing with a nonce and sending: the lines every branch of \<open>encryptAndSendAll\<close> shares.\<close>

definition compose_and_send ::
    "send_env \<Rightarrow> gcm_context option \<Rightarrow> byte list option \<Rightarrow> byte list option \<Rightarrow> byte list option \<Rightarrow> u32 \<Rightarrow> u32
     \<Rightarrow> byte list \<Rightarrow> (byte list \<times> send_state) option" where
  "compose_and_send env ctx pckData addDataPck extraDataPck pckGSettings nonce outBuf = do {
     (msgLen, ctx, outBuf, addDataPck, extraDataPck) \<leftarrow>
       encryptPckData ctx pckData addDataPck extraDataPck pckGSettings nonce (se_iv env) outBuf;
     (_, sent, _) \<leftarrow> sendall (se_sends env) outBuf msgLen;
     Some (sent, \<lparr>ss_ctx = ctx, ss_buf = outBuf, ss_add = addDataPck, ss_extra = extraDataPck\<rparr>)
   }"

definition encryptAndSendAll ::
    "send_env \<Rightarrow> connInfo_t option \<Rightarrow> gcm_context option \<Rightarrow> byte list option \<Rightarrow> byte list option \<Rightarrow> byte list option
     \<Rightarrow> u32 \<Rightarrow> byte list \<Rightarrow> (int \<times> connInfo_t option \<times> byte list \<times> send_state) option" where
  "encryptAndSendAll env connInfo ctx pckData addDataPck extraDataPck pckGSettings outBuf =
     (case connInfo of
        None \<Rightarrow> do {
          (sent, st) \<leftarrow> compose_and_send env ctx pckData addDataPck extraDataPck pckGSettings 0 outBuf;
          Some (0, None, sent, st)
        }
      | Some c \<Rightarrow>
          if sessionId c \<noteq> 0 then
            let c = c\<lparr>sendSessionIncrements := sendSessionIncrements c + 1\<rparr>;
                currentNonce = htonl (sessionId c + sendSessionIncrements c)
            in do {
              (sent, st) \<leftarrow> compose_and_send env ctx pckData addDataPck extraDataPck pckGSettings currentNonce outBuf;
              Some (0, Some c, sent, st)
            }
          else if localNonce c \<noteq> 0 then
            Some (- 1, Some c, [], \<lparr>ss_ctx = ctx, ss_buf = outBuf, ss_add = addDataPck, ss_extra = extraDataPck\<rparr>)
          else
            let c = c\<lparr>localNonce := se_rnd env\<rparr>;
                c = (if localNonce c = 0 then c\<lparr>localNonce := 1\<rparr> else c)
            in do {
              (sent, st) \<leftarrow> compose_and_send env ctx pckData addDataPck extraDataPck pckGSettings
                              (htonl (localNonce c)) outBuf;
              Some (0, Some c, sent, st)
            })"

section \<open>The two ends of the handshake\<close>

text \<open>
  The node, in \<open>processMsg\<close> with no session yet: the nonce is the first word of the
  decrypted buffer.
\<close>

definition node_establish :: "u32 \<Rightarrow> connInfo_t \<Rightarrow> connInfo_t" where
  "node_establish nonce c =
     (let c = c\<lparr>remoteNonce := nonce\<rparr>;
          c = c\<lparr>localNonce := htonl (localNonce c)\<rparr>
      in c\<lparr>sessionId := localNonce c + remoteNonce c\<rparr>)"

text \<open>
  The server, on the first message of a connection: take the remote nonce, send the own
  one with an empty packet, and add them up; \<open>server_complete\<close> is the other branch, when the
  server had sent its nonce before.
\<close>

definition server_establish ::
    "send_env \<Rightarrow> gcm_context \<Rightarrow> u32 \<Rightarrow> connInfo_t \<Rightarrow> byte list
     \<Rightarrow> (connInfo_t \<times> byte list \<times> send_state) option" where
  "server_establish env ctx nonce c outBuf = do {
     let c = c\<lparr>remoteNonce := nonce\<rparr>;
     (_, c, sent, st) \<leftarrow> encryptAndSendAll env (Some c) (Some ctx) None None None 0 outBuf;
     c \<leftarrow> c;
     let c = c\<lparr>localNonce := ntohl (localNonce c)\<rparr>;
     let c = c\<lparr>sessionId := remoteNonce c + localNonce c\<rparr>;
     Some (c, sent, st)
   }"

definition server_complete :: "u32 \<Rightarrow> connInfo_t \<Rightarrow> connInfo_t" where
  "server_complete nonce c =
     (let c = c\<lparr>remoteNonce := nonce\<rparr> in c\<lparr>sessionId := remoteNonce c + localNonce c\<rparr>)"

section \<open>Looking up connections\<close>

lemma socket_index_eq:
  "socket_index cs sock = Some (case find_index (\<lambda>c. ci_socket c = sock) cs of None \<Rightarrow> - 1 | Some k \<Rightarrow> int k)"
  unfolding socket_index_def by (rule sl.scan_first) simp

text \<open>No two connections on one socket: file descriptors are unique while they are open.\<close>

definition sockets_distinct :: "connInfos \<Rightarrow> bool" where
  "sockets_distinct cs \<longleftrightarrow> distinct (map ci_socket cs)"

lemma find_index_distinct:
  "sockets_distinct cs \<Longrightarrow> i < length cs \<Longrightarrow> find_index (\<lambda>c. ci_socket c = ci_socket (cs ! i)) cs = Some i"
proof (induction cs arbitrary: i)
  case (Cons c cs)
  then show ?case by (cases i) (auto simp: sockets_distinct_def)
qed simp

lemma find_socket_None: "find_index (\<lambda>c. ci_socket c = sock) cs = None \<longleftrightarrow> sock \<notin> ci_socket ` set cs"
  by (auto simp: find_index_None)

lemma distinct_remove_nth:
  assumes "distinct xs" "i < length xs"
  shows "distinct (take i xs @ drop (Suc i) xs) \<and> xs ! i \<notin> set (take i xs @ drop (Suc i) xs)"
proof -
  have "distinct (take i xs @ xs ! i # drop (Suc i) xs)"
    unfolding id_take_nth_drop [OF assms(2), symmetric] by (rule assms(1))
  then show ?thesis by auto
qed

lemma remove_socket:
  assumes "sockets_distinct cs" "find_index (\<lambda>c. ci_socket c = sock) cs = Some i"
  shows "sockets_distinct (take i cs @ drop (Suc i) cs)
    \<and> ci_socket ` set (take i cs @ drop (Suc i) cs) = ci_socket ` set cs - {sock}"
proof -
  have i: "i < length cs" "ci_socket (cs ! i) = sock"
    using find_index_Some [OF assms(2)] by auto
  have d: "distinct (map ci_socket cs)" using assms(1) by (simp add: sockets_distinct_def)
  let ?r = "take i cs @ drop (Suc i) cs"
  have cs: "cs = take i cs @ cs ! i # drop (Suc i) cs" using i by (simp add: id_take_nth_drop)
  have r: "map ci_socket ?r = take i (map ci_socket cs) @ drop (Suc i) (map ci_socket cs)"
    by (simp add: take_map drop_map)
  have notin: "sock \<notin> set (map ci_socket ?r)"
    using distinct_remove_nth [OF d, of i] i unfolding r by simp
  have "sockets_distinct ?r"
    unfolding sockets_distinct_def r using distinct_remove_nth [OF d, of i] i by simp
  have "set (map ci_socket cs) = insert sock (set (map ci_socket ?r))"
    using arg_cong [OF cs, of "\<lambda>x. set (map ci_socket x)"] i(2) by auto
  moreover note \<open>sockets_distinct ?r\<close>
  ultimately show ?thesis using notin by auto
qed

lemma findConnInfo_result:
  "findConnInfo cs sock = Some (map_option int (find_index (\<lambda>c. ci_socket c = sock) cs))"
  by (auto simp: findConnInfo_def socket_index_eq split: option.split)

section \<open>Sending everything\<close>

lemma sendall_loop_result:
  assumes "sendall_loop rs buf len tot bl n sent = Some (r, sent', rs')"
    "0 \<le> tot" "tot \<le> len" "bl = len - tot" "n \<noteq> - 1" "sent = take (nat tot) buf"
    "nat tot \<le> length buf"
  shows "(r = 0 \<and> sent' = take (nat len) buf \<and> nat len \<le> length buf)
    \<or> (r = - 1 \<and> (\<exists>k < nat len. sent' = take k buf))"
  using assms
proof (induction rs buf len tot bl n sent rule: sendall_loop.induct)
  case (1 buf len tot bl n sent)
  then show ?case by (auto split: if_splits)
next
  case (2 x xs buf len tot bl n sent)
  show ?case
  proof (cases "tot < len")
    case True
    show ?thesis
    proof (cases "x = - 1")
      case x: True
      then show ?thesis using True "2.prems" by (auto intro!: exI [of _ "nat tot"])
    next
      case False
      then obtain part where part: "\<not> (x < 0 \<or> x > bl)" "load_bytes buf (nat tot) (nat x) = Some part"
        "sendall_loop xs buf len (tot + x) (bl - x) x (sent @ part) = Some (r, sent', rs')"
        using True "2.prems"(1) by (auto split: if_splits simp: bind_eq_Some_conv)
      then have "part = take (nat x) (drop (nat tot) buf)" "nat tot + nat x \<le> length buf"
        by (auto simp: load_bytes_def split: if_splits)
      moreover have "nat (tot + x) = nat tot + nat x" using part(1) "2.prems"(2) by (simp add: nat_add_distrib)
      ultimately have "sent @ part = take (nat (tot + x)) buf" "nat (tot + x) \<le> length buf"
        using "2.prems"(6) by (simp_all add: take_add)
      then show ?thesis
        using part "2.prems" False True by (intro "2.IH") auto
    qed
  next
    case False
    then show ?thesis using "2.prems" by auto
  qed
qed

text \<open>A length of at most 0, which a failed composition returns, sends nothing.\<close>

lemma sendall_nonpos: "len \<le> 0 \<Longrightarrow> sendall rs buf len = Some (0, [], rs)"
  by (cases rs) (auto simp: sendall_def)

lemma sendall_complete:
  assumes "sendall rs buf len = Some (0, sent, rs')" "0 \<le> len"
  shows "sent = take (nat len) buf \<and> nat len \<le> length buf"
  using assms sendall_loop_result [of rs buf len 0 len 0 "[]" 0 sent rs'] by (auto simp: sendall_def)

text \<open>The answers of \<open>send\<close> that deliver \<open>n\<close> bytes.\<close>

fun delivers :: "int list \<Rightarrow> int \<Rightarrow> bool" where
  "delivers [] n = (n \<le> 0)"
| "delivers (r # rs) n = (n \<le> 0 \<or> (0 \<le> r \<and> r \<le> n \<and> delivers rs (n - r)))"

lemma sendall_loop_delivers:
  assumes "delivers rs bl" "bl = len - tot" "n \<noteq> - 1" "0 \<le> tot" "tot \<le> len" "nat len \<le> length buf"
    "sent = take (nat tot) buf"
  shows "\<exists>rs'. sendall_loop rs buf len tot bl n sent = Some (0, take (nat len) buf, rs')"
  using assms
proof (induction rs buf len tot bl n sent rule: sendall_loop.induct)
  case (2 x xs buf len tot bl n sent)
  show ?case
  proof (cases "tot < len")
    case True
    then have x: "0 \<le> x" "x \<le> bl" "delivers xs (bl - x)" using "2.prems" by auto
    have e: "nat (tot + x) = nat tot + nat x" using x(1) "2.prems"(4) by (simp add: nat_add_distrib)
    have le: "tot + x \<le> len" using x(2) "2.prems"(2) by simp
    have part: "load_bytes buf (nat tot) (nat x) = Some (take (nat x) (drop (nat tot) buf))"
      using e le "2.prems"(6) by (simp add: load_bytes_def)
    have "\<exists>rs'. sendall_loop xs buf len (tot + x) (bl - x) x (sent @ take (nat x) (drop (nat tot) buf))
        = Some (0, take (nat len) buf, rs')"
      using True x "2.prems" e le part by (intro "2.IH") (auto simp: take_add)
    then show ?thesis using True x part by simp
  next
    case False
    then show ?thesis using "2.prems" by auto
  qed
qed auto

lemma sendall_delivers:
  "delivers rs len \<Longrightarrow> 0 \<le> len \<Longrightarrow> nat len \<le> length buf \<Longrightarrow>
     \<exists>rs'. sendall rs buf len = Some (0, take (nat len) buf, rs')"
  unfolding sendall_def by (rule sendall_loop_delivers) auto

section \<open>A sent packet\<close>

definition can_send :: "send_env \<Rightarrow> pck_arg \<Rightarrow> pck_arg \<Rightarrow> byte list \<Rightarrow> bool" where
  "can_send env p a outBuf \<longleftrightarrow> packet_ok p a None (se_iv env) \<and> packet_size p a None \<le> length outBuf
     \<and> delivers (se_sends env) (int (packet_size p a None))"

lemma compose_and_send_packet:
  assumes key: "gcm_keyed k" and env: "can_send env p a outBuf"
  shows "\<exists>k' c t st. encryptGcm k (plain_part nonce gs (opt_net p)) (se_iv env) (be32 0 @ opt_net a) 16 0 = (0, k', c, t)
    \<and> same_key k k' \<and> length t = 16
    \<and> compose_and_send env (Some k) (opt_host p) (opt_host a) None gs nonce outBuf
      = Some (packet_bytes (se_iv env) t [] (opt_net a) c, st) \<and> ss_ctx st = Some k'
    \<and> length (ss_buf st) = length outBuf"
proof -
  have ok: "packet_ok p a None (se_iv env)" and room: "packet_size p a None \<le> length outBuf"
    and del: "delivers (se_sends env) (int (packet_size p a None))"
    using env by (auto simp: can_send_def)
  obtain k' c t rest where e: "encryptGcm k (plain_part nonce gs (opt_net p)) (se_iv env) (be32 0 @ opt_net a) 16 0 = (0, k', c, t)"
    "length c = 8 + length (opt_net p)" "length t = 16" "same_key k k'"
    "encryptPckData (Some k) (opt_host p) (opt_host a) None gs nonce (se_iv env) outBuf
      = Some (int (packet_size p a None), Some k', packet_bytes (se_iv env) t [] (opt_net a) c @ rest,
              opt_netblock a, opt_netblock None)"
    "length rest = length outBuf - packet_size p a None"
    using encryptPckData_layout [OF key ok room, of nonce gs] unfolding opt_host_None opt_net_None by metis
  have len: "length (packet_bytes (se_iv env) t [] (opt_net a) c) = packet_size p a None"
    using ok e(2,3) by (simp add: packet_ok_def packet_size_def)
  obtain rs' where "sendall (se_sends env) (packet_bytes (se_iv env) t [] (opt_net a) c @ rest) (int (packet_size p a None))
      = Some (0, packet_bytes (se_iv env) t [] (opt_net a) c, rs')"
    using sendall_delivers [OF del, of "packet_bytes (se_iv env) t [] (opt_net a) c @ rest"] len by auto
  then show ?thesis using e len room by (auto simp: compose_and_send_def)
qed

section \<open>The handshake\<close>

lemma htonl_add_commute: "htonl x + htonl y = htonl y + htonl x"
  by (rule add.commute)

definition fresh_nonce :: "send_env \<Rightarrow> u32" where
  "fresh_nonce env = (if se_rnd env = 0 then 1 else se_rnd env)"

lemma fresh_nonce_nonzero [simp]: "fresh_nonce env \<noteq> 0"
  by (simp add: fresh_nonce_def)

lemma node_first_message:
  assumes "sessionId c = 0" "localNonce c = 0" "gcm_keyed k" "can_send env p a outBuf"
  shows "\<exists>k' ct t st. encryptAndSendAll env (Some c) (Some k) (opt_host p) (opt_host a) None gs outBuf
      = Some (0, Some (c\<lparr>localNonce := fresh_nonce env\<rparr>), packet_bytes (se_iv env) t [] (opt_net a) ct, st)
    \<and> encryptGcm k (plain_part (htonl (fresh_nonce env)) gs (opt_net p)) (se_iv env) (be32 0 @ opt_net a) 16 0 = (0, k', ct, t)
    \<and> length t = 16 \<and> ss_ctx st = Some k' \<and> same_key k k' \<and> length (ss_buf st) = length outBuf"
proof -
  let ?n = "fresh_nonce env"
  obtain k' ct t st where s: "encryptGcm k (plain_part (htonl ?n) gs (opt_net p)) (se_iv env) (be32 0 @ opt_net a) 16 0 = (0, k', ct, t)"
    "same_key k k'" "length t = 16"
    "compose_and_send env (Some k) (opt_host p) (opt_host a) None gs (htonl ?n) outBuf
      = Some (packet_bytes (se_iv env) t [] (opt_net a) ct, st)" "ss_ctx st = Some k'" "length (ss_buf st) = length outBuf"
    using compose_and_send_packet [OF assms(3,4)] by blast
  then show ?thesis
    using assms(1,2)
    by (intro exI [of _ k'] exI [of _ ct] exI [of _ t] exI [of _ st])
      (auto simp: encryptAndSendAll_def fresh_nonce_def Let_def)
qed

lemma server_reply:
  assumes "sessionId c = 0" "localNonce c = 0" "gcm_keyed k" "can_send env None None outBuf"
  shows "\<exists>k' ct t st. server_establish env k nonce c outBuf
      = Some (c\<lparr>remoteNonce := nonce, localNonce := htonl (fresh_nonce env), sessionId := nonce + htonl (fresh_nonce env)\<rparr>,
              packet_bytes (se_iv env) t [] [] ct, st)
    \<and> encryptGcm k (plain_part (htonl (fresh_nonce env)) 0 []) (se_iv env) (be32 0) 16 0 = (0, k', ct, t)
    \<and> length t = 16 \<and> same_key k k' \<and> ss_ctx st = Some k' \<and> length (ss_buf st) = length outBuf"
proof -
  let ?c = "c\<lparr>remoteNonce := nonce\<rparr>"
  obtain k' ct t st where s: "encryptAndSendAll env (Some ?c) (Some k) None None None 0 outBuf
      = Some (0, Some (?c\<lparr>localNonce := fresh_nonce env\<rparr>), packet_bytes (se_iv env) t [] [] ct, st)"
    "encryptGcm k (plain_part (htonl (fresh_nonce env)) 0 []) (se_iv env) (be32 0) 16 0 = (0, k', ct, t)"
    "length t = 16" "same_key k k'" "ss_ctx st = Some k'" "length (ss_buf st) = length outBuf"
    using node_first_message [of ?c k env None None outBuf 0] assms by auto
  then show ?thesis
    by (intro exI [of _ k'] exI [of _ ct] exI [of _ t] exI [of _ st])
      (simp add: server_establish_def Let_def ntohl_eq_htonl)
qed

text \<open>
  The nonce each end reads: the server from the decrypted packet, the node from its
  decryption buffer.
\<close>

lemma handshake_agrees:
  assumes conn: "sessionId cn = 0" "localNonce cn = 0" "sessionId cs = 0" "localNonce cs = 0"
    and key: "gcm_keyed kn" "same_key kn ks"
    and send: "can_send env1 p a out1" "can_send env2 None None out2"
    and dec: "8 + length (opt_net p) \<le> length dec1" "8 \<le> length dec2"
  shows "\<exists>cn1 wire1 st1 kn1 ks1 m1 o1 x cs1 wire2 st2 kn2 m2 o2 y.
    encryptAndSendAll env1 (Some cn) (Some kn) (opt_host p) (opt_host a) None gs out1 = Some (0, Some cn1, wire1, st1)
    \<and> ss_ctx st1 = Some kn1
    \<and> decryptPckData ks wire1 dec1 = Some (0, ks1, m1, o1) \<and> load32 m1 (44 + length (opt_net a)) = Some x
    \<and> server_establish env2 ks1 x cs out2 = Some (cs1, wire2, st2)
    \<and> decryptPckData kn1 wire2 dec2 = Some (0, kn2, m2, o2) \<and> load32 o2 0 = Some y
    \<and> sessionId (node_establish y cn1) = sessionId cs1
    \<and> remoteNonce cs1 = localNonce (node_establish y cn1) \<and> localNonce cs1 = remoteNonce (node_establish y cn1)"
proof -
  have ok1: "packet_ok p a None (se_iv env1)" "length (se_iv env1) = 12"
    and ok2: "packet_ok None None None (se_iv env2)"
    using send by (auto simp: can_send_def packet_ok_def)
  let ?n = "fresh_nonce env1" and ?n2 = "fresh_nonce env2"
  let ?cn = "cn\<lparr>localNonce := ?n\<rparr>"
  obtain kn1 ct1 t1 st1 where s1:
    "encryptAndSendAll env1 (Some cn) (Some kn) (opt_host p) (opt_host a) None gs out1
      = Some (0, Some ?cn, packet_bytes (se_iv env1) t1 [] (opt_net a) ct1, st1)"
    "encryptGcm kn (plain_part (htonl ?n) gs (opt_net p)) (se_iv env1) (be32 0 @ opt_net a) 16 0 = (0, kn1, ct1, t1)"
    "length t1 = 16" "ss_ctx st1 = Some kn1" "same_key kn kn1"
    using node_first_message [OF conn(1,2) key(1) send(1), of gs] by blast
  obtain ks1 o1 where d1: "decryptPckData ks (packet_bytes (se_iv env1) t1 [] (opt_net a) ct1) dec1
      = Some (0, ks1, host_packet (se_iv env1) t1 a (htonl ?n) gs p, o1)" "same_key kn ks1"
    using decryptPckData_layout [OF key ok1(1) s1(2) dec(1), of "[]"] by auto
  have x: "load32 (host_packet (se_iv env1) t1 a (htonl ?n) gs p) (44 + length (opt_net a)) = Some (htonl ?n)"
    using host_packet_nonce [OF ok1(2) s1(3), of a "htonl ?n" gs p "[]"] by simp
  have kk: "gcm_keyed ks1" using gcm.same_keyed [OF key(1) d1(2)] .
  obtain ks2 ct2 t2 st2 where s2:
    "server_establish env2 ks1 (htonl ?n) cs out2
      = Some (cs\<lparr>remoteNonce := htonl ?n, localNonce := htonl ?n2, sessionId := htonl ?n + htonl ?n2\<rparr>,
              packet_bytes (se_iv env2) t2 [] [] ct2, st2)"
    "encryptGcm ks1 (plain_part (htonl ?n2) 0 []) (se_iv env2) (be32 0) 16 0 = (0, ks2, ct2, t2)"
    using server_reply [OF conn(3,4) kk send(2), of "htonl ?n"] by blast
  have rkey: "same_key ks1 kn1" using d1(2) s1(5) by (simp add: same_key_def)
  obtain kn2 m2 o2 where d2: "decryptPckData kn1 (packet_bytes (se_iv env2) t2 [] [] ct2) dec2 = Some (0, kn2, m2, o2)"
    "load32 o2 0 = Some (htonl ?n2)"
    using decryptPckData_layout [OF kk rkey ok2, of "htonl ?n2" 0 ks2 ct2 t2 dec2 "[]"] s2(2) dec(2) by auto
  have agree: "sessionId (node_establish (htonl ?n2) ?cn) = htonl ?n + htonl ?n2"
    "localNonce (node_establish (htonl ?n2) ?cn) = htonl ?n" "remoteNonce (node_establish (htonl ?n2) ?cn) = htonl ?n2"
    by (simp_all add: node_establish_def Let_def)
  show ?thesis
    by (intro exI conjI, rule s1(1), rule s1(4), rule d1(1), rule x, rule s2(1), rule d2(1), rule d2(2))
      (simp_all add: agree)
qed

section \<open>Properties\<close>

text \<open>
  The node's first packet and the server's answer establish the same session on both
  ends: decrypted with the shared key, they leave the two connections with the same session
  id and with each other's nonces, whatever numbers the two ends drew.
\<close>

lemma session_agreement:
  assumes "sessionId cn = 0" "localNonce cn = 0" "sessionId cs = 0" "localNonce cs = 0"
    and "gcm_keyed kn" "same_key kn ks"
    and "can_send env1 p a out1" "can_send env2 None None out2"
    and "8 + length (opt_net p) \<le> length dec1" "8 \<le> length dec2"
  shows "\<exists>cn1 wire1 st1 kn1 ks1 m1 o1 x cs1 wire2 st2 kn2 m2 o2 y.
    encryptAndSendAll env1 (Some cn) (Some kn) (opt_host p) (opt_host a) None gs out1 = Some (0, Some cn1, wire1, st1)
    \<and> ss_ctx st1 = Some kn1
    \<and> decryptPckData ks wire1 dec1 = Some (0, ks1, m1, o1) \<and> load32 m1 (44 + length (opt_net a)) = Some x
    \<and> server_establish env2 ks1 x cs out2 = Some (cs1, wire2, st2)
    \<and> decryptPckData kn1 wire2 dec2 = Some (0, kn2, m2, o2) \<and> load32 o2 0 = Some y
    \<and> sessionId (node_establish y cn1) = sessionId cs1
    \<and> remoteNonce cs1 = localNonce (node_establish y cn1) \<and> localNonce cs1 = remoteNonce (node_establish y cn1)"
  using assms by (rule handshake_agrees)

definition demo_env :: "nat \<Rightarrow> send_env" where
  "demo_env n = \<lparr>se_iv = replicate 12 5, se_rnd = 77, se_sends = [int n]\<rparr>"

lemma demo_can_send:
  "can_send (demo_env 99) demo_pck demo_add (replicate 255 0)"
  "can_send (demo_env 52) None None (replicate 255 0)"
  using demo_packet_ok
  by (simp_all add: can_send_def demo_env_def)
    (simp add: packet_ok_def nonempty_arg_def packet_size_def)

text \<open>
  On an established session every send increments the send counter and seals the
  packet with the session id plus the new counter as its nonce; the session id is kept.
\<close>

lemma session_nonce_counts:
  assumes "sessionId c \<noteq> 0" "gcm_keyed k" "can_send env p a outBuf"
  shows "\<exists>k' ct t st n. n = sessionId c + (sendSessionIncrements c + 1)
    \<and> encryptAndSendAll env (Some c) (Some k) (opt_host p) (opt_host a) None gs outBuf
      = Some (0, Some (c\<lparr>sendSessionIncrements := sendSessionIncrements c + 1\<rparr>),
              packet_bytes (se_iv env) t [] (opt_net a) ct, st)
    \<and> encryptGcm k (plain_part (htonl n) gs (opt_net p)) (se_iv env) (be32 0 @ opt_net a) 16 0 = (0, k', ct, t)"
proof -
  let ?n = "sessionId c + (sendSessionIncrements c + 1)"
  obtain k' ct t st where
    "encryptGcm k (plain_part (htonl ?n) gs (opt_net p)) (se_iv env) (be32 0 @ opt_net a) 16 0 = (0, k', ct, t)"
    "compose_and_send env (Some k) (opt_host p) (opt_host a) None gs (htonl ?n) outBuf
      = Some (packet_bytes (se_iv env) t [] (opt_net a) ct, st)"
    using compose_and_send_packet [OF assms(2,3), of "htonl ?n" gs] by blast
  then show ?thesis using assms(1) by (simp add: encryptAndSendAll_def Let_def)
qed

text \<open>
  \<open>sendall\<close> returns 0 only after every byte of the message went out in order, and -1
  after a proper prefix of it, however the operating system splits the sends.
\<close>

lemma sendall_all_or_prefix:
  assumes "sendall results buf len = Some (r, sent, rest)" "0 \<le> len"
  shows "(r = 0 \<and> sent = take (nat len) buf \<and> nat len \<le> length buf)
    \<or> (r = - 1 \<and> (\<exists>k < nat len. sent = take k buf))"
  using assms sendall_loop_result [of results buf len 0 len 0 "[]" r sent rest] by (simp add: sendall_def)

text \<open>
  A connection that was accepted is found until it is closed: \<open>accept1\<close> of a fresh
  descriptor appends it and the look-up finds it; \<open>close1\<close> then removes exactly the
  connection of that socket, and the sockets of the list stay distinct.
\<close>

lemma accept_then_close:
  assumes "sockets_distinct cs" "fd \<notin> ci_socket ` set cs" "fd \<noteq> - 1"
  shows "\<exists>cs'. accept1 fd False cs ty = (fd, cs') \<and> sockets_distinct cs'
    \<and> findConnInfo cs' fd = Some (Some (int (length cs)))
    \<and> close1 0 fd cs' = Some (0, cs)
    \<and> findConnInfo cs fd = Some None"
proof -
  let ?cs = "cs @ [fresh_conn fd ty]"
  have none: "find_index (\<lambda>c. ci_socket c = fd) cs = None"
    using assms(2) by (simp only: find_socket_None not_False_eq_True)
  have app: "find_index (\<lambda>c. ci_socket c = fd) (xs @ [fresh_conn fd ty]) = Some (length xs)"
    if "find_index (\<lambda>c. ci_socket c = fd) xs = None" for xs
    using that by (induction xs) (auto simp: fresh_conn_def split: if_splits)
  have d: "sockets_distinct ?cs"
    using assms(1,2) by (auto simp: sockets_distinct_def fresh_conn_def)
  have "close1 0 fd ?cs = Some (0, cs)"
    by (simp add: close1_def socket_index_eq app [OF none] sl_delete_def sl_length_def)
  then show ?thesis
    using assms(3) d app [OF none] none
    by (simp add: accept1_def sl_push_def findConnInfo_result)
qed

text \<open>
  Closing a socket that has a connection removes that connection and no other, and the
  remaining sockets stay distinct.
\<close>

lemma close_removes_socket:
  assumes "sockets_distinct cs"
  shows "\<exists>cs'. close1 0 sock cs = Some (0, cs') \<and> sockets_distinct cs'
    \<and> ci_socket ` set cs' = ci_socket ` set cs - {sock}"
proof (cases "find_index (\<lambda>c. ci_socket c = sock) cs")
  case None
  then show ?thesis
    using assms find_socket_None [of sock cs] by (auto simp: close1_def socket_index_eq)
next
  case (Some i)
  then show ?thesis
    using remove_socket [OF assms Some] find_index_Some [OF Some]
    by (simp add: close1_def socket_index_eq sl_delete_def sl_length_def)
qed

end
