(* ===== verification/RecvBuffer.thy ===== *)
theory RecvBuffer
  imports Session
begin

text \<open>
  Receiving messages over TCP, \<open>recvAll\<close> of \<open>protocol/pckData/pckData.c\<close> and its helpers:
  a holder per socket with a buffer that is refilled from the start when it is full, the
  reassembly of a message from the chunks \<open>recv\<close> returns, and the callback that gets a
  complete message in the processing buffer. The callback is a parameter, a function on a
  state and the processing buffer; the results of \<open>recv\<close> are a list. A process that
  reboots or waits for data that never comes does not return.
\<close>

section \<open>Holders\<close>

record recvHolder =
  rh_socket :: int
  recvQueue :: "byte list option"
  rh_size :: int
  sizeUsed :: int
  firstMsgPtr :: "int option"
  firstMsgSize :: u32
  firstMsgSizeUsed :: u32
  timeSinceUsed :: int

definition MAXDEVMSGLEN :: int where "MAXDEVMSGLEN = 255"

definition initRecvHolder :: "allocator \<Rightarrow> int \<Rightarrow> int \<Rightarrow> int \<Rightarrow> int \<times> recvHolder" where
  "initRecvHolder a junk maxSize sock =
     (let q = malloc a (nat (to_size_t maxSize));
          h = \<lparr>rh_socket = sock, recvQueue = q, rh_size = maxSize, sizeUsed = 0, firstMsgPtr = None,
               firstMsgSize = 0, firstMsgSizeUsed = 0, timeSinceUsed = junk\<rparr>
      in (if q = None then - 1 else 0, h))"

definition resetRecvHolder :: "recvHolder \<Rightarrow> int \<Rightarrow> recvHolder" where
  "resetRecvHolder h sock =
     h\<lparr>rh_socket := sock, firstMsgPtr := None, sizeUsed := 0, firstMsgSize := 0, firstMsgSizeUsed := 0\<rparr>"

definition removeRecvHolder :: "recvHolder list \<Rightarrow> int \<Rightarrow> int \<times> recvHolder list" where
  "removeRecvHolder hs index =
     (case sl_get hs index of
        None \<Rightarrow> (- 1, hs)
      | Some _ \<Rightarrow> (0, snd (sl_delete hs index)))"

section \<open>Reassembling\<close>

text \<open>Accesses at an offset and of a length that are signed numbers.\<close>

definition load_at :: "byte list \<Rightarrow> int \<Rightarrow> int \<Rightarrow> byte list option" where
  "load_at m off n = (if off < 0 \<or> n < 0 then None else load_bytes m (nat off) (nat n))"

definition store_at :: "byte list \<Rightarrow> int \<Rightarrow> byte list \<Rightarrow> byte list option" where
  "store_at m off bs = (if off < 0 then None else store_bytes m (nat off) bs)"

definition handleMsgLen :: "recvHolder \<Rightarrow> u32 \<Rightarrow> recvHolder option" where
  "handleMsgLen h rs =
     (let h = (if firstMsgSize h = 0 \<and> firstMsgSize h \<noteq> 5 then h\<lparr>firstMsgPtr := Some (sizeUsed h)\<rparr> else h);
          h = h\<lparr>firstMsgSize := firstMsgSize h + rs\<rparr>
      in if firstMsgSize h \<ge> 4 then do {
           p \<leftarrow> firstMsgPtr h;
           q \<leftarrow> recvQueue h;
           w \<leftarrow> load_at q p 4;
           Some (h\<lparr>firstMsgSize := ntohl (u32_of_bytes w)\<rparr>)
         } else Some h)"

definition circulateBuffer :: "recvHolder \<Rightarrow> int \<Rightarrow> recvHolder" where
  "circulateBuffer h rs =
     (let h = h\<lparr>sizeUsed := sizeUsed h + rs\<rparr> in
      if rh_size h = sizeUsed h then h\<lparr>sizeUsed := 0\<rparr> else h)"

lemma circulateBuffer_used [simp]: "firstMsgSizeUsed (circulateBuffer h rs) = firstMsgSizeUsed h"
  by (simp add: circulateBuffer_def Let_def)

lemma handleMsgLen_used: "handleMsgLen h rs = Some h' \<Longrightarrow> firstMsgSizeUsed h' = firstMsgSizeUsed h"
  by (auto simp: handleMsgLen_def Let_def bind_eq_Some_conv split: if_splits)

text \<open>The complete first message copied to the processing buffer, in two parts if it wraps.\<close>

definition copyMessage :: "recvHolder \<Rightarrow> byte list \<Rightarrow> byte list option" where
  "copyMessage h processBuf = do {
     q \<leftarrow> recvQueue h;
     p \<leftarrow> firstMsgPtr h;
     let n = uint (firstMsgSize h);
     let tillBufferEnd = to_int32 ((rh_size h - 1) - (p + uint (firstMsgSizeUsed h) - 1));
     if tillBufferEnd \<le> 0 then do {
       part1 \<leftarrow> load_at q p (n + tillBufferEnd);
       processBuf \<leftarrow> store_at processBuf 0 part1;
       part2 \<leftarrow> load_at q 0 (- tillBufferEnd);
       store_at processBuf (n + tillBufferEnd) part2
     } else do {
       part \<leftarrow> load_at q p n;
       store_at processBuf 0 part
     }
   }"

type_synonym 's callback = "'s \<Rightarrow> byte list \<Rightarrow> ('s \<times> byte list) option"

text \<open>
  \<open>handleMsgData\<close> calls itself for a second message in the same chunk; every call that does
  not see a second message moves the fill position on by the whole chunk.
\<close>

function handleMsgData ::
    "'s callback \<Rightarrow> recvHolder \<Rightarrow> int \<Rightarrow> 's \<Rightarrow> byte list \<Rightarrow> (int \<times> recvHolder \<times> 's \<times> byte list) option" where
  "handleMsgData cb h rs st processBuf =
     (if firstMsgSizeUsed h \<ge> firstMsgSize h \<and> firstMsgSize h > 4 then do {
        processBuf \<leftarrow> copyMessage h processBuf;
        (st, processBuf) \<leftarrow> cb st processBuf;
        if firstMsgSizeUsed h > firstMsgSize h then do {
          let h2 = h\<lparr>firstMsgPtr := Some (sizeUsed h + uint (firstMsgSize h)),
                     firstMsgSizeUsed := firstMsgSizeUsed h - firstMsgSize h, firstMsgSize := 5\<rparr>;
          let h2 = circulateBuffer h2 rs;
          h2 \<leftarrow> handleMsgLen h2 (firstMsgSizeUsed h2);
          (n, h2, st, processBuf) \<leftarrow> handleMsgData cb h2 rs st processBuf;
          Some (1 + n, h2, st, processBuf)
        } else
          Some (1, circulateBuffer (h\<lparr>firstMsgPtr := None, firstMsgSize := 0, firstMsgSizeUsed := 0\<rparr>) rs,
                st, processBuf)
      } else Some (0, circulateBuffer h rs, st, processBuf))"
  by pat_completeness auto
termination
proof (relation "measure (\<lambda>(cb, h, rs, st, b). unat (firstMsgSizeUsed h))", goal_cases)
  case (2 cb h rs st processBuf b1 p st' b2 h2 h3 h4)
  then have "firstMsgSizeUsed h4 = firstMsgSizeUsed h - firstMsgSize h"
    using handleMsgLen_used by (force simp: circulateBuffer_used)
  moreover have "unat (firstMsgSizeUsed h - firstMsgSize h) < unat (firstMsgSizeUsed h)"
    using 2 by (auto simp: unat_sub word_less_nat_alt)
  ultimately show ?case by simp
qed simp

declare handleMsgData.simps [simp del]

section \<open>Receiving\<close>

text \<open>An answer of \<open>recv\<close>: an error, a closed connection, or data.\<close>

datatype recv_result = RecvError | RecvClosed | RecvData "byte list"

text \<open>
  The loop over \<open>recv\<close>. The space offered is \<open>size - sizeUsed\<close> as a \<open>size_t\<close>, and the
  data is written there. A holder whose allocation failed has no buffer, and \<open>recv\<close> into
  NULL is an error.
\<close>

fun recv_loop :: "'s callback \<Rightarrow> recv_result list \<Rightarrow> recvHolder \<Rightarrow> 's \<Rightarrow> byte list
    \<Rightarrow> (int \<times> recvHolder \<times> 's \<times> byte list \<times> recv_result list) option" where
  "recv_loop cb [] h st processBuf = None"
| "recv_loop cb (r # rs) h st processBuf =
     (case recvQueue h of
        None \<Rightarrow> Some (- 1, h, st, processBuf, rs)
      | Some q \<Rightarrow> (case r of
          RecvError \<Rightarrow> Some (- 1, h, st, processBuf, rs)
        | RecvClosed \<Rightarrow> Some (1, resetRecvHolder h (- 1), st, processBuf, rs)
        | RecvData bs \<Rightarrow>
            if bs = [] \<or> int (length bs) > to_size_t (rh_size h - sizeUsed h) then None
            else do {
              q \<leftarrow> store_at q (sizeUsed h) bs;
              let h = h\<lparr>recvQueue := Some q\<rparr>;
              let n = int (length bs);
              h \<leftarrow> (if firstMsgPtr h = None \<or> firstMsgSize h < 4 then handleMsgLen h (of_int n) else Some h);
              let h = h\<lparr>firstMsgSizeUsed := firstMsgSizeUsed h + of_int n\<rparr>;
              (messagesRecieved, h, st, processBuf) \<leftarrow> handleMsgData cb h n st processBuf;
              if messagesRecieved \<ge> 1 then Some (0, h, st, processBuf, rs)
              else recv_loop cb rs h st processBuf
            }))"

text \<open>The holder of a socket is the last one with that socket, the search has no \<open>break\<close>.\<close>

fun last_holder :: "recvHolder list \<Rightarrow> int \<Rightarrow> int \<Rightarrow> int \<Rightarrow> int" where
  "last_holder [] sock i found = found"
| "last_holder (h # hs) sock i found = last_holder hs sock (i + 1) (if rh_socket h = sock then i else found)"

text \<open>
  \<open>recvAll\<close>: the holder of the socket, else a free one (socket -1), else a new one at the
  end of the list; a free holder keeps its socket -1. \<open>None\<close> covers the reboot when the
  list cannot grow.
\<close>

definition pick_holder :: "allocator \<Rightarrow> int \<Rightarrow> bool \<Rightarrow> recvHolder list \<Rightarrow> int \<Rightarrow> (int \<times> recvHolder list) option" where
  "pick_holder a junk full hs sock =
     (let found = (if sl_length hs > 0 then last_holder hs sock 0 (- 1) else - 1) in
      if found \<noteq> - 1 then Some (found, hs)
      else do {
        free \<leftarrow> scan_from (sl_get hs) (sl_length hs) (\<lambda>h. rh_socket h = - 1) 0;
        if free \<noteq> - 1 then Some (free, hs)
        else
          let (_, newHolder) = initRecvHolder a junk (MAXDEVMSGLEN * 3) sock;
              (r, hs) = sl_push full hs newHolder
          in if r \<noteq> 0 then None else Some (sl_length hs - 1, hs)
      })"

definition recvAll :: "allocator \<Rightarrow> int \<Rightarrow> bool \<Rightarrow> 's callback \<Rightarrow> recv_result list \<Rightarrow> recvHolder list \<Rightarrow> int \<Rightarrow> 's
    \<Rightarrow> byte list \<Rightarrow> (int \<times> recvHolder list \<times> 's \<times> byte list \<times> recv_result list) option" where
  "recvAll a junk full cb results hs sock st processBuf = do {
     (i, hs) \<leftarrow> pick_holder a junk full hs sock;
     h \<leftarrow> sl_get hs i;
     (r, h, st, processBuf, results) \<leftarrow> recv_loop cb results (h\<lparr>timeSinceUsed := 0\<rparr>) st processBuf;
     Some (r, hs[nat i := h], st, processBuf, results)
   }"

section \<open>One message reassembled\<close>

text \<open>
  A message on the wire: its first word is its length. It starts at position \<open>s\<close> of a
  buffer of \<open>cap\<close> bytes, with its length word not across the end of the buffer, and fits
  the buffer and the processing buffer.
\<close>

definition framed :: "byte list \<Rightarrow> bool" where
  "framed msg \<longleftrightarrow> 4 < length msg \<and> length msg < 2 ^ 31 \<and> take 4 msg = be32 (of_nat (length msg))"

definition placed :: "byte list \<Rightarrow> nat \<Rightarrow> nat \<Rightarrow> bool" where
  "placed msg cap s \<longleftrightarrow> framed msg \<and> s < cap \<and> s + 4 \<le> cap \<and> length msg \<le> cap \<and> cap < 2 ^ 30"

text \<open>The buffer read from position \<open>s\<close> around its end.\<close>

definition ring :: "byte list \<Rightarrow> nat \<Rightarrow> byte list" where
  "ring q s = drop s q @ take s q"

lemma length_ring [simp]: "length (ring q s) = length q"
  by (simp add: ring_def)

text \<open>The holder after \<open>k\<close> bytes of the message; \<open>k = 0\<close> is the idle holder.\<close>

definition receiving :: "recvHolder \<Rightarrow> byte list \<Rightarrow> nat \<Rightarrow> nat \<Rightarrow> nat \<Rightarrow> bool" where
  "receiving h msg cap s k \<longleftrightarrow>
     (\<exists>q. recvQueue h = Some q \<and> length q = cap \<and> rh_size h = int cap
        \<and> sizeUsed h = int ((s + k) mod cap) \<and> firstMsgSizeUsed h = of_nat k
        \<and> take k (ring q s) = take k msg
        \<and> firstMsgSize h = of_nat (if k < 4 then k else length msg)
        \<and> firstMsgPtr h = (if k = 0 then None else Some (int s)))"

lemma be32_bytes:
  "be32 n = [ucast (drop_bit 24 n), ucast (drop_bit 16 n), ucast (drop_bit 8 n), ucast n]"
  unfolding be32_def bytes_of_u32_htonl by (simp add: bytes_of_u32_def)

lemma ring_store:
  assumes "s < length q" "k + length bs \<le> length q" "(s + k) mod length q + length bs \<le> length q"
    "take k (ring q s) = x"
  shows "\<exists>q'. store_bytes q ((s + k) mod length q) bs = Some q' \<and> length q' = length q
    \<and> take (k + length bs) (ring q' s) = x @ bs"
proof -
  let ?n = "length q" and ?p = "(s + k) mod length q"
  define q' where "q' = take ?p q @ bs @ drop (?p + length bs) q"
  have st: "store_bytes q ?p bs = Some q'" using assms(3) by (simp add: store_bytes_def q'_def)
  have len: "length q' = ?n" using store_bytes_length [OF st] .
  have "take (k + length bs) (ring q' s) = x @ bs"
  proof (cases "s + k < ?n")
    case True
    then have p: "?p = s + k" by simp
    have "drop s q' = take k (drop s q) @ bs @ drop (?p + length bs) q"
      using True by (simp add: q'_def p drop_take)
    moreover have "take k (drop s q) = x" using assms(4) True by (simp add: ring_def)
    moreover have "length (take k (drop s q)) = k" using True by simp
    ultimately show ?thesis by (simp add: ring_def)
  next
    case False
    then have p: "?p = s + k - ?n" using assms(1,2) by (simp add: mod_if)
    then have ps: "?p + length bs \<le> s" using assms(2) False by simp
    have d: "drop s q' = drop s q" using ps assms(1) by (simp add: q'_def)
    have t: "take s q' = take ?p q @ bs @ take (s - (?p + length bs)) (drop (?p + length bs) q)"
      using ps assms(1) by (simp add: q'_def)
    have k: "k = length (drop s q) + ?p" using p False assms(1) by simp
    have "x = drop s q @ take ?p q"
      using assms(1,4) ps unfolding ring_def by (subst (asm) k) simp
    moreover have "ring q' s = (drop s q @ take ?p q) @ bs @ take (s - (?p + length bs)) (drop (?p + length bs) q)"
      by (simp add: ring_def d t)
    moreover have "length (drop s q @ take ?p q) = k" using k ps assms(1) by simp
    moreover have "take (length u + length bs) (u @ bs @ v) = u @ bs" for u v by simp
    ultimately show ?thesis by metis
  qed
  with st len show ?thesis by blast
qed

text \<open>The two copies of \<open>handleMsgData\<close> put the ring's first bytes into the processing buffer.\<close>

lemma copyMessage_ring:
  assumes "recvQueue h = Some q" "firstMsgPtr h = Some (int s)" "rh_size h = int (length q)"
    "firstMsgSize h = of_nat n" "firstMsgSizeUsed h = of_nat n" "s < length q" "n \<le> length q"
    "length q < 2 ^ 30" "n \<le> length pbuf"
  shows "copyMessage h pbuf = Some (take n (ring q s) @ drop n pbuf)"
proof -
  let ?L = "length q"
  have un: "uint (of_nat n :: u32) = int n"
    using assms(7,8) by (simp add: uint_nat unat_of_nat)
  define t where "t = int ?L - int s - int n"
  have "rh_size h + (- int s - uint (firstMsgSizeUsed h)) = t" by (simp add: t_def assms un)
  moreover have "to_int32 t = t" using assms(6-8) by (intro to_int32_id) (simp_all add: t_def)
  ultimately have till: "to_int32 (rh_size h + (- int s - uint (firstMsgSizeUsed h))) = t" by simp
  show ?thesis
  proof (cases "t \<le> 0")
    case True
    have nt: "int n + t = int (?L - s)" using assms(6) by (simp add: t_def)
    have nt2: "nat (- t) = s + n - ?L" using True by (simp add: t_def)
    have p1: "load_at q (int s) (int n + t) = Some (drop s q)"
      using assms(6) unfolding nt by (simp add: load_at_def load_bytes_def)
    have p2: "load_at q 0 (- t) = Some (take (s + n - ?L) q)"
      using True assms(6,7) by (simp add: load_at_def load_bytes_def nt2)
    have le: "?L - s \<le> n" using True by (simp add: t_def)
    have s1: "store_at pbuf 0 (drop s q) = Some (drop s q @ drop (?L - s) pbuf)"
      using le assms(9) by (simp add: store_at_def store_bytes_def)
    have s2: "store_at (drop s q @ drop (?L - s) pbuf) (int n + t) (take (s + n - ?L) q)
        = Some (drop s q @ take (s + n - ?L) q @ drop n pbuf)"
      using le assms(6,7,9) unfolding nt by (simp add: store_at_def store_bytes_def del: of_nat_diff)
    have "s + n - ?L \<le> s" using assms(6,7) by linarith
    then have "take n (ring q s) = drop s q @ take (s + n - ?L) q"
      using le assms(6,7) by (simp add: ring_def min_absorb1 diff_diff_right add.commute)
    then show ?thesis
      using True p1 p2 s1 s2 assms(1,2,4) by (simp add: copyMessage_def Let_def till un)
  next
    case False
    then have lt: "s + n \<le> ?L" by (simp add: t_def)
    then have "load_at q (int s) (int n) = Some (take n (ring q s))"
      by (simp add: load_at_def load_bytes_def ring_def)
    moreover have "store_at pbuf 0 (take n (ring q s)) = Some (take n (ring q s) @ drop n pbuf)"
      using assms(6,7,9) by (simp add: store_at_def store_bytes_def)
    ultimately show ?thesis
      using False assms(1,2,4) by (simp add: copyMessage_def Let_def till un)
  qed
qed

lemma copyMessage_overrun:
  assumes "recvQueue h = Some q" "firstMsgPtr h = Some (int s)" "rh_size h = int (length q)"
    "firstMsgSize h = of_nat n" "firstMsgSizeUsed h = of_nat n" "s < length q" "n \<le> length q"
    "length q < 2 ^ 30" "length pbuf < n"
  shows "copyMessage h pbuf = None"
proof -
  have un: "uint (of_nat n :: u32) = int n"
    using assms(7,8) by (simp add: uint_nat unat_of_nat)
  define t where "t = int (length q) - int s - int n"
  have "rh_size h + (- int s - uint (firstMsgSizeUsed h)) = t" by (simp add: t_def assms un)
  moreover have "to_int32 t = t" using assms(6-8) by (intro to_int32_id) (simp_all add: t_def)
  ultimately have till: "to_int32 (rh_size h + (- int s - uint (firstMsgSizeUsed h))) = t" by simp
  have two: "store_at b (int n + t) p = None"
    if "store_at pbuf 0 p0 = Some b" "load_at q 0 (- t) = Some p" "t \<le> 0" for b p p0
  proof -
    have "length b = length pbuf" "length p = nat (- t)" "0 \<le> int n + t"
      using that store_bytes_length load_bytes_length assms(6)
      by (fastforce simp: store_at_def load_at_def t_def split: if_splits)+
    then show ?thesis using that(3) assms(9) by (simp add: store_at_def store_bytes_def)
  qed
  have one: "store_at pbuf 0 p = None" if "load_at q (int s) (int n) = Some p" for p
    using that assms(9) load_bytes_length [of q s n p]
    by (auto simp: load_at_def store_at_def store_bytes_def)
  have "copyMessage h pbuf \<noteq> Some z" for z
    using assms(1,2,4) one two by (auto simp: copyMessage_def Let_def till un bind_eq_Some_conv)
  then show ?thesis by blast
qed

text \<open>What the callback makes of a complete message; a processing buffer too short is overrun.\<close>

definition deliver :: "'s callback \<Rightarrow> byte list \<Rightarrow> 's \<Rightarrow> byte list \<Rightarrow> ('s \<times> byte list) option" where
  "deliver cb msg st pbuf =
     (if length msg \<le> length pbuf then cb st (msg @ drop (length msg) pbuf) else None)"

section \<open>A chunk of a message\<close>

lemma u32_len:
  assumes "placed msg cap s"
  shows "length msg < 2 ^ 32" "cap < 2 ^ 32" "length msg \<le> cap"
  using assms by (auto simp: placed_def)

text \<open>\<open>handleMsgLen\<close> reads the length once its four bytes are there.\<close>

lemma handleMsgLen_receiving:
  assumes pl: "placed msg cap s" and q: "recvQueue h = Some q" "length q = cap"
    and data: "take (k + n) (ring q s) = take (k + n) msg" "k + n \<le> length msg" "0 < n"
    and used: "sizeUsed h = int ((s + k) mod cap)"
    and ms: "firstMsgSize h = of_nat (if k < 4 then k else length msg)"
    and ptr: "firstMsgPtr h = (if k = 0 then None else Some (int s))"
  shows "(if firstMsgPtr h = None \<or> firstMsgSize h < 4 then handleMsgLen h (of_nat n) else Some h)
    = Some (h\<lparr>firstMsgPtr := Some (int s),
             firstMsgSize := of_nat (if k + n < 4 then k + n else length msg)\<rparr>)"
proof (cases "k < 4")
  case False
  then have "\<not> (of_nat (length msg) :: u32) < 4"
    using u32_len [OF pl] data(2) u32_less_of_nat [of "length msg" 4] by simp
  then show ?thesis using False ms ptr by (cases h) auto
next
  case True
  have kn: "(of_nat k :: u32) + of_nat n = of_nat (k + n)" by simp
  have k4: "(of_nat k :: u32) < 4" using True u32_less_of_nat [of k 4] by simp
  have s: "s < cap" "s + 4 \<le> cap" using pl by (auto simp: placed_def)
  have sz: "k + n < 2 ^ 32" using u32_len [OF pl] data(2) by simp
  have ge: "(4 \<le> (of_nat (k + n) :: u32)) = (4 \<le> k + n)"
    using u32_le_of_nat [of 4 "k + n"] sz by simp
  have ptr': "(if firstMsgSize h = 0 \<and> firstMsgSize h \<noteq> 5 then h\<lparr>firstMsgPtr := Some (sizeUsed h)\<rparr> else h)
      = h\<lparr>firstMsgPtr := Some (int s)\<rparr>"
  proof (cases "k = 0")
    case True
    then show ?thesis using ms used s by simp
  next
    case False
    then have "(of_nat k :: u32) \<noteq> 0" using \<open>k < 4\<close> u32_of_nat_eq [of k 0] by simp
    then show ?thesis using ms ptr False True by (cases h) auto
  qed
  have w: "load_at q (int s) 4 = Some (take 4 msg)" if "4 \<le> k + n"
  proof -
    have "take 4 (ring q s) = take 4 msg"
      using arg_cong [OF data(1), of "take 4"] that by (simp add: min_def)
    moreover have "take 4 (ring q s) = take 4 (drop s q)" using s q by (simp add: ring_def)
    ultimately show ?thesis using s q by (simp add: load_at_def load_bytes_def)
  qed
  have len: "ntohl (u32_of_bytes (take 4 msg)) = of_nat (length msg)"
    using pl by (simp add: placed_def framed_def be32_def ntohl_eq_htonl flip: bytes_of_u32_htonl)
  show ?thesis
    using True k4 ms q w len unfolding handleMsgLen_def Let_def ptr'
    by (auto simp: kn ge simp del: of_nat_add)
qed

text \<open>The fill position after a chunk.\<close>

lemma circulate_position:
  assumes "sizeUsed h = int p" "p + n \<le> cap" "p < cap" "rh_size h = int cap"
  shows "circulateBuffer h (int n) = h\<lparr>sizeUsed := int ((p + n) mod cap)\<rparr>"
  using assms by (cases "p + n = cap") (auto simp: circulateBuffer_def)

text \<open>The length and the use count once a chunk is in, and whether the message is complete.\<close>

lemma incomplete_words:
  assumes "placed msg cap s" "j \<le> length msg"
  shows "((of_nat j :: u32) \<ge> of_nat (if j < 4 then j else length msg)
      \<and> (of_nat (if j < 4 then j else length msg) :: u32) > 4) = (j = length msg)"
proof -
  have "length msg < 2 ^ 32" "4 < length msg"
    using assms by (auto simp: placed_def framed_def)
  moreover have "(4 :: u32) = of_nat 4" by simp
  ultimately show ?thesis
    using assms(2) u32_le_of_nat [of "length msg" j] u32_less_of_nat [of 4 "length msg"]
      u32_less_of_nat [of 4 j]
    by (auto simp del: of_nat_numeral)
qed

definition idle :: "recvHolder \<Rightarrow> nat \<Rightarrow> nat \<Rightarrow> bool" where
  "idle h cap s \<longleftrightarrow>
     (\<exists>q. recvQueue h = Some q \<and> length q = cap \<and> rh_size h = int cap \<and> s < cap
        \<and> sizeUsed h = int s \<and> firstMsgSizeUsed h = 0 \<and> firstMsgSize h = 0 \<and> firstMsgPtr h = None)"

lemma receiving_idle: "s < cap \<Longrightarrow> receiving h msg cap s 0 \<longleftrightarrow> idle h cap s"
  by (auto simp: receiving_def idle_def)

text \<open>The body of the loop on a chunk that fits.\<close>

lemma recv_loop_data:
  assumes "recvQueue h = Some q" "bs \<noteq> []" "int (length bs) \<le> to_size_t (rh_size h - sizeUsed h)"
    "store_at q (sizeUsed h) bs = Some q'"
    "(if firstMsgPtr h = None \<or> firstMsgSize h < 4
        then handleMsgLen (h\<lparr>recvQueue := Some q'\<rparr>) (of_nat (length bs))
        else Some (h\<lparr>recvQueue := Some q'\<rparr>)) = Some h2"
  shows "recv_loop cb (RecvData bs # rs) h st pbuf =
    handleMsgData cb (h2\<lparr>firstMsgSizeUsed := firstMsgSizeUsed h2 + of_nat (length bs)\<rparr>) (int (length bs)) st pbuf
      \<bind> (\<lambda>(m, h, st, pbuf).
        if m \<ge> 1 then Some (0, h, st, pbuf, rs) else recv_loop cb rs h st pbuf)"
  using assms by (auto simp: Let_def not_less split: if_splits)

text \<open>
  A chunk that ends before the message does leaves the holder receiving; the chunk that ends
  it calls the callback once with the message at the start of the processing buffer.
\<close>

lemma chunk_step:
  assumes rc: "receiving h msg cap s k" and pl: "placed msg cap s"
    and bs: "bs \<noteq> []" "bs = take (length bs) (drop k msg)" "k + length bs \<le> length msg"
    and fit: "(s + k) mod cap + length bs \<le> cap"
    and go: "recv_loop cb (RecvData bs # rs) h st pbuf = r"
  shows "k + length bs < length msg \<Longrightarrow>
           \<exists>h'. r = recv_loop cb rs h' st pbuf \<and> receiving h' msg cap s (k + length bs)"
    and "k + length bs = length msg \<Longrightarrow> deliver cb msg st pbuf = Some (st', pbuf') \<Longrightarrow>
           \<exists>h'. r = Some (0, h', st', pbuf', rs) \<and> idle h' cap ((s + length msg) mod cap)"
    and "k + length bs = length msg \<Longrightarrow> deliver cb msg st pbuf = None \<Longrightarrow> r = None"
proof -
  let ?n = "length bs" and ?p = "(s + k) mod cap" and ?j = "k + length bs"
  obtain q where q: "recvQueue h = Some q" "length q = cap" "rh_size h = int cap" "sizeUsed h = int ?p"
      "firstMsgSizeUsed h = of_nat k" "take k (ring q s) = take k msg"
      "firstMsgSize h = of_nat (if k < 4 then k else length msg)"
      "firstMsgPtr h = (if k = 0 then None else Some (int s))"
    using rc by (auto simp: receiving_def)
  have s: "s < cap" and lm: "length msg \<le> cap" and cap: "cap < 2 ^ 30"
    using pl by (auto simp: placed_def)
  have pc: "?p < cap" using s by simp
  obtain q' where q': "store_bytes q ?p bs = Some q'" "length q' = cap" "take ?j (ring q' s) = take k msg @ bs"
    using ring_store [of s q k bs] q(2,6) s lm bs(3) fit by (auto simp: q(6))
  have tj: "take k msg @ bs = take ?j msg" using bs(2) by (simp add: take_add)
  define h1 where "h1 = h\<lparr>recvQueue := Some q'\<rparr>"
  define h2 where "h2 = h1\<lparr>firstMsgPtr := Some (int s),
      firstMsgSize := of_nat (if ?j < 4 then ?j else length msg)\<rparr>"
  define h3 where "h3 = h2\<lparr>firstMsgSizeUsed := of_nat ?j\<rparr>"
  have ml: "(if firstMsgPtr h1 = None \<or> firstMsgSize h1 < 4 then handleMsgLen h1 (of_nat ?n) else Some h1) = Some h2"
    unfolding h2_def by (rule handleMsgLen_receiving [OF pl])
      (use q q' tj bs in \<open>auto simp: h1_def\<close>)
  have u3: "firstMsgSizeUsed h2 + of_nat ?n = of_nat ?j" by (simp add: h2_def h1_def q)
  have f3: "firstMsgSizeUsed h3 = of_nat ?j" "firstMsgSize h3 = of_nat (if ?j < 4 then ?j else length msg)"
    "rh_size h3 = int cap" "sizeUsed h3 = int ?p" "recvQueue h3 = Some q'" "firstMsgPtr h3 = Some (int s)"
    by (simp_all add: h3_def h2_def h1_def q del: of_nat_add)
  have ml': "(if firstMsgPtr h = None \<or> firstMsgSize h < 4
        then handleMsgLen (h\<lparr>recvQueue := Some q'\<rparr>) (of_nat (length bs))
        else Some (h\<lparr>recvQueue := Some q'\<rparr>)) = Some h2"
    using ml unfolding h1_def by simp
  have b: "int ?n \<le> to_size_t (rh_size h - sizeUsed h)" "store_at q (sizeUsed h) bs = Some q'"
    using q(3,4) q' fit cap pc by (simp_all add: store_at_def)
  have r: "r = handleMsgData cb h3 (int ?n) st pbuf \<bind> (\<lambda>(m, h, st, pbuf).
      if m \<ge> 1 then Some (0, h, st, pbuf, rs) else recv_loop cb rs h st pbuf)"
    unfolding go [symmetric] h3_def u3 [symmetric] by (rule recv_loop_data [OF q(1) bs(1) b ml'])
  note cond = incomplete_words [OF pl bs(3)]
  show "\<exists>h'. r = recv_loop cb rs h' st pbuf \<and> receiving h' msg cap s ?j" if lt: "?j < length msg"
  proof -
    have c: "\<not> (firstMsgSize h3 \<le> firstMsgSizeUsed h3 \<and> 4 < firstMsgSize h3)"
      using cond less_imp_neq [OF lt] unfolding f3 by blast
    have m: "handleMsgData cb h3 (int ?n) st pbuf = Some (0, circulateBuffer h3 (int ?n), st, pbuf)"
      using c by (subst handleMsgData.simps) (simp only: if_False)
    have "receiving (circulateBuffer h3 (int ?n)) msg cap s ?j"
      unfolding receiving_def circulate_position [OF f3(4) fit pc f3(3)]
      using q' tj bs(1) f3 by (auto simp: mod_simps add.assoc)
    then show ?thesis using r m by auto
  qed
  have big: "\<not> length msg < 4" using pl by (simp add: placed_def framed_def)
  have f3': "firstMsgSize h3 = of_nat (length msg)" "firstMsgSizeUsed h3 = of_nat (length msg)"
    if "?j = length msg" using f3 that big by simp_all
  have c: "firstMsgSize h3 \<le> firstMsgSizeUsed h3 \<and> 4 < firstMsgSize h3" if "?j = length msg"
    using cond that unfolding f3 by blast
  show "\<exists>h'. r = Some (0, h', st', pbuf', rs) \<and> idle h' cap ((s + length msg) mod cap)"
    if eq: "?j = length msg" and d: "deliver cb msg st pbuf = Some (st', pbuf')"
  proof -
    have room: "length msg \<le> length pbuf" and cb: "cb st (msg @ drop (length msg) pbuf) = Some (st', pbuf')"
      using d by (auto simp: deliver_def split: if_splits)
    have "copyMessage h3 pbuf = Some (take (length msg) (ring q' s) @ drop (length msg) pbuf)"
      by (rule copyMessage_ring [OF f3(5,6) _ f3' [OF eq] _ _ _ room]) (use f3(3) q'(2) s lm cap in simp_all)
    then have cm: "copyMessage h3 pbuf = Some (msg @ drop (length msg) pbuf)"
      using q'(3) tj eq by simp
    let ?h4 = "circulateBuffer (h3\<lparr>firstMsgPtr := None, firstMsgSize := 0, firstMsgSizeUsed := 0\<rparr>) (int ?n)"
    have m: "handleMsgData cb h3 (int ?n) st pbuf = Some (1, ?h4, st', pbuf')"
      using c [OF eq] cm cb f3' [OF eq] by (subst handleMsgData.simps) simp
    have "idle ?h4 cap ((s + length msg) mod cap)"
      using circulate_position [of "h3\<lparr>firstMsgPtr := None, firstMsgSize := 0, firstMsgSizeUsed := 0\<rparr>" ?p ?n cap]
        f3 fit pc q' s eq [symmetric] by (auto simp: idle_def mod_simps add.assoc)
    then show ?thesis using r m by auto
  qed
  show "r = None" if eq: "?j = length msg" and d: "deliver cb msg st pbuf = None"
  proof -
    have "handleMsgData cb h3 (int ?n) st pbuf = None"
    proof (cases "length msg \<le> length pbuf")
      case True
      have "copyMessage h3 pbuf = Some (take (length msg) (ring q' s) @ drop (length msg) pbuf)"
        by (rule copyMessage_ring [OF f3(5,6) _ f3' [OF eq] _ _ _ True]) (use f3(3) q'(2) s lm cap in simp_all)
      then show ?thesis
        using c [OF eq] d True q'(3) tj eq by (subst handleMsgData.simps) (simp add: deliver_def)
    next
      case False
      have "copyMessage h3 pbuf = None"
        by (rule copyMessage_overrun [OF f3(5,6) _ f3' [OF eq]]) (use f3(3) q'(2) s lm cap False in simp_all)
      then show ?thesis using c [OF eq] by (subst handleMsgData.simps) simp
    qed
    then show ?thesis using r by simp
  qed
qed

section \<open>A message in any number of chunks\<close>

text \<open>
  Chunks that \<open>recv\<close> may return with the buffer filled up to \<open>p\<close>: none is empty and
  each fits the space offered.
\<close>

fun fits :: "nat \<Rightarrow> nat \<Rightarrow> byte list list \<Rightarrow> bool" where
  "fits cap p [] \<longleftrightarrow> True"
| "fits cap p (c # cs) \<longleftrightarrow> c \<noteq> [] \<and> p + length c \<le> cap \<and> fits cap ((p + length c) mod cap) cs"

lemma recv_loop_message:
  assumes "receiving h msg cap s k" "placed msg cap s" "k < length msg"
    "concat cs = drop k msg" "fits cap ((s + k) mod cap) cs"
  shows "case deliver cb msg st pbuf of
      None \<Rightarrow> recv_loop cb (map RecvData cs @ rs) h st pbuf = None
    | Some (st', pbuf') \<Rightarrow> \<exists>h'. recv_loop cb (map RecvData cs @ rs) h st pbuf = Some (0, h', st', pbuf', rs)
        \<and> idle h' cap ((s + length msg) mod cap)"
  using assms
proof (induction cs arbitrary: h k)
  case Nil
  then show ?case by simp
next
  case (Cons c cs)
  have c: "c \<noteq> []" "(s + k) mod cap + length c \<le> cap"
    using Cons.prems(5) by simp_all
  have eq: "c @ concat cs = drop k msg" using Cons.prems(4) by simp
  then have pre: "c = take (length c) (drop k msg)" by (metis append_eq_conv_conj)
  have len: "length c + length (concat cs) = length msg - k" using arg_cong [OF eq, of length] by simp
  then have le: "k + length c \<le> length msg" using Cons.prems(3) by simp
  note step = chunk_step [where cb = cb and st = st and pbuf = pbuf and rs = "map RecvData cs @ rs",
      OF Cons.prems(1,2) c(1) pre le c(2) refl]
  show ?case
  proof (cases "k + length c = length msg")
    case True
    then have "length (concat cs) = 0" using len by linarith
    then have "cs = []" using Cons.prems(5) by (cases cs) auto
    then show ?thesis using step(2,3) [OF True] by (auto split: option.split)
  next
    case False
    then have lt: "k + length c < length msg" using le by simp
    obtain h' where h': "recv_loop cb (map RecvData (c # cs) @ rs) h st pbuf
          = recv_loop cb (map RecvData cs @ rs) h' st pbuf" "receiving h' msg cap s (k + length c)"
      using step(1) [OF lt] by auto
    have "concat cs = drop (k + length c) msg"
      using eq by (metis append_eq_conv_conj drop_drop add.commute)
    moreover have "fits cap ((s + (k + length c)) mod cap) cs"
      using Cons.prems(5) by (simp add: mod_simps add.assoc)
    ultimately show ?thesis
      unfolding h'(1) using Cons.IH [OF h'(2) Cons.prems(2) lt] by blast
  qed
qed

text \<open>The holder search: the last holder of the socket.\<close>

lemma last_holder_none: "\<forall>h\<in>set hs. rh_socket h \<noteq> sock \<Longrightarrow> last_holder hs sock i found = found"
  by (induction hs arbitrary: i found) auto

lemma last_holder_append:
  "last_holder (xs @ ys) sock i found = last_holder ys sock (i + int (length xs)) (last_holder xs sock i found)"
  by (induction xs arbitrary: i found) (auto simp: algebra_simps)

lemma last_holder_unique:
  assumes "\<forall>h\<in>set xs \<union> set ys. rh_socket h \<noteq> rh_socket h0"
  shows "last_holder (xs @ h0 # ys) (rh_socket h0) i found = i + int (length xs)"
  using assms by (simp add: last_holder_append last_holder_none)

text \<open>A holder keeps its socket until the connection is closed, and then it is free.\<close>

lemma handleMsgLen_socket: "handleMsgLen h rs = Some h' \<Longrightarrow> rh_socket h' = rh_socket h"
  by (auto simp: handleMsgLen_def Let_def bind_eq_Some_conv split: if_splits)

lemma circulateBuffer_socket [simp]: "rh_socket (circulateBuffer h rs) = rh_socket h"
  by (simp add: circulateBuffer_def Let_def)

lemma handleMsgData_socket:
  "handleMsgData cb h rs st pbuf = Some (n, h', st', pbuf') \<Longrightarrow> rh_socket h' = rh_socket h \<and> 0 \<le> n"
proof (induction "unat (firstMsgSizeUsed h)" arbitrary: h st pbuf n rule: less_induct)
  case less
  show ?case
  proof (cases "firstMsgSizeUsed h \<ge> firstMsgSize h \<and> firstMsgSize h > 4")
    case False
    then show ?thesis using less.prems by (subst (asm) handleMsgData.simps) auto
  next
    case c: True
    show ?thesis
    proof (cases "firstMsgSizeUsed h > firstMsgSize h")
      case False
      then show ?thesis using less.prems c
        by (subst (asm) handleMsgData.simps) (auto simp: bind_eq_Some_conv)
    next
      case True
      let ?h2 = "circulateBuffer (h\<lparr>firstMsgPtr := Some (sizeUsed h + uint (firstMsgSize h)),
          firstMsgSizeUsed := firstMsgSizeUsed h - firstMsgSize h, firstMsgSize := 5\<rparr>) rs"
      obtain st2 b2 h3 m where h3: "handleMsgLen ?h2 (firstMsgSizeUsed ?h2) = Some h3"
          and r: "handleMsgData cb h3 rs st2 b2 = Some (m, h', st', pbuf')" "n = 1 + m"
        using less.prems c True
        by (subst (asm) handleMsgData.simps) (auto simp: bind_eq_Some_conv)
      have "firstMsgSizeUsed h3 = firstMsgSizeUsed h - firstMsgSize h"
        using handleMsgLen_used [OF h3] by simp
      moreover have "unat (firstMsgSizeUsed h - firstMsgSize h) < unat (firstMsgSizeUsed h)"
        using c by (auto simp: unat_sub word_less_nat_alt word_le_nat_alt)
      ultimately show ?thesis
        using less.hyps [OF _ r(1)] handleMsgLen_socket [OF h3] r(2) by simp
    qed
  qed
qed

lemma recv_loop_socket:
  "recv_loop cb rs h st pbuf = Some (r, h', st', pbuf', rs') \<Longrightarrow>
     rh_socket h' = (if r = 1 then - 1 else rh_socket h)"
proof (induction rs arbitrary: h st pbuf)
  case (Cons x rs)
  show ?case
  proof (cases "recvQueue h")
    case None
    then show ?thesis using Cons.prems by auto
  next
    case q: (Some q)
    show ?thesis
    proof (cases x)
      case (RecvData bs)
      let ?len = "\<lambda>q'. if firstMsgPtr h = None \<or> firstMsgSize h < 4
           then handleMsgLen (h\<lparr>recvQueue := Some q'\<rparr>) (of_nat (length bs))
           else Some (h\<lparr>recvQueue := Some q'\<rparr>)"
      have bs: "bs \<noteq> []" "int (length bs) \<le> to_size_t (rh_size h - sizeUsed h)"
        using Cons.prems q RecvData by (auto split: if_splits)
      obtain q' where q': "store_at q (sizeUsed h) bs = Some q'"
        using Cons.prems q RecvData bs by (cases "store_at q (sizeUsed h) bs") auto
      obtain h2 where h2: "?len q' = Some h2"
        using Cons.prems q RecvData bs q' by (cases "?len q'") (auto simp: Let_def split: if_splits)
      note eq = recv_loop_data [OF q bs q' h2, of cb rs st pbuf]
      obtain n h3 st3 b3 where
        m: "handleMsgData cb (h2\<lparr>firstMsgSizeUsed := firstMsgSizeUsed h2 + of_nat (length bs)\<rparr>)
           (int (length bs)) st pbuf = Some (n, h3, st3, b3)"
        and r: "(if n \<ge> 1 then Some (0, h3, st3, b3, rs) else recv_loop cb rs h3 st3 b3)
           = Some (r, h', st', pbuf', rs')"
        using Cons.prems unfolding RecvData eq by (auto simp: bind_eq_Some_conv)
      have "rh_socket h2 = rh_socket h"
        using h2 handleMsgLen_socket by (fastforce split: if_splits)
      then have "rh_socket h3 = rh_socket h" using handleMsgData_socket [OF m] by simp
      then show ?thesis using r Cons.IH [of h3 st3 b3] by (auto split: if_splits)
    qed (use Cons.prems q in \<open>auto simp: resetRecvHolder_def\<close>)
  qed
qed simp

section \<open>Choosing the holder\<close>

lemma pick_found:
  assumes "\<forall>h\<in>set xs \<union> set ys. rh_socket h \<noteq> rh_socket h0"
  shows "pick_holder a junk full (xs @ h0 # ys) (rh_socket h0) = Some (int (length xs), xs @ h0 # ys)"
  using last_holder_unique [OF assms] by (simp add: pick_holder_def sl_length_def)

lemma pick_other:
  assumes "\<forall>h\<in>set hs. rh_socket h \<noteq> sock"
  shows "pick_holder a junk full hs sock =
    (case find_index (\<lambda>h. rh_socket h = - 1) hs of
       Some i \<Rightarrow> Some (int i, hs)
     | None \<Rightarrow> if full then None
         else Some (int (length hs), hs @ [snd (initRecvHolder a junk (MAXDEVMSGLEN * 3) sock)]))"
  using assms sl.scan_first [of hs "\<lambda>h. rh_socket h = - 1"]
  by (simp add: pick_holder_def last_holder_none split: option.split prod.split)
    (simp add: sl_push_def sl_length_def)

lemma sl_get_mid [simp]: "sl_get (xs @ h # ys) (int (length xs)) = Some h"
  by (simp add: sl_get_def sl_length_def)

lemma recvAll_loop:
  assumes "pick_holder a junk full hs sock = Some (int (length xs), xs @ h # ys)"
    "recv_loop cb rs (h\<lparr>timeSinceUsed := 0\<rparr>) st pbuf = Some (r, h', st', pbuf', rs')"
  shows "recvAll a junk full cb rs hs sock st pbuf = Some (r, xs @ h' # ys, st', pbuf', rs')"
  using assms by (simp add: recvAll_def)

lemma idle_time [simp]: "idle (h\<lparr>timeSinceUsed := t\<rparr>) cap s = idle h cap s"
  by (simp add: idle_def)

text \<open>A whole message in chunks, on the holder that the socket is given.\<close>

lemma recvAll_message:
  assumes pick: "pick_holder a junk full hs sock = Some (int (length xs), xs @ h # ys)"
    and h: "idle h cap s" and pl: "placed msg cap s" and cs: "concat cs = msg" "fits cap s cs"
  shows "case deliver cb msg st pbuf of
      None \<Rightarrow> recvAll a junk full cb (map RecvData cs @ rs) hs sock st pbuf = None
    | Some (st', pbuf') \<Rightarrow> \<exists>h'. recvAll a junk full cb (map RecvData cs @ rs) hs sock st pbuf
          = Some (0, xs @ h' # ys, st', pbuf', rs)
        \<and> rh_socket h' = rh_socket h \<and> idle h' cap ((s + length msg) mod cap)"
proof -
  have s: "s < cap" "0 < length msg" using pl by (auto simp: placed_def framed_def)
  have "receiving (h\<lparr>timeSinceUsed := 0\<rparr>) msg cap s 0" using h s by (simp add: receiving_idle)
  from recv_loop_message [where cb = cb and st = st and pbuf = pbuf and rs = rs, OF this pl s(2)]
  have loop: "case deliver cb msg st pbuf of
      None \<Rightarrow> recv_loop cb (map RecvData cs @ rs) (h\<lparr>timeSinceUsed := 0\<rparr>) st pbuf = None
    | Some (st', pbuf') \<Rightarrow> \<exists>h'. recv_loop cb (map RecvData cs @ rs) (h\<lparr>timeSinceUsed := 0\<rparr>) st pbuf
          = Some (0, h', st', pbuf', rs) \<and> idle h' cap ((s + length msg) mod cap)"
    using cs s by simp
  show ?thesis
  proof (cases "deliver cb msg st pbuf")
    case None
    then show ?thesis using loop pick by (simp add: recvAll_def)
  next
    case (Some d)
    then obtain h' where h': "recv_loop cb (map RecvData cs @ rs) (h\<lparr>timeSinceUsed := 0\<rparr>) st pbuf
        = Some (0, h', fst d, snd d, rs)" "idle h' cap ((s + length msg) mod cap)"
      using loop by (auto split: prod.splits)
    have "rh_socket h' = rh_socket h" using recv_loop_socket [OF h'(1)] by simp
    with recvAll_loop [OF pick h'(1)] h'(2) Some show ?thesis by (auto split: prod.split)
  qed
qed

text \<open>
  A length word across the end of the buffer: \<open>handleMsgLen\<close> reads four bytes from where the message
  starts, the last of them behind the buffer, as soon as four bytes have arrived.
\<close>

lemma straddling_length_overruns:
  assumes "recvQueue h = Some q" "length q = cap" "rh_size h = int cap" "sizeUsed h = int ((s + k) mod cap)"
    "firstMsgSizeUsed h = of_nat k" "firstMsgSize h = of_nat k" "firstMsgPtr h = (if k = 0 then None else Some (int s))"
    and "s < cap" "cap < s + 4" "cap < 2 ^ 30" "k < 4" "4 \<le> k + length (concat cs)" "fits cap ((s + k) mod cap) cs"
  shows "recv_loop cb (map RecvData cs @ rs) h st pbuf = None"
  using assms
proof (induction cs arbitrary: h q k)
  case Nil
  then show ?case by simp
next
  case (Cons c cs)
  let ?n = "length c" and ?p = "(s + k) mod cap"
  have fit: "c \<noteq> []" "?p + ?n \<le> cap" "?p < cap" using Cons.prems(8,13) by simp_all
  obtain q' where q': "store_bytes q ?p c = Some q'" "length q' = cap"
    using fit(2) Cons.prems(2) by (auto simp: store_bytes_def)
  have b: "int ?n \<le> to_size_t (rh_size h - sizeUsed h)" "store_at q (sizeUsed h) c = Some q'"
    using Cons.prems(3,4,10) q'(1) fit by (simp_all add: store_at_def)
  define h1 where "h1 = h\<lparr>recvQueue := Some q', firstMsgPtr := Some (int s), firstMsgSize := of_nat (k + ?n)\<rparr>"
  have small: "(4 \<le> (of_nat (k + ?n) :: u32)) = (4 \<le> k + ?n)"
    using fit(2) Cons.prems(10,11) u32_le_of_nat [of 4 "k + ?n"] by (simp del: of_nat_add)
  have k0: "((of_nat k :: u32) = 0) = (k = 0)" "(of_nat k :: u32) \<noteq> 5" "(of_nat k :: u32) < 4"
    using Cons.prems(11) less_Suc_eq [of k 3] less_Suc_eq [of k 2] less_Suc_eq [of k 1] by auto
  have ptr: "(if firstMsgSize h = 0 \<and> firstMsgSize h \<noteq> 5 then h\<lparr>recvQueue := Some q', firstMsgPtr := Some (sizeUsed h)\<rparr>
      else h\<lparr>recvQueue := Some q'\<rparr>)\<lparr>firstMsgSize := of_nat (k + ?n)\<rparr> = h1"
    using Cons.prems(4,6-8) k0 by (cases h) (auto simp: h1_def)
  have len: "handleMsgLen (h\<lparr>recvQueue := Some q'\<rparr>) (of_nat ?n) = (if 4 \<le> k + ?n then None else Some h1)"
  proof -
    have "load_at q' (int s) 4 = None" using q'(2) Cons.prems(9) by (simp add: load_at_def load_bytes_def)
    then show ?thesis
      using ptr small Cons.prems(6,7,4,8) k0
      by (cases "k = 0") (simp_all add: handleMsgLen_def Let_def h1_def)
  qed
  have cond: "firstMsgPtr h = None \<or> firstMsgSize h < 4" using Cons.prems(6) k0(3) by simp
  show ?case
  proof (cases "4 \<le> k + ?n")
    case True
    then show ?thesis using b cond len Cons.prems(1) by (auto simp: Let_def)
  next
    case False
    let ?h3 = "h1\<lparr>firstMsgSizeUsed := of_nat (k + ?n)\<rparr>"
    have ml: "(if firstMsgPtr h = None \<or> firstMsgSize h < 4 then handleMsgLen (h\<lparr>recvQueue := Some q'\<rparr>) (of_nat ?n)
        else Some (h\<lparr>recvQueue := Some q'\<rparr>)) = Some h1" using cond len False by simp
    have n4: "\<not> 4 < (of_nat (k + ?n) :: u32)" using small False by (simp add: not_le del: of_nat_add)
    have m: "handleMsgData cb ?h3 (int ?n) st pbuf = Some (0, circulateBuffer ?h3 (int ?n), st, pbuf)"
      using n4 by (subst handleMsgData.simps) (simp add: h1_def del: of_nat_add)
    have u: "h1\<lparr>firstMsgSizeUsed := firstMsgSizeUsed h1 + of_nat ?n\<rparr> = ?h3" using Cons.prems(5) by (simp add: h1_def)
    have r: "recv_loop cb (map RecvData (c # cs) @ rs) h st pbuf
        = recv_loop cb (map RecvData cs @ rs) (circulateBuffer ?h3 (int ?n)) st pbuf"
      using recv_loop_data [OF Cons.prems(1) fit(1) b ml, of cb "map RecvData cs @ rs" st pbuf] m u by simp
    have pos: "circulateBuffer ?h3 (int ?n) = ?h3\<lparr>sizeUsed := int ((?p + ?n) mod cap)\<rparr>"
      by (rule circulate_position [OF _ fit(2,3)]) (simp_all add: h1_def Cons.prems(3,4))
    have p: "(?p + ?n) mod cap = (s + (k + ?n)) mod cap" by (simp add: mod_simps add.assoc)
    have "recv_loop cb (map RecvData cs @ rs) (circulateBuffer ?h3 (int ?n)) st pbuf = None"
      unfolding pos p
      by (rule Cons.IH [of _ q' "k + ?n"])
        (use q'(2) Cons.prems(3,8-10,12,13) False fit(1) in \<open>simp_all add: h1_def p [symmetric]\<close>)
    then show ?thesis unfolding r .
  qed
qed

section \<open>Properties\<close>

text \<open>
  C14. A message that arrives in any number of chunks on a socket with an idle holder, none of them
  holding bytes of another message. If its length word does not cross the end of the circular buffer,
  \<open>recvAll\<close> calls the callback exactly once, with the message intact at the start of the processing
  buffer (also when the rest of it wraps around the end), consumes exactly its chunks, leaves the holder
  idle right behind the message and touches no other holder. If the length word does cross the end,
  the message has no defined behaviour: the length is read from behind the buffer. The message is to
  fit the receive buffer and the processing buffer.
\<close>

theorem message_delivered_once:
  assumes "\<forall>g\<in>set xs \<union> set ys. rh_socket g \<noteq> rh_socket h"
    and "idle h cap s" "framed msg" "length msg \<le> cap" "cap < 2 ^ 30" "concat cs = msg" "fits cap s cs"
    and "length msg \<le> length pbuf" "cb st (msg @ drop (length msg) pbuf) = Some (st', pbuf')"
  shows "if s + 4 \<le> cap
    then \<exists>h'. recvAll a junk full cb (map RecvData cs @ rs) (xs @ h # ys) (rh_socket h) st pbuf
        = Some (0, xs @ h' # ys, st', pbuf', rs)
      \<and> rh_socket h' = rh_socket h \<and> idle h' cap ((s + length msg) mod cap)
    else recvAll a junk full cb (map RecvData cs @ rs) (xs @ h # ys) (rh_socket h) st pbuf = None"
proof -
  have s: "s < cap" using assms(2) by (auto simp: idle_def)
  note pick = pick_found [OF assms(1)]
  show ?thesis
  proof (cases "s + 4 \<le> cap")
    case True
    then have "placed msg cap s" using s assms(3-5) by (simp add: placed_def)
    from recvAll_message [where cb = cb and st = st and pbuf = pbuf and rs = rs, OF pick assms(2) this assms(6,7)]
    show ?thesis using True assms(8,9) by (simp add: deliver_def)
  next
    case False
    obtain q where "recvQueue h = Some q" "length q = cap" "rh_size h = int cap" "sizeUsed h = int s"
      "firstMsgSizeUsed h = 0" "firstMsgSize h = 0" "firstMsgPtr h = None"
      using assms(2) by (auto simp: idle_def)
    then have "recv_loop cb (map RecvData cs @ rs) (h\<lparr>timeSinceUsed := 0\<rparr>) st pbuf = None"
      using straddling_length_overruns [of "h\<lparr>timeSinceUsed := 0\<rparr>" q cap s 0 cs] False s assms(3,5-7)
      by (simp add: framed_def)
    then show ?thesis using False pick by (simp add: recvAll_def)
  qed
qed

definition demo_holder :: "int \<Rightarrow> nat \<Rightarrow> recvHolder" where
  "demo_holder sock s = \<lparr>rh_socket = sock, recvQueue = Some [0, 0, 0, 0, 0, 0, 0, 0, 0, 0, 0, 0], rh_size = 12, sizeUsed = int s,
     firstMsgPtr = None, firstMsgSize = 0, firstMsgSizeUsed = 0, timeSinceUsed = 3\<rparr>"

definition log_msg :: "byte list list callback" where
  "log_msg log b = Some (log @ [b], b)"

lemma demo_idle: "s < 12 \<Longrightarrow> idle (demo_holder sock s) 12 s" "rh_socket (demo_holder sock s) = sock"
  by (simp_all add: idle_def demo_holder_def)

lemma demo_framed: "framed [0, 0, 0, 6, 8, 9]"
  by (simp add: framed_def be32_bytes)

text \<open>The same message further back and, from position 10, with its length word in two parts.\<close>

theorem message_delivered_once_witness:
  "(\<exists>h'. recvAll zero_alloc 0 False log_msg [RecvData [0, 0], RecvData [0, 6], RecvData [8, 9], RecvError]
      [demo_holder 4 8] 4 [] [1, 1, 1, 1, 1, 1, 7] = Some (0, [h'], [[0, 0, 0, 6, 8, 9, 7]], [0, 0, 0, 6, 8, 9, 7], [RecvError])
    \<and> rh_socket h' = 4 \<and> idle h' 12 2)
    \<and> recvAll zero_alloc 0 False log_msg [RecvData [0, 0], RecvData [0, 6], RecvData [8, 9], RecvError]
      [demo_holder 4 10] 4 [] [1, 1, 1, 1, 1, 1, 7] = None"
  using message_delivered_once [of "[]" "[]" "demo_holder 4 8" 12 8 "[0, 0, 0, 6, 8, 9]"
      "[[0, 0], [0, 6], [8, 9]]" "[1, 1, 1, 1, 1, 1, 7]" log_msg "[]" _ _ zero_alloc 0 False "[RecvError]"]
    message_delivered_once [of "[]" "[]" "demo_holder 4 10" 12 10 "[0, 0, 0, 6, 8, 9]"
      "[[0, 0], [0, 6], [8, 9]]" "[1, 1, 1, 1, 1, 1, 7]" log_msg "[]" _ _ zero_alloc 0 False "[RecvError]"]
  by (simp add: demo_idle demo_framed log_msg_def)

text \<open>
  The first message of a new connection: on a socket that no holder has, with no holder
  free, \<open>recvAll\<close> appends a holder of 765 bytes for it (when memory allows) and delivers the
  message to the callback exactly as above.
\<close>

lemma first_message_of_connection:
  assumes "\<forall>g\<in>set hs. rh_socket g \<noteq> sock \<and> rh_socket g \<noteq> - 1" and "malloc a 765 \<noteq> None"
    and "placed msg 765 0" "concat cs = msg" "fits 765 0 cs"
    and "length msg \<le> length pbuf" "cb st (msg @ drop (length msg) pbuf) = Some (st', pbuf')"
  shows "\<exists>h'. recvAll a junk False cb (map RecvData cs @ rs) hs sock st pbuf
      = Some (0, hs @ [h'], st', pbuf', rs)
    \<and> rh_socket h' = sock \<and> idle h' 765 (length msg mod 765)"
proof -
  let ?h = "snd (initRecvHolder a junk (MAXDEVMSGLEN * 3) sock)"
  have "pick_holder a junk False hs sock = Some (int (length hs), hs @ ?h # [])"
    using assms(1) by (simp add: pick_other find_index_None [THEN iffD2])
  moreover have "idle ?h 765 0" "rh_socket ?h = sock"
    using assms(2) malloc_length [of a 765]
    by (auto simp: initRecvHolder_def MAXDEVMSGLEN_def idle_def Let_def to_size_t_def)
  ultimately show ?thesis 
    using recvAll_message [where cb = cb and st = st and pbuf = pbuf and rs = rs, OF _ _ assms(3-5),
        of a junk False hs sock hs ?h "[]"] assms(6,7) by (simp add: deliver_def)
qed

text \<open>
  The length of a message is never compared with the processing buffer: a message longer
  than it (the callers pass 255 bytes, a holder takes up to 765) has no defined behaviour,
  in whatever chunks it arrives; the copy writes past the buffer.
\<close>

lemma long_message_overruns:
  assumes "\<forall>g\<in>set xs \<union> set ys. rh_socket g \<noteq> rh_socket h"
    and "idle h cap s" "placed msg cap s" "concat cs = msg" "fits cap s cs" "length pbuf < length msg"
  shows "recvAll a junk full cb (map RecvData cs @ rs) (xs @ h # ys) (rh_socket h) st pbuf = None"
  using recvAll_message [where cb = cb and st = st and pbuf = pbuf and rs = rs, OF pick_found [OF assms(1)] assms(2-5)]
    assms(6) by (simp add: deliver_def)

text \<open>
  A free holder is reused without taking the socket: after one connection's bytes went
  into it (and a non-blocking \<open>recv\<close> ran dry or a message was delivered) the next socket
  without a holder is given the same holder, so two connections write into one buffer.
\<close>

lemma free_holder_shared:
  assumes "\<forall>h\<in>set xs. rh_socket h \<noteq> - 1" and "rh_socket h = - 1"
    and "\<forall>g\<in>set xs \<union> set ys. rh_socket g \<noteq> sock1 \<and> rh_socket g \<noteq> sock2"
    and "sock1 \<noteq> - 1" "sock2 \<noteq> - 1"
    and "recvAll a junk full cb rs (xs @ h # ys) sock1 st pbuf = Some (r, hs', st', pbuf', rs')"
  shows "\<exists>h'. hs' = xs @ h' # ys \<and> pick_holder a junk full hs' sock2 = Some (int (length xs), hs')
    \<and> (r = 0 \<or> r = - 1 \<longrightarrow> recv_loop cb rs (h\<lparr>timeSinceUsed := 0\<rparr>) st pbuf = Some (r, h', st', pbuf', rs'))"
proof -
  have fi: "find_index (\<lambda>h. rh_socket h = - 1) (xs @ g # ys) = Some (length xs)" if "rh_socket g = - 1" for g
    using assms(1) that by (induction xs) auto
  have "pick_holder a junk full (xs @ h # ys) sock1 = Some (int (length xs), xs @ h # ys)"
    using assms(2-4) by (subst pick_other) (auto simp: fi)
  then obtain h' where h': "recv_loop cb rs (h\<lparr>timeSinceUsed := 0\<rparr>) st pbuf = Some (r, h', st', pbuf', rs')"
      "hs' = xs @ h' # ys"
    using assms(6) by (auto simp: recvAll_def bind_eq_Some_conv)
  then have "rh_socket h' = - 1" using recv_loop_socket [OF h'(1)] assms(2) by (simp split: if_splits)
  then have "pick_holder a junk full hs' sock2 = Some (int (length xs), hs')"
    unfolding h'(2) using assms(3,5) by (subst pick_other) (auto simp: fi)
  with h' show ?thesis by blast
qed

lemma demo_partial:
  "recvAll zero_alloc 0 False log_msg [RecvData [0, 9], RecvError] [demo_holder (- 1) 0] 6 [] []
    = Some (- 1, [(demo_holder (- 1) 0)\<lparr>recvQueue := Some [0, 9, 0, 0, 0, 0, 0, 0, 0, 0, 0, 0], sizeUsed := 2,
        firstMsgPtr := Some 0, firstMsgSize := 2, firstMsgSizeUsed := 2, timeSinceUsed := 0\<rparr>], [], [], [])"
proof -
  have "pick_holder zero_alloc 0 False [demo_holder (- 1) 0] 6 = Some (0, [demo_holder (- 1) 0])"
    by (simp add: pick_other demo_idle)
  then show ?thesis
    by (simp add: recvAll_def sl_get_def sl_length_def demo_holder_def store_at_def store_bytes_def
        handleMsgLen_def handleMsgData.simps circulateBuffer_def Let_def)
qed

section \<open>Two messages in one chunk\<close>

lemma copyMessage_flat:
  assumes "recvQueue h = Some (pre @ msg @ post)" "firstMsgPtr h = Some (int (length pre))"
    "firstMsgSize h = of_nat (length msg)" "firstMsgSizeUsed h = of_nat u"
    "rh_size h = int (length (pre @ msg @ post))" "rh_size h < 2 ^ 30" "int (length pre + u) < rh_size h"
  shows "copyMessage h pbuf = (if length msg \<le> length pbuf then Some (msg @ drop (length msg) pbuf) else None)"
proof -
  have un: "uint (of_nat u :: u32) = int u" "uint (of_nat (length msg) :: u32) = int (length msg)"
    using assms(5-7) by (simp_all add: uint_nat unat_of_nat)
  let ?t = "rh_size h + (- int (length pre) - uint (firstMsgSizeUsed h))"
  have "to_int32 ?t = ?t" using assms(6,7) by (intro to_int32_id) (simp_all add: assms(4) un)
  moreover have "0 < ?t" using assms(7) by (simp add: assms(4) un)
  ultimately show ?thesis
    using assms(1-3) by (simp add: copyMessage_def Let_def un load_at_def load_bytes_mid store_at_def store_bytes_def)
qed

lemma frame_length: "framed msg \<Longrightarrow> ntohl (u32_of_bytes (take 4 msg)) = of_nat (length msg)"
  by (simp add: framed_def be32_def ntohl_eq_htonl flip: bytes_of_u32_htonl)

text \<open>
  Two messages in one chunk are both handed to the callback, in order, but every nested
  call moves the fill position by the whole chunk: it ends at twice the chunk. When that is
  beyond the end of the buffer, whatever the connection sends next is written outside it.
\<close>

lemma two_messages_double_fill:
  fixes m1 m2 :: "byte list"
  assumes "framed m1" "framed m2" "idle h cap 0"
    and "length (m1 @ m2) < cap" "cap < 2 * length (m1 @ m2)" "cap < 2 ^ 30"
    and "deliver cb m1 st pbuf = Some (st1, pbuf1)" "deliver cb m2 st1 pbuf1 = Some (st2, pbuf2)"
  shows "\<exists>h'. recv_loop cb (RecvData (m1 @ m2) # rs) h st pbuf = Some (0, h', st2, pbuf2, rs)
    \<and> sizeUsed h' = 2 * int (length (m1 @ m2))
    \<and> (\<forall>bs rs st pbuf. recv_loop cb (RecvData bs # rs) h' st pbuf = None)"
proof -
  let ?n = "length (m1 @ m2)" and ?l1 = "length m1" and ?l2 = "length m2"
  obtain q where q: "recvQueue h = Some q" "length q = cap" "rh_size h = int cap" "sizeUsed h = 0"
      "firstMsgSizeUsed h = 0" "firstMsgSize h = 0" "firstMsgPtr h = None"
    using assms(3) by (auto simp: idle_def)
  have l: "4 < ?l1" "4 < ?l2" using assms(1,2) by (simp_all add: framed_def)
  define post where "post = drop ?n q"
  define q' where "q' = m1 @ m2 @ post"
  have lq': "length q' = cap" using q assms(4) by (simp add: q'_def post_def)
  have st: "store_at q 0 (m1 @ m2) = Some q'"
    using q assms(4) by (simp add: store_at_def store_bytes_def q'_def post_def)
  have w1: "load_at q' 0 4 = Some (take 4 m1)"
    using l by (simp add: q'_def load_at_def load_bytes_def)
  have w2: "load_at q' (int ?l1) 4 = Some (take 4 m2)"
    using l by (simp add: q'_def load_at_def load_bytes_def)
  have u: "4 \<le> (of_nat (?l1 + ?l2) :: u32)" "(of_nat ?l1 :: u32) < of_nat (?l1 + ?l2)"
    "4 < (of_nat ?l1 :: u32)" "4 < (of_nat ?l2 :: u32)" "4 \<le> (of_nat (5 + ?l2) :: u32)"
    using l assms(4,6) u32_le_of_nat [of 4 "?l1 + ?l2"] u32_less_of_nat [of ?l1 "?l1 + ?l2"]
      u32_less_of_nat [of 4 ?l1] u32_less_of_nat [of 4 ?l2] u32_le_of_nat [of 4 "5 + ?l2"]
    by (auto simp del: of_nat_add)
  have u6: "(5 :: u32) + of_nat ?l2 = of_nat (5 + ?l2)" by simp
  define h2 where "h2 = h\<lparr>recvQueue := Some q', firstMsgPtr := Some 0, firstMsgSize := of_nat ?l1\<rparr>"
  have h2: "handleMsgLen (h\<lparr>recvQueue := Some q'\<rparr>) (of_nat ?n) = Some h2"
    using u(1) by (simp add: handleMsgLen_def Let_def q w1 frame_length [OF assms(1)] h2_def del: of_nat_add)
  define h3 where "h3 = h2\<lparr>firstMsgSizeUsed := of_nat (?l1 + ?l2)\<rparr>"
  have c3: "copyMessage h3 pbuf = Some (m1 @ drop ?l1 pbuf)" and cb3: "cb st (m1 @ drop ?l1 pbuf) = Some (st1, pbuf1)"
    using copyMessage_flat [of h3 "[]" m1 "m2 @ post" "?l1 + ?l2" pbuf] assms(4,6,7) q(3) lq'
    by (auto simp: h3_def h2_def q'_def deliver_def split: if_splits)
  define h4 where "h4 = h3\<lparr>firstMsgPtr := Some (int ?l1), firstMsgSizeUsed := of_nat ?l2,
      firstMsgSize := 5, sizeUsed := int ?n\<rparr>"
  have h4: "circulateBuffer (h3\<lparr>firstMsgPtr := Some (int ?l1), firstMsgSizeUsed := of_nat ?l2,
      firstMsgSize := 5\<rparr>) (int ?n) = h4"
    using assms(4) q by (simp add: circulateBuffer_def h4_def h3_def h2_def)
  define h5 where "h5 = h4\<lparr>firstMsgSize := of_nat ?l2\<rparr>"
  have h5: "handleMsgLen h4 (of_nat ?l2) = Some h5"
    using u(5) by (simp add: handleMsgLen_def Let_def h5_def h4_def h3_def h2_def w2 u6
        frame_length [OF assms(2)] del: of_nat_add)
  have c5: "copyMessage h5 pbuf1 = Some (m2 @ drop ?l2 pbuf1)" and cb5: "cb st1 (m2 @ drop ?l2 pbuf1) = Some (st2, pbuf2)"
    using copyMessage_flat [of h5 m1 m2 post ?l2 pbuf1] assms(4,6,8) q(3) lq'
    by (auto simp: h5_def h4_def h3_def h2_def q'_def deliver_def split: if_splits)
  define h6 where "h6 = h5\<lparr>firstMsgPtr := None, firstMsgSize := 0, firstMsgSizeUsed := 0, sizeUsed := 2 * int ?n\<rparr>"
  have h6: "circulateBuffer (h5\<lparr>firstMsgPtr := None, firstMsgSize := 0, firstMsgSizeUsed := 0\<rparr>) (int ?n) = h6"
    using assms(5) q by (simp add: circulateBuffer_def h6_def h5_def h4_def h3_def h2_def)
  have f5: "firstMsgSize h5 = of_nat ?l2" "firstMsgSizeUsed h5 = of_nat ?l2"
    by (simp_all add: h5_def h4_def)
  have m5: "handleMsgData cb h5 (int ?n) st1 pbuf1 = Some (1, h6, st2, pbuf2)"
    by (subst handleMsgData.simps) (simp add: f5 u(4) c5 cb5 h6 del: length_append of_nat_add)
  have f3: "firstMsgSize h3 = of_nat ?l1" "firstMsgSizeUsed h3 = of_nat (?l1 + ?l2)" "sizeUsed h3 = 0"
    by (simp_all add: h3_def h2_def q)
  have n1: "uint (of_nat ?l1 :: u32) = int ?l1" using assms(4,6) by (simp add: uint_nat unat_of_nat)
  have f4: "firstMsgSizeUsed h4 = of_nat ?l2" by (simp add: h4_def)
  have d: "of_nat (?l1 + ?l2) - of_nat ?l1 = (of_nat ?l2 :: u32)" by simp
  have m3: "handleMsgData cb h3 (int ?n) st pbuf = Some (2, h6, st2, pbuf2)"
    by (subst handleMsgData.simps)
      (simp add: f3 u less_imp_le [OF u(2)] c3 cb3 n1 d h4 f4 h5 m5 del: length_append of_nat_add)
  have "recv_loop cb (RecvData (m1 @ m2) # rs) h st pbuf = Some (0, h6, st2, pbuf2, rs)"
  proof -
    have "m1 @ m2 \<noteq> []" "int ?n \<le> to_size_t (rh_size h - sizeUsed h)"
      using l assms(4,6) q by auto
    from recv_loop_data [OF q(1) this st [folded q(4)], of h2 cb rs st pbuf]
    have "recv_loop cb (RecvData (m1 @ m2) # rs) h st pbuf = handleMsgData cb h3 (int ?n) st pbuf
        \<bind> (\<lambda>(m, h, st, pbuf). if m \<ge> 1 then Some (0, h, st, pbuf, rs) else recv_loop cb rs h st pbuf)"
      using h2 q(5,7) by (simp add: h3_def h2_def del: recv_loop.simps)
    then show ?thesis using m3 by (simp del: recv_loop.simps)
  qed
  moreover have "recv_loop cb (RecvData bs # rs) h6 st pbuf = None" for bs rs st pbuf
    using assms(4,5) q lq' by (auto simp: h6_def h5_def h4_def h3_def h2_def store_at_def store_bytes_def)
  moreover have "sizeUsed h6 = 2 * int ?n" by (simp add: h6_def)
  ultimately show ?thesis by blast
qed

end
