(* ===== verification/Ecdh.thy ===== *)
theory Ecdh
  imports C_Prelude
begin

text \<open>
  The Diffie-Hellman key exchange of \<open>misc/tinyECDH/ecdh.c\<close> for the curve the header
  selects, NIST B-163: bit vectors of six 32-bit words, arithmetic in GF(2^163), points, key
  generation, the shared secret, and the signature functions. The library is compiled
  without its constant-time mode and without the cofactor variant. The inversion is a loop
  with no bound, an \<open>option\<close> value; the vectors are passed by value, which the callers'
  arguments allow (no output of a product is its second factor).

  The lemmas read a vector as a polynomial over GF(2), the natural number of its bits.
\<close>

unbundle bit_operations_syntax

section \<open>Parameters\<close>

definition CURVE_DEGREE :: nat where "CURVE_DEGREE = 163"
definition ECC_PRV_KEY_SIZE :: nat where "ECC_PRV_KEY_SIZE = 24"
definition ECC_PUB_KEY_SIZE :: nat where "ECC_PUB_KEY_SIZE = 2 * ECC_PRV_KEY_SIZE"
definition BITVEC_NBITS :: nat where "BITVEC_NBITS = CURVE_DEGREE + 3"
definition BITVEC_NWORDS :: nat where "BITVEC_NWORDS = (BITVEC_NBITS + 31) div 32"
definition BITVEC_NBYTES :: nat where "BITVEC_NBYTES = 4 * BITVEC_NWORDS"

lemmas curve_consts = CURVE_DEGREE_def ECC_PRV_KEY_SIZE_def ECC_PUB_KEY_SIZE_def BITVEC_NBITS_def
  BITVEC_NWORDS_def BITVEC_NBYTES_def

type_synonym bitvec = "u32 list"

definition polynomial :: bitvec where
  "polynomial = [0x000000c9, 0x00000000, 0x00000000, 0x00000000, 0x00000000, 0x00000008]"
definition coeff_b :: bitvec where
  "coeff_b = [0x4a3205fd, 0x512f7874, 0x1481eb10, 0xb8c953ca, 0x0a601907, 0x00000002]"
definition base_x :: bitvec where
  "base_x = [0xe8343e36, 0xd4994637, 0xa0991168, 0x86a2d57e, 0xf0eba162, 0x00000003]"
definition base_y :: bitvec where
  "base_y = [0x797324f1, 0xb11c5c0c, 0xa2cdd545, 0x71a0094f, 0xd51fbc6c, 0x00000000]"
definition base_order :: bitvec where
  "base_order = [0xa4234c33, 0x77e70c12, 0x000292fe, 0x00000000, 0x00000000, 0x00000004]"

section \<open>Bit vectors\<close>

definition bitvec_get_bit :: "bitvec \<Rightarrow> nat \<Rightarrow> bool" where
  "bitvec_get_bit x idx \<longleftrightarrow> drop_bit (idx mod 32) (x ! (idx div 32)) AND 1 \<noteq> 0"

definition bitvec_clr_bit :: "bitvec \<Rightarrow> nat \<Rightarrow> bitvec" where
  "bitvec_clr_bit x idx = x[idx div 32 := x ! (idx div 32) AND NOT (push_bit (idx mod 32) 1)]"

definition bitvec_equal :: "bitvec \<Rightarrow> bitvec \<Rightarrow> bool" where
  "bitvec_equal x y \<longleftrightarrow> list_all (\<lambda>i. x ! i = y ! i) [0..<BITVEC_NWORDS]"

definition bitvec_zero :: bitvec where
  "bitvec_zero = replicate BITVEC_NWORDS 0"

definition bitvec_is_zero :: "bitvec \<Rightarrow> bool" where
  "bitvec_is_zero x \<longleftrightarrow> list_all (\<lambda>i. x ! i = 0) [0..<BITVEC_NWORDS]"

text \<open>The number of words left when the zero words at the top are skipped.\<close>

fun skip_zero_words :: "bitvec \<Rightarrow> nat \<Rightarrow> nat" where
  "skip_zero_words x 0 = 0"
| "skip_zero_words x (Suc k) = (if x ! k = 0 then skip_zero_words x k else Suc k)"

text \<open>The mask moves down from bit \<open>k\<close> and \<open>i\<close> is counted down with it.\<close>

fun mask_loop :: "u32 \<Rightarrow> nat \<Rightarrow> nat \<Rightarrow> nat" where
  "mask_loop w 0 i = i"
| "mask_loop w (Suc k) i = (if w AND push_bit (Suc k) 1 = 0 then mask_loop w k (i - 1) else i)"

definition bitvec_degree :: "bitvec \<Rightarrow> nat" where
  "bitvec_degree x =
     (let n = skip_zero_words x BITVEC_NWORDS; i = 32 * n in
      if i \<noteq> 0 then mask_loop (x ! (n - 1)) 31 i else i)"

definition bitvec_lshift :: "bitvec \<Rightarrow> nat \<Rightarrow> bitvec" where
  "bitvec_lshift y nbits =
     (let nwords = nbits div 32;
          x = map (\<lambda>i. if i < nwords then 0 else y ! (i - nwords)) [0..<BITVEC_NWORDS];
          nbits = nbits mod 32
      in if nbits \<noteq> 0 then
           map (\<lambda>i. if i = 0 then push_bit nbits (x ! 0)
                     else push_bit nbits (x ! i) OR drop_bit (32 - nbits) (x ! (i - 1))) [0..<BITVEC_NWORDS]
         else x)"

section \<open>The field\<close>

definition gf2field_one :: bitvec where
  "gf2field_one = 1 # replicate (BITVEC_NWORDS - 1) 0"

definition gf2field_is_one :: "bitvec \<Rightarrow> bool" where
  "gf2field_is_one x \<longleftrightarrow> x ! 0 = 1 \<and> list_all (\<lambda>i. x ! i = 0) [1..<BITVEC_NWORDS]"

definition gf2field_add :: "bitvec \<Rightarrow> bitvec \<Rightarrow> bitvec" where
  "gf2field_add x y = map (\<lambda>i. x ! i XOR y ! i) [0..<BITVEC_NWORDS]"

definition gf2field_inc :: "bitvec \<Rightarrow> bitvec" where
  "gf2field_inc x = x[0 := x ! 0 XOR 1]"

definition mul_step :: "bitvec \<Rightarrow> nat \<Rightarrow> bitvec \<times> bitvec \<Rightarrow> bitvec \<times> bitvec" where
  "mul_step y i tz =
     (let (tmp, z) = tz;
          tmp = bitvec_lshift tmp 1;
          tmp = (if bitvec_get_bit tmp CURVE_DEGREE then gf2field_add tmp polynomial else tmp);
          z = (if bitvec_get_bit y i then gf2field_add z tmp else z)
      in (tmp, z))"

definition gf2field_mul :: "bitvec \<Rightarrow> bitvec \<Rightarrow> bitvec" where
  "gf2field_mul x y =
     snd (fold (mul_step y) [1..<CURVE_DEGREE] (x, if bitvec_get_bit y 0 then x else bitvec_zero))"

partial_function (option) inv_loop :: "bitvec \<Rightarrow> bitvec \<Rightarrow> bitvec \<Rightarrow> bitvec \<Rightarrow> bitvec option" where
  "inv_loop u v g z =
     (if gf2field_is_one u then Some z
      else
        let i = int (bitvec_degree u) - int (bitvec_degree v);
            (u, v, g, z, i) = (if i < 0 then (v, u, z, g, - i) else (u, v, g, z, i));
            u = gf2field_add u (bitvec_lshift v (nat i));
            z = gf2field_add z (bitvec_lshift g (nat i))
        in inv_loop u v g z)"

definition gf2field_inv :: "bitvec \<Rightarrow> bitvec option" where
  "gf2field_inv x = inv_loop x polynomial bitvec_zero gf2field_one"

section \<open>Points\<close>

definition gf2point_zero :: "bitvec \<times> bitvec" where
  "gf2point_zero = (bitvec_zero, bitvec_zero)"

definition gf2point_is_zero :: "bitvec \<times> bitvec \<Rightarrow> bool" where
  "gf2point_is_zero P \<longleftrightarrow> bitvec_is_zero (fst P) \<and> bitvec_is_zero (snd P)"

definition gf2point_double :: "bitvec \<times> bitvec \<Rightarrow> (bitvec \<times> bitvec) option" where
  "gf2point_double P =
     (let (x, y) = P in
      if bitvec_is_zero x then Some (x, bitvec_zero)
      else do {
        l \<leftarrow> gf2field_inv x;
        let l = gf2field_mul l y;
        let l = gf2field_add l x;
        let y = gf2field_mul x x;
        let x = gf2field_mul l l;
        let l = gf2field_inc l;
        let x = gf2field_add x l;
        let l = gf2field_mul l x;
        let y = gf2field_add y l;
        Some (x, y)
      })"

definition gf2point_add :: "bitvec \<times> bitvec \<Rightarrow> bitvec \<times> bitvec \<Rightarrow> (bitvec \<times> bitvec) option" where
  "gf2point_add P Q =
     (if \<not> gf2point_is_zero Q then
        if gf2point_is_zero P then Some Q
        else
          let (x1, y1) = P; (x2, y2) = Q in
          if bitvec_equal x1 x2 then
            if bitvec_equal y1 y2 then gf2point_double (x1, y1) else Some gf2point_zero
          else do {
            let a = gf2field_add y1 y2;
            let b = gf2field_add x1 x2;
            c \<leftarrow> gf2field_inv b;
            let c = gf2field_mul c a;
            let d = gf2field_mul c c;
            let d = gf2field_add d c;
            let d = gf2field_add d b;
            let d = gf2field_inc d;
            let x1 = gf2field_add x1 d;
            let a = gf2field_mul x1 c;
            let a = gf2field_add a d;
            let y1 = gf2field_add y1 a;
            let x1 = d;
            Some (x1, y1)
          }
      else Some P)"

fun point_mul_loop :: "bitvec \<times> bitvec \<Rightarrow> bitvec \<Rightarrow> nat \<Rightarrow> bitvec \<times> bitvec \<Rightarrow> (bitvec \<times> bitvec) option" where
  "point_mul_loop P e 0 tmp = Some tmp"
| "point_mul_loop P e (Suc i) tmp = do {
     tmp \<leftarrow> gf2point_double tmp;
     tmp \<leftarrow> (if bitvec_get_bit e i then gf2point_add tmp P else Some tmp);
     point_mul_loop P e i tmp
   }"

definition gf2point_mul :: "bitvec \<times> bitvec \<Rightarrow> bitvec \<Rightarrow> (bitvec \<times> bitvec) option" where
  "gf2point_mul P e = point_mul_loop P e (bitvec_degree e) gf2point_zero"

definition gf2point_on_curve :: "bitvec \<times> bitvec \<Rightarrow> bool" where
  "gf2point_on_curve P =
     (let (x, y) = P in
      if gf2point_is_zero P then True
      else
        let a = gf2field_mul x x;
            b = gf2field_mul a x;
            a = gf2field_add a b;
            a = gf2field_add a coeff_b;
            b = gf2field_mul y y;
            a = gf2field_add a b;
            b = gf2field_mul x y
        in bitvec_equal a b)"

section \<open>Keys\<close>

text \<open>The bytes of a key are read as vectors; the machine is little-endian.\<close>

definition vec_of_bytes :: "byte list \<Rightarrow> bitvec" where
  "vec_of_bytes bs = map (\<lambda>i. u32_of_bytes (take 4 (drop (4 * i) bs))) [0..<BITVEC_NWORDS]"

definition bytes_of_vec :: "bitvec \<Rightarrow> byte list" where
  "bytes_of_vec x = concat (map bytes_of_u32 x)"

definition point_of_bytes :: "byte list \<Rightarrow> bitvec \<times> bitvec" where
  "point_of_bytes bs = (vec_of_bytes bs, vec_of_bytes (drop BITVEC_NBYTES bs))"

definition bytes_of_point :: "bitvec \<times> bitvec \<Rightarrow> byte list" where
  "bytes_of_point P = bytes_of_vec (fst P) @ bytes_of_vec (snd P)"

text \<open>The bits from \<open>nbits - 1\<close> up to \<open>high\<close> are cleared.\<close>

definition clear_high_bits :: "bitvec \<Rightarrow> nat \<Rightarrow> nat \<Rightarrow> bitvec" where
  "clear_high_bits x nbits high = fold (\<lambda>i x. bitvec_clr_bit x i) [nbits - 1..<high] x"

text \<open>The result, the public key and the private key.\<close>

definition ecdh_generate_keys :: "byte list \<Rightarrow> (int \<times> byte list \<times> byte list) option" where
  "ecdh_generate_keys private_key =
     (if bitvec_degree (vec_of_bytes private_key) < CURVE_DEGREE div 2
      then Some (0, bytes_of_point (base_x, base_y), private_key)
      else
        let private = clear_high_bits (vec_of_bytes private_key) (bitvec_degree base_order) (BITVEC_NWORDS * 32) in do {
          P \<leftarrow> gf2point_mul (base_x, base_y) private;
          Some (1, bytes_of_point P, bytes_of_vec private)
        })"

definition ecdh_shared_secret :: "byte list \<Rightarrow> byte list \<Rightarrow> byte list \<Rightarrow> (int \<times> byte list) option" where
  "ecdh_shared_secret private_key others_pub output =
     (if \<not> gf2point_is_zero (point_of_bytes others_pub) \<and> gf2point_on_curve (point_of_bytes others_pub)
      then do {
        P \<leftarrow> gf2point_mul (point_of_bytes others_pub) (vec_of_bytes private_key);
        Some (1, bytes_of_point P)
      } else Some (0, output))"

section \<open>Signatures\<close>

text \<open>
  The loops that clear the top bits start at \<open>nbits - 1\<close>; with a zero vector that is the
  index \<open>-1\<close>, far outside it.
\<close>

definition clear_top :: "bitvec \<Rightarrow> bitvec option" where
  "clear_top r = (let nbits = bitvec_degree r in
     if nbits = 0 then None else Some (clear_high_bits r nbits BITVEC_NBITS))"

definition ecdsa_sign :: "byte list \<Rightarrow> byte list \<Rightarrow> byte list \<Rightarrow> byte list \<Rightarrow> (int \<times> byte list) option" where
  "ecdsa_sign private_key hash random_k signature =
     (if bitvec_degree (vec_of_bytes private_key) \<ge> CURVE_DEGREE div 2
         \<and> \<not> bitvec_is_zero (vec_of_bytes random_k)
      then do {
        let z = clear_high_bits (vec_of_bytes hash) (bitvec_degree base_order) BITVEC_NBITS;
        let k = vec_of_bytes random_k;
        (r, s) \<leftarrow> gf2point_mul (base_x, base_y) k;
        if bitvec_is_zero r then Some (0, signature)
        else do {
          s \<leftarrow> gf2field_inv k;
          let r = gf2field_mul r (vec_of_bytes private_key);
          let r = gf2field_add r z;
          r \<leftarrow> clear_top r;
          let s = gf2field_mul s r;
          s \<leftarrow> clear_top s;
          if bitvec_is_zero s then Some (0, signature)
          else Some (1, bytes_of_vec r @ bytes_of_vec s)
        }
      } else Some (0, signature))"

definition reduce_once :: "bitvec \<Rightarrow> bitvec" where
  "reduce_once w = (if bitvec_get_bit w CURVE_DEGREE then gf2field_add w polynomial else w)"

text \<open>
  \<open>u1\<close> and \<open>u2\<close>, the only values that depend on the hash, are computed and then overwritten;
  the second overwriting needs no value.
\<close>

definition ecdsa_verify :: "byte list \<Rightarrow> byte list \<Rightarrow> byte list \<Rightarrow> int option" where
  "ecdsa_verify public_key hash signature =
     (let r = vec_of_bytes signature; s = vec_of_bytes (drop ECC_PRV_KEY_SIZE signature) in
      if \<not> bitvec_is_zero s \<and> \<not> bitvec_is_zero r then do {
        let z = clear_high_bits (vec_of_bytes hash) (bitvec_degree base_order) BITVEC_NBITS;
        w \<leftarrow> gf2field_inv s;
        let w = reduce_once w;
        let u1 = reduce_once (gf2field_mul z w);
        let u2 = reduce_once (gf2field_mul r w);
        let (x1, y1) = (base_x, base_y);
        let u1 = gf2field_mul x1 y1;
        let w = vec_of_bytes public_key;
        let z = vec_of_bytes (drop ECC_PRV_KEY_SIZE public_key);
        let u2 = gf2field_mul w z;
        (x1, y1) \<leftarrow> gf2point_add (x1, y1) (w, z);
        let x1 = reduce_once x1;
        Some (if bitvec_equal r x1 then 1 else 0)
      } else Some 0)"

section \<open>Vectors as polynomials\<close>

text \<open>A vector is the polynomial whose coefficients are its bits, a natural number.\<close>

definition bv :: "bitvec \<Rightarrow> nat" where
  "bv x = horner_sum of_bool 2 (map (\<lambda>n. bit (x ! (n div 32)) (n mod 32)) [0..<192])"

lemma bit_bv: "bit (bv x) n \<longleftrightarrow> n < 192 \<and> bit (x ! (n div 32)) (n mod 32)"
  by (auto simp: bv_def bit_horner_sum_bit_iff)

lemma bv_less: "bv x < 2 ^ 192"
proof -
  have "take_bit 192 (bv x) = bv x" by (rule bit_eqI) (auto simp: bit_take_bit_iff bit_bv)
  then show ?thesis by (simp add: take_bit_nat_eq_self_iff)
qed

lemma words6: "BITVEC_NWORDS = 6" "[0..<6] = [0, 1, 2, 3, 4, 5 :: nat]" "[Suc 0..<6] = [1, 2, 3, 4, 5 :: nat]"
  by (simp_all add: curve_consts upt_rec)

lemma nth_map_upt6: "i < 6 \<Longrightarrow> map f [0..<BITVEC_NWORDS] ! i = f i"
  by (simp add: words6(1))

lemma length_ops [simp]:
  "length (gf2field_add x y) = 6" "length (bitvec_lshift x n) = 6" "length bitvec_zero = 6"
  "length gf2field_one = 6" "length polynomial = 6"
  by (simp_all add: gf2field_add_def bitvec_lshift_def Let_def bitvec_zero_def gf2field_one_def polynomial_def words6(1))

lemma bv_add [simp]: "bv (gf2field_add x y) = bv x XOR bv y"
  by (rule bit_eqI) (auto simp: bit_bv bit_xor_iff gf2field_add_def nth_map_upt6)

lemma get_bit_bv: "i < 192 \<Longrightarrow> bitvec_get_bit x i = bit (bv x) i"
  by (simp add: bitvec_get_bit_def bit_bv and_one_eq even_drop_bit_iff_not_bit odd_iff_mod_2_eq_one [symmetric])

lemma bv_zero [simp]: "bv bitvec_zero = 0"
  by (rule bit_eqI) (simp add: bit_bv bitvec_zero_def words6(1) nth_replicate)

lemma bv_inject:
  assumes "bv x = bv y" "length x = 6" "length y = 6"
  shows "x = y"
proof (rule nth_equalityI)
  fix i assume i: "i < length x"
  show "x ! i = y ! i"
  proof (rule bit_word_eqI)
    fix n assume "n < LENGTH(32)"
    then show "bit (x ! i) n = bit (y ! i) n"
      using arg_cong [OF assms(1), of "\<lambda>m. bit m (32 * i + n)"] i assms(2) by (simp add: bit_bv)
  qed
qed (use assms in simp)

lemma lshift_word:
  assumes "i < 6" "r < 32"
  shows "bitvec_lshift y (32 * w + r) ! i =
    (let x = (\<lambda>i. if i < w then 0 else y ! (i - w)) in
     if r \<noteq> 0 then if i = 0 then push_bit r (x 0) else push_bit r (x i) OR drop_bit (32 - r) (x (i - 1))
     else x i)"
  using assms by (simp add: bitvec_lshift_def Let_def nth_map_upt6)

lemma bv_lshift:
  assumes "n < 192"
  shows "bv (bitvec_lshift y n) = take_bit 192 (push_bit n (bv y))"
proof (rule bit_eqI)
  fix m :: nat
  define i b w r where "i = m div 32" "b = m mod 32" "w = n div 32" "r = n mod 32"
  then have m: "m = 32 * i + b" "b < 32" and n: "n = 32 * w + r" "r < 32" by simp_all
  have out: "\<not> bit (x :: u32) k" if "32 \<le> k" for x k using that bit_imp_le_length [of x k] by auto
  show "bit (bv (bitvec_lshift y n)) m = bit (take_bit 192 (push_bit n (bv y))) m"
  proof (cases "m < 192")
    case True
    then have i: "i < 6" using m by simp
    have rhs: "bit (take_bit 192 (push_bit n (bv y))) m
        = (n \<le> m \<and> bit (y ! ((m - n) div 32)) ((m - n) mod 32))"
      using True by (auto simp: bit_take_bit_iff bit_push_bit_iff bit_bv)
    have lhs: "bit (bv (bitvec_lshift y n)) m = bit (bitvec_lshift y (32 * w + r) ! i) b"
      using True m n by (simp add: bit_bv)
    show ?thesis
    proof (cases "r \<le> b")
      case le: True
      have nm: "n \<le> m \<longleftrightarrow> w \<le> i" using m n le by linarith
      have "m - n = 32 * (i - w) + (b - r)" if "w \<le> i" using m n le that by (simp add: algebra_simps)
      then have d: "(m - n) div 32 = i - w" "(m - n) mod 32 = b - r" if "w \<le> i" using that m(2) by simp_all
      show ?thesis unfolding lhs rhs nm lshift_word [OF i n(2)] Let_def
        using le m(2) d out [of "32 - r + b"] by (auto simp: bit_simps)
    next
      case False
      have nm: "n \<le> m \<longleftrightarrow> w < i" using m n False by linarith
      have dm: "(e + 32 * k) div 32 = k" "(e + 32 * k) mod 32 = e" if "e < 32" for e k :: nat
        using that by simp_all
      have e: "32 - r + b < 32" using False n(2) by linarith
      have "m - n = (32 - r + b) + 32 * (i - 1 - w)" if "w < i" using m n False that by (simp add: algebra_simps)
      then have d: "(m - n) div 32 = i - 1 - w" "(m - n) mod 32 = 32 - r + b" if "w < i"
        using that dm [OF e] by simp_all
      show ?thesis unfolding lhs rhs nm lshift_word [OF i n(2)] Let_def
        using False d n(2) by (auto simp: bit_simps not_le)
    qed
  qed (simp add: bit_bv bit_take_bit_iff)
qed

text \<open>The number of bits of a polynomial, its degree plus one.\<close>

fun blen :: "nat \<Rightarrow> nat" where
  "blen n = (if n = 0 then 0 else Suc (blen (n div 2)))"

declare blen.simps [simp del]

lemma blen_le: "blen m \<le> d \<longleftrightarrow> m < 2 ^ d"
proof (induction m arbitrary: d rule: blen.induct)
  case (1 m)
  show ?case
  proof (cases d)
    case 0
    then show ?thesis by (subst blen.simps) simp
  next
    case (Suc e)
    have "m div 2 < 2 ^ e \<longleftrightarrow> m < 2 ^ d" unfolding Suc by auto
    then show ?thesis using 1 Suc by (subst blen.simps) simp
  qed
qed

lemma blen_0 [simp]: "blen 0 = 0" "(blen m = 0) = (m = 0)" "(0 < blen m) = (0 < m)" "blen (Suc 0) = 1"
  by (simp_all add: blen.simps [of 0] blen.simps [of m] blen.simps [of "Suc 0"])

lemma blen_top: "m \<noteq> 0 \<Longrightarrow> bit m (blen m - 1)"
proof (induction m rule: blen.induct)
  case (1 m)
  show ?case
  proof (cases "m div 2 = 0")
    case True
    then have "m = 1" using 1(2) by auto
    then show ?thesis by (simp add: bit_0)
  next
    case False
    then have "bit (m div 2) (blen (m div 2) - 1)" using 1 by blast
    moreover have "blen m = Suc (blen (m div 2))" using 1(2) by (subst blen.simps) simp
    moreover have "blen (m div 2) \<noteq> 0" using False by simp
    ultimately show ?thesis by (simp add: bit_Suc [symmetric])
  qed
qed

lemma bit_ge_blen: "blen m \<le> k \<Longrightarrow> \<not> bit m k"
  by (metis blen_le bit_take_bit_iff less_irrefl take_bit_nat_eq_self_iff)

lemma blen_unique: "bit m (d - 1) \<Longrightarrow> 0 < d \<Longrightarrow> m < 2 ^ d \<Longrightarrow> blen m = d"
  by (metis blen_le bit_ge_blen One_nat_def Suc_pred le_antisym not_less_eq_eq)

lemma blen_xor: "blen (a XOR b) \<le> max (blen a) (blen b)"
proof -
  let ?d = "max (blen a) (blen b)"
  have "take_bit ?d a = a" "take_bit ?d b = b"
    using blen_le [of a ?d] blen_le [of b ?d] by (simp_all add: take_bit_nat_eq_self_iff)
  then have "take_bit ?d (a XOR b) = a XOR b" by (simp only: take_bit_xor)
  then show ?thesis by (simp only: blen_le take_bit_nat_eq_self_iff)
qed

lemma blen_push: "blen (push_bit i m) = (if m = 0 then 0 else blen m + i)"
proof (cases "m = 0")
  case False
  have "blen (push_bit i m) = blen m + i"
  proof (rule blen_unique)
    show "bit (push_bit i m) (blen m + i - 1)"
    proof -
      obtain d where "blen m = Suc d" using False by (cases "blen m") auto
      then show ?thesis using blen_top [OF False] by (simp add: bit_push_bit_iff)
    qed
    show "push_bit i m < 2 ^ (blen m + i)"
      using blen_le [of m "blen m"] by (simp add: push_bit_nat_def power_add)
  qed (use False in simp)
  then show ?thesis using False by simp
qed simp

lemma blen_cancel:
  assumes "blen a = blen b" "a \<noteq> 0"
  shows "blen (a XOR b) < blen a"
proof -
  let ?d = "blen a"
  have "b \<noteq> 0" using assms by (metis blen_0(2))
  have d: "0 < ?d" using assms(2) by simp
  have "take_bit (?d - 1) (a XOR b) = a XOR b"
  proof (rule bit_eqI)
    fix n
    have "bit a (?d - 1)" "bit b (?d - 1)"
      using blen_top assms \<open>b \<noteq> 0\<close> by (metis, metis)
    moreover consider "n < ?d - 1" | "n = ?d - 1" | "?d \<le> n" by linarith
    ultimately show "bit (take_bit (?d - 1) (a XOR b)) n = bit (a XOR b) n"
      using bit_ge_blen [of a n] bit_ge_blen [of b n] assms(1)
      by cases (auto simp: bit_take_bit_iff bit_xor_iff)
  qed
  then have "blen (a XOR b) \<le> ?d - 1" by (simp only: blen_le take_bit_nat_eq_self_iff)
  then show ?thesis using d by linarith
qed

lemma bit_Suc_0: "bit (Suc 0) n \<longleftrightarrow> n = 0"
  using bit_1_iff [where 'a = nat, of n] by simp

lemma one6: "gf2field_one = [1, 0, 0, 0, 0, 0]"
  by (simp add: gf2field_one_def words6(1) numeral_eq_Suc)

lemma is_one_bv: "length x = 6 \<Longrightarrow> gf2field_is_one x \<longleftrightarrow> bv x = 1"
proof -
  assume len: "length x = 6"
  have one: "bv gf2field_one = 1"
    by (rule bit_eqI) (auto simp: bit_bv one6 bit_1_iff bit_Suc_0 nth_Cons')
  have "gf2field_is_one x \<longleftrightarrow> x = gf2field_one"
  proof
    assume x: "gf2field_is_one x"
    show "x = gf2field_one"
    proof (rule nth_equalityI)
      fix i assume "i < length x"
      then have "i = 0 \<or> i \<in> {1, 2, 3, 4, 5}" using len by auto
      then show "x ! i = gf2field_one ! i"
        using x by (auto simp: gf2field_is_one_def one6 words6)
    qed (simp add: len)
  qed (auto simp: gf2field_is_one_def one6 words6)
  then show ?thesis using bv_inject [of x gf2field_one] one len by auto
qed

lemma bv_one [simp]: "bv gf2field_one = 1"
  using is_one_bv [of gf2field_one] by (auto simp: gf2field_is_one_def one6 words6)

text \<open>\<open>bitvec_degree\<close> counts the bits.\<close>

lemma and_bit_zero: "j < 32 \<Longrightarrow> (w :: u32) AND push_bit j 1 = 0 \<longleftrightarrow> \<not> bit w j"
proof -
  assume j: "j < 32"
  have "w AND push_bit j 1 = (if bit w j then push_bit j 1 else 0)"
    by (rule bit_word_eqI) (auto simp: bit_and_iff bit_exp_iff)
  moreover have "bit (push_bit j (1 :: u32)) j" using j by (simp add: bit_exp_iff)
  ultimately show ?thesis using j by (auto split: if_splits)
qed

lemma mask_loop_top:
  "k < 32 \<Longrightarrow> (\<exists>n\<le>k. bit w n) \<Longrightarrow> \<exists>n\<le>k. mask_loop w k (c + k + 1) = c + n + 1 \<and> bit w n \<and> (\<forall>j\<le>k. n < j \<longrightarrow> \<not> bit w j)"
proof (induction k)
  case (Suc k)
  have b: "w AND push_bit (Suc k) 1 = 0 \<longleftrightarrow> \<not> bit w (Suc k)"
    by (rule and_bit_zero) (use Suc.prems(1) in simp)
  show ?case
  proof (cases "bit w (Suc k)")
    case True
    then show ?thesis using b by (intro exI [of _ "Suc k"]) simp
  next
    case False
    then have "\<exists>n\<le>k. bit w n" using Suc.prems(2) by (metis le_Suc_eq)
    then show ?thesis using Suc.IH Suc.prems(1) b False by (fastforce simp: le_Suc_eq)
  qed
qed simp

lemma skip_zero_words_top:
  "(skip_zero_words x k = 0 \<longrightarrow> (\<forall>i<k. x ! i = 0))
   \<and> (0 < skip_zero_words x k \<longrightarrow> skip_zero_words x k \<le> k \<and> x ! (skip_zero_words x k - 1) \<noteq> 0
        \<and> (\<forall>i<k. skip_zero_words x k \<le> i \<longrightarrow> x ! i = 0))"
  by (induction k) (auto simp: less_Suc_eq)

lemma degree_bv: "bitvec_degree x = blen (bv x)"
proof -
  let ?n = "skip_zero_words x 6"
  have top: "?n = 0 \<Longrightarrow> i < 6 \<Longrightarrow> x ! i = 0" "0 < ?n \<Longrightarrow> ?n \<le> 6" "0 < ?n \<Longrightarrow> x ! (?n - 1) \<noteq> 0"
    "0 < ?n \<Longrightarrow> i < 6 \<Longrightarrow> ?n \<le> i \<Longrightarrow> x ! i = 0" for i
    using skip_zero_words_top [of x 6] by auto
  show ?thesis
  proof (cases "?n = 0")
    case True
    have "bv x = 0" by (rule bit_eqI) (auto simp: bit_bv top(1) [OF True])
    then show ?thesis using True by (simp add: bitvec_degree_def words6(1))
  next
    case False
    then obtain m where m: "?n = Suc m" by (cases ?n) auto
    have "\<exists>n\<le>31. bit (x ! m) n"
    proof (rule ccontr)
      assume "\<not> ?thesis"
      then have "x ! m = 0" using bit_imp_le_length by (intro bit_word_eqI) auto
      then show False using top(3) m by simp
    qed
    then obtain n where n: "n \<le> 31" "mask_loop (x ! m) 31 (32 * m + 31 + 1) = 32 * m + n + 1" "bit (x ! m) n"
        "\<forall>j\<le>31. n < j \<longrightarrow> \<not> bit (x ! m) j"
      using mask_loop_top [of 31 "x ! m" "32 * m"] by auto
    have m6: "m < 6" using top(2) m by simp
    have deg: "bitvec_degree x = 32 * m + n + 1"
      using n(2) by (simp add: bitvec_degree_def words6(1) m add.commute)
    have "blen (bv x) = 32 * m + n + 1"
    proof (rule blen_unique)
      show "bit (bv x) (32 * m + n + 1 - 1)" using n(1,3) m6 by (simp add: bit_bv)
      have "take_bit (32 * m + n + 1) (bv x) = bv x"
      proof (rule bit_eqI)
        fix k
        have "\<not> bit (bv x) k" if "32 * m + n + 1 \<le> k"
        proof (cases "k div 32 = m")
          case True
          then have "n < k mod 32" using that by (metis add_less_cancel_left less_eq_Suc_le mult_div_mod_eq Suc_eq_plus1 add.assoc)
          then show ?thesis using n(4) True by (simp add: bit_bv)
        next
          case False
          then have "Suc m \<le> k div 32" using that n(1) by linarith
          then show ?thesis using top(4) [of "k div 32"] m by (simp add: bit_bv)
        qed
        then have "bit (bv x) k \<Longrightarrow> k < 32 * m + n + 1" by (meson not_less)
        then show "bit (take_bit (32 * m + n + 1) (bv x)) k = bit (bv x) k"
          by (auto simp: bit_take_bit_iff)
      qed
      then show "bv x < 2 ^ (32 * m + n + 1)" by (simp only: take_bit_nat_eq_self_iff)
    qed simp
    then show ?thesis using deg by simp
  qed
qed

section \<open>The ideal of a set of polynomials\<close>

text \<open>
  All sums of shifts of the polynomials in a set: the multiples of \<open>p\<close> for \<open>{p}\<close>; that the
  ideal of \<open>{x, p}\<close> has 1 says that \<open>x\<close> is invertible modulo \<open>p\<close>.
\<close>

inductive_set ideal :: "nat set \<Rightarrow> nat set" for S where
  ideal_zero [intro, simp]: "0 \<in> ideal S"
| ideal_step [intro]: "a \<in> ideal S \<Longrightarrow> s \<in> S \<Longrightarrow> a XOR push_bit i s \<in> ideal S"

lemma ideal_shift: "s \<in> S \<Longrightarrow> push_bit i s \<in> ideal S"
  using ideal_step [of 0 S s i] by simp

lemma ideal_gen: "s \<in> S \<Longrightarrow> s \<in> ideal S"
  using ideal_shift [of s S 0] by simp

lemma ideal_xor: "b \<in> ideal S \<Longrightarrow> a \<in> ideal S \<Longrightarrow> a XOR b \<in> ideal S"
  by (induction b rule: ideal.induct) (auto simp: xor.assoc [symmetric])

lemma push_xor: "push_bit i (a XOR b) = push_bit i a XOR push_bit i (b :: nat)"
  by (rule bit_eqI) (auto simp: bit_push_bit_iff bit_xor_iff)

lemma ideal_push: "a \<in> ideal S \<Longrightarrow> push_bit i a \<in> ideal S"
  by (induction a rule: ideal.induct) (auto simp: push_xor push_bit_push_bit)

lemma ideal_trans: "a \<in> ideal S \<Longrightarrow> S \<subseteq> ideal T \<Longrightarrow> a \<in> ideal T"
  by (induction a rule: ideal.induct) (auto intro: ideal_xor ideal_push)

lemma xor_cancel: "(a :: nat) XOR b = c \<Longrightarrow> a = c XOR b"
  by (metis xor.assoc xor_self_eq xor.right_neutral)

text \<open>The product of two polynomials, the first of at most \<open>n\<close> bits.\<close>

primrec pmul :: "nat \<Rightarrow> nat \<Rightarrow> nat \<Rightarrow> nat" where
  "pmul 0 a x = 0"
| "pmul (Suc n) a x = pmul n a x XOR (if bit a n then push_bit n x else 0)"

lemma xor_left_self [simp]: "(a :: nat) XOR (a XOR b) = b"
  by (simp flip: xor.assoc)

lemma pmul_xor: "pmul n (a XOR b) x = pmul n a x XOR pmul n b x"
proof (induction n)
  case (Suc n)
  then show ?case
    by (cases "bit a n"; cases "bit b n") (simp_all add: bit_xor_iff xor.assoc xor.left_commute xor.commute)
qed simp

lemma pmul_extend: "a < 2 ^ n \<Longrightarrow> n \<le> m \<Longrightarrow> pmul m a x = pmul n a x"
proof (induction m)
  case (Suc m)
  show ?case
  proof (cases "n = Suc m")
    case False
    then have "n \<le> m" using Suc.prems by simp
    moreover have "\<not> bit a m" using bit_ge_blen [of a m] blen_le [of a n] Suc.prems(1) \<open>n \<le> m\<close> by simp
    ultimately show ?thesis using Suc by simp
  qed simp
qed simp

lemma pmul_push: "a < 2 ^ n \<Longrightarrow> pmul (n + i) (push_bit i a) x = push_bit i (pmul n a x)"
proof -
  assume "a < 2 ^ n"
  have low: "pmul i (push_bit i a) x = 0"
  proof -
    have "pmul j (push_bit i a) x = 0" if "j \<le> i" for j
      using that by (induction j) (auto simp: bit_push_bit_iff)
    then show ?thesis by simp
  qed
  have "pmul (n + i) (push_bit i a) x = push_bit i (pmul n a x)" for n
    by (induction n) (auto simp: low bit_push_bit_iff push_xor push_bit_push_bit add.commute)
  then show ?thesis .
qed

section \<open>The product\<close>

abbreviation curve :: nat where "curve \<equiv> bv polynomial"

abbreviation cong :: "nat \<Rightarrow> nat \<Rightarrow> bool" where "cong a b \<equiv> a XOR b \<in> ideal {curve}"

lemma blen_P: "blen curve = 164"
proof -
  have "bitvec_degree polynomial = 164" by code_simp
  then show ?thesis by (simp add: degree_bv)
qed

lemma cong_trans: "cong a b \<Longrightarrow> cong b c \<Longrightarrow> cong a c"
  using ideal_xor [of "b XOR c" "{curve}" "a XOR b"] by (simp add: xor.assoc)

lemma cong_sym: "cong a b \<Longrightarrow> cong b a"
  by (simp add: xor.commute)

lemma cong_xor: "cong a b \<Longrightarrow> cong c d \<Longrightarrow> cong (a XOR c) (b XOR d)"
  using ideal_xor [of "c XOR d" "{curve}" "a XOR b"]
  by (simp add: xor.assoc xor.left_commute)

lemma cong_push: "cong a b \<Longrightarrow> cong (push_bit i a) (push_bit i b)"
  using ideal_push [of "a XOR b" "{curve}" i] by (simp only: push_xor)

lemma lshift_small:
  assumes "n < 192" "blen (bv x) + n \<le> 192"
  shows "bv (bitvec_lshift x n) = push_bit n (bv x)"
proof -
  have "push_bit n (bv x) < 2 ^ 192"
    using assms(2) by (simp only: blen_le [symmetric] blen_push) simp
  then have "take_bit 192 (push_bit n (bv x)) = push_bit n (bv x)" by (simp only: take_bit_nat_eq_self_iff)
  then show ?thesis using bv_lshift [OF assms(1)] by simp
qed

text \<open>Doubling with reduction.\<close>

lemma double_step:
  assumes "blen (bv t) \<le> 163"
  defines "t' \<equiv> (let s = bitvec_lshift t 1 in if bitvec_get_bit s CURVE_DEGREE then gf2field_add s polynomial else s)"
  shows "blen (bv t') \<le> 163" "cong (bv t') (push_bit 1 (bv t))" "length t' = 6"
proof -
  define s where "s = bitvec_lshift t 1"
  have s: "bv s = push_bit 1 (bv t)" unfolding s_def using assms(1) by (intro lshift_small) simp_all
  have le: "blen (bv s) \<le> 164" unfolding s blen_push using assms(1) by simp
  have g: "bitvec_get_bit s CURVE_DEGREE = bit (bv s) 163" by (simp add: get_bit_bv curve_consts)
  have t': "t' = (if bit (bv s) 163 then gf2field_add s polynomial else s)"
    by (simp only: t'_def Let_def g flip: s_def)
  have flip: "(a XOR p) XOR a = p" for a p :: nat by (metis xor.commute xor_left_self)
  have "blen (bv t') \<le> 163 \<and> cong (bv t') (bv s)"
  proof (cases "bit (bv s) 163")
    case True
    have "blen (bv s) = 164"
      using True le blen_le [of "bv s" 164] by (intro blen_unique) simp_all
    then have "blen (bv s XOR curve) < 164" using blen_cancel [of "bv s" curve] blen_P by force
    then show ?thesis
      using True ideal_gen [of curve "{curve}"] by (simp add: t' flip)
  next
    case False
    have "blen (bv s) \<noteq> 164"
    proof
      assume "blen (bv s) = 164"
      then have "bit (bv s) (164 - 1)" using blen_top [of "bv s"] by (metis blen_0(1) zero_neq_numeral)
      then show False using False by simp
    qed
    then show ?thesis using False le by (simp add: t')
  qed
  then show "blen (bv t') \<le> 163" "cong (bv t') (push_bit 1 (bv t))" unfolding s by blast+
  show "length t' = 6" by (simp add: t'_def Let_def)
qed

lemma mul_fold:
  assumes "blen (bv x) \<le> 163" "length x = 6" "1 \<le> k" "k \<le> 163"
  shows "case fold (mul_step y) [1..<k] (x, if bitvec_get_bit y 0 then x else bitvec_zero) of (t, z) \<Rightarrow>
    blen (bv t) \<le> 163 \<and> cong (bv t) (push_bit (k - 1) (bv x)) \<and> length t = 6
    \<and> blen (bv z) \<le> 163 \<and> cong (bv z) (pmul k (bv y) (bv x)) \<and> length z = 6"
  using assms(3,4)
proof (induction k rule: nat_induct_at_least)
  case base
  then show ?case using assms(1,2) by (auto simp: get_bit_bv)
next
  case (Suc k)
  define s0 where "s0 = (x, if bitvec_get_bit y 0 then x else bitvec_zero)"
  obtain t z where tz: "fold (mul_step y) [1..<k] s0 = (t, z)"
    by fastforce
  have ih: "blen (bv t) \<le> 163" "cong (bv t) (push_bit (k - 1) (bv x))" "length t = 6"
    "blen (bv z) \<le> 163" "cong (bv z) (pmul k (bv y) (bv x))" "length z = 6"
    using Suc.IH Suc.prems tz [unfolded s0_def] by simp_all
  define t' where "t' = (let s = bitvec_lshift t 1 in if bitvec_get_bit s CURVE_DEGREE then gf2field_add s polynomial else s)"
  define z' where "z' = (if bitvec_get_bit y k then gf2field_add z t' else z)"
  have up: "[1..<Suc k] = [1..<k] @ [k]" using Suc.hyps by simp
  have f: "fold (mul_step y) [1..<Suc k] s0 = (t', z')"
    unfolding up fold_append comp_def tz by (simp add: mul_step_def t'_def z'_def Let_def)
  note t' = double_step [OF ih(1), folded t'_def]
  have "push_bit 1 (push_bit (k - 1) (bv x)) = push_bit k (bv x)"
    using Suc.hyps by (simp only: push_bit_push_bit) simp
  then have ct: "cong (bv t') (push_bit k (bv x))"
    using cong_trans [OF t'(2) cong_push [OF ih(2), of 1]] by simp
  have g: "bitvec_get_bit y k = bit (bv y) k" using Suc.prems by (intro get_bit_bv) simp
  have "blen (bv z') \<le> 163" using ih(4) t'(1) blen_xor [of "bv z" "bv t'"] by (auto simp: z'_def)
  moreover have "cong (bv z') (pmul (Suc k) (bv y) (bv x))"
    using cong_xor [OF ih(5) ct] ih(5) by (simp add: z'_def g)
  moreover have "length z' = 6" using ih(6) by (simp add: z'_def)
  ultimately show ?case using t' ct f [unfolded s0_def] by simp
qed

lemma gf2field_mul_cong:
  assumes "blen (bv x) \<le> 163" "length x = 6" "blen (bv y) \<le> 163"
  shows "blen (bv (gf2field_mul x y)) \<le> 163 \<and> cong (bv (gf2field_mul x y)) (pmul 163 (bv y) (bv x))
    \<and> length (gf2field_mul x y) = 6"
  using mul_fold [OF assms(1,2), of 163 y]
  by (auto simp: gf2field_mul_def curve_consts split: prod.splits)

text \<open>A multiple of the polynomial with fewer bits than it is 0, so a congruence determines a reduced element.\<close>

lemma ideal_pmul: "a \<in> ideal {p} \<Longrightarrow> \<exists>n k. k < 2 ^ n \<and> a = pmul n k p"
proof (induction a rule: ideal.induct)
  case ideal_zero
  show ?case by (intro exI [of _ 0]) simp
next
  case (ideal_step a s i)
  then obtain n k where nk: "k < 2 ^ n" "a = pmul n k p" by blast
  let ?m = "max n (Suc i)"
  have i: "(2 :: nat) ^ i < 2 ^ ?m" by simp
  have k: "k < 2 ^ ?m" using nk(1) by (meson le_less_trans less_le_trans max.cobounded1 one_le_numeral power_increasing)
  have one: "pmul ?m (2 ^ i) p = push_bit i p"
  proof -
    have "pmul 1 1 p = p" by (simp add: bit_0)
    then show ?thesis
      using pmul_push [of 1 1 i p] pmul_extend [of "2 ^ i" "Suc i" ?m p] by (simp add: push_bit_nat_def)
  qed
  have "k XOR 2 ^ i < 2 ^ ?m"
    using k i blen_xor [of k "2 ^ i"] by (simp only: blen_le [symmetric])
  moreover have "a XOR push_bit i s = pmul ?m (k XOR 2 ^ i) p"
    using ideal_step nk pmul_extend [OF nk(1), of ?m p] by (simp add: pmul_xor one)
  ultimately show ?case by blast
qed

lemma pmul_blen: "a < 2 ^ n \<Longrightarrow> a \<noteq> 0 \<Longrightarrow> x \<noteq> 0 \<Longrightarrow> blen (pmul n a x) = blen a + blen x - 1"
proof (induction n)
  case (Suc n)
  show ?case
  proof (cases "a < 2 ^ n")
    case True
    then show ?thesis using Suc pmul_extend [of a n "Suc n" x] by simp
  next
    case False
    have "blen a = Suc n" using False Suc.prems(1) blen_le [of a n] blen_le [of a "Suc n"] by linarith
    then have bit: "bit a n" using blen_top [OF Suc.prems(2)] by simp
    have low: "blen (pmul m a x) < Suc n + blen x - 1 \<or> pmul m a x = 0 " if "m \<le> n" for m
      using that
    proof (induction m)
      case (Suc m)
      have x: "0 < blen x" using \<open>x \<noteq> 0\<close> by simp
      have "blen (push_bit m x) < Suc n + blen x - 1" using Suc.prems \<open>x \<noteq> 0\<close> x by (simp add: blen_push)
      then show ?case using Suc blen_xor [of "pmul m a x" "push_bit m x"] by auto
    qed simp
    have top: "blen (push_bit n x) = Suc n + blen x - 1" using \<open>x \<noteq> 0\<close> by (simp add: blen_push)
    have lt: "blen (pmul n a x) < blen (push_bit n x)"
      using low [of n] top \<open>x \<noteq> 0\<close> by auto
    have "blen (pmul n a x XOR push_bit n x) = blen (push_bit n x)"
    proof (rule antisym)
      show "blen (pmul n a x XOR push_bit n x) \<le> blen (push_bit n x)"
        using blen_xor [of "pmul n a x" "push_bit n x"] lt by simp
      have "push_bit n x = pmul n a x XOR (pmul n a x XOR push_bit n x)" by simp
      then show "blen (push_bit n x) \<le> blen (pmul n a x XOR push_bit n x)"
        using blen_xor [of "pmul n a x" "pmul n a x XOR push_bit n x"] lt by (metis leD le_max_iff_disj)
    qed
    then show ?thesis using bit top \<open>blen a = Suc n\<close> by simp
  qed
qed simp

lemma ideal_P_small: "a \<in> ideal {curve} \<Longrightarrow> blen a \<le> 163 \<Longrightarrow> a = 0"
proof -
  assume a: "a \<in> ideal {curve}" "blen a \<le> 163"
  obtain n k where nk: "k < 2 ^ n" "a = pmul n k curve" using ideal_pmul [OF a(1)] by blast
  show "a = 0"
  proof (cases "k = 0")
    case True
    then show ?thesis using nk pmul_extend [of 0 0 n curve] by simp
  next
    case False
    have "curve \<noteq> 0" using blen_P by (metis blen_0(1) zero_neq_numeral)
    then have "blen a = blen k + 163" using pmul_blen [OF nk(1) False] nk(2) blen_P by simp
    then show ?thesis using a(2) False by simp
  qed
qed

section \<open>The inverse\<close>

text \<open>
  The invariant of the inversion loop: \<open>u\<close> and \<open>v\<close> are the input times \<open>z\<close> and \<open>g\<close>, they
  stay coprime, and the degrees of the cofactors leave room in the vectors.
\<close>

definition inv_ok :: "nat \<Rightarrow> bitvec \<Rightarrow> bitvec \<Rightarrow> bitvec \<Rightarrow> bitvec \<Rightarrow> bool" where
  "inv_ok X u v g z \<longleftrightarrow> length u = 6 \<and> length v = 6 \<and> length g = 6 \<and> length z = 6
     \<and> cong (bv u) (pmul 192 (bv z) X) \<and> cong (bv v) (pmul 192 (bv g) X)
     \<and> 1 \<in> ideal {bv u, bv v} \<and> bv u \<noteq> 0 \<and> bv v \<noteq> 0 \<and> bv v \<noteq> 1
     \<and> blen (bv z) + blen (bv v) \<le> 165 \<and> blen (bv g) + blen (bv u) \<le> 165
     \<and> blen (bv u) \<le> 164 \<and> blen (bv v) \<le> 164"

definition inv_swap :: "bitvec \<Rightarrow> bitvec \<Rightarrow> bitvec \<Rightarrow> bitvec \<Rightarrow> bitvec \<times> bitvec \<times> bitvec \<times> bitvec" where
  "inv_swap u v g z = (if blen (bv u) < blen (bv v) then (v, u, z, g) else (u, v, g, z))"

lemma inv_loop_step:
  assumes "\<not> gf2field_is_one u" "inv_swap u v g z = (u1, v1, g1, z1)" "i = blen (bv u1) - blen (bv v1)"
  shows "inv_loop u v g z = inv_loop (gf2field_add u1 (bitvec_lshift v1 i)) v1 g1 (gf2field_add z1 (bitvec_lshift g1 i))"
  using assms
  by (subst inv_loop.simps) (auto simp: inv_swap_def degree_bv Let_def nat_diff_distrib split: if_splits)

lemma inv_swap_ok:
  assumes "inv_ok X u v g z" "bv u \<noteq> 1" "inv_swap u v g z = (u1, v1, g1, z1)"
  shows "inv_ok X u1 v1 g1 z1" "blen (bv v1) \<le> blen (bv u1)"
    "blen (bv u1) + blen (bv v1) = blen (bv u) + blen (bv v)"
  using assms by (auto simp: inv_swap_def inv_ok_def insert_commute split: if_splits)

lemma ideal_pair_shift: "1 \<in> ideal {u, v} \<Longrightarrow> 1 \<in> ideal {u XOR push_bit i v, v}"
proof (erule ideal_trans)
  have "u = (u XOR push_bit i v) XOR push_bit i v" by (metis xor.commute xor_left_self)
  then have "u \<in> ideal {u XOR push_bit i v, v}"
    using ideal_step [OF ideal_gen [of "u XOR push_bit i v" "{u XOR push_bit i v, v}"], of v i] by simp
  then show "{u, v} \<subseteq> ideal {u XOR push_bit i v, v}" by (auto intro: ideal_gen)
qed

lemma ideal_zero_pair: "1 \<in> ideal {0, v} \<Longrightarrow> v = 1"
proof -
  assume "1 \<in> ideal {0, v}"
  then have "1 \<in> ideal {v}" by (rule ideal_trans) (auto intro: ideal_gen)
  then obtain n k where nk: "k < 2 ^ n" "1 = pmul n k v" using ideal_pmul by blast
  have k: "k \<noteq> 0" using nk pmul_extend [of 0 0 n v] by (cases "k = 0") auto
  have v: "v \<noteq> 0"
  proof
    assume "v = 0"
    then have "pmul n k v = 0" by (induction n) auto
    then show False using nk(2) by simp
  qed
  have "blen k + blen v - 1 = 1" using pmul_blen [OF nk(1) k v] nk(2) by simp
  moreover have "0 < blen k" "0 < blen v" using k v by simp_all
  ultimately have "blen v \<le> 1" by linarith
  then have "v < 2" using blen_le [of v 1] by simp
  then show "v = 1" using v by simp
qed

lemma inv_step_ok:
  assumes ok: "inv_ok X u v g z" and le: "blen (bv v) \<le> blen (bv u)" and i: "i = blen (bv u) - blen (bv v)"
  shows "inv_ok X (gf2field_add u (bitvec_lshift v i)) v g (gf2field_add z (bitvec_lshift g i))"
    "blen (bv (gf2field_add u (bitvec_lshift v i))) < blen (bv u)"
proof -
  have f: "cong (bv u) (pmul 192 (bv z) X)" "cong (bv v) (pmul 192 (bv g) X)" "1 \<in> ideal {bv u, bv v}"
    "bv u \<noteq> 0" "bv v \<noteq> 0" "bv v \<noteq> 1" "blen (bv z) + blen (bv v) \<le> 165" "blen (bv g) + blen (bv u) \<le> 165"
    "blen (bv u) \<le> 164" "blen (bv v) \<le> 164" "length v = 6" "length g = 6"
    using ok by (auto simp: inv_ok_def)
  have i164: "i \<le> 164" using i f(9) by simp
  have sv: "bv (bitvec_lshift v i) = push_bit i (bv v)"
    using i i164 f(9) le by (intro lshift_small) simp_all
  have sg: "bv (bitvec_lshift g i) = push_bit i (bv g)"
    using i i164 f(8) le by (intro lshift_small) simp_all
  have bs: "blen (push_bit i (bv v)) = blen (bv u)" unfolding blen_push using f(5) i le by simp
  show small: "blen (bv (gf2field_add u (bitvec_lshift v i))) < blen (bv u)"
    using blen_cancel [of "bv u" "push_bit i (bv v)"] bs f(4) by (simp add: sv)
  have one: "1 \<in> ideal {bv u XOR push_bit i (bv v), bv v}" by (rule ideal_pair_shift [OF f(3)])
  have nz: "bv u XOR push_bit i (bv v) \<noteq> 0" using one ideal_zero_pair [of "bv v"] f(6) by metis
  have g2: "bv g < 2 ^ (192 - i)"
  proof -
    have "blen (bv g) \<le> 192 - i" using f(8) i le by linarith
    then show ?thesis by (simp only: blen_le)
  qed
  have "pmul 192 (push_bit i (bv g)) X = push_bit i (pmul 192 (bv g) X)"
    using pmul_push [OF g2, of i X] pmul_extend [OF g2, of 192 X] i164 by simp
  then have "cong (push_bit i (bv v)) (pmul 192 (push_bit i (bv g)) X)" using cong_push [OF f(2)] by simp
  then have c: "cong (bv u XOR push_bit i (bv v)) (pmul 192 (bv z XOR push_bit i (bv g)) X)"
    unfolding pmul_xor by (rule cong_xor [OF f(1)])
  have "blen (push_bit i (bv g)) + blen (bv v) \<le> 165" unfolding blen_push using f(8,10) i le by auto
  then have bz: "blen (bv z XOR push_bit i (bv g)) + blen (bv v) \<le> 165"
    using blen_xor [of "bv z" "push_bit i (bv g)"] f(7) by linarith
  show "inv_ok X (gf2field_add u (bitvec_lshift v i)) v g (gf2field_add z (bitvec_lshift g i))"
    using f c one nz bz small unfolding inv_ok_def by (simp add: sv sg)
qed

lemma inv_loop_inverse:
  "inv_ok X u v g z \<Longrightarrow> \<exists>z'. inv_loop u v g z = Some z' \<and> length z' = 6 \<and> blen (bv z') \<le> 163
     \<and> cong 1 (pmul 192 (bv z') X)"
proof (induction "blen (bv u) + blen (bv v)" arbitrary: u v g z rule: less_induct)
  case less
  have len: "length u = 6" using less.prems by (simp add: inv_ok_def)
  show ?case
  proof (cases "gf2field_is_one u")
    case True
    then have u1: "bv u = 1" using is_one_bv [OF len] by simp
    have f: "bv v \<noteq> 0" "bv v \<noteq> 1" "blen (bv z) + blen (bv v) \<le> 165" "length z = 6" "cong 1 (pmul 192 (bv z) X)"
      using less.prems u1 unfolding inv_ok_def by auto
    have "\<not> blen (bv v) \<le> 1" using blen_le [of "bv v" 1] f(1,2) by simp
    then have "blen (bv z) \<le> 163" using f(3) by linarith
    then show ?thesis using True f(4,5) by (subst inv_loop.simps) auto
  next
    case False
    then have u1: "bv u \<noteq> 1" using is_one_bv [OF len] by simp
    obtain u1 v1 g1 z1 where sw: "inv_swap u v g z = (u1, v1, g1, z1)" by (cases "inv_swap u v g z") auto
    note ok = inv_swap_ok [OF less.prems u1 sw]
    note st = inv_step_ok [OF ok(1,2) refl]
    show ?thesis
      unfolding inv_loop_step [OF False sw refl]
      by (rule less.hyps [OF _ st(1)]) (use st(2) ok(3) in linarith)
  qed
qed

lemma gf2field_inv_inverse:
  assumes "length x = 6" "blen (bv x) \<le> 163" "1 \<in> ideal {bv x, curve}"
  shows "\<exists>z. gf2field_inv x = Some z \<and> length z = 6 \<and> blen (bv z) \<le> 163 \<and> cong 1 (pmul 192 (bv z) (bv x))"
proof -
  have "\<not> blen curve \<le> 1" by (simp add: blen_P)
  then have curve: "curve \<noteq> 0" "curve \<noteq> 1" using blen_le [of curve 1] by simp_all
  have x0: "bv x \<noteq> 0" using ideal_zero_pair [of curve] assms(3) curve(2) by metis
  have "pmul 1 1 (bv x) = bv x" by (simp add: bit_0)
  then have one: "pmul 192 1 (bv x) = bv x" using pmul_extend [of 1 1 192 "bv x"] by simp
  have zero: "pmul 192 0 (bv x) = 0" using pmul_extend [of 0 0 192 "bv x"] by simp
  have "inv_ok (bv x) x polynomial bitvec_zero gf2field_one"
    using assms curve x0 blen_P one zero ideal_gen [of curve "{curve}"] unfolding inv_ok_def by simp
  then show ?thesis unfolding gf2field_inv_def by (rule inv_loop_inverse)
qed

section \<open>Properties\<close>

text \<open>
  C16. The product of two field elements is their product as polynomials modulo the reduction
  polynomial, reduced: it has at most 163 bits, differs from the carry-less product by a
  multiple of the polynomial, and is the only such vector.
\<close>

theorem gf2field_mul_is_product:
  assumes "length x = 6" "blen (bv x) \<le> 163" "blen (bv y) \<le> 163"
  shows "blen (bv (gf2field_mul x y)) \<le> 163 \<and> cong (bv (gf2field_mul x y)) (pmul 163 (bv y) (bv x))
    \<and> (\<forall>z. length z = 6 \<and> blen (bv z) \<le> 163 \<and> cong (bv z) (pmul 163 (bv y) (bv x)) \<longrightarrow> z = gf2field_mul x y)"
proof -
  note m = gf2field_mul_cong [OF assms(2,1,3)]
  have "z = gf2field_mul x y"
    if z: "length z = 6" "blen (bv z) \<le> 163" "cong (bv z) (pmul 163 (bv y) (bv x))" for z
  proof -
    have "cong (bv z) (bv (gf2field_mul x y))"
      using cong_trans [OF z(3) cong_sym] m by blast
    moreover have "blen (bv z XOR bv (gf2field_mul x y)) \<le> 163"
      using blen_xor [of "bv z" "bv (gf2field_mul x y)"] z(2) m by linarith
    ultimately have "bv z XOR bv (gf2field_mul x y) = 0" using ideal_P_small by blast
    then have "bv z = bv (gf2field_mul x y)" by (metis xor_left_self xor.right_neutral)
    then show ?thesis using bv_inject z(1) m by blast
  qed
  then show ?thesis using m by blast
qed

theorem gf2field_mul_is_product_witness:
  "cong (bv (gf2field_mul base_x base_y)) (pmul 163 (bv base_y) (bv base_x))"
proof -
  have "bitvec_degree base_x = 162" "bitvec_degree base_y = 160" "length base_x = 6" by code_simp+
  then show ?thesis using gf2field_mul_is_product [of base_x base_y] by (simp add: degree_bv)
qed

text \<open>
  C17. Inverting an invertible field element ends, and the result times the element is one,
  also for the code's own product.
\<close>

theorem gf2field_inv_inverts:
  assumes "length x = 6" "blen (bv x) \<le> 163" "1 \<in> ideal {bv x, bv polynomial}"
  shows "\<exists>z. gf2field_inv x = Some z \<and> blen (bv z) \<le> 163 \<and> gf2field_mul x z = gf2field_one"
proof -
  obtain z where z: "gf2field_inv x = Some z" "length z = 6" "blen (bv z) \<le> 163" "cong 1 (pmul 192 (bv z) (bv x))"
    using gf2field_inv_inverse [OF assms] by blast
  have "bv z < 2 ^ 163" using z(3) by (simp only: blen_le)
  then have c: "cong 1 (pmul 163 (bv z) (bv x))" using z(4) pmul_extend [of "bv z" 163 192] by simp
  note m = gf2field_mul_cong [OF assms(2,1) z(3)]
  have "cong (bv (gf2field_mul x z)) 1"
    using cong_trans [OF _ cong_sym [OF c]] m by blast
  moreover have "blen (bv (gf2field_mul x z) XOR 1) \<le> 163"
    using blen_xor [of "bv (gf2field_mul x z)" 1] m by (auto simp: max_def split: if_splits)
  ultimately have "bv (gf2field_mul x z) XOR 1 = 0" using ideal_P_small by blast
  then have "bv (gf2field_mul x z) = 1" by (metis xor_left_self xor.right_neutral)
  then have "gf2field_mul x z = gf2field_one" using m bv_inject [of "gf2field_mul x z" gf2field_one] by simp
  then show ?thesis using z by blast
qed

definition two :: bitvec where
  "two = [2, 0, 0, 0, 0, 0]"

lemma bit_P: "bit curve n \<longleftrightarrow> n \<in> {0, 3, 6, 7, 163}"
proof -
  have "list_all (\<lambda>n. bit (polynomial ! (n div 32)) (n mod 32) = (n = 0 \<or> n = 3 \<or> n = 6 \<or> n = 7 \<or> n = 163)) [0..<192]"
    by code_simp
  then show ?thesis by (auto simp: bit_bv list_all_iff)
qed

lemma bit_two: "bit (bv two) n \<longleftrightarrow> n = 1"
  by (auto simp: bit_bv two_def nth_Cons' bit_simps)

theorem gf2field_inv_inverts_witness:
  "\<exists>z. gf2field_inv two = Some z \<and> gf2field_mul two z = gf2field_one"
proof -
  let ?x = "bv two"
  let ?e = "(((curve XOR push_bit 162 ?x) XOR push_bit 6 ?x) XOR push_bit 5 ?x) XOR push_bit 2 ?x"
  have "?e = 1"
    by (rule bit_eqI) (auto simp: bit_xor_iff bit_push_bit_iff bit_P bit_two bit_Suc_0)
  moreover have "?e \<in> ideal {?x, curve}"
    by (intro ideal_step ideal_gen) simp_all
  ultimately have "1 \<in> ideal {bv two, curve}" by metis
  moreover have "bitvec_degree two = 2" "length two = 6" by code_simp+
  ultimately show ?thesis using gf2field_inv_inverts [of two] by (auto simp: degree_bv)
qed

text \<open>Vectors in memory.\<close>

lemma length_bytes_of_vec: "length (bytes_of_vec x) = 4 * length x"
  by (induction x) (simp_all add: bytes_of_vec_def)

lemma take_vec_word:
  "i < length x \<Longrightarrow> take 4 (drop (4 * i) (bytes_of_vec x @ rest)) = bytes_of_u32 (x ! i)"
proof (induction x arbitrary: i)
  case (Cons w x)
  then show ?case
    by (cases i) (simp_all add: bytes_of_vec_def)
qed simp

lemma vec_of_bytes_of_vec [simp]: "length x = 6 \<Longrightarrow> vec_of_bytes (bytes_of_vec x @ rest) = x"
  by (rule nth_equalityI) (simp_all add: vec_of_bytes_def words6(1) take_vec_word nth_map_upt6 del: upt_Suc take_append drop_append)

lemma equal_refl: "bitvec_equal x x"
  by (simp add: bitvec_equal_def list_all_iff)

text \<open>
  C18. The signature check accepts a signature that anyone can write: for every hash, the
  first coordinate of base point plus public key with \<open>s = 1\<close> verifies; no private key is
  needed. The values computed from the hash are overwritten before they are used.
\<close>

theorem ecdsa_universal_forgery:
  assumes "gf2point_add (base_x, base_y) (vec_of_bytes pk, vec_of_bytes (drop ECC_PRV_KEY_SIZE pk)) = Some (x, y)"
    and "\<not> bitvec_is_zero (reduce_once x)" "length x = 6"
  shows "ecdsa_verify pk hash (bytes_of_vec (reduce_once x) @ bytes_of_vec gf2field_one) = Some 1"
proof -
  have len: "length (reduce_once x) = 6" using assms(3) by (simp add: reduce_once_def)
  have s: "vec_of_bytes (drop ECC_PRV_KEY_SIZE (bytes_of_vec (reduce_once x) @ bytes_of_vec gf2field_one)) = gf2field_one"
    using vec_of_bytes_of_vec [of gf2field_one "[]"] len by (simp add: length_bytes_of_vec curve_consts)
  have one: "gf2field_is_one gf2field_one" "\<not> bitvec_is_zero gf2field_one"
    using is_one_bv [of gf2field_one] by (simp, simp add: bitvec_is_zero_def one6 words6)
  have i: "gf2field_inv gf2field_one = Some gf2field_one"
    unfolding gf2field_inv_def using one by (subst inv_loop.simps) simp
  show ?thesis
    unfolding ecdsa_verify_def Let_def s vec_of_bytes_of_vec [OF len] using one assms i
    by (simp add: equal_refl)
qed

theorem ecdsa_universal_forgery_witness:
  "ecdsa_verify (replicate 48 0) (replicate 24 7) (bytes_of_vec base_x @ bytes_of_vec gf2field_one) = Some 1"
proof -
  have "gf2point_add (base_x, base_y) (vec_of_bytes (replicate 48 0), vec_of_bytes (drop ECC_PRV_KEY_SIZE (replicate 48 0)))
      = Some (base_x, base_y)" by code_simp
  moreover have "reduce_once base_x = base_x" "\<not> bitvec_is_zero base_x" "length base_x = 6" by code_simp+
  ultimately show ?thesis using ecdsa_universal_forgery [of "replicate 48 0" base_x base_y "replicate 24 7"] by simp
qed

end
