(* ===== verification/Wire.thy ===== *)
theory Wire
  imports RecvBuffer Ecdh
begin

text \<open>
  What the server and the node share: the environment a program runs in (allocator, cipher
  library, random numbers, the indeterminate contents of stack buffers), the packets it has
  sent, building a container from elements as every composer does, and sending a packet. The
  lemmas follow one packet of a session from the sender's container to the receiver's buffer.
\<close>

section \<open>The environment\<close>

text \<open>
  \<open>sys_stack\<close> is what an uninitialised array holds; \<open>sys_priv\<close> the random bytes drawn for a
  private key; \<open>sys_full\<close> tells whether a list fails to grow.
\<close>

record sys =
  sys_alloc :: allocator
  sys_cpu :: "(byte list \<Rightarrow> byte list \<Rightarrow> byte list) option"
  sys_lib :: cipher_layer
  sys_stack :: "nat \<Rightarrow> byte"
  sys_priv :: "byte list"
  sys_full :: bool

definition uninit :: "sys \<Rightarrow> nat \<Rightarrow> byte list" where
  "uninit e n = map (sys_stack e) [0..<n]"

lemma length_uninit [simp]: "length (uninit e n) = n"
  by (simp add: uninit_def)

definition DEVIDLEN :: nat where "DEVIDLEN = 16"
definition KEYLEN :: nat where "KEYLEN = 16"
definition MAXMSGLEN :: nat where "MAXMSGLEN = 255"

lemmas shared_consts = DEVIDLEN_def KEYLEN_def MAXMSGLEN_def

text \<open>A cipher context for a key; the result of \<open>initGCM\<close> is never looked at.\<close>

definition key_ctx :: "sys \<Rightarrow> byte list \<Rightarrow> gcm_context" where
  "key_ctx e key = snd (initGCM (sys_cpu e) (sys_lib e) key (KEYLEN * 8))"

text \<open>The system's answers to the sends to come, and what has been sent so far.\<close>

record wire =
  w_envs :: "send_env list"
  w_sent :: "(int \<times> byte list) list"

definition emit :: "wire \<Rightarrow> send_env list \<Rightarrow> int \<Rightarrow> byte list \<Rightarrow> wire" where
  "emit w es sock sent = w\<lparr>w_envs := es, w_sent := w_sent w @ (if sent = [] then [] else [(sock, sent)])\<rparr>"

lemma emit_eq: "emit w es sock x = \<lparr>w_envs = es, w_sent = w_sent w @ (if x = [] then [] else [(sock, x)])\<rparr>"
  by (cases w) (simp add: emit_def)

definition send_packet ::
    "wire \<Rightarrow> int \<Rightarrow> connInfo_t option \<Rightarrow> gcm_context option \<Rightarrow> byte list option \<Rightarrow> byte list option \<Rightarrow> byte list option
     \<Rightarrow> u32 \<Rightarrow> byte list \<Rightarrow> (int \<times> connInfo_t option \<times> gcm_context option \<times> byte list \<times> wire) option" where
  "send_packet w sock c ctx pck add extra gs buf =
     (case w_envs w of
        [] \<Rightarrow> None
      | e # es \<Rightarrow> do {
          (r, c, sent, st) \<leftarrow> encryptAndSendAll e c ctx pck add extra gs buf;
          Some (r, c, ss_ctx st, ss_buf st, emit w es sock sent)
        })"

section \<open>Building a container\<close>

text \<open>\<open>initPckData\<close> and a sequence of appends whose results are not looked at.\<close>

fun append_items :: "byte list \<Rightarrow> (byte list \<times> u32) list \<Rightarrow> byte list option" where
  "append_items m [] = Some m"
| "append_items m ((d, n) # xs) = do { (_, m) \<leftarrow> appendToPckData m d n; append_items m xs }"

definition new_pck :: "allocator \<Rightarrow> (byte list \<times> u32) list \<Rightarrow> byte list option" where
  "new_pck a xs = do { (_, m) \<leftarrow> initPckData a; m \<leftarrow> m; append_items m xs }"

lemma append_items_exact:
  "append_items m (map (\<lambda>e. (e, of_nat (length e))) es) = append_all pck_append m es"
  by (induction es arbitrary: m) (auto simp: pck_append_def split: Option.bind_split)

lemma elems_len_take: "elems_len (take k es) \<le> elems_len es"
  by (metis append_take_drop_id elems_len_simps(3) le_add1)

lemma new_pck_holds:
  assumes "malloc a 255 \<noteq> None" "pck_len es \<le> 255"
  shows "\<exists>m. new_pck a (map (\<lambda>e. (e, of_nat (length e))) es) = Some m \<and> pck_holds m es"
proof -
  obtain m0 where i: "initPckData a = Some (0, Some m0)"
  proof -
    obtain m1 where m1: "malloc a 255 = Some m1" using assms(1) by auto
    note len = malloc_length [OF m1]
    obtain m2 where m2: "store32 m1 0 8 = Some m2" using len by (auto simp: store32_def store_bytes_def)
    have l2: "length m2 = 255" using store32_length [OF m2] len by simp
    obtain m3 where "store32 m2 4 255 = Some m3" using l2 by (auto simp: store32_def store_bytes_def)
    then show thesis using that m1 m2 by (simp add: initPckData_def pckDataIncrements_def)
  qed
  obtain junk where "m0 = pck_host 255 [] @ junk" "length m0 = 255" using initPckData_empty [OF i] by blast
  then have h: "pck_holds m0 []" by (auto simp: pck_holds_def pckDataIncrements_def)
  have "pck_admits ([] @ take k es) (es ! k)" if "k < length es" for k
  proof -
    have "elems_len (take (Suc k) es) = elems_len (take k es) + 4 + length (es ! k)"
      using that by (simp add: take_Suc_conv_app_nth)
    then show ?thesis
      using elems_len_take [of "Suc k" es] assms(2) by (simp add: pck_admits_def pck_len_def pckDataIncrements_def)
  qed
  then obtain m where "append_all pck_append m0 es = Some m" "pck_holds m ([] @ es)"
    using pck.append_all_holds [OF h, of es] by blast
  then show ?thesis by (simp add: new_pck_def i append_items_exact)
qed

text \<open>A block that holds elements is the container argument of a packet.\<close>

lemma pck_holds_arg: "pck_holds m es \<Longrightarrow> \<exists>junk. Some m = opt_host (Some (255, es, junk))"
  by (auto simp: pck_holds_def opt_host_def)

section \<open>Sending within a session\<close>

lemma session_send:
  assumes s: "sessionId c \<noteq> 0" and key: "gcm_keyed k" and env: "w_envs w = e # es" and can: "can_send e p a buf"
  defines "c' \<equiv> c\<lparr>sendSessionIncrements := sendSessionIncrements c + 1\<rparr>"
  shows "\<exists>k' ct t buf'. send_packet w sock (Some c) (Some k) (opt_host p) (opt_host a) None gs buf
      = Some (0, Some c', Some k', buf', emit w es sock (packet_bytes (se_iv e) t [] (opt_net a) ct))
    \<and> encryptGcm k (plain_part (htonl (sessionId c + sendSessionIncrements c')) gs (opt_net p)) (se_iv e)
        (be32 0 @ opt_net a) 16 0 = (0, k', ct, t)
    \<and> same_key k k' \<and> length t = 16 \<and> length buf' = length buf"
proof -
  obtain k' ct t st where st:
    "encryptGcm k (plain_part (htonl (sessionId c + sendSessionIncrements c')) gs (opt_net p)) (se_iv e)
        (be32 0 @ opt_net a) 16 0 = (0, k', ct, t)" "same_key k k'" "length t = 16"
    "compose_and_send e (Some k) (opt_host p) (opt_host a) None gs (htonl (sessionId c + sendSessionIncrements c')) buf
      = Some (packet_bytes (se_iv e) t [] (opt_net a) ct, st)" "ss_ctx st = Some k'" "length (ss_buf st) = length buf"
    using compose_and_send_packet [OF key can] by blast
  then show ?thesis
    using s env by (simp add: send_packet_def encryptAndSendAll_def Let_def c'_def)
qed

section \<open>Reading a packet in host order\<close>

lemma host_packet_split:
  "host_packet iv t a nonce gs p @ rest = concat [bytes_of_u32 (of_nat (packet_size p a None)),
      bytes_of_u32 (of_nat (4 + length (opt_net a))), bytes_of_u32 0, iv, t, bytes_of_u32 0,
      opt_hostbytes a, bytes_of_u32 nonce, bytes_of_u32 gs, opt_hostbytes p, rest]"
  by (simp add: host_packet_def)

lemma length_host_packet [simp]:
  "length iv = 12 \<Longrightarrow> length t = 16 \<Longrightarrow> length (host_packet iv t a nonce gs p) = packet_size p a None"
  by (simp add: host_packet_def packet_size_def)

lemma print_section_host:
  assumes "p = length pre" "length (opt_net x) < 2 ^ 31" "nonempty_arg x"
  shows "\<exists>out. print_section (pre @ opt_hostbytes x @ post) p (of_nat (length (opt_net x))) False scheme
    = Some (out, pre @ opt_hostbytes x @ post)"
proof (cases x)
  case None
  then show ?thesis by (simp add: print_section_def opt_net_def)
next
  case (Some y)
  then obtain lim es junk where y: "x = Some (lim, es, junk)" by (cases y) auto
  then have net: "opt_hostbytes x = pck_host lim es" "es \<noteq> []" "pck_len es < 2 ^ 31" "length (opt_net x) = pck_len es"
    using assms by (simp_all add: opt_net_def opt_hostbytes_def nonempty_arg_def)
  have ld: "load32 (pre @ pck_host lim es @ post) p = Some (of_nat (pck_len es))"
    using assms(1) by (simp add: pck_host_def mem_simps)
  have lt: "pck_len es < 2 ^ 32" using net(3) by simp
  have big: "\<not> (of_nat (pck_len es) :: u32) \<le> 8" "(of_nat (pck_len es) :: u32) \<noteq> 0"
    using u32_le_of_nat [of "pck_len es" 8] u32_of_nat_eq [of "pck_len es" 0] lt net(2)
    by (cases es; simp add: pck_len_def del: u32_le_of_nat)+
  obtain u v where uv: "print_field (pre @ pck_host lim es @ post) (length_colour scheme) p 4 = Some u"
    "print_field (pre @ pck_host lim es @ post) (data_colour scheme) (p + 4) 4 = Some v"
    using print_field_header [OF assms(1)] by metis
  obtain out where
    "printPck_loop (pre @ pck_host lim es @ post) p scheme (of_nat (pck_len es)) 8 (u @ v) = Some (u @ v @ out)"
    by (rule printPck_host [OF net(2,3) assms(1), of lim post scheme "u @ v"]) simp
  then show ?thesis
    using ld big uv by (simp add: print_section_def printPckData_def net(1,4))
qed

lemma printMessage_host:
  assumes iv: "length iv = 12" and t: "length t = 16" and ne: "nonempty_arg a" "nonempty_arg p"
    and small: "packet_size p a None < 2 ^ 31"
  shows "\<exists>out. printMessage (host_packet iv t a nonce gs p @ rest) False False
    = Some (out, host_packet iv t a nonce gs p @ rest)"
proof -
  let ?m = "host_packet iv t a nonce gs p @ rest"
  let ?A = "length (opt_net a)" and ?P = "length (opt_net p)"
  let ?hd = "concat [bytes_of_u32 (of_nat (packet_size p a None)), bytes_of_u32 (of_nat (4 + ?A)),
      bytes_of_u32 (of_nat 0), iv, t]"
  have b2: "?m = (?hd @ bytes_of_u32 0) @ opt_hostbytes a @ (bytes_of_u32 nonce @ bytes_of_u32 gs @ opt_hostbytes p @ rest)"
    and b3: "?m = (?hd @ bytes_of_u32 0 @ opt_hostbytes a @ bytes_of_u32 nonce @ bytes_of_u32 gs) @ opt_hostbytes p @ rest"
    by (simp_all add: host_packet_def)
  have lh: "length ?hd = 40" by (simp add: iv t)
  have sm: "44 + ?A + 8 + ?P < 2 ^ 31" using small by (simp add: packet_size_def)
  obtain hdr where hdr: "load_bytes ?m 0 40 = Some hdr" using lh by (simp add: b3 load_bytes_def)
  have h: "load32 ?m 0 = Some (of_nat (packet_size p a None))" "load32 ?m 4 = Some (of_nat (4 + ?A))"
    unfolding host_packet_split by (rule load32_field [where i = 0]; simp) (rule load32_field [where i = 1]; simp)
  have "load32 ?m 8 = Some (0 :: u32)"
    unfolding host_packet_split by (rule load32_field [where i = 2]) simp_all
  then have h8: "load32 ?m 8 = Some (of_nat 0)" by simp
  have z: "load_bytes ?m 40 0 = Some []" "\<exists>x. load_bytes ?m 40 4 = Some x"
      "\<exists>x. load_bytes ?m (44 + ?A) 8 = Some x"
    using lh by (simp_all add: b3 load_bytes_def)
  have e0: "print_section ?m 40 (of_nat 0) False 2 = Some ([], ?m)" by (simp add: print_section_def)
  have "44 = length (?hd @ bytes_of_u32 0)" using lh by simp
  from print_section_host [OF this _ ne(1), of "bytes_of_u32 nonce @ bytes_of_u32 gs @ opt_hostbytes p @ rest" 1]
  obtain o1 where o1: "print_section ?m 44 (of_nat ?A) False 1 = Some (o1, ?m)"
    using sm unfolding b2 by auto
  have "44 + ?A + 8 = length (?hd @ bytes_of_u32 0 @ opt_hostbytes a @ bytes_of_u32 nonce @ bytes_of_u32 gs)"
    using lh by simp
  from print_section_host [OF this _ ne(2), of rest 0]
  obtain o2 where o2: "print_section ?m (44 + ?A + 8) (of_nat ?P) False 0 = Some (o2, ?m)"
    using sm unfolding b3 by auto
  have offs: "12 + IVLEN + TAGLEN = 40" "unat protocolSpecificAddLen = 4"
    "unat protocolSpecificExtraDataLen = 0" "unat protocolSpecificEncryptedDataLen = 8"
    by (simp_all add: packet_consts)
  have u: "unat (of_nat 0 :: u32) = 0" "unat (of_nat (4 + ?A) :: u32) = 4 + ?A"
    using sm by (simp_all del: of_nat_add)
  have sub: "of_nat (4 + ?A) - protocolSpecificAddLen = (of_nat ?A :: u32)"
    "of_nat (packet_size p a None) - (4 + 4 + 4 + of_nat IVLEN + of_nat TAGLEN + of_nat 0 + of_nat (4 + ?A))
        - protocolSpecificEncryptedDataLen = (of_nat ?P :: u32)"
    by (simp_all add: packet_consts packet_size_def)
  have sums: "40 + 4 = (44 :: nat)" "40 + (4 + ?A) = 44 + ?A" by simp_all
  from z obtain x y where xy: "load_bytes ?m 40 4 = Some x" "load_bytes ?m (44 + ?A) 8 = Some y" by blast
  show ?thesis
    unfolding printMessage_def Let_def offs
    by (simp only: hdr h h8 if_False prod.case u z(1) e0 xy o1 o2 sub bind.bind_lunit add_0_right sums
        protocolSpecificExtraDataLen_def diff_0_right) simp
qed

text \<open>The containers of the packet, at the positions the readers compute.\<close>

lemma host_packet_add:
  assumes "length iv = 12" "length t = 16" "a = Some (lim, es, junk)" "es \<noteq> []" "pck_len es < 2 ^ 32" "j < 2 ^ 32"
    "\<And>e. pck_at es j = Some e \<Longrightarrow> length e \<le> length output"
  shows "getElementFromPckData (host_packet iv t a nonce gs p @ rest) 44 output (of_nat j)
    = Some (case pck_at es j of None \<Rightarrow> (- 1, output) | Some e \<Rightarrow> (of_nat (length e), e @ drop (length e) output))"
proof -
  let ?pre = "concat [bytes_of_u32 (of_nat (packet_size p a None)), bytes_of_u32 (of_nat (4 + length (opt_net a))),
      bytes_of_u32 0, iv, t, bytes_of_u32 0]"
  have "host_packet iv t a nonce gs p @ rest
      = ?pre @ pck_host lim es @ (bytes_of_u32 nonce @ bytes_of_u32 gs @ opt_hostbytes p @ rest)"
    by (simp add: host_packet_def assms(3) opt_hostbytes_def)
  then show ?thesis
    using getElement_pck_room [OF assms(4-7), of 44 ?pre] assms(1,2) by simp
qed

lemma host_packet_pck:
  assumes "length iv = 12" "length t = 16" "p = Some (lim, es, junk)"
    "off = 52 + length (opt_net a)"
  shows "\<exists>pre. host_packet iv t a nonce gs p @ rest = pre @ pck_host lim es @ rest \<and> length pre = off"
  using assms length_opt [of a]
  by (intro exI [of _ "concat [bytes_of_u32 (of_nat (packet_size p a None)), bytes_of_u32 (of_nat (4 + length (opt_net a))),
      bytes_of_u32 0, iv, t, bytes_of_u32 0, opt_hostbytes a, bytes_of_u32 nonce, bytes_of_u32 gs]"])
    (simp add: host_packet_def assms(3) opt_hostbytes_def [of "Some (lim, es, junk)"])

section \<open>A sealed packet\<close>

text \<open>The bytes on the wire of a packet that was sealed with the key context \<open>k\<close>.\<close>

definition sealed :: "gcm_context \<Rightarrow> byte list \<Rightarrow> pck_arg \<Rightarrow> u32 \<Rightarrow> u32 \<Rightarrow> pck_arg \<Rightarrow> byte list \<Rightarrow> byte list \<Rightarrow> bool" where
  "sealed k iv a nonce gs p t w \<longleftrightarrow> (\<exists>k' c. encryptGcm k (plain_part nonce gs (opt_net p)) iv (be32 0 @ opt_net a) 16 0 = (0, k', c, t)
     \<and> w = packet_bytes iv t [] (opt_net a) c)"

lemma sealed_shape:
  assumes "gcm_keyed k" "packet_ok p a None iv" "sealed k iv a nonce gs p t w"
  obtains c where "w = packet_bytes iv t [] (opt_net a) c" "length t = 16" "length c = 8 + length (opt_net p)"
    "length w = packet_size p a None"
proof -
  obtain k' c where c: "encryptGcm k (plain_part nonce gs (opt_net p)) iv (be32 0 @ opt_net a) 16 0 = (0, k', c, t)"
    "w = packet_bytes iv t [] (opt_net a) c" using assms(3) by (auto simp: sealed_def)
  have "length c = 8 + length (opt_net p)" "length t = 16"
    using gcm.seal_total [OF assms(1) packet_aead_sizes [OF assms(2), of nonce gs]] c(1)
    by (auto simp: plain_part_def)
  moreover have "length iv = 12" using assms(2) by (simp add: packet_ok_def)
  ultimately show thesis using that c(2) by (simp add: packet_size_def)
qed

lemma sealed_opens:
  assumes "gcm_keyed k" "same_key k l" "packet_ok p a None iv" "sealed k iv a nonce gs p t w"
    "8 + length (opt_net p) \<le> length out"
  shows "\<exists>l' out'. decryptPckData l (w @ rest) out = Some (0, l', host_packet iv t a nonce gs p @ rest, out')
    \<and> same_key k l' \<and> load32 out' 0 = Some nonce \<and> length out' = length out
    \<and> take (8 + length (opt_net p)) out' = bytes_of_u32 nonce @ bytes_of_u32 gs @ opt_hostbytes p"
  using assms decryptPckData_layout [OF assms(1-3) _ assms(5)] by (auto simp: sealed_def)

lemma session_sends:
  assumes "sessionId c \<noteq> 0" "gcm_keyed k" "w_envs w = e # es" "can_send e p a buf"
  shows "\<exists>k' t buf' x. send_packet w sock (Some c) (Some k) (opt_host p) (opt_host a) None gs buf
      = Some (0, Some (c\<lparr>sendSessionIncrements := sendSessionIncrements c + 1\<rparr>), Some k', buf', emit w es sock x)
    \<and> sealed k (se_iv e) a (htonl (sessionId c + (sendSessionIncrements c + 1))) gs p t x
    \<and> same_key k k' \<and> length buf' = length buf"
  using session_send [OF assms, of sock gs] by (fastforce simp: sealed_def)

lemma first_sends:
  assumes "sessionId c = 0" "localNonce c = 0" "gcm_keyed k" "w_envs w = e # es" "can_send e p a buf"
  shows "\<exists>k' t buf' x. send_packet w sock (Some c) (Some k) (opt_host p) (opt_host a) None gs buf
      = Some (0, Some (c\<lparr>localNonce := fresh_nonce e\<rparr>), Some k', buf', emit w es sock x)
    \<and> sealed k (se_iv e) a (htonl (fresh_nonce e)) gs p t x \<and> same_key k k' \<and> length buf' = length buf"
proof -
  obtain k' ct t st where s: "encryptAndSendAll e (Some c) (Some k) (opt_host p) (opt_host a) None gs buf
      = Some (0, Some (c\<lparr>localNonce := fresh_nonce e\<rparr>), packet_bytes (se_iv e) t [] (opt_net a) ct, st)"
    "encryptGcm k (plain_part (htonl (fresh_nonce e)) gs (opt_net p)) (se_iv e) (be32 0 @ opt_net a) 16 0 = (0, k', ct, t)"
    "ss_ctx st = Some k'" "same_key k k'" "length (ss_buf st) = length buf"
    using node_first_message [OF assms(1-3,5), of gs] by blast
  then show ?thesis
    by (intro exI [of _ k'] exI [of _ t] exI [of _ "ss_buf st"] exI [of _ "packet_bytes (se_iv e) t [] (opt_net a) ct"])
      (auto simp: send_packet_def assms(4) sealed_def)
qed

text \<open>Copying the opened part over itself.\<close>

lemma host_packet_restore:
  assumes "length iv = 12" "length t = 16"
  shows "store_bytes (host_packet iv t a nonce gs p @ rest) (44 + length (opt_net a))
      (bytes_of_u32 nonce @ bytes_of_u32 gs @ opt_hostbytes p) = Some (host_packet iv t a nonce gs p @ rest)"
proof -
  let ?pre = "concat [bytes_of_u32 (of_nat (packet_size p a None)), bytes_of_u32 (of_nat (4 + length (opt_net a))),
      bytes_of_u32 0, iv, t, bytes_of_u32 0, opt_hostbytes a]"
  let ?src = "bytes_of_u32 nonce @ bytes_of_u32 gs @ opt_hostbytes p"
  have h: "host_packet iv t a nonce gs p @ rest = ?pre @ ?src @ rest"
    by (simp add: host_packet_def)
  show ?thesis
    unfolding h by (rule store_bytes_mid) (simp_all add: assms)
qed

lemma load_taken: "take n out = x \<Longrightarrow> n \<le> length out \<Longrightarrow> load_bytes out 0 n = Some x"
  by (simp add: load_bytes_def)

section \<open>Packets in the clear\<close>

text \<open>The key exchange sends without a connection and without a key.\<close>

definition can_send_plain :: "send_env \<Rightarrow> pck_arg \<Rightarrow> pck_arg \<Rightarrow> pck_arg \<Rightarrow> byte list \<Rightarrow> bool" where
  "can_send_plain env p a x buf \<longleftrightarrow> packet_ok p a x (se_iv env) \<and> packet_size p a x \<le> length buf
     \<and> delivers (se_sends env) (int (packet_size p a x))"

definition in_clear :: "byte list \<Rightarrow> pck_arg \<Rightarrow> pck_arg \<Rightarrow> u32 \<Rightarrow> pck_arg \<Rightarrow> byte list \<Rightarrow> bool" where
  "in_clear iv x a gs p w \<longleftrightarrow>
     (\<exists>tag. length tag = 16 \<and> w = packet_bytes iv tag (opt_net x) (opt_net a) (plain_part 0 gs (opt_net p)))"

lemma plain_sends:
  assumes env: "w_envs w = e # es" and can: "can_send_plain e p a x buf"
  shows "\<exists>y buf'. send_packet w sock None None (opt_host p) (opt_host a) (opt_host x) gs buf
      = Some (0, None, None, buf', emit w es sock y) \<and> in_clear (se_iv e) x a gs p y \<and> length buf' = length buf"
proof -
  have ok: "packet_ok p a x (se_iv e)" "packet_size p a x \<le> length buf"
    and del: "delivers (se_sends e) (int (packet_size p a x))" using can by (auto simp: can_send_plain_def)
  obtain tag rest where r: "encryptPckData None (opt_host p) (opt_host a) (opt_host x) gs 0 (se_iv e) buf
      = Some (int (packet_size p a x), None,
              packet_bytes (se_iv e) tag (opt_net x) (opt_net a) (plain_part 0 gs (opt_net p)) @ rest,
              opt_netblock a, opt_netblock x)"
    "length tag = 16" "length rest = length buf - packet_size p a x"
    using encryptPckData_plain [OF ok, of gs 0] by blast
  let ?y = "packet_bytes (se_iv e) tag (opt_net x) (opt_net a) (plain_part 0 gs (opt_net p))"
  have ly: "length ?y = packet_size p a x"
    using ok(1) r(2) by (simp add: packet_ok_def packet_size_def plain_part_def)
  obtain rs where "sendall (se_sends e) (?y @ rest) (int (packet_size p a x)) = Some (0, ?y, rs)"
    using sendall_delivers [OF del, of "?y @ rest"] ly by auto
  then have "send_packet w sock None None (opt_host p) (opt_host a) (opt_host x) gs buf
      = Some (0, None, None, ?y @ rest, emit w es sock ?y)"
    by (simp add: send_packet_def env encryptAndSendAll_def compose_and_send_def r(1))
  moreover have "in_clear (se_iv e) x a gs p ?y" using r(2) by (auto simp: in_clear_def)
  ultimately show ?thesis using ly r(3) ok(2) by fastforce
qed

text \<open>Both ends read the other's public key from the first element of the extra data.\<close>

lemma read_extra_key:
  assumes iv: "length iv = 12" "length tag = 16" and key: "0 < length key" "length key = length out"
    and small: "length key < 2 ^ 31" and m_def: "m = packet_bytes iv tag (pck_net lim [key]) add enc @ rest"
  shows "\<exists>m'. pckDataToHostOrder (Some m) 40 = Some (0, Some m')
    \<and> getElementFromPckData m' 40 out 0 = Some (of_nat (length key), key)
    \<and> pckDataToNetworkOrder (Some m') 40 = Some (0, Some m)"
proof -
  let ?pre = "concat [be32 (of_nat (44 + length (pck_net lim [key]) + length add + length enc)), be32 (of_nat (4 + length add)),
    be32 (of_nat (length (pck_net lim [key]))), iv, tag]"
  let ?post = "be32 0 @ add @ enc @ rest"
  have m: "m = ?pre @ pck_net lim [key] @ ?post" by (simp add: m_def packet_bytes_def packet_fields_def)
  have l: "40 = length ?pre" using iv by simp
  have pl: "pck_len [key] < 2 ^ 32" using small by (simp add: pck_len_def)
  have "pck_at [key] 0 = Some key" using key(1) by (auto simp: pck_at_def)
  then have "getElementFromPckData (?pre @ pck_host lim [key] @ ?post) 40 out (of_nat 0) = Some (of_nat (length key), key)"
    using getElement_pck_room [of "[key]" 0 out 40 ?pre lim ?post] pl l key(2) by simp
  then show ?thesis
    unfolding m using toHost_pck [OF pl l, of lim ?post] toNetwork_pck [OF pl l, of lim ?post]
    by (intro exI [of _ "?pre @ pck_host lim [key] @ ?post"]) simp
qed

section \<open>A concrete environment\<close>

text \<open>The cipher layer is the one of \<open>GcmField\<close>, every allocation succeeds.\<close>

definition demo_sys :: sys where
  "demo_sys = \<lparr>sys_alloc = zero_alloc, sys_cpu = None, sys_lib = demo_layer, sys_stack = (\<lambda>_. 0),
     sys_priv = replicate 24 1, sys_full = False\<rparr>"

definition demo_id :: "byte list" where
  "demo_id = replicate 16 9"

lemma demo_key_context: "key_ctx demo_sys demo_key = demo_ctx"
  by (simp add: key_ctx_def demo_sys_def demo_ctx_def shared_consts)

text \<open>What a context of the demonstration key seals.\<close>

lemma demo_sealed:
  assumes "packet_ok p a None iv"
  obtains t w where "sealed demo_ctx iv a nonce gs p t w"
  using gcm.seal_total [OF demo_keyed packet_aead_sizes [OF assms, of nonce gs]] that by (fastforce simp: sealed_def)

definition demo_conn :: connInfo_t where
  "demo_conn = (fresh_conn 4 0)\<lparr>sessionId := 9, localNonce := 5, remoteNonce := 4\<rparr>"

lemma demo_conn_session: "connectionType demo_conn = 0" "sessionId demo_conn \<noteq> 0" "localNonce demo_conn \<noteq> 0"
  "remoteNonce demo_conn \<noteq> 0"
  by (simp_all add: demo_conn_def fresh_conn_def)

end
