(* ===== verification/Server.thy ===== *)
theory Server
  imports Wire
begin

text \<open>
  The server of \<open>mainserver/mainServer\<close>: the devices it knows, the queue of commands for
  them, the handling of a node's message (\<open>processMsg\<close> of \<open>server.c\<close>) and the commands a
  node can call (\<open>commands.c\<close>). The lists are the typed view of the \<open>arrayList\<close>; a pointer
  to a connection is the connection, returned updated. Saving a device is recorded as an
  event here; the file it goes to is in \<open>DeviceConfig\<close>.
\<close>

section \<open>State\<close>

definition nodeToServerReservedOpCodesUpperLimit :: u32 where "nodeToServerReservedOpCodesUpperLimit = 128"

lemmas server_consts = shared_consts nodeToServerReservedOpCodesUpperLimit_def

record devInfo =
  di_devId :: "byte list"
  di_key :: "byte list"
  di_devType :: u32
  deviceConnectionType :: byte
  deviceConnectionStatus :: byte
  lastConnectionTime :: int
  lockState :: byte
  doorState :: byte
  passwordLen :: byte
  di_password :: "byte list"
  socketStatus :: byte
  noiseLevel :: byte
  noiseThresholdReached :: byte
  presenceDetected :: byte

text \<open>A command; the two pointers are NULL or the memory they point to.\<close>

record commandRequestCommand_t =
  opCode :: u32
  isReservedOpCode :: byte
  argsPtr :: "byte list option"
  argsLen :: u32
  addPtr :: "byte list option"
  addLen :: byte
  gSettings :: u32

record commandRequest_t =
  cr_devId :: "byte list"
  commandRequestsCommands :: "commandRequestCommand_t list"

record server =
  devInfos :: "devInfo list"
  commandsQueue :: "commandRequest_t list"
  decryptedMsgBuffer :: "byte list"
  sendProcessingBuffer :: "byte list"
  gcmCtx :: gcm_context
  sv_wire :: wire
  sv_saved :: "devInfo list"
  sv_time :: int

text \<open>The local variable \<open>newDevInfo\<close> before its fields are set.\<close>

definition stack_devInfo :: "sys \<Rightarrow> devInfo" where
  "stack_devInfo e =
     \<lparr>di_devId = uninit e DEVIDLEN, di_key = uninit e KEYLEN, di_devType = ucast (sys_stack e 0),
      deviceConnectionType = sys_stack e 1, deviceConnectionStatus = sys_stack e 2,
      lastConnectionTime = uint (sys_stack e 3), lockState = sys_stack e 4, doorState = sys_stack e 5,
      passwordLen = sys_stack e 6, di_password = uninit e 12, socketStatus = sys_stack e 7,
      noiseLevel = sys_stack e 8, noiseThresholdReached = sys_stack e 9, presenceDetected = sys_stack e 10\<rparr>"

section \<open>Devices\<close>

text \<open>The search every function repeats; -1 when the device is not known.\<close>

definition find_device :: "devInfo list \<Rightarrow> byte list \<Rightarrow> int option" where
  "find_device devs devid = scan_from (sl_get devs) (sl_length devs) (\<lambda>d. di_devId d = devid) 0"

definition findEncryptionKey :: "devInfo list \<Rightarrow> byte list \<Rightarrow> byte list option option" where
  "findEncryptionKey devs devid = do {
     i \<leftarrow> find_device devs devid;
     if i = - 1 then Some None else Some (map_option di_key (sl_get devs i))
   }"

text \<open>Writing through the pointer the search returned.\<close>

definition update_device :: "devInfo list \<Rightarrow> byte list \<Rightarrow> (devInfo \<Rightarrow> devInfo) \<Rightarrow> devInfo list option" where
  "update_device devs devid f = do {
     i \<leftarrow> find_device devs devid;
     if i = - 1 then Some devs
     else do { d \<leftarrow> sl_get devs i; Some (devs[nat i := f d]) }
   }"

section \<open>The commands a node calls\<close>

definition updateDeviceStatus :: "int \<Rightarrow> devInfo \<Rightarrow> devInfo" where
  "updateDeviceStatus now d = d\<lparr>lastConnectionTime := now\<rparr>"

definition lock_beacon :: "byte \<Rightarrow> byte \<Rightarrow> byte \<Rightarrow> byte list \<Rightarrow> devInfo \<Rightarrow> devInfo" where
  "lock_beacon lockStatus doorStatus pwLen password d =
     d\<lparr>lockState := lockStatus, doorState := doorStatus, passwordLen := pwLen,
       di_password := password @ drop (length password) (di_password d)\<rparr>"

text \<open>
  Only these two device types look the device up; the status is updated when it was found.
  The local array of the password has 12 bytes, as has the field.
\<close>

definition nodeToServerBeacon :: "int \<Rightarrow> devInfo list \<Rightarrow> byte list \<Rightarrow> byte \<Rightarrow> byte list \<Rightarrow> devInfo list option" where
  "nodeToServerBeacon now devs devid devtype args =
     (if devtype = 2 then do {
        ls \<leftarrow> load_bytes args 0 1;
        ds \<leftarrow> load_bytes args 1 1;
        pl \<leftarrow> load_bytes args 2 1;
        password \<leftarrow> load_bytes args 3 (unat (pl ! 0));
        if unat (pl ! 0) > 12 then None
        else update_device devs devid (updateDeviceStatus now \<circ> lock_beacon (ls ! 0) (ds ! 0) (pl ! 0) password)
      }
      else if devtype = 5 then do {
        level \<leftarrow> load_bytes args 0 1;
        update_device devs devid (updateDeviceStatus now \<circ> (\<lambda>d. d\<lparr>noiseLevel := level ! 0\<rparr>))
      }
      else Some devs)"

text \<open>It prints its arguments.\<close>

definition nodeToServerMessage :: "devInfo list \<Rightarrow> byte list \<Rightarrow> byte \<Rightarrow> byte list \<Rightarrow> devInfo list option" where
  "nodeToServerMessage devs devid devtype args = Some devs"

text \<open>
  The table of function pointers: \<open>initServerCommandsList\<close> sets two entries of row 0, every
  other entry and row is memory from \<open>malloc\<close> that was never written, so calling it is
  undefined.
\<close>

definition dispatch :: "int \<Rightarrow> devInfo list \<Rightarrow> u32 \<Rightarrow> u32 \<Rightarrow> byte list \<Rightarrow> byte list \<Rightarrow> devInfo list option" where
  "dispatch now devs devtype opcode devid args =
     (if opcode \<le> nodeToServerReservedOpCodesUpperLimit then
        if opcode = 0 then nodeToServerBeacon now devs devid (ucast devtype) args
        else if opcode = 1 then nodeToServerMessage devs devid (ucast devtype) args
        else None
      else None)"

section \<open>The command queue\<close>

definition command_items :: "commandRequestCommand_t \<Rightarrow> (byte list \<times> u32) list" where
  "command_items cmd = (bytes_of_u32 (opCode cmd), 4) #
     (case argsPtr cmd of None \<Rightarrow> [] | Some a \<Rightarrow> [(a, argsLen cmd)])"

text \<open>A NULL key is dereferenced by \<open>initGCM\<close>.\<close>

definition sendOffCommand ::
    "sys \<Rightarrow> commandRequestCommand_t \<Rightarrow> connInfo_t \<Rightarrow> byte list \<Rightarrow> server \<Rightarrow> (connInfo_t \<times> server) option" where
  "sendOffCommand e cmd c devid s = do {
     addPck \<leftarrow> (case addPtr cmd of None \<Rightarrow> Some None
                | Some d \<Rightarrow> map_option Some (new_pck (sys_alloc e) [(d, ucast (addLen cmd))]));
     pck \<leftarrow> new_pck (sys_alloc e) (command_items cmd);
     key \<leftarrow> findEncryptionKey (devInfos s) devid;
     key \<leftarrow> key;
     (_, c, k, buf, w) \<leftarrow> send_packet (sv_wire s) (ci_socket c) (Some c) (Some (key_ctx e key)) (Some pck) addPck
                        None (gSettings cmd) (sendProcessingBuffer s);
     c \<leftarrow> c;
     k \<leftarrow> k;
     Some (c, s\<lparr>gcmCtx := k, sendProcessingBuffer := buf, sv_wire := w\<rparr>)
   }"

fun send_commands ::
    "sys \<Rightarrow> commandRequestCommand_t list \<Rightarrow> connInfo_t \<Rightarrow> byte list \<Rightarrow> server \<Rightarrow> (connInfo_t \<times> server) option" where
  "send_commands e [] c devid s = Some (c, s)"
| "send_commands e (cmd # cmds) c devid s = do {
     (c, s) \<leftarrow> sendOffCommand e cmd c devid s;
     send_commands e cmds c devid s
   }"

text \<open>
  The loop over the queue: after the commands of request \<open>i\<close> went out the request is removed,
  and the index still advances.
\<close>

function send_queue_loop ::
    "sys \<Rightarrow> byte list \<Rightarrow> commandRequest_t list \<Rightarrow> int \<Rightarrow> connInfo_t \<Rightarrow> server
     \<Rightarrow> (commandRequest_t list \<times> connInfo_t \<times> server) option" where
  "send_queue_loop e devid q i c s =
     (if i < sl_length q then do {
        r \<leftarrow> sl_get q i;
        if cr_devId r = devid then do {
          (c, s) \<leftarrow> send_commands e (commandRequestsCommands r) c devid s;
          send_queue_loop e devid (snd (sl_delete q i)) (i + 1) c s
        } else send_queue_loop e devid q (i + 1) c s
      } else Some (q, c, s))"
  by pat_completeness auto
termination
  by (relation "measure (\<lambda>(_, _, q, i, _, _). nat (sl_length q - i))") (auto simp: sl_length_def sl_delete_def)

declare send_queue_loop.simps [simp del]

definition sendQueuedMessages ::
    "sys \<Rightarrow> connInfo_t \<Rightarrow> byte list \<Rightarrow> server \<Rightarrow> (connInfo_t \<times> server) option" where
  "sendQueuedMessages e c devid s = do {
     (q, c, s) \<leftarrow> send_queue_loop e devid (commandsQueue s) 0 c s;
     Some (c, s\<lparr>commandsQueue := q\<rparr>)
   }"

text \<open>
  The loop that looks for a request of the device adds to every one it finds and goes on;
  after it a new request is appended in any case. When the list cannot grow, the entry that
  is filled in is the last existing one.
\<close>

definition add_to_request :: "bool \<Rightarrow> byte list \<Rightarrow> commandRequestCommand_t \<Rightarrow> commandRequest_t \<Rightarrow> commandRequest_t" where
  "add_to_request full devid cmd r =
     (if cr_devId r = devid
      then r\<lparr>commandRequestsCommands := snd (sl_push full (commandRequestsCommands r) cmd)\<rparr> else r)"

definition addToCommandQueue ::
    "bool \<Rightarrow> commandRequest_t \<Rightarrow> byte list \<Rightarrow> commandRequestCommand_t \<Rightarrow> commandRequest_t list
     \<Rightarrow> commandRequest_t list option" where
  "addToCommandQueue full stack_request devid cmd q = do {
     let q = map (add_to_request full devid cmd) q;
     let q = snd (sl_push full q stack_request);
     r \<leftarrow> sl_get q (sl_length q - 1);
     let r = r\<lparr>cr_devId := devid, commandRequestsCommands := []\<rparr>;
     let r = r\<lparr>commandRequestsCommands := snd (sl_push full (commandRequestsCommands r) cmd)\<rparr>;
     Some (q[nat (sl_length q - 1) := r])
   }"

section \<open>Messages\<close>

text \<open>
  What a message says about its sender: the first three elements of the authenticated
  container, each read into a local array of 16, 1 and 1 bytes.
\<close>

record identity =
  id_devId :: "byte list"
  id_devType :: byte
  id_connType :: byte

definition read_identity :: "sys \<Rightarrow> byte list \<Rightarrow> nat \<Rightarrow> identity option option" where
  "read_identity e m off = do {
     (r, devid) \<leftarrow> getElementFromPckData m off (uninit e DEVIDLEN) 0;
     if r = - 1 then Some None
     else do {
       (_, ty) \<leftarrow> getElementFromPckData m off [0] 1;
       (_, ct) \<leftarrow> getElementFromPckData m off [0] 2;
       Some (Some \<lparr>id_devId = devid, id_devType = ty ! 0, id_connType = ct ! 0\<rparr>)
     }
   }"

text \<open>
  An unknown device: its public key is the first element of the extra data, the own key pair
  is drawn, the first 16 bytes of the shared secret become the device's key, and the own
  public key goes back unencrypted as extra data. A refused public key leaves the shared
  secret as the stack had it.
\<close>

definition register_device ::
    "sys \<Rightarrow> connInfo_t \<Rightarrow> identity \<Rightarrow> byte list \<Rightarrow> nat \<Rightarrow> server
     \<Rightarrow> (int option \<times> connInfo_t \<times> byte list \<times> server) option" where
  "register_device e c who m extraOff s = do {
     (_, m) \<leftarrow> pckDataToHostOrder (Some m) extraOff;
     m \<leftarrow> m;
     (_, remote) \<leftarrow> getElementFromPckData m (extraOff + unat protocolSpecificExtraDataLen) (uninit e ECC_PUB_KEY_SIZE) 0;
     (_, m) \<leftarrow> pckDataToNetworkOrder (Some m) (extraOff + unat protocolSpecificExtraDataLen);
     m \<leftarrow> m;
     (_, pub, priv) \<leftarrow> ecdh_generate_keys (sys_priv e);
     (_, shared) \<leftarrow> ecdh_shared_secret priv remote (uninit e ECC_PUB_KEY_SIZE);
     let d = (stack_devInfo e)\<lparr>di_devId := id_devId who, di_key := take KEYLEN shared,
               di_devType := ucast (id_devType who), deviceConnectionType := id_connType who\<rparr>;
     let s = s\<lparr>sv_saved := sv_saved s @ [d]\<rparr>;
     let d = d\<lparr>lastConnectionTime := sv_time s\<rparr>;
     let s = s\<lparr>devInfos := snd (sl_push (sys_full e) (devInfos s) d)\<rparr>;
     pck \<leftarrow> new_pck (sys_alloc e) [(pub, of_nat ECC_PUB_KEY_SIZE)];
     (_, _, _, buf, w) \<leftarrow> send_packet (sv_wire s) (ci_socket c) None None None None (Some pck) 0 (sendProcessingBuffer s);
     Some (Some 0, c, m, s\<lparr>sendProcessingBuffer := buf, sv_wire := w\<rparr>)
   }"

text \<open>The three cases of a decrypted message: the two ends of the handshake, or a command.\<close>

definition establish_session ::
    "sys \<Rightarrow> connInfo_t \<Rightarrow> byte list \<Rightarrow> byte list \<Rightarrow> nat \<Rightarrow> server \<Rightarrow> (connInfo_t \<times> server) option" where
  "establish_session e c devid m encOff s = do {
     nonce \<leftarrow> load32 m encOff;
     env \<leftarrow> (case w_envs (sv_wire s) of [] \<Rightarrow> None | x # _ \<Rightarrow> Some x);
     (c, sent, st) \<leftarrow> server_establish env (gcmCtx s) nonce c (sendProcessingBuffer s);
     k \<leftarrow> ss_ctx st;
     let s = s\<lparr>gcmCtx := k, sendProcessingBuffer := ss_buf st,
               sv_wire := emit (sv_wire s) (tl (w_envs (sv_wire s))) (ci_socket c) sent\<rparr>;
     sendQueuedMessages e c devid s
   }"

text \<open>
  The three elements of a command. The length of the arguments is the size of a local array:
  a missing third element gives the size 2^32 - 1.
\<close>

definition node_command :: "sys \<Rightarrow> byte list \<Rightarrow> byte list \<Rightarrow> nat \<Rightarrow> server \<Rightarrow> server option" where
  "node_command e devid m pckOff s = do {
     (_, ty) \<leftarrow> getElementFromPckData m pckOff (uninit e 4) 0;
     (_, op) \<leftarrow> getElementFromPckData m pckOff (uninit e 4) 1;
     n \<leftarrow> getElementLengthFromPckData m pckOff 2;
     if n = - 1 then None
     else do {
       (_, args) \<leftarrow> getElementFromPckData m pckOff (uninit e (unat n)) 2;
       let devtype = ntohl (u32_of_bytes ty);
       let opcode = ntohl (u32_of_bytes op);
       devs \<leftarrow> update_device (devInfos s) devid (\<lambda>d. d\<lparr>di_devType := devtype\<rparr>);
       devs \<leftarrow> dispatch (sv_time s) devs devtype opcode devid args;
       Some (s\<lparr>devInfos := devs\<rparr>)
     }
   }"

definition decrypted_message ::
    "sys \<Rightarrow> connInfo_t \<Rightarrow> byte list \<Rightarrow> byte list \<Rightarrow> nat \<Rightarrow> server \<Rightarrow> (connInfo_t \<times> server) option" where
  "decrypted_message e c devid m encOff s =
     (if localNonce c = 0 \<and> remoteNonce c = 0 then establish_session e c devid m encOff s
      else if remoteNonce c = 0 \<and> localNonce c \<noteq> 0 then do {
        nonce \<leftarrow> load32 m encOff;
        sendQueuedMessages e (server_complete nonce c) devid s
      }
      else if sessionId c \<noteq> 0 then
        map_option (Pair c) (node_command e devid m (encOff + unat protocolSpecificEncryptedDataLen) s)
      else Some (c, s))"

text \<open>
  The handler. The results are its return value (none when it runs off its end), the
  connection, the message buffer and the server. The functions that use the device get the
  device id of the message, which is the id of the device that was found.
\<close>

definition processMsg ::
    "sys \<Rightarrow> connInfo_t \<Rightarrow> byte list \<Rightarrow> server \<Rightarrow> (int option \<times> connInfo_t \<times> byte list \<times> server) option" where
  "processMsg e c m s = do {
     msgLen \<leftarrow> map_option ntohl (load32 m 0);
     addMsgLen \<leftarrow> map_option ntohl (load32 m 4);
     extraMsgLen \<leftarrow> map_option ntohl (load32 m 8);
     let extraOff = 12 + IVLEN + TAGLEN;
     let addPckOff = extraOff + unat extraMsgLen + unat protocolSpecificAddLen;
     let encOff = extraOff + unat extraMsgLen + unat addMsgLen;
     (_, m) \<leftarrow> printMessage m True True;
     if connectionType c \<noteq> 0 then do {
       m \<leftarrow> store_bytes m 0 (replicate MAXMSGLEN 0);
       Some (None, c, m, s)
     } else do {
       (_, m) \<leftarrow> pckDataToHostOrder (Some m) addPckOff;
       m \<leftarrow> m;
       who \<leftarrow> read_identity e m addPckOff;
       case who of
         None \<Rightarrow> Some (Some (- 1), c, m, s)
       | Some who \<Rightarrow> do {
           (_, m) \<leftarrow> pckDataToNetworkOrder (Some m) addPckOff;
           m \<leftarrow> m;
           i \<leftarrow> find_device (devInfos s) (id_devId who);
           if i = - 1 then register_device e c who m extraOff s
           else do {
             d \<leftarrow> sl_get (devInfos s) i;
             (r, k, m, out) \<leftarrow> decryptPckData (key_ctx e (di_key d)) m (decryptedMsgBuffer s);
             let s = s\<lparr>gcmCtx := k, decryptedMsgBuffer := out\<rparr>;
             if r \<noteq> 0 then Some (Some (- 1), c, m, s)
             else do {
               let before = 4 + 4 + 4 + of_nat IVLEN + of_nat TAGLEN + extraMsgLen + addMsgLen;
               src \<leftarrow> load_bytes out 0 (unat (msgLen - before));
               m \<leftarrow> store_bytes m (unat before) src;
               (_, m) \<leftarrow> printMessage m False False;
               (c, s) \<leftarrow> decrypted_message e c (id_devId who) m encOff s;
               m \<leftarrow> store_bytes m 0 (replicate MAXMSGLEN 0);
               Some (None, c, m, s)
             }
           }
         }
     }
   }"

section \<open>Looking up devices\<close>

definition dev_index :: "devInfo list \<Rightarrow> byte list \<Rightarrow> nat option" where
  "dev_index devs devid = find_index (\<lambda>d. di_devId d = devid) devs"

lemma find_device_eq:
  "find_device devs devid = Some (case dev_index devs devid of None \<Rightarrow> - 1 | Some k \<Rightarrow> int k)"
  unfolding find_device_def dev_index_def by (rule sl.scan_first) simp

lemma dev_index_Some: "dev_index devs devid = Some i \<Longrightarrow> i < length devs \<and> di_devId (devs ! i) = devid"
  using find_index_Some [of "\<lambda>d. di_devId d = devid" devs i] by (auto simp: dev_index_def)

lemma sl_get_nth: "i < length xs \<Longrightarrow> sl_get xs (int i) = Some (xs ! i)"
  by (simp add: sl_get_def sl_length_def)

lemma find_index_cong:
  assumes "length xs = length ys" "\<And>i. i < length xs \<Longrightarrow> Q (xs ! i) = Q (ys ! i)"
  shows "find_index Q xs = find_index Q ys"
  using assms
proof (induction xs arbitrary: ys)
  case (Cons x xs)
  then obtain y ys' where ys: "ys = y # ys'" "length xs = length ys'" by (cases ys) auto
  have "Q x = Q y" using Cons.prems(2) [of 0] ys by simp
  moreover have "find_index Q xs = find_index Q ys'"
  proof (rule Cons.IH [OF ys(2)])
    fix i assume "i < length xs"
    then show "Q (xs ! i) = Q (ys' ! i)" using Cons.prems(2) [of "Suc i"] ys by simp
  qed
  ultimately show ?case by (simp add: ys)
qed simp

text \<open>An update of the device found keeps every search.\<close>

lemma dev_index_update:
  assumes "di_devId (f (devs ! i)) = di_devId (devs ! i)"
  shows "dev_index (devs[i := f (devs ! i)]) devid = dev_index devs devid"
proof (cases "i < length devs")
  case True
  then show ?thesis
    unfolding dev_index_def using assms by (intro find_index_cong) (auto simp: nth_list_update)
qed (simp add: list_update_beyond)

lemma update_device_eq:
  "update_device devs devid f
    = Some (case dev_index devs devid of None \<Rightarrow> devs | Some k \<Rightarrow> devs[k := f (devs ! k)])"
  by (auto simp: update_device_def find_device_eq sl_get_nth dest: dev_index_Some split: option.split)

lemma findEncryptionKey_eq:
  "findEncryptionKey devs devid = Some (map_option (\<lambda>i. di_key (devs ! i)) (dev_index devs devid))"
  by (auto simp: findEncryptionKey_def find_device_eq sl_get_nth dest: dev_index_Some split: option.split)

section \<open>Receiving a sealed packet\<close>

text \<open>
  The authenticated container of a node message: the device id, then in the first message of
  a device its type and kind of connection, one byte each.
\<close>

definition node_add :: "u32 \<Rightarrow> byte list \<Rightarrow> byte list list \<Rightarrow> byte list \<Rightarrow> pck_arg" where
  "node_add lim devid ids junk = Some (lim, devid # ids, junk)"

definition node_add_ok :: "byte list \<Rightarrow> byte list list \<Rightarrow> bool" where
  "node_add_ok devid ids \<longleftrightarrow> length devid = 16 \<and> (\<forall>x\<in>set ids. length x \<le> 1) \<and> pck_len (devid # ids) < 2 ^ 31"

definition first_byte :: "byte list option \<Rightarrow> byte" where
  "first_byte x = (case x of Some (b # _) \<Rightarrow> b | _ \<Rightarrow> 0)"

definition identity_of :: "byte list \<Rightarrow> byte list list \<Rightarrow> identity" where
  "identity_of devid ids =
     \<lparr>id_devId = devid, id_devType = first_byte (pck_at (devid # ids) 1),
      id_connType = first_byte (pck_at (devid # ids) 2)\<rparr>"

lemma pck_at_set: "pck_at es j = Some x \<Longrightarrow> x \<in> set es"
  by (auto simp: pck_at_def split: if_splits)

lemma read_identity_pck:
  assumes ok: "node_add_ok devid ids" and off: "off = length pre"
  shows "read_identity e (pre @ pck_host lim (devid # ids) @ post) off = Some (Some (identity_of devid ids))"
proof -
  let ?es = "devid # ids"
  have es: "?es \<noteq> []" "pck_len ?es < 2 ^ 32" "length devid = 16" using ok by (auto simp: node_add_ok_def)
  have sh: "length x \<le> 1" if "pck_at ?es (Suc j) = Some x" for j x
    using that ok pck_at_set [of ids j x] by (auto simp: pck_at_Cons node_add_ok_def)
  have g: "getElementFromPckData (pre @ pck_host lim ?es @ post) off out (of_nat j)
      = Some (case pck_at ?es j of None \<Rightarrow> (- 1, out) | Some x \<Rightarrow> (of_nat (length x), x @ drop (length x) out))"
    if "\<And>x. pck_at ?es j = Some x \<Longrightarrow> length x \<le> length out" "j < 3" for j out
    using getElement_pck_room [OF es(1,2) _ that(1) off, where lim = lim and post = post] that(2) by simp
  have g0: "getElementFromPckData (pre @ pck_host lim ?es @ post) off (uninit e DEVIDLEN) 0 = Some (16, devid)"
  proof -
    have "pck_at ?es 0 = Some devid" using es(3) by (auto simp: pck_at_def)
    then show ?thesis using g [of 0 "uninit e DEVIDLEN"] es(3) by (simp add: DEVIDLEN_def)
  qed
  have one: "\<exists>r y. getElementFromPckData (pre @ pck_host lim ?es @ post) off [0] (of_nat (Suc j)) = Some (r, y)
      \<and> y ! 0 = first_byte (pck_at ?es (Suc j))" if "Suc j < 3" for j
    using g [of "Suc j" "[0]"] sh [of j] that
    by (cases "pck_at ?es (Suc j)") (auto simp: first_byte_def le_Suc_eq length_Suc_conv split: list.splits)
  obtain r1 y1 where y1: "getElementFromPckData (pre @ pck_host lim ?es @ post) off [0] 1 = Some (r1, y1)"
    "y1 ! 0 = first_byte (pck_at ?es 1)" using one [of 0] by auto
  obtain r2 y2 where y2: "getElementFromPckData (pre @ pck_host lim ?es @ post) off [0] 2 = Some (r2, y2)"
    "y2 ! 0 = first_byte (pck_at ?es 2)" using one [of 1] by (auto simp: numeral_2_eq_2)
  show ?thesis
    by (simp add: read_identity_def g0 y1 y2 identity_of_def)
qed

text \<open>The guards of \<open>processMsg\<close> before the packet is opened leave the message as it was.\<close>

definition from_device :: "server \<Rightarrow> byte list \<Rightarrow> devInfo \<Rightarrow> bool" where
  "from_device s devid d \<longleftrightarrow> (\<exists>i. dev_index (devInfos s) devid = Some i \<and> devInfos s ! i = d)"

lemma from_device_find:
  assumes "from_device s devid d"
  obtains i where "find_device (devInfos s) devid = Some (int i)" "sl_get (devInfos s) (int i) = Some d"
    "dev_index (devInfos s) devid = Some i" "i < length (devInfos s)" "devInfos s ! i = d" "di_devId d = devid"
  using assms dev_index_Some by (fastforce simp: from_device_def find_device_eq sl_get_nth)

lemma processMsg_opening:
  assumes iv: "length iv = 12" and t: "length t = 16" and a: "a = node_add lim devid ids junk" "node_add_ok devid ids"
    and small: "44 + length (opt_net a) + length enc < 2 ^ 31"
    and c: "connectionType c = 0" and d: "from_device s devid d"
  shows "processMsg e c (packet_bytes iv t [] (opt_net a) enc @ rest) s = do {
    (r, k, m, out) \<leftarrow> decryptPckData (key_ctx e (di_key d)) (packet_bytes iv t [] (opt_net a) enc @ rest) (decryptedMsgBuffer s);
    let s = s\<lparr>gcmCtx := k, decryptedMsgBuffer := out\<rparr>;
    if r \<noteq> 0 then Some (Some (- 1), c, m, s)
    else do {
      src \<leftarrow> load_bytes out 0 (length enc);
      m \<leftarrow> store_bytes m (44 + length (opt_net a)) src;
      (_, m) \<leftarrow> printMessage m False False;
      (c, s) \<leftarrow> decrypted_message e c devid m (44 + length (opt_net a)) s;
      m \<leftarrow> store_bytes m 0 (replicate MAXMSGLEN 0);
      Some (None, c, m, s)
    }
  }"
proof -
  let ?m = "packet_bytes iv t [] (opt_net a) enc @ rest" and ?A = "length (opt_net a)"
  have small': "44 + length ([] :: byte list) + ?A + length enc < 2 ^ 31" using small by simp
  note hd = packet_header(1-3) [OF iv t small', of rest]
  note u = packet_unat [OF small']
  obtain o1 where pr: "printMessage ?m True True = Some (o1, ?m)"
    using printMessage_packet(1) [OF iv t, of None a enc rest] small by (auto simp: nonempty_arg_def a(1) node_add_def)
  let ?pre = "concat [be32 (of_nat (44 + ?A + length enc)), be32 (of_nat (4 + ?A)), be32 0, iv, t, be32 0]"
  have es: "opt_net a = pck_net lim (devid # ids)" by (simp add: a(1) node_add_def opt_net_def)
  have m: "?m = ?pre @ pck_net lim (devid # ids) @ enc @ rest"
    unfolding es [symmetric] by (simp add: packet_bytes_def packet_fields_def)
  have lp: "44 = length ?pre" using iv t by simp
  have pl: "pck_len (devid # ids) < 2 ^ 32" using a(2) by (simp add: node_add_ok_def)
  have th: "pckDataToHostOrder (Some ?m) 44 = Some (0, Some (?pre @ pck_host lim (devid # ids) @ enc @ rest))"
    unfolding m by (rule toHost_pck [OF pl lp])
  have tn: "pckDataToNetworkOrder (Some (?pre @ pck_host lim (devid # ids) @ enc @ rest)) 44 = Some (0, Some ?m)"
    unfolding m by (rule toNetwork_pck [OF pl lp])
  note id = read_identity_pck [OF a(2) lp, of e lim "enc @ rest"]
  obtain i where i: "find_device (devInfos s) devid = Some (int i)" "sl_get (devInfos s) (int i) = Some d"
    using from_device_find [OF d] by metis
  have i': "(int i = - 1) = False" by simp
  have offs: "12 + IVLEN + TAGLEN + unat (of_nat (length ([] :: byte list)) :: u32) + unat protocolSpecificAddLen = 44"
    "12 + IVLEN + TAGLEN + unat (of_nat (length ([] :: byte list)) :: u32) + unat (of_nat (4 + ?A) :: u32) = 44 + ?A"
    using u by (simp_all add: packet_consts)
  have bf: "unat (4 + 4 + 4 + of_nat IVLEN + of_nat TAGLEN + of_nat (length ([] :: byte list)) + of_nat (4 + ?A) :: u32) = 44 + ?A"
    using unat_u32_of_nat [of "44 + ?A"] small by (simp add: packet_consts)
  show ?thesis
    unfolding processMsg_def Let_def
    by (simp only: hd option.map ntohl_htonl bind.bind_lunit prod.case pr c offs HOL.simp_thms if_False th id
        option.case identity_of_def identity.simps tn i i' u(3) bf)
qed

text \<open>A packet sealed with the device's key gets to the three cases of a decrypted message.\<close>

lemma processMsg_sealed:
  assumes key: "gcm_keyed k" "same_key k (key_ctx e (di_key d))" and ok: "packet_ok p a None iv"
    and seal: "sealed k iv a nonce gs p t w" and a: "a = node_add lim devid ids junk" "node_add_ok devid ids"
    and c: "connectionType c = 0" and d: "from_device s devid d"
    and room: "8 + length (opt_net p) \<le> length (decryptedMsgBuffer s)"
  shows "\<exists>l out. same_key k l \<and> length out = length (decryptedMsgBuffer s) \<and> processMsg e c (w @ rest) s = do {
      (c, s) \<leftarrow> decrypted_message e c devid (host_packet iv t a nonce gs p @ rest) (44 + length (opt_net a))
                (s\<lparr>gcmCtx := l, decryptedMsgBuffer := out\<rparr>);
      m \<leftarrow> store_bytes (host_packet iv t a nonce gs p @ rest) 0 (replicate MAXMSGLEN 0);
      Some (None, c, m, s)
    }"
proof -
  obtain ct where w: "w = packet_bytes iv t [] (opt_net a) ct" "length t = 16" "length ct = 8 + length (opt_net p)"
    using sealed_shape [OF key(1) ok seal] by metis
  have iv: "length iv = 12" and small: "packet_size p a None < 2 ^ 31" and ne: "nonempty_arg a" "nonempty_arg p"
    using ok by (auto simp: packet_ok_def packet_size_def)
  have small': "44 + length (opt_net a) + length ct < 2 ^ 31" using small w(3) by (simp add: packet_size_def)
  obtain l out where o: "decryptPckData (key_ctx e (di_key d)) (w @ rest) (decryptedMsgBuffer s)
      = Some (0, l, host_packet iv t a nonce gs p @ rest, out)" "same_key k l" "length out = length (decryptedMsgBuffer s)"
    "take (8 + length (opt_net p)) out = bytes_of_u32 nonce @ bytes_of_u32 gs @ opt_hostbytes p"
    using sealed_opens [OF key ok seal room, of rest] by blast
  have ld: "load_bytes out 0 (length ct) = Some (bytes_of_u32 nonce @ bytes_of_u32 gs @ opt_hostbytes p)"
    using load_taken [OF o(4)] room o(3) w(3) by simp
  obtain pr where pr: "printMessage (host_packet iv t a nonce gs p @ rest) False False
      = Some (pr, host_packet iv t a nonce gs p @ rest)"
    using printMessage_host [OF iv w(2) ne small] by blast
  show ?thesis
    using processMsg_opening [OF iv w(2) a small' c d, of e rest] o(2,3)
    by (intro exI [of _ l] exI [of _ out])
      (simp only: w(1) [symmetric] o(1) prod.case bind.bind_lunit Let_def ld pr host_packet_restore [OF iv w(2)]
        HOL.simp_thms if_False)
qed

text \<open>A packet whose tag was changed ends the handler before it changes anything.\<close>

lemma processMsg_wrong_tag:
  assumes key: "gcm_keyed k" "same_key k (key_ctx e (di_key d))" and ok: "packet_ok p a None iv"
    and enc: "encryptGcm k (plain_part nonce gs (opt_net p)) iv (be32 0 @ opt_net a) 16 0 = (0, k', ct, t)"
    and a: "a = node_add lim devid ids junk" "node_add_ok devid ids" and t': "length t' = 16" "t' \<noteq> t"
    and c: "connectionType c = 0" and d: "from_device s devid d"
    and room: "8 + length (opt_net p) \<le> length (decryptedMsgBuffer s)"
  shows "\<exists>l out. processMsg e c (packet_bytes iv t' [] (opt_net a) ct @ rest) s
    = Some (Some (- 1), c, packet_bytes iv t' [] (opt_net a) ct @ rest, s\<lparr>gcmCtx := l, decryptedMsgBuffer := out\<rparr>)"
proof -
  have iv: "length iv = 12" using ok by (simp add: packet_ok_def)
  have "length ct = 8 + length (opt_net p)"
    using gcm.seal_total [OF key(1) packet_aead_sizes [OF ok, of nonce gs]] enc by (auto simp: plain_part_def)
  then have small: "44 + length (opt_net a) + length ct < 2 ^ 31" using ok by (simp add: packet_ok_def)
  obtain l out where "decryptPckData (key_ctx e (di_key d)) (packet_bytes iv t' [] (opt_net a) ct @ rest) (decryptedMsgBuffer s)
      = Some (- 1, l, packet_bytes iv t' [] (opt_net a) ct @ rest, out)"
    using decryptPckData_wrong_tag [OF key ok enc t' room] by blast
  then show ?thesis
    by (intro exI [of _ l] exI [of _ out]) (simp add: processMsg_opening [OF iv t'(1) a small c d])
qed

section \<open>Registering a device\<close>

text \<open>The device a registration adds.\<close>

definition new_device :: "sys \<Rightarrow> identity \<Rightarrow> byte list \<Rightarrow> int \<Rightarrow> devInfo" where
  "new_device e who key now = (stack_devInfo e)\<lparr>di_devId := id_devId who, di_key := key,
     di_devType := ucast (id_devType who), deviceConnectionType := id_connType who, lastConnectionTime := now\<rparr>"

lemma processMsg_registers:
  assumes iv: "length iv = 12" and a: "a = node_add lim devid ids junk" "node_add_ok devid ids"
    and x: "x = Some (lim', [remote], junk')" "length remote = 48"
    and w: "in_clear iv x a gs p w" and ok: "packet_ok p a x iv"
    and c: "connectionType c = 0" and new: "dev_index (devInfos s) devid = None"
    and dh: "ecdh_generate_keys (sys_priv e) = Some (g, pub, priv)" "length pub = 48"
      "ecdh_shared_secret priv remote (uninit e 48) = Some (r, shared)"
    and env: "w_envs (sv_wire s) = env # envs" "\<And>j. can_send_plain env None None (Some (255, [pub], j)) (sendProcessingBuffer s)"
    and mem: "malloc (sys_alloc e) 255 \<noteq> None" "\<not> sys_full e"
  shows "\<exists>y j s'. processMsg e c (w @ rest) s = Some (Some 0, c, w @ rest, s')
    \<and> in_clear (se_iv env) (Some (255, [pub], j)) None 0 None y
    \<and> w_sent (sv_wire s') = w_sent (sv_wire s) @ [(ci_socket c, y)]
    \<and> devInfos s' = devInfos s @ [new_device e (identity_of devid ids) (take 16 shared) (sv_time s)]
    \<and> commandsQueue s' = commandsQueue s \<and> length (sv_saved s') = Suc (length (sv_saved s))"
proof -
  let ?A = "length (opt_net a)" and ?X = "length (opt_net x)"
  obtain tag where tag: "length tag = 16" "w = packet_bytes iv tag (opt_net x) (opt_net a) (plain_part 0 gs (opt_net p))"
    using w by (auto simp: in_clear_def)
  let ?pl = "plain_part 0 gs (opt_net p)"
  have lpl: "length ?pl = 8 + length (opt_net p)" by (simp add: plain_part_def)
  have small: "44 + ?X + ?A + length ?pl < 2 ^ 31" and ne: "nonempty_arg x" "nonempty_arg a"
    using ok lpl by (simp_all add: packet_ok_def)
  note hd = packet_header(1-3) [OF iv tag(1) small, of rest]
  note u = packet_unat [OF small]
  obtain o1 where pr: "printMessage (w @ rest) True True = Some (o1, w @ rest)"
    using printMessage_packet(1) [OF iv tag(1) small ne] unfolding tag(2) by blast
  let ?pre = "concat [be32 (of_nat (44 + ?X + ?A + length ?pl)), be32 (of_nat (4 + ?A)), be32 (of_nat ?X), iv, tag, opt_net x, be32 0]"
  have es: "opt_net a = pck_net lim (devid # ids)" by (simp add: a(1) node_add_def opt_net_def)
  have m: "w @ rest = ?pre @ pck_net lim (devid # ids) @ ?pl @ rest"
    unfolding es [symmetric] tag(2) by (simp add: packet_bytes_def packet_fields_def)
  have lp: "44 + ?X = length ?pre" using iv tag(1) by simp
  have pl: "pck_len (devid # ids) < 2 ^ 32" using a(2) by (simp add: node_add_ok_def)
  have th: "pckDataToHostOrder (Some (w @ rest)) (44 + ?X) = Some (0, Some (?pre @ pck_host lim (devid # ids) @ ?pl @ rest))"
    unfolding m by (rule toHost_pck [OF pl lp])
  have tn: "pckDataToNetworkOrder (Some (?pre @ pck_host lim (devid # ids) @ ?pl @ rest)) (44 + ?X) = Some (0, Some (w @ rest))"
    unfolding m by (rule toNetwork_pck [OF pl lp])
  note id = read_identity_pck [OF a(2) lp, of e lim "?pl @ rest"]
  have nodev: "find_device (devInfos s) devid = Some (- 1)" by (simp add: find_device_eq new)
  have offs: "12 + IVLEN + TAGLEN = 40" "40 + unat (of_nat ?X :: u32) + unat protocolSpecificAddLen = 44 + ?X"
    using u by (simp_all add: packet_consts)
  have xn: "opt_net x = pck_net lim' [remote]" by (simp add: x opt_net_def)
  obtain m' where m': "pckDataToHostOrder (Some (w @ rest)) 40 = Some (0, Some m')"
    "getElementFromPckData m' 40 (uninit e ECC_PUB_KEY_SIZE) 0 = Some (48, remote)"
    "pckDataToNetworkOrder (Some m') 40 = Some (0, Some (w @ rest))"
    using read_extra_key [OF iv tag(1), of remote "uninit e ECC_PUB_KEY_SIZE" "w @ rest" lim' "opt_net a" ?pl rest] x(2) tag(2) xn
    by (auto simp: curve_consts)
  obtain j where pck: "new_pck (sys_alloc e) [(pub, of_nat ECC_PUB_KEY_SIZE)] = opt_host (Some (255, [pub], j))"
  proof -
    have "pck_len [pub] \<le> 255" using dh(2) by (simp add: pck_len_def)
    from new_pck_holds [OF mem(1) this] show thesis
      using that pck_holds_arg dh(2) by (fastforce simp: curve_consts)
  qed
  obtain pm where pm: "opt_host (Some (255, [pub], j)) = Some pm" by (simp add: opt_host_def)
  obtain y buf' where sent: "send_packet (sv_wire s) (ci_socket c) None None None None (Some pm) 0 (sendProcessingBuffer s)
      = Some (0, None, None, buf', emit (sv_wire s) envs (ci_socket c) y)" "in_clear (se_iv env) (Some (255, [pub], j)) None 0 None y"
    using plain_sends [OF env(1) env(2) [of j], of "ci_socket c" 0] pm by auto
  have ny: "y \<noteq> []" using sent(2) by (auto simp: in_clear_def packet_bytes_def packet_fields_def be32_def bytes_of_u32_def)
  let ?d = "(stack_devInfo e)\<lparr>di_devId := id_devId (identity_of devid ids), di_key := take KEYLEN shared,
    di_devType := ucast (id_devType (identity_of devid ids)), deviceConnectionType := id_connType (identity_of devid ids)\<rparr>"
  let ?s' = "s\<lparr>sv_saved := sv_saved s @ [?d], devInfos := devInfos s @ [?d\<lparr>lastConnectionTime := sv_time s\<rparr>],
    sendProcessingBuffer := buf', sv_wire := emit (sv_wire s) envs (ci_socket c) y\<rparr>"
  have "register_device e c (identity_of devid ids) (w @ rest) 40 s = Some (Some 0, c, w @ rest, ?s')"
    using m' dh mem(2) pck pm sent(1)
    by (simp add: register_device_def Let_def sl_push_def packet_consts curve_consts)
  then have "processMsg e c (w @ rest) s = Some (Some 0, c, w @ rest, ?s')"
    using hd pr th id tn nodev c unfolding processMsg_def Let_def tag(2) [symmetric] offs
    by (simp add: offs identity_of_def)
  then show ?thesis
    using sent(2) ny by (intro exI [of _ y] exI [of _ j] exI [of _ ?s']) (simp add: emit_eq new_device_def KEYLEN_def)
qed

section \<open>A command of a node\<close>

text \<open>The container of a node command, as the server reads it: device type and opcode in network order.\<close>

definition command_pck :: "u32 \<Rightarrow> u32 \<Rightarrow> u32 \<Rightarrow> byte list \<Rightarrow> byte list \<Rightarrow> pck_arg" where
  "command_pck lim devtype opcode args junk = Some (lim, [be32 devtype, be32 opcode, args], junk)"

lemma ntohl_be32 [simp]: "ntohl (u32_of_bytes (be32 w)) = w"
  by (simp add: be32_def)

lemma node_command_pck:
  assumes iv: "length iv = 12" "length t = 16" and small: "length args < 2 ^ 31" and off: "off = 52 + length (opt_net a)"
  shows "node_command e devid (host_packet iv t a nonce gs (command_pck lim devtype opcode args junk) @ rest) off s = do {
    devs \<leftarrow> dispatch (sv_time s)
      (case dev_index (devInfos s) devid of None \<Rightarrow> devInfos s
       | Some i \<Rightarrow> (devInfos s)[i := (devInfos s ! i)\<lparr>di_devType := devtype\<rparr>]) devtype opcode devid args;
    Some (s\<lparr>devInfos := devs\<rparr>)
  }"
proof -
  let ?es = "[be32 devtype, be32 opcode, args]"
  let ?m = "host_packet iv t a nonce gs (command_pck lim devtype opcode args junk) @ rest"
  obtain pre where pre: "?m = pre @ pck_host lim ?es @ rest" "length pre = off"
    using host_packet_pck [OF iv command_pck_def off, where nonce = nonce and gs = gs and rest = rest] by blast
  have pl: "pck_len ?es < 2 ^ 32" using small by (simp add: pck_len_def)
  have g: "getElementFromPckData ?m off out (of_nat j) = Some (case pck_at ?es j of None \<Rightarrow> (- 1, out)
      | Some x \<Rightarrow> (of_nat (length x), x @ drop (length x) out))"
    if "j < 3" "length (?es ! j) \<le> length out" for j out
    using getElement_pck_room [of ?es j out off pre lim rest] that pre pl by (auto simp: pck_at_def split: if_splits)
  have g01: "getElementFromPckData ?m off (uninit e 4) 0 = Some (4, be32 devtype)"
    "getElementFromPckData ?m off (uninit e 4) 1 = Some (4, be32 opcode)"
    using g [of 0 "uninit e 4"] g [of 1 "uninit e 4"] by (simp_all add: pck_at_def)
  have n: "getElementLengthFromPckData ?m off 2 = Some (of_nat (length args))"
    using getElementLength_pck [of ?es 2 off pre lim rest] pre pl by simp
  have un: "unat (of_nat (length args) :: u32) = length args" using small by simp
  have ne: "of_nat (length args) \<noteq> (- 1 :: u32)"
  proof
    assume "of_nat (length args) = (- 1 :: u32)"
    then have "unat (of_nat (length args) :: u32) = unat (- 1 :: u32)" by simp
    then show False using small un by (simp add: unsigned_minus_1_eq_mask mask_eq_exp_minus_1)
  qed
  have g2: "\<exists>r. getElementFromPckData ?m off (uninit e (length args)) 2 = Some (r, args)"
    using g [of 2 "uninit e (length args)"] by (cases args) (simp_all add: pck_at_def uninit_def)
  then obtain r where g2: "getElementFromPckData ?m off (uninit e (length args)) 2 = Some (r, args)" ..
  show ?thesis
    unfolding node_command_def Let_def
    by (simp only: g01 n un ne g2 bind.bind_lunit prod.case if_False ntohl_be32 update_device_eq option.case)
qed

text \<open>The effect of a command on the list of devices, when it is defined.\<close>

definition apply_command :: "int \<Rightarrow> u32 \<Rightarrow> u32 \<Rightarrow> byte list \<Rightarrow> devInfo \<Rightarrow> devInfo" where
  "apply_command now devtype opcode args d =
     (let d = d\<lparr>di_devType := devtype\<rparr> in
      if opcode = 0 \<and> ucast devtype = (2 :: byte) then
        updateDeviceStatus now (lock_beacon (args ! 0) (args ! 1) (args ! 2) (take (unat (args ! 2)) (drop 3 args)) d)
      else if opcode = 0 \<and> ucast devtype = (5 :: byte) then updateDeviceStatus now (d\<lparr>noiseLevel := args ! 0\<rparr>)
      else d)"

text \<open>The commands the server has a defined reaction to.\<close>

definition command_ok :: "u32 \<Rightarrow> u32 \<Rightarrow> byte list \<Rightarrow> bool" where
  "command_ok devtype opcode args \<longleftrightarrow> opcode \<in> {0, 1}
     \<and> (opcode = 0 \<and> ucast devtype = (2 :: byte) \<longrightarrow> 3 \<le> length args \<and> 3 + unat (args ! 2) \<le> length args \<and> args ! 2 \<le> 12)
     \<and> (opcode = 0 \<and> ucast devtype = (5 :: byte) \<longrightarrow> args \<noteq> [])"

lemma load_1: "i < length m \<Longrightarrow> load_bytes m i 1 = Some [m ! i]"
  by (simp add: load_bytes_def take_Suc_conv_app_nth Cons_nth_drop_Suc [symmetric])

lemma dispatch_command:
  assumes ok: "command_ok devtype opcode args" and i: "dev_index devs devid = Some i"
  shows "dispatch now (devs[i := (devs ! i)\<lparr>di_devType := devtype\<rparr>]) devtype opcode devid args
    = Some (devs[i := apply_command now devtype opcode args (devs ! i)])"
proof -
  let ?f = "\<lambda>d. d\<lparr>di_devType := devtype\<rparr>"
  have i': "dev_index (devs[i := ?f (devs ! i)]) devid = Some i" "i < length devs"
    using dev_index_update [of ?f devs i devid] dev_index_Some [OF i] i by simp_all
  show ?thesis
  proof (cases "opcode = 0")
    case True
    have twelve: "unat x \<le> 12" if "x \<le> 12" for x :: byte using that by (simp add: word_le_nat_alt)
    show ?thesis
    proof (cases "ucast devtype = (2 :: byte)")
      case ty: True
      then have len: "3 \<le> length args" "3 + unat (args ! 2) \<le> length args" "unat (args ! 2) \<le> 12"
        using ok True twelve by (simp_all add: command_ok_def)
      then have "args \<noteq> []" by auto
      then have ld: "load_bytes args 0 1 = Some [args ! 0]" "load_bytes args 1 1 = Some [args ! 1]"
        "load_bytes args 2 1 = Some [args ! 2]" "load_bytes args 3 (unat (args ! 2)) = Some (take (unat (args ! 2)) (drop 3 args))"
        using load_1 [of 0 args] load_1 [of 1 args] load_1 [of 2 args] len by (auto simp: load_bytes_def [of args 3])
      show ?thesis
        unfolding dispatch_def nodeToServerBeacon_def ld bind.bind_lunit
        using i' len ld(4) by (simp add: ty True update_device_eq apply_command_def server_consts)
    next
      case ty: False
      then show ?thesis
        using ok True i' by (auto simp: command_ok_def dispatch_def nodeToServerBeacon_def update_device_eq
            apply_command_def load_1 [unfolded One_nat_def] server_consts)
    qed
  next
    case False
    then show ?thesis
      using ok by (auto simp: command_ok_def dispatch_def nodeToServerMessage_def apply_command_def server_consts)
  qed
qed

section \<open>What the queue loop sends\<close>

text \<open>
  The commands the loop sends for a device and the requests it leaves: the request after a
  removed one is skipped.
\<close>

fun drain :: "byte list \<Rightarrow> commandRequest_t list \<Rightarrow> commandRequestCommand_t list \<times> commandRequest_t list" where
  "drain devid [] = ([], [])"
| "drain devid [r] = (if cr_devId r = devid then (commandRequestsCommands r, []) else ([], [r]))"
| "drain devid (r # x # q) =
     (if cr_devId r = devid
      then (commandRequestsCommands r @ fst (drain devid q), x # snd (drain devid q))
      else (fst (drain devid (x # q)), r # snd (drain devid (x # q))))"

lemma send_commands_append:
  "send_commands e (xs @ ys) c devid s = do { (c, s) \<leftarrow> send_commands e xs c devid s; send_commands e ys c devid s }"
  by (induction xs arbitrary: c s) (auto split: Option.bind_split)

lemma sl_get_append: "sl_get (pre @ r # q) (int (length pre)) = Some r"
  by (simp add: sl_get_def sl_length_def)

lemma sl_delete_append: "snd (sl_delete (pre @ r # q) (int (length pre))) = pre @ q"
  by (simp add: sl_delete_def sl_length_def)

lemma send_queue_loop_drain:
  "send_queue_loop e devid (pre @ q) (int (length pre)) c s = do {
     (c, s) \<leftarrow> send_commands e (fst (drain devid q)) c devid s;
     Some (pre @ snd (drain devid q), c, s)
   }"
proof (induction devid q arbitrary: pre c s rule: drain.induct)
  case (1 devid)
  then show ?case by (subst send_queue_loop.simps) (simp add: sl_length_def)
next
  case (2 devid r)
  have e: "send_queue_loop e devid xs (1 + int (length xs)) c s = Some (xs, c, s)"
    "send_queue_loop e devid (xs @ [y]) (1 + int (length xs)) c s = Some (xs @ [y], c, s)" for xs y c s
    by (subst send_queue_loop.simps, simp add: sl_length_def)+
  show ?case
    by (subst send_queue_loop.simps)
      (auto simp: sl_get_append sl_delete_append sl_length_def add.commute e split: Option.bind_split)
next
  case (3 devid r x q)
  show ?case
  proof (cases "cr_devId r = devid")
    case True
    have i: "send_queue_loop e devid (pre @ x # q) (1 + int (length pre)) c s = do {
        (c, s) \<leftarrow> send_commands e (fst (drain devid q)) c devid s; Some (pre @ x # snd (drain devid q), c, s) }" for c s
      using "3.IH"(1) [OF True, of "pre @ [x]" c s] by (simp add: add.commute) (auto split: Option.bind_split)
    show ?thesis
      using True by (subst send_queue_loop.simps)
        (auto simp: sl_get_append sl_delete_append sl_length_def add.commute send_commands_append i split: Option.bind_split)
  next
    case False
    have i: "send_queue_loop e devid (pre @ r # x # q) (1 + int (length pre)) c s = do {
        (c, s) \<leftarrow> send_commands e (fst (drain devid (x # q))) c devid s; Some (pre @ r # snd (drain devid (x # q)), c, s) }"
      using "3.IH"(3) [OF False, of "pre @ [r]" c s] by (simp add: add.commute) (auto split: Option.bind_split)
    show ?thesis
      using False by (subst send_queue_loop.simps) (simp add: sl_get_append sl_length_def add.commute i)
  qed
qed

lemma sendQueuedMessages_drain:
  "sendQueuedMessages e c devid s = do {
     (c', s') \<leftarrow> send_commands e (fst (drain devid (commandsQueue s))) c devid s;
     Some (c', s'\<lparr>commandsQueue := snd (drain devid (commandsQueue s))\<rparr>)
   }"
  using send_queue_loop_drain [of e devid "[]" "commandsQueue s" c s]
  by (auto simp: sendQueuedMessages_def split: Option.bind_split)

lemma drain_none: "\<forall>r\<in>set q. cr_devId r \<noteq> devid \<Longrightarrow> drain devid q = ([], q)"
  by (induction devid q rule: drain.induct) auto

lemma drain_append:
  "\<forall>r\<in>set p. cr_devId r \<noteq> devid \<Longrightarrow> drain devid (p @ q) = (fst (drain devid q), p @ snd (drain devid q))"
proof (induction p)
  case (Cons r p)
  then show ?case by (cases "p @ q") auto
qed simp

text \<open>
  The commands queued for a device, and the queues where no request of the device stands right behind
  another: only there all of them are sent.
\<close>

definition commands_for :: "byte list \<Rightarrow> commandRequest_t list \<Rightarrow> commandRequestCommand_t list" where
  "commands_for devid q = concat (map commandRequestsCommands (filter (\<lambda>r. cr_devId r = devid) q))"

fun spaced :: "byte list \<Rightarrow> commandRequest_t list \<Rightarrow> bool" where
  "spaced devid (r # x # q) \<longleftrightarrow> \<not> (cr_devId r = devid \<and> cr_devId x = devid) \<and> spaced devid (x # q)"
| "spaced devid _ \<longleftrightarrow> True"

lemma spaced_tl: "spaced devid (x # q) \<Longrightarrow> spaced devid q"
  by (cases q) auto

lemma drain_spaced:
  "spaced devid q \<Longrightarrow> drain devid q = (commands_for devid q, filter (\<lambda>r. cr_devId r \<noteq> devid) q)"
  by (induction devid q rule: drain.induct) (auto simp: commands_for_def dest: spaced_tl)

section \<open>Sending a command\<close>

definition command_elems :: "commandRequestCommand_t \<Rightarrow> byte list list" where
  "command_elems cmd = bytes_of_u32 (opCode cmd) # (case argsPtr cmd of None \<Rightarrow> [] | Some a \<Rightarrow> [a])"

text \<open>The containers a command travels in; what lies behind the elements in their blocks is arbitrary.\<close>

definition carries :: "commandRequestCommand_t \<Rightarrow> pck_arg \<Rightarrow> pck_arg \<Rightarrow> bool" where
  "carries cmd p a \<longleftrightarrow> (\<exists>junk. p = Some (255, command_elems cmd, junk))
     \<and> (case addPtr cmd of None \<Rightarrow> a = None | Some d \<Rightarrow> \<exists>junk. a = Some (255, [d], junk))"

text \<open>
  A command whose lengths agree with its memory, that fits a container, and whose packet the
  system sends completely from a buffer of \<open>n\<close> bytes.
\<close>

definition command_ready :: "nat \<Rightarrow> send_env \<Rightarrow> commandRequestCommand_t \<Rightarrow> bool" where
  "command_ready n env cmd \<longleftrightarrow>
     (\<forall>a. argsPtr cmd = Some a \<longrightarrow> argsLen cmd = of_nat (length a))
     \<and> (\<forall>d. addPtr cmd = Some d \<longrightarrow> ucast (addLen cmd) = (of_nat (length d) :: u32) \<and> pck_len [d] \<le> 255)
     \<and> pck_len (command_elems cmd) \<le> 255
     \<and> (\<forall>p a. carries cmd p a \<longrightarrow> can_send env p a (replicate n 0))"

lemma can_send_cong: "length b = length b' \<Longrightarrow> can_send env p a b = can_send env p a b'"
  by (simp add: can_send_def)

lemma command_items_exact:
  "(\<forall>a. argsPtr cmd = Some a \<longrightarrow> argsLen cmd = of_nat (length a)) \<Longrightarrow>
     command_items cmd = map (\<lambda>x. (x, of_nat (length x))) (command_elems cmd)"
  by (auto simp: command_items_def command_elems_def split: option.splits)

lemma new_pck_arg:
  assumes "malloc a 255 \<noteq> None" "pck_len es \<le> 255"
  shows "\<exists>junk. new_pck a (map (\<lambda>x. (x, of_nat (length x))) es) = opt_host (Some (255, es, junk))"
  using new_pck_holds [OF assms] pck_holds_arg by metis

lemma sendOffCommand_sends:
  assumes ready: "command_ready (length (sendProcessingBuffer s)) env cmd" and env: "w_envs (sv_wire s) = env # envs"
    and d: "from_device s devid d" and key: "gcm_keyed (key_ctx e (di_key d))" and sess: "sessionId c \<noteq> 0"
    and mem: "malloc (sys_alloc e) 255 \<noteq> None"
  shows "\<exists>p a t x k buf. sendOffCommand e cmd c devid s
      = Some (c\<lparr>sendSessionIncrements := sendSessionIncrements c + 1\<rparr>,
              s\<lparr>gcmCtx := k, sendProcessingBuffer := buf, sv_wire := emit (sv_wire s) envs (ci_socket c) x\<rparr>)
    \<and> carries cmd p a \<and> packet_ok p a None (se_iv env)
    \<and> sealed (key_ctx e (di_key d)) (se_iv env) a (htonl (sessionId c + (sendSessionIncrements c + 1))) (gSettings cmd) p t x
    \<and> length buf = length (sendProcessingBuffer s)"
proof -
  have r: "\<forall>a. argsPtr cmd = Some a \<longrightarrow> argsLen cmd = of_nat (length a)" "pck_len (command_elems cmd) \<le> 255"
    "\<forall>d. addPtr cmd = Some d \<longrightarrow> ucast (addLen cmd) = (of_nat (length d) :: u32) \<and> pck_len [d] \<le> 255"
    using ready by (simp_all add: command_ready_def)
  obtain junk where pck: "new_pck (sys_alloc e) (command_items cmd) = opt_host (Some (255, command_elems cmd, junk))"
    using new_pck_arg [OF mem r(2)] unfolding command_items_exact [OF r(1)] by blast
  obtain a where a: "(case addPtr cmd of None \<Rightarrow> Some None
      | Some d \<Rightarrow> map_option Some (new_pck (sys_alloc e) [(d, ucast (addLen cmd))])) = Some (opt_host a)"
    "carries cmd (Some (255, command_elems cmd, junk)) a"
  proof (cases "addPtr cmd")
    case None
    then show thesis using that [of None] by (simp add: carries_def)
  next
    case (Some dd)
    then obtain j where "new_pck (sys_alloc e) [(dd, ucast (addLen cmd))] = opt_host (Some (255, [dd], j))"
      using new_pck_arg [OF mem, of "[dd]"] r(3) by auto
    then show thesis using Some that [of "Some (255, [dd], j)"] by (simp add: carries_def opt_host_def)
  qed
  let ?p = "Some (255, command_elems cmd, junk)"
  have can: "can_send env ?p a (sendProcessingBuffer s)"
    using ready a(2) can_send_cong [of "sendProcessingBuffer s" "replicate (length (sendProcessingBuffer s)) 0" env ?p a]
    by (simp add: command_ready_def)
  obtain pm where pm: "opt_host ?p = Some pm" by (simp add: opt_host_def)
  have k: "findEncryptionKey (devInfos s) devid = Some (Some (di_key d))"
    using from_device_find [OF d] findEncryptionKey_eq by fastforce
  obtain k' t buf x where sent: "send_packet (sv_wire s) (ci_socket c) (Some c) (Some (key_ctx e (di_key d))) (opt_host ?p) (opt_host a)
      None (gSettings cmd) (sendProcessingBuffer s)
      = Some (0, Some (c\<lparr>sendSessionIncrements := sendSessionIncrements c + 1\<rparr>), Some k', buf, emit (sv_wire s) envs (ci_socket c) x)"
    "sealed (key_ctx e (di_key d)) (se_iv env) a (htonl (sessionId c + (sendSessionIncrements c + 1))) (gSettings cmd) ?p t x"
    "length buf = length (sendProcessingBuffer s)"
    using session_sends [OF sess key env can, of "ci_socket c" "gSettings cmd"] by blast
  have "packet_ok ?p a None (se_iv env)" using can by (simp add: can_send_def)
  then show ?thesis
    using sent a(2) pck pm by (intro exI [of _ ?p] exI [of _ a] exI [of _ t] exI [of _ x] exI [of _ k'] exI [of _ buf])
      (simp add: sendOffCommand_def a(1) k)
qed

text \<open>
  The packets of a sequence of commands: each sealed with the same key, under the session id
  plus a counter that goes up by one.
\<close>

fun sent_in_session ::
    "gcm_context \<Rightarrow> connInfo_t \<Rightarrow> commandRequestCommand_t list \<Rightarrow> (int \<times> byte list) list \<Rightarrow> bool" where
  "sent_in_session k c [] ps = (ps = [])"
| "sent_in_session k c (cmd # cmds) ps = (\<exists>iv t x p a qs. ps = (ci_socket c, x) # qs \<and> carries cmd p a
     \<and> packet_ok p a None iv
     \<and> sealed k iv a (htonl (sessionId c + (sendSessionIncrements c + 1))) (gSettings cmd) p t x
     \<and> sent_in_session k (c\<lparr>sendSessionIncrements := sendSessionIncrements c + 1\<rparr>) cmds qs)"

lemma sealed_nonempty:
  assumes "gcm_keyed k" "packet_ok p a None iv" "sealed k iv a nonce gs p t x"
  shows "x \<noteq> []"
  using sealed_shape [OF assms] by (fastforce simp: packet_size_def)

lemma send_commands_sends:
  assumes "list_all2 (command_ready (length (sendProcessingBuffer s))) envs cmds" "w_envs (sv_wire s) = envs @ rest"
    "from_device s devid d" "gcm_keyed (key_ctx e (di_key d))" "sessionId c \<noteq> 0" "malloc (sys_alloc e) 255 \<noteq> None"
  shows "\<exists>ps k buf. send_commands e cmds c devid s
      = Some (c\<lparr>sendSessionIncrements := sendSessionIncrements c + of_nat (length cmds)\<rparr>,
              s\<lparr>gcmCtx := k, sendProcessingBuffer := buf, sv_wire := \<lparr>w_envs = rest, w_sent = w_sent (sv_wire s) @ ps\<rparr>\<rparr>)
    \<and> sent_in_session (key_ctx e (di_key d)) c cmds ps"
  using assms
proof (induction cmds arbitrary: c s envs rule: list.induct)
  case Nil
  have "envs = []" using Nil.prems(1) by simp
  then have "sv_wire s = \<lparr>w_envs = rest, w_sent = w_sent (sv_wire s) @ []\<rparr>"
    using Nil.prems(2) by (cases "sv_wire s") simp
  then show ?case
    by (intro exI [of _ "[]"] exI [of _ "gcmCtx s"] exI [of _ "sendProcessingBuffer s"]) simp
next
  case (Cons cmd cmds)
  then obtain env es where env: "envs = env # es" "command_ready (length (sendProcessingBuffer s)) env cmd"
    "list_all2 (command_ready (length (sendProcessingBuffer s))) es cmds" by (auto simp: list_all2_Cons2)
  have we: "w_envs (sv_wire s) = env # (es @ rest)" using Cons.prems(2) env(1) by simp
  obtain p a t x k buf where one: "sendOffCommand e cmd c devid s
      = Some (c\<lparr>sendSessionIncrements := sendSessionIncrements c + 1\<rparr>,
              s\<lparr>gcmCtx := k, sendProcessingBuffer := buf, sv_wire := emit (sv_wire s) (es @ rest) (ci_socket c) x\<rparr>)"
    "carries cmd p a" "packet_ok p a None (se_iv env)"
    "sealed (key_ctx e (di_key d)) (se_iv env) a (htonl (sessionId c + (sendSessionIncrements c + 1))) (gSettings cmd) p t x"
    "length buf = length (sendProcessingBuffer s)"
    using sendOffCommand_sends [OF env(2) we Cons.prems(3-6)] by blast
  let ?c = "c\<lparr>sendSessionIncrements := sendSessionIncrements c + 1\<rparr>"
  let ?s = "s\<lparr>gcmCtx := k, sendProcessingBuffer := buf, sv_wire := emit (sv_wire s) (es @ rest) (ci_socket c) x\<rparr>"
  obtain ps k' buf' where more: "send_commands e cmds ?c devid ?s
      = Some (?c\<lparr>sendSessionIncrements := sendSessionIncrements ?c + of_nat (length cmds)\<rparr>,
              ?s\<lparr>gcmCtx := k', sendProcessingBuffer := buf', sv_wire := \<lparr>w_envs = rest, w_sent = w_sent (sv_wire ?s) @ ps\<rparr>\<rparr>)"
    "sent_in_session (key_ctx e (di_key d)) ?c cmds ps"
  proof -
    have "from_device ?s devid d" using Cons.prems(3) by (simp add: from_device_def)
    then show thesis
      using Cons.IH [of ?s es ?c] that env(3) one(5) Cons.prems(4-6) by (auto simp: emit_def)
  qed
  have ne: "x \<noteq> []" using sealed_nonempty [OF Cons.prems(4) one(3,4)] .
  have "send_commands e (cmd # cmds) c devid s
      = Some (c\<lparr>sendSessionIncrements := sendSessionIncrements c + of_nat (length (cmd # cmds))\<rparr>,
              s\<lparr>gcmCtx := k', sendProcessingBuffer := buf',
                sv_wire := \<lparr>w_envs = rest, w_sent = w_sent (sv_wire s) @ (ci_socket c, x) # ps\<rparr>\<rparr>)"
    using one(1) more(1) ne by (simp add: emit_def add.assoc)
  then show ?case using one(2-4) more(2) by (simp only: sent_in_session.simps) blast
qed

section \<open>The first message of a session\<close>

text \<open>The server's answer to a node's nonce, its own nonce in an empty packet, and then the queue.\<close>

lemma establish_session_sends:
  assumes conn: "sessionId c = 0" "localNonce c = 0" and nonce: "load32 m encOff = Some nonce"
    and key: "gcm_keyed (gcmCtx s)" "gcm_keyed (key_ctx e (di_key d))" and d: "from_device s devid d"
    and env: "w_envs (sv_wire s) = env # envs @ rest" "can_send env None None (sendProcessingBuffer s)"
      "list_all2 (command_ready (length (sendProcessingBuffer s))) envs (fst (drain devid (commandsQueue s)))"
    and mem: "malloc (sys_alloc e) 255 \<noteq> None" and sess: "nonce + htonl (fresh_nonce env) \<noteq> 0"
  defines "c1 \<equiv> c\<lparr>remoteNonce := nonce, localNonce := htonl (fresh_nonce env), sessionId := nonce + htonl (fresh_nonce env)\<rparr>"
  shows "\<exists>t x ps k buf. establish_session e c devid m encOff s
      = Some (c1\<lparr>sendSessionIncrements := sendSessionIncrements c + of_nat (length (fst (drain devid (commandsQueue s))))\<rparr>,
          s\<lparr>gcmCtx := k, sendProcessingBuffer := buf, commandsQueue := snd (drain devid (commandsQueue s)),
            sv_wire := \<lparr>w_envs = rest, w_sent = w_sent (sv_wire s) @ (ci_socket c, x) # ps\<rparr>\<rparr>)
    \<and> sealed (gcmCtx s) (se_iv env) None (htonl (fresh_nonce env)) 0 None t x
    \<and> sent_in_session (key_ctx e (di_key d)) c1 (fst (drain devid (commandsQueue s))) ps"
proof -
  let ?cmds = "fst (drain devid (commandsQueue s))"
  obtain k ct t st where r: "server_establish env (gcmCtx s) nonce c (sendProcessingBuffer s)
      = Some (c1, packet_bytes (se_iv env) t [] [] ct, st)"
    "encryptGcm (gcmCtx s) (plain_part (htonl (fresh_nonce env)) 0 []) (se_iv env) (be32 0) 16 0 = (0, k, ct, t)"
    "ss_ctx st = Some k" "length (ss_buf st) = length (sendProcessingBuffer s)"
    using server_reply [OF conn key(1) env(2), of nonce] unfolding c1_def by blast
  let ?x = "packet_bytes (se_iv env) t [] [] ct"
  have x: "sealed (gcmCtx s) (se_iv env) None (htonl (fresh_nonce env)) 0 None t ?x"
    using r(2) by (simp add: sealed_def)
  have ne: "?x \<noteq> []"
    using sealed_nonempty [OF key(1) _ x] env(2) by (simp add: can_send_def)
  let ?s = "s\<lparr>gcmCtx := k, sendProcessingBuffer := ss_buf st,
    sv_wire := \<lparr>w_envs = envs @ rest, w_sent = w_sent (sv_wire s) @ [(ci_socket c, ?x)]\<rparr>\<rparr>"
  have q: "establish_session e c devid m encOff s = sendQueuedMessages e c1 devid ?s"
    using ne by (simp add: establish_session_def nonce env(1) r(1,3) emit_eq c1_def)
  have "from_device ?s devid d" using d by (simp add: from_device_def)
  moreover have "sessionId c1 \<noteq> 0" using sess by (simp add: c1_def)
  ultimately obtain ps k' buf where "send_commands e ?cmds c1 devid ?s
      = Some (c1\<lparr>sendSessionIncrements := sendSessionIncrements c1 + of_nat (length ?cmds)\<rparr>,
          ?s\<lparr>gcmCtx := k', sendProcessingBuffer := buf, sv_wire := \<lparr>w_envs = rest, w_sent = w_sent (sv_wire ?s) @ ps\<rparr>\<rparr>)"
      "sent_in_session (key_ctx e (di_key d)) c1 ?cmds ps"
    using send_commands_sends [of ?s envs ?cmds rest devid d e c1] env(3) key(2) mem r(4) by auto
  then show ?thesis
    unfolding q sendQueuedMessages_drain
    by (intro exI [of _ t] exI [of _ ?x] exI [of _ ps] exI [of _ k'] exI [of _ buf]) (simp add: x c1_def)
qed

lemma first_message_flushes:
  assumes key: "gcm_keyed k" "same_key k (key_ctx e (di_key d))" and ok: "packet_ok p a None iv"
    and seal: "sealed k iv a nonce gs p t w" and a: "a = node_add lim devid ids junk" "node_add_ok devid ids"
    and c: "connectionType c = 0" "sessionId c = 0" "localNonce c = 0" "remoteNonce c = 0"
    and d: "from_device s devid d" and room: "8 + length (opt_net p) \<le> length (decryptedMsgBuffer s)"
    and msg: "MAXMSGLEN \<le> length (w @ junk2)"
    and env: "w_envs (sv_wire s) = env # envs @ rest" "can_send env None None (sendProcessingBuffer s)"
      "list_all2 (command_ready (length (sendProcessingBuffer s))) envs (fst (drain devid (commandsQueue s)))"
    and mem: "malloc (sys_alloc e) 255 \<noteq> None" and sess: "nonce + htonl (fresh_nonce env) \<noteq> 0"
  shows "\<exists>c1 c' m s' l tag x ps. processMsg e c (w @ junk2) s = Some (None, c', m, s')
    \<and> c1 = c\<lparr>remoteNonce := nonce, localNonce := htonl (fresh_nonce env), sessionId := nonce + htonl (fresh_nonce env)\<rparr>
    \<and> c' = c1\<lparr>sendSessionIncrements := sendSessionIncrements c + of_nat (length (fst (drain devid (commandsQueue s))))\<rparr>
    \<and> w_sent (sv_wire s') = w_sent (sv_wire s) @ (ci_socket c, x) # ps
    \<and> same_key k l \<and> sealed l (se_iv env) None (htonl (fresh_nonce env)) 0 None tag x
    \<and> sent_in_session (key_ctx e (di_key d)) c1 (fst (drain devid (commandsQueue s))) ps
    \<and> commandsQueue s' = snd (drain devid (commandsQueue s)) \<and> devInfos s' = devInfos s
    \<and> length m = length (w @ junk2) \<and> length (decryptedMsgBuffer s') = length (decryptedMsgBuffer s) \<and> sv_time s' = sv_time s"
proof -
  obtain l out where l: "same_key k l" "length out = length (decryptedMsgBuffer s)" and
    pm: "processMsg e c (w @ junk2) s = do {
      (c, s) \<leftarrow> decrypted_message e c devid (host_packet iv t a nonce gs p @ junk2) (44 + length (opt_net a))
                (s\<lparr>gcmCtx := l, decryptedMsgBuffer := out\<rparr>);
      m \<leftarrow> store_bytes (host_packet iv t a nonce gs p @ junk2) 0 (replicate MAXMSGLEN 0);
      Some (None, c, m, s)
    }"
    using processMsg_sealed [OF key ok seal a c(1) d room] by blast
  have iv: "length iv = 12" "length t = 16" using sealed_shape [OF key(1) ok seal] ok by (auto simp: packet_ok_def)
  let ?s = "s\<lparr>gcmCtx := l, decryptedMsgBuffer := out\<rparr>"
  have kd: "gcm_keyed (key_ctx e (di_key d))" "gcm_keyed (gcmCtx ?s)"
    using gcm.same_keyed [OF key] gcm.same_keyed [OF key(1) l(1)] by simp_all
  have ds: "from_device ?s devid d" using d by (simp add: from_device_def)
  obtain tag x ps k2 buf where es: "establish_session e c devid (host_packet iv t a nonce gs p @ junk2) (44 + length (opt_net a)) ?s
      = Some (c\<lparr>remoteNonce := nonce, localNonce := htonl (fresh_nonce env), sessionId := nonce + htonl (fresh_nonce env),
                sendSessionIncrements := sendSessionIncrements c + of_nat (length (fst (drain devid (commandsQueue s))))\<rparr>,
          ?s\<lparr>gcmCtx := k2, sendProcessingBuffer := buf, commandsQueue := snd (drain devid (commandsQueue s)),
            sv_wire := \<lparr>w_envs = rest, w_sent = w_sent (sv_wire s) @ (ci_socket c, x) # ps\<rparr>\<rparr>)"
    "sealed l (se_iv env) None (htonl (fresh_nonce env)) 0 None tag x"
    "sent_in_session (key_ctx e (di_key d)) (c\<lparr>remoteNonce := nonce, localNonce := htonl (fresh_nonce env),
        sessionId := nonce + htonl (fresh_nonce env)\<rparr>) (fst (drain devid (commandsQueue s))) ps"
    using establish_session_sends [OF c(2,3) host_packet_nonce [OF iv, of a nonce gs p junk2] kd(2,1) ds,
        where env = env and envs = envs and rest = rest] env mem sess by auto
  have lw: "length w = packet_size p a None" using sealed_shape [OF key(1) ok seal] by metis
  then obtain m where m: "store_bytes (host_packet iv t a nonce gs p @ junk2) 0 (replicate MAXMSGLEN 0) = Some m"
    using msg iv by (simp add: store_bytes_def)
  have "length m = length (w @ junk2)" using store_bytes_length [OF m] lw iv by simp
  then show ?thesis
    using pm m es l c(3,4) by (simp add: decrypted_message_def) blast
qed

section \<open>A small server\<close>

text \<open>One smart lock is known; the cipher layer is the one of \<open>GcmField\<close>.\<close>

definition demo_dev :: devInfo where
  "demo_dev = (stack_devInfo demo_sys)\<lparr>di_devId := demo_id, di_key := demo_key\<rparr>"

definition demo_cmd :: commandRequestCommand_t where
  "demo_cmd = \<lparr>opCode = 129, isReservedOpCode = 0, argsPtr = Some [1, 2, 3, 4], argsLen = 4, addPtr = None,
     addLen = 0, gSettings = 0\<rparr>"

definition demo_server :: "send_env list \<Rightarrow> server" where
  "demo_server envs = \<lparr>devInfos = [demo_dev], commandsQueue = [\<lparr>cr_devId = demo_id, commandRequestsCommands = [demo_cmd]\<rparr>],
     decryptedMsgBuffer = replicate 255 0, sendProcessingBuffer = replicate 255 0, gcmCtx = mbedtls_gcm_init None,
     sv_wire = \<lparr>w_envs = envs, w_sent = []\<rparr>, sv_saved = [], sv_time = 1000\<rparr>"

lemma demo_key_ctx: "key_ctx demo_sys (di_key demo_dev) = demo_ctx"
  by (simp add: key_ctx_def demo_sys_def demo_dev_def demo_ctx_def server_consts)

lemma demo_from_device: "from_device (demo_server envs) demo_id demo_dev" "dev_index (devInfos (demo_server envs)) demo_id = Some 0"
  by (simp_all add: from_device_def dev_index_def demo_server_def demo_dev_def)

definition demo_node_add :: pck_arg where
  "demo_node_add = node_add 255 demo_id [] []"

lemma demo_node_add_ok: "node_add_ok demo_id []" "length (opt_net demo_node_add) = 28" "nonempty_arg demo_node_add"
  by (simp_all add: node_add_ok_def demo_id_def demo_node_add_def node_add_def opt_net_def nonempty_arg_def pck_len_def)

lemma demo_ready: "command_ready 255 (demo_env 76) demo_cmd"
  by (auto simp: command_ready_def demo_cmd_def command_elems_def carries_def can_send_def packet_ok_def nonempty_arg_def
      opt_net_def packet_size_def pck_len_def demo_env_def)

lemma demo_session: "3 + htonl (fresh_nonce (demo_env 52)) \<noteq> 0"
  by code_simp

lemma demo_drain: "drain demo_id (commandsQueue (demo_server envs)) = ([demo_cmd], [])"
  by (simp add: demo_server_def)

definition demo_beacon :: "u32 \<Rightarrow> pck_arg" where
  "demo_beacon opcode = command_pck 255 2 opcode [1, 0, 4, 1, 2, 3, 4] []"

lemma demo_beacon_ok: "packet_ok (demo_beacon opcode) demo_node_add None (replicate 12 5)"
  "8 + length (opt_net (demo_beacon opcode)) \<le> length (decryptedMsgBuffer (demo_server envs))"
  "same_key demo_ctx (key_ctx demo_sys (di_key demo_dev))"
  by (simp_all add: packet_ok_def demo_node_add_ok demo_server_def demo_key_ctx gcm.same_refl)
    (simp_all add: nonempty_arg_def demo_beacon_def command_pck_def opt_net_def pck_len_def)

lemma demo_device: "dev_index (devInfos (demo_server envs)) demo_id = Some 0" "demo_dev = devInfos (demo_server envs) ! 0"
  by (simp_all add: demo_from_device) (simp add: demo_server_def)

section \<open>Properties\<close>

text \<open>
  C20. The first message of a known device, sealed with its key, opens the session and works off the
  queue: the connection gets the sum of the nonces as its session id; the server sends its nonce in an
  empty packet, then the commands its loop over the queue takes for the device, each sealed with the
  device's key under the next number of the session, and removes their requests from the queue. Where no
  request of the device stands right behind another of it, these are all of the device's commands, in the
  order of the queue, and the requests of the other devices are left; a request right behind a removed
  one is skipped and stays. The devices stay as they are.
\<close>

theorem first_message_flushes_queue:
  assumes key: "gcm_keyed k" "same_key k (key_ctx e (di_key d))" and ok: "packet_ok p a None iv"
    and seal: "sealed k iv a nonce gs p t w" and a: "a = node_add lim devid ids junk" "node_add_ok devid ids"
    and c: "connectionType c = 0" "sessionId c = 0" "localNonce c = 0" "remoteNonce c = 0"
    and d: "from_device s devid d" and room: "8 + length (opt_net p) \<le> length (decryptedMsgBuffer s)"
    and msg: "MAXMSGLEN \<le> length (w @ junk2)"
    and env: "w_envs (sv_wire s) = env # envs @ rest" "can_send env None None (sendProcessingBuffer s)"
      "list_all2 (command_ready (length (sendProcessingBuffer s))) envs (fst (drain devid (commandsQueue s)))"
    and mem: "malloc (sys_alloc e) 255 \<noteq> None" and sess: "nonce + htonl (fresh_nonce env) \<noteq> 0"
  shows "\<exists>c1 c' m s' l tag x ps. processMsg e c (w @ junk2) s = Some (None, c', m, s')
    \<and> c1 = c\<lparr>remoteNonce := nonce, localNonce := htonl (fresh_nonce env), sessionId := nonce + htonl (fresh_nonce env)\<rparr>
    \<and> c' = c1\<lparr>sendSessionIncrements := sendSessionIncrements c + of_nat (length (fst (drain devid (commandsQueue s))))\<rparr>
    \<and> w_sent (sv_wire s') = w_sent (sv_wire s) @ (ci_socket c, x) # ps
    \<and> same_key k l \<and> sealed l (se_iv env) None (htonl (fresh_nonce env)) 0 None tag x
    \<and> sent_in_session (key_ctx e (di_key d)) c1 (fst (drain devid (commandsQueue s))) ps
    \<and> commandsQueue s' = snd (drain devid (commandsQueue s)) \<and> devInfos s' = devInfos s
    \<and> (spaced devid (commandsQueue s) \<longrightarrow> fst (drain devid (commandsQueue s)) = commands_for devid (commandsQueue s)
        \<and> commandsQueue s' = filter (\<lambda>r. cr_devId r \<noteq> devid) (commandsQueue s))"
  using first_message_flushes [OF assms] drain_spaced [of devid "commandsQueue s"]
  by (elim exE conjE) (intro exI conjI, assumption+, simp)

theorem first_message_flushes_queue_witness:
  "\<exists>w c' m s' x ps. processMsg demo_sys (fresh_conn 4 0) (w @ replicate 255 0) (demo_server [demo_env 52, demo_env 76])
      = Some (None, c', m, s')
    \<and> sessionId c' = 3 + htonl 77 \<and> w_sent (sv_wire s') = (4, x) # ps
    \<and> sent_in_session demo_ctx ((fresh_conn 4 0)\<lparr>remoteNonce := 3, localNonce := htonl 77, sessionId := 3 + htonl 77\<rparr>)
        (commands_for demo_id (commandsQueue (demo_server []))) ps
    \<and> commands_for demo_id (commandsQueue (demo_server [])) = [demo_cmd] \<and> commandsQueue s' = []"
proof -
  let ?s = "demo_server [demo_env 52, demo_env 76]"
  have q: "commandsQueue ?s = commandsQueue (demo_server [])" "spaced demo_id (commandsQueue ?s)"
    "commands_for demo_id (commandsQueue (demo_server [])) = [demo_cmd]"
    by (simp_all add: demo_server_def commands_for_def)
  have ok: "packet_ok None demo_node_add None (replicate 12 5)"
    by (simp add: packet_ok_def nonempty_arg_def demo_node_add_ok)
      (simp add: demo_node_add_def node_add_def)
  obtain t w where seal: "sealed demo_ctx (replicate 12 5) demo_node_add 3 0 None t w"
    using demo_sealed [OF ok] by metis
  have same: "same_key demo_ctx (key_ctx demo_sys (di_key demo_dev))" by (simp add: demo_key_ctx gcm.same_refl)
  have conn: "connectionType (fresh_conn 4 0) = 0" "sessionId (fresh_conn 4 0) = 0" "localNonce (fresh_conn 4 0) = 0"
    "remoteNonce (fresh_conn 4 0) = 0" "ci_socket (fresh_conn 4 0) = 4" "sendSessionIncrements (fresh_conn 4 0) = 0"
    by (simp_all add: fresh_conn_def)
  have sv: "decryptedMsgBuffer ?s = replicate 255 0" "sendProcessingBuffer ?s = replicate 255 0"
    "w_envs (sv_wire ?s) = demo_env 52 # [demo_env 76] @ []" "w_sent (sv_wire ?s) = []"
    by (simp_all add: demo_server_def)
  have n: "fresh_nonce (demo_env 52) = 77" by (simp add: fresh_nonce_def demo_env_def)
  have hyps: "8 + length (opt_net None) \<le> length (decryptedMsgBuffer ?s)" "MAXMSGLEN \<le> length (w @ replicate 255 0)"
    "can_send (demo_env 52) None None (sendProcessingBuffer ?s)"
    "list_all2 (command_ready (length (sendProcessingBuffer ?s))) [demo_env 76] (fst (drain demo_id (commandsQueue ?s)))"
    "malloc (sys_alloc demo_sys) 255 \<noteq> None"
    by (simp_all add: sv demo_can_send demo_drain demo_ready MAXMSGLEN_def demo_sys_def)
  from first_message_flushes_queue [OF demo_keyed same ok seal demo_node_add_def demo_node_add_ok(1) conn(1-4)
      demo_from_device(1) hyps(1,2) sv(3) hyps(3,4,5) demo_session]
  obtain c1 c' m s' l tag x ps where r:
    "processMsg demo_sys (fresh_conn 4 0) (w @ replicate 255 0) ?s = Some (None, c', m, s')"
    "c1 = (fresh_conn 4 0)\<lparr>remoteNonce := 3, localNonce := htonl (fresh_nonce (demo_env 52)),
        sessionId := 3 + htonl (fresh_nonce (demo_env 52))\<rparr>"
    "sessionId c' = sessionId c1" "w_sent (sv_wire s') = w_sent (sv_wire ?s) @ (ci_socket (fresh_conn 4 0), x) # ps"
    "sent_in_session (key_ctx demo_sys (di_key demo_dev)) c1 (fst (drain demo_id (commandsQueue ?s))) ps"
    "commandsQueue s' = filter (\<lambda>r. cr_devId r \<noteq> demo_id) (commandsQueue ?s)"
    "fst (drain demo_id (commandsQueue ?s)) = commands_for demo_id (commandsQueue ?s)"
    using q(2) by auto
  moreover have "filter (\<lambda>r. cr_devId r \<noteq> demo_id) (commandsQueue ?s) = []" by (simp add: demo_server_def)
  ultimately show ?thesis
    by (intro exI [of _ w] exI [of _ c'] exI [of _ m] exI [of _ s'] exI [of _ x] exI [of _ ps])
      (simp del: sent_in_session.simps add: n q demo_key_ctx conn sv)
qed

text \<open>A command of an established session, up to the table of commands.\<close>

lemma processMsg_command:
  assumes key: "gcm_keyed k" "same_key k (key_ctx e (di_key d))" and ok: "packet_ok p a None iv"
    and p: "p = command_pck lim devtype opcode args pjunk"
    and seal: "sealed k iv a nonce gs p t w" and a: "a = node_add alim devid ids junk" "node_add_ok devid ids"
    and c: "connectionType c = 0" "sessionId c \<noteq> 0" "localNonce c \<noteq> 0" "remoteNonce c \<noteq> 0"
    and i: "dev_index (devInfos s) devid = Some i" "d = devInfos s ! i"
    and room: "8 + length (opt_net p) \<le> length (decryptedMsgBuffer s)"
  shows "\<exists>l out. length out = length (decryptedMsgBuffer s) \<and> processMsg e c (w @ junk2) s = do {
    devs \<leftarrow> dispatch (sv_time s) ((devInfos s)[i := d\<lparr>di_devType := devtype\<rparr>]) devtype opcode devid args;
    m \<leftarrow> store_bytes (host_packet iv t a nonce gs p @ junk2) 0 (replicate MAXMSGLEN 0);
    Some (None, c, m, s\<lparr>gcmCtx := l, decryptedMsgBuffer := out, devInfos := devs\<rparr>)
  }"
proof -
  have fd: "from_device s devid d" using i by (auto simp: from_device_def)
  obtain l out where lo: "length out = length (decryptedMsgBuffer s)" and pm: "processMsg e c (w @ junk2) s = do {
      (c, s) \<leftarrow> decrypted_message e c devid (host_packet iv t a nonce gs p @ junk2) (44 + length (opt_net a))
                (s\<lparr>gcmCtx := l, decryptedMsgBuffer := out\<rparr>);
      m \<leftarrow> store_bytes (host_packet iv t a nonce gs p @ junk2) 0 (replicate MAXMSGLEN 0);
      Some (None, c, m, s)
    }"
    using processMsg_sealed [OF key ok seal a c(1) fd room] by blast
  have iv: "length iv = 12" "length t = 16" using sealed_shape [OF key(1) ok seal] ok by (auto simp: packet_ok_def)
  have small: "length args < 2 ^ 31" using ok by (simp add: packet_ok_def p command_pck_def opt_net_def pck_len_def)
  have off: "44 + length (opt_net a) + unat protocolSpecificEncryptedDataLen = 52 + length (opt_net a)"
    by (simp add: packet_consts)
  note nc = node_command_pck [OF iv small refl, of e devid a nonce gs lim devtype opcode pjunk junk2]
  show ?thesis
    unfolding pm decrypted_message_def off unfolding p nc
    using c i lo by (intro exI [of _ l] exI [of _ out]) (auto split: Option.bind_split)
qed

lemma command_applied:
  assumes "gcm_keyed k" "same_key k (key_ctx e (di_key d))" "packet_ok p a None iv"
    and "p = command_pck lim devtype opcode args pjunk" "command_ok devtype opcode args"
    and "sealed k iv a nonce gs p t w" "a = node_add alim devid ids junk" "node_add_ok devid ids"
    and "connectionType c = 0" "sessionId c \<noteq> 0" "localNonce c \<noteq> 0" "remoteNonce c \<noteq> 0"
    and i: "dev_index (devInfos s) devid = Some i" "d = devInfos s ! i"
    and "8 + length (opt_net p) \<le> length (decryptedMsgBuffer s)" "MAXMSGLEN \<le> length (w @ junk2)"
  shows "\<exists>m l out. processMsg e c (w @ junk2) s = Some (None, c, m, s\<lparr>gcmCtx := l, decryptedMsgBuffer := out,
      devInfos := (devInfos s)[i := apply_command (sv_time s) devtype opcode args d]\<rparr>)
    \<and> length m = length (w @ junk2) \<and> length out = length (decryptedMsgBuffer s)"
proof -
  obtain l out where lo: "length out = length (decryptedMsgBuffer s)" and pm: "processMsg e c (w @ junk2) s = do {
    devs \<leftarrow> dispatch (sv_time s) ((devInfos s)[i := d\<lparr>di_devType := devtype\<rparr>]) devtype opcode devid args;
    m \<leftarrow> store_bytes (host_packet iv t a nonce gs p @ junk2) 0 (replicate MAXMSGLEN 0);
    Some (None, c, m, s\<lparr>gcmCtx := l, decryptedMsgBuffer := out, devInfos := devs\<rparr>)
  }"
    using processMsg_command [OF assms(1-4,6-15), of junk2] by (elim exE conjE) (rule that)
  have lw: "length w = packet_size p a None" "length t = 16"
    using sealed_shape [OF assms(1,3,6)] by metis+
  have iv: "length iv = 12" using assms(3) by (simp add: packet_ok_def)
  then obtain m where m: "store_bytes (host_packet iv t a nonce gs p @ junk2) 0 (replicate MAXMSGLEN 0) = Some m"
    using assms(16) lw by (simp add: store_bytes_def)
  show ?thesis
    using dispatch_command [OF assms(5) i(1), of "sv_time s"] i(2) store_bytes_length [OF m] lo lw iv
    by (intro exI [of _ m] exI [of _ l] exI [of _ out]) (simp add: pm m)
qed

text \<open>
  C21. A command of a node in an established session acts on exactly the device it names: the
  device's type becomes the one of the message, a beacon of a smart lock or a noise monitor
  stores the reported state and the time, and no other device, no queued command and nothing
  sent changes.
\<close>

theorem node_command_applied:
  assumes "gcm_keyed k" "same_key k (key_ctx e (di_key d))" "packet_ok p a None iv"
    and "p = command_pck lim devtype opcode args pjunk" "command_ok devtype opcode args"
    and "sealed k iv a nonce gs p t w" "a = node_add alim devid ids junk" "node_add_ok devid ids"
    and "connectionType c = 0" "sessionId c \<noteq> 0" "localNonce c \<noteq> 0" "remoteNonce c \<noteq> 0"
    and i: "dev_index (devInfos s) devid = Some i" "d = devInfos s ! i"
    and "8 + length (opt_net p) \<le> length (decryptedMsgBuffer s)" "MAXMSGLEN \<le> length (w @ junk2)"
  shows "\<exists>m s'. processMsg e c (w @ junk2) s = Some (None, c, m, s')
    \<and> devInfos s' = (devInfos s)[i := apply_command (sv_time s) devtype opcode args d]
    \<and> commandsQueue s' = commandsQueue s \<and> sv_wire s' = sv_wire s"
  using command_applied [OF assms] by fastforce

theorem node_command_applied_witness:
  "\<exists>w m s'. processMsg demo_sys demo_conn (w @ replicate 255 0) (demo_server []) = Some (None, demo_conn, m, s')
    \<and> map lockState (devInfos s') = [1] \<and> map passwordLen (devInfos s') = [4] \<and> map di_devType (devInfos s') = [2]
    \<and> map lastConnectionTime (devInfos s') = [1000]"
proof -
  obtain t w where seal: "sealed demo_ctx (replicate 12 5) demo_node_add 3 0 (demo_beacon 0) t w"
    using demo_sealed [OF demo_beacon_ok(1)] by metis
  have ok: "command_ok 2 0 [1, 0, 4, 1, 2, 3, 4]" by (simp add: command_ok_def)
  have len: "MAXMSGLEN \<le> length (w @ replicate 255 0)" by (simp add: MAXMSGLEN_def)
  from node_command_applied [OF demo_keyed demo_beacon_ok(3,1) demo_beacon_def ok seal demo_node_add_def demo_node_add_ok(1)
      demo_conn_session demo_device demo_beacon_ok(2) len, of "[]"]
  obtain m s' where r: "processMsg demo_sys demo_conn (w @ replicate 255 0) (demo_server []) = Some (None, demo_conn, m, s')"
    "devInfos s' = (devInfos (demo_server []))[0 := apply_command (sv_time (demo_server [])) 2 0 [1, 0, 4, 1, 2, 3, 4] demo_dev]"
    by auto
  then show ?thesis
    by (intro exI [of _ w] exI [of _ m] exI [of _ s'])
      (simp add: demo_server_def apply_command_def lock_beacon_def updateDeviceStatus_def)
qed

text \<open>
  A node's command with an opcode other than 0 and 1 calls a function pointer that was
  never set: the server has no defined behaviour on it.
\<close>

lemma unknown_opcode_undefined:
  assumes "gcm_keyed k" "same_key k (key_ctx e (di_key d))" "packet_ok p a None iv"
    and "p = command_pck lim devtype opcode args pjunk" "opcode \<notin> {0, 1}"
    and "sealed k iv a nonce gs p t w" "a = node_add alim devid ids junk" "node_add_ok devid ids"
    and "connectionType c = 0" "sessionId c \<noteq> 0" "localNonce c \<noteq> 0" "remoteNonce c \<noteq> 0"
    and "dev_index (devInfos s) devid = Some i" "d = devInfos s ! i"
    and "8 + length (opt_net p) \<le> length (decryptedMsgBuffer s)"
  shows "processMsg e c (w @ junk2) s = None"
proof -
  have "dispatch (sv_time s) devs devtype opcode devid args = None" for devs
    using assms(5) by (simp add: dispatch_def)
  then show ?thesis using processMsg_command [OF assms(1-4,6-15), of junk2] by auto
qed

text \<open>
  C22. A packet of a known device whose tag was changed is refused with -1 and changes nothing
  but the cipher context and the decryption buffer: not the connection, the devices, the
  queue, or what was sent.
\<close>

theorem forged_packet_refused:
  assumes "gcm_keyed k" "same_key k (key_ctx e (di_key d))" "packet_ok p a None iv"
    "encryptGcm k (plain_part nonce gs (opt_net p)) iv (be32 0 @ opt_net a) 16 0 = (0, k', ct, t)"
    "a = node_add lim devid ids junk" "node_add_ok devid ids" "length t' = 16" "t' \<noteq> t"
    "connectionType c = 0" "from_device s devid d" "8 + length (opt_net p) \<le> length (decryptedMsgBuffer s)"
  shows "\<exists>l out. processMsg e c (packet_bytes iv t' [] (opt_net a) ct @ rest) s
    = Some (Some (- 1), c, packet_bytes iv t' [] (opt_net a) ct @ rest, s\<lparr>gcmCtx := l, decryptedMsgBuffer := out\<rparr>)"
  using assms by (rule processMsg_wrong_tag)

theorem forged_packet_refused_witness:
  "\<exists>w l out. processMsg demo_sys demo_conn w (demo_server [])
    = Some (Some (- 1), demo_conn, w, (demo_server [])\<lparr>gcmCtx := l, decryptedMsgBuffer := out\<rparr>)"
proof -
  obtain k' c t where e: "encryptGcm demo_ctx (plain_part 3 0 (opt_net (demo_beacon 0))) (replicate 12 5)
      (be32 0 @ opt_net demo_node_add) 16 0 = (0, k', c, t)" "length t = 16"
    using gcm.seal_total [OF demo_keyed packet_aead_sizes [OF demo_beacon_ok(1) [of 0], of 3 0]] by auto
  let ?t' = "map (\<lambda>b. b + 1) t"
  have ne: "?t' \<noteq> t" using e(2) by (cases t) auto
  have len: "length ?t' = 16" using e(2) by simp
  from forged_packet_refused [OF demo_keyed demo_beacon_ok(3,1) e(1) demo_node_add_def demo_node_add_ok(1) len ne
      demo_conn_session(1) demo_from_device(1) demo_beacon_ok(2), of "[]"]
  show ?thesis by blast
qed

text \<open>
  Two commands queued for a device that had none are in the queue three times: the first
  session of the device sends both and keeps a request with the second, and its next session
  sends the second command again.
\<close>

lemma second_command_sent_twice:
  assumes "\<forall>r\<in>set q. cr_devId r \<noteq> devid"
  shows "\<exists>q1 q2 q3. addToCommandQueue False r1 devid cmd1 q = Some q1 \<and> addToCommandQueue False r2 devid cmd2 q1 = Some q2
    \<and> (\<forall>e c s. sendQueuedMessages e c devid (s\<lparr>commandsQueue := q2\<rparr>) = do {
          (c', s') \<leftarrow> send_commands e [cmd1, cmd2] c devid (s\<lparr>commandsQueue := q2\<rparr>);
          Some (c', s'\<lparr>commandsQueue := q3\<rparr>) })
    \<and> (\<forall>e c s. sendQueuedMessages e c devid (s\<lparr>commandsQueue := q3\<rparr>) = do {
          (c', s') \<leftarrow> send_commands e [cmd2] c devid (s\<lparr>commandsQueue := q3\<rparr>);
          Some (c', s'\<lparr>commandsQueue := q\<rparr>) })"
proof -
  let ?r = "\<lambda>cmds. \<lparr>cr_devId = devid, commandRequestsCommands = cmds\<rparr>"
  have same: "map (add_to_request False devid cmd) q = q" for cmd
    using assms by (intro map_idI) (auto simp: add_to_request_def)
  have get: "sl_get (xs @ [r]) (int (length xs)) = Some r" for xs and r :: commandRequest_t
    by (rule sl_get_append)
  have one: "addToCommandQueue False r1 devid cmd1 q = Some (q @ [?r [cmd1]])"
    using get [of q r1] by (cases r1) (simp add: addToCommandQueue_def same sl_push_def sl_length_def)
  have two: "addToCommandQueue False r2 devid cmd2 (q @ [?r [cmd1]]) = Some (q @ [?r [cmd1, cmd2], ?r [cmd2]])"
    using get [of "q @ [?r [cmd1, cmd2]]" r2]
    by (cases r2) (simp add: addToCommandQueue_def same sl_push_def sl_length_def add_to_request_def list_update_append)
  have d2: "drain devid (q @ [?r [cmd1, cmd2], ?r [cmd2]]) = ([cmd1, cmd2], q @ [?r [cmd2]])"
    "drain devid (q @ [?r [cmd2]]) = ([cmd2], q)"
    using assms by (simp_all add: drain_append)
  show ?thesis
    by (rule exI [of _ "q @ [?r [cmd1]]"], rule exI [of _ "q @ [?r [cmd1, cmd2], ?r [cmd2]]"], rule exI [of _ "q @ [?r [cmd2]]"])
      (simp add: one two sendQueuedMessages_drain d2)
qed

end
