(* ===== verification/Node.thy ===== *)
theory Node
  imports Wire
begin

text \<open>
  The node of \<open>nodeClient/mainClient\<close>: its command queue, an \<open>arrayList\<close> of serialised
  commands (\<open>client.c\<close>), the messages it composes and sends in a connection
  (\<open>socketThread.c\<close>), and its handling of the server's messages. The Linux build is
  modelled, with the commands that print recorded as events; \<open>args\<close> is an address of the heap.
\<close>

section \<open>State\<close>

record nodeCmdInfo =
  nc_devId :: "byte list"
  nc_devType :: u32
  nc_opcode :: u32
  nc_argsLen :: u32
  nc_args :: u64

type_synonym heap = "u64 \<Rightarrow> byte list option"

datatype node_event = Poweroff | Reboot | ShowMessage "byte list" | ChangePasscode "byte list"

record node =
  nd_devId :: "byte list"
  nd_devType :: u32
  nodeCommandsQueue :: arrayList
  nd_heap :: heap
  decryptionBuffer :: "byte list"
  nd_sendBuffer :: "byte list"
  encryptionContext :: gcm_context
  hasEncryptionContextBeenEstablished :: bool
  pointerToKey :: "byte list"
  privateDHKeyBuffer :: "byte list"
  nd_wire :: wire
  nd_saved :: "byte list list"
  nd_events :: "node_event list"

definition initializeConnInfo :: "int \<Rightarrow> connInfo_t" where
  "initializeConnInfo sock = \<lparr>ci_socket = sock, connectionType = 0, remoteNonce = 0, localNonce = 0,
     sessionId = 0, sendSessionIncrements = 0, rcvSessionIncrements = 0\<rparr>"

section \<open>The command queue\<close>

definition bytes_of_u64 :: "u64 \<Rightarrow> byte list" where
  "bytes_of_u64 w = bytes_of_u32 (ucast w) @ bytes_of_u32 (ucast (drop_bit 32 w))"

definition u64_of_bytes :: "byte list \<Rightarrow> u64" where
  "u64_of_bytes bs = ucast (u32_of_bytes (take 4 bs)) OR push_bit 32 (ucast (u32_of_bytes (drop 4 bs)))"

definition sizeOfSerializedCmdInfo :: nat where
  "sizeOfSerializedCmdInfo = DEVIDLEN + 4 + 4 + 4 + 8"

definition serializeCmdInfo :: "byte list \<Rightarrow> nodeCmdInfo \<Rightarrow> byte list option" where
  "serializeCmdInfo output cmd = do {
     devid \<leftarrow> load_bytes (nc_devId cmd) 0 DEVIDLEN;
     output \<leftarrow> store_bytes output 0 devid;
     output \<leftarrow> store32 output DEVIDLEN (nc_devType cmd);
     output \<leftarrow> store32 output (DEVIDLEN + 4) (nc_opcode cmd);
     output \<leftarrow> store32 output (DEVIDLEN + 4 + 4) (nc_argsLen cmd);
     store_bytes output (DEVIDLEN + 4 + 4 + 4) (bytes_of_u64 (nc_args cmd))
   }"

definition deserializeCmdInfo :: "byte list \<Rightarrow> nodeCmdInfo option" where
  "deserializeCmdInfo inp = do {
     devid \<leftarrow> load_bytes inp 0 DEVIDLEN;
     ty \<leftarrow> load32 inp DEVIDLEN;
     op \<leftarrow> load32 inp (DEVIDLEN + 4);
     n \<leftarrow> load32 inp (DEVIDLEN + 4 + 4);
     p \<leftarrow> load_bytes inp (DEVIDLEN + 4 + 4 + 4) 8;
     Some \<lparr>nc_devId = devid, nc_devType = ty, nc_opcode = op, nc_argsLen = n, nc_args = u64_of_bytes p\<rparr>
   }"

definition initializeCommandQueue :: "allocator \<Rightarrow> arrayList" where
  "initializeCommandQueue a = snd (initList a sizeOfSerializedCmdInfo)"

text \<open>An empty queue gives the pointer NULL, which is read.\<close>

definition popCommandQueue :: "arrayList \<Rightarrow> (nodeCmdInfo \<times> arrayList) option" where
  "popCommandQueue q = do {
     s \<leftarrow> al_get q 0;
     cmd \<leftarrow> deserializeCmdInfo s;
     (_, q) \<leftarrow> removeFromList q 0;
     Some (cmd, q)
   }"

definition client_addToCommandQueue :: "sys \<Rightarrow> arrayList \<Rightarrow> nodeCmdInfo \<Rightarrow> arrayList option" where
  "client_addToCommandQueue e q cmd = do {
     s \<leftarrow> serializeCmdInfo (uninit e sizeOfSerializedCmdInfo) cmd;
     (_, q) \<leftarrow> addToList (sys_alloc e) q s;
     Some q
   }"

definition getCommandQueueLength :: "arrayList \<Rightarrow> int" where
  "getCommandQueueLength q = al_length q"

section \<open>Composing messages\<close>

text \<open>\<open>ptr\<close> is what \<open>malloc\<close> returns for the arguments, 0 for NULL.\<close>

definition composeBeaconPacketCmdInfo :: "u64 \<Rightarrow> byte list \<Rightarrow> byte \<Rightarrow> node \<Rightarrow> (nodeCmdInfo \<times> node) option" where
  "composeBeaconPacketCmdInfo ptr beaconData beaconDataLen nd = do {
     data \<leftarrow> load_bytes beaconData 0 (unat beaconDataLen);
     if ptr = 0 then None
     else Some (\<lparr>nc_devId = nd_devId nd, nc_devType = nd_devType nd, nc_opcode = 0,
                 nc_argsLen = ucast beaconDataLen, nc_args = ptr\<rparr>,
                nd\<lparr>nd_heap := (nd_heap nd)(ptr \<mapsto> data)\<rparr>)
   }"

definition composeSmartLockBeaconCmdInfo ::
    "u64 \<Rightarrow> byte \<Rightarrow> byte \<Rightarrow> byte list \<Rightarrow> byte \<Rightarrow> node \<Rightarrow> (nodeCmdInfo \<times> node) option" where
  "composeSmartLockBeaconCmdInfo ptr lockState doorState password passwordLen nd = do {
     pw \<leftarrow> load_bytes password 0 (unat passwordLen);
     composeBeaconPacketCmdInfo ptr ([lockState, doorState, passwordLen] @ pw) (3 + passwordLen) nd
   }"

definition composeNoiseMonitorBeaconCmdInfo :: "u64 \<Rightarrow> int \<Rightarrow> node \<Rightarrow> (nodeCmdInfo \<times> node) option" where
  "composeNoiseMonitorBeaconCmdInfo ptr noiseLevel nd =
     composeBeaconPacketCmdInfo ptr [word_of_int noiseLevel] 1 nd"

definition freeNodeCmdInfo :: "nodeCmdInfo \<Rightarrow> node \<Rightarrow> node option" where
  "freeNodeCmdInfo cmd nd =
     (if nc_args cmd = 0 then Some nd
      else case nd_heap nd (nc_args cmd) of
        None \<Rightarrow> None
      | Some _ \<Rightarrow> Some (nd\<lparr>nd_heap := (nd_heap nd)(nc_args cmd := None)\<rparr>))"

text \<open>The two containers of a command, printed before they are used.\<close>

definition composeNodeMessage :: "sys \<Rightarrow> heap \<Rightarrow> nodeCmdInfo \<Rightarrow> (byte list \<times> byte list) option" where
  "composeNodeMessage e h cmd = do {
     args \<leftarrow> h (nc_args cmd);
     add \<leftarrow> new_pck (sys_alloc e) [(nc_devId cmd, of_nat DEVIDLEN)];
     pck \<leftarrow> new_pck (sys_alloc e) [(bytes_of_u32 (htonl (nc_devType cmd)), 4), (bytes_of_u32 (htonl (nc_opcode cmd)), 4),
                                  (args, nc_argsLen cmd)];
     (_, pck) \<leftarrow> printPckData pck 0 False 2;
     (_, add) \<leftarrow> printPckData add 0 False 0;
     Some (pck, add)
   }"

section \<open>A connection, from the node's side\<close>

text \<open>
  Without a key: draw a key pair and send the public key as extra data, with the device id,
  type and kind of connection, unencrypted.
\<close>

definition request_key :: "sys \<Rightarrow> int \<Rightarrow> byte \<Rightarrow> node \<Rightarrow> node option" where
  "request_key e sock targetDevtype nd = do {
     (_, pub, priv) \<leftarrow> ecdh_generate_keys (sys_priv e);
     add \<leftarrow> new_pck (sys_alloc e) [(nd_devId nd, of_nat DEVIDLEN), ([targetDevtype], 1), ([1], 1)];
     extra \<leftarrow> new_pck (sys_alloc e) [(pub, of_nat ECC_PUB_KEY_SIZE)];
     (_, _, _, buf, w) \<leftarrow> send_packet (nd_wire nd) sock None None None (Some add) (Some extra) 0 (nd_sendBuffer nd);
     Some (nd\<lparr>privateDHKeyBuffer := priv, nd_sendBuffer := buf, nd_wire := w\<rparr>)
   }"

text \<open>With a key: send the own nonce with the device id and an empty packet.\<close>

definition send_nonce :: "sys \<Rightarrow> connInfo_t \<Rightarrow> node \<Rightarrow> (connInfo_t \<times> node) option" where
  "send_nonce e c nd =
     (if localNonce c = 0 then do {
        add \<leftarrow> new_pck (sys_alloc e) [(nd_devId nd, of_nat DEVIDLEN)];
        (_, c, k, buf, w) \<leftarrow> send_packet (nd_wire nd) (ci_socket c) (Some c) (Some (encryptionContext nd)) None (Some add)
                            None 0 (nd_sendBuffer nd);
        c \<leftarrow> c;
        k \<leftarrow> k;
        Some (c, nd\<lparr>encryptionContext := k, nd_sendBuffer := buf, nd_wire := w\<rparr>)
      } else Some (c, nd))"

text \<open>In a session: as many commands as the queue held go out, each in a buffer of its own.\<close>

fun send_node_commands :: "sys \<Rightarrow> nat \<Rightarrow> connInfo_t \<Rightarrow> node \<Rightarrow> (connInfo_t \<times> node) option" where
  "send_node_commands e 0 c nd = Some (c, nd)"
| "send_node_commands e (Suc n) c nd = do {
     (cmd, q) \<leftarrow> popCommandQueue (nodeCommandsQueue nd);
     (pck, add) \<leftarrow> composeNodeMessage e (nd_heap nd) cmd;
     (_, c, k, _, w) \<leftarrow> send_packet (nd_wire nd) (ci_socket c) (Some c) (Some (encryptionContext nd)) (Some pck) (Some add)
                       None 0 (uninit e MAXMSGLEN);
     c \<leftarrow> c;
     k \<leftarrow> k;
     send_node_commands e n c (nd\<lparr>nodeCommandsQueue := q, encryptionContext := k, nd_wire := w\<rparr>)
   }"

definition flush_commands :: "sys \<Rightarrow> connInfo_t \<Rightarrow> node \<Rightarrow> (connInfo_t \<times> node) option" where
  "flush_commands e c nd = send_node_commands e (nat (getCommandQueueLength (nodeCommandsQueue nd))) c nd"

section \<open>The commands of the server\<close>

text \<open>
  The table of function pointers has 256 entries, of which \<open>initSharedNodeCommands\<close> and
  \<open>initNodeCommands\<close> set four; another opcode calls memory that was never written.
\<close>

definition run_command :: "u32 \<Rightarrow> byte list \<Rightarrow> node_event option" where
  "run_command opcode args =
     (if opcode = 0 then Some Poweroff
      else if opcode = 1 then Some (ShowMessage args)
      else if opcode = 2 then Some Reboot
      else if opcode = 129 then Some (ChangePasscode args)
      else None)"

definition server_command :: "sys \<Rightarrow> byte list \<Rightarrow> nat \<Rightarrow> node \<Rightarrow> node option" where
  "server_command e m pckOff nd = do {
     (_, op) \<leftarrow> getElementFromPckData m pckOff (uninit e 4) 0;
     n \<leftarrow> getElementLengthFromPckData m pckOff 1;
     if n = - 1 then None
     else do {
       (_, args) \<leftarrow> getElementFromPckData m pckOff (uninit e (unat n)) 1;
       ev \<leftarrow> run_command (u32_of_bytes op) args;
       Some (nd\<lparr>nd_events := nd_events nd @ [ev]\<rparr>)
     }
   }"

text \<open>The server's public key, the first element of the extra data, completes the key exchange.\<close>

definition receive_key :: "sys \<Rightarrow> byte list \<Rightarrow> nat \<Rightarrow> node \<Rightarrow> (byte list \<times> node) option" where
  "receive_key e m extraOff nd = do {
     (_, m) \<leftarrow> pckDataToHostOrder (Some m) (extraOff + unat protocolSpecificExtraDataLen);
     m \<leftarrow> m;
     (_, remote) \<leftarrow> getElementFromPckData m (extraOff + unat protocolSpecificExtraDataLen) (uninit e ECC_PUB_KEY_SIZE) 0;
     (_, m) \<leftarrow> pckDataToNetworkOrder (Some m) (extraOff + unat protocolSpecificExtraDataLen);
     m \<leftarrow> m;
     (_, shared) \<leftarrow> ecdh_shared_secret (privateDHKeyBuffer nd) remote (uninit e ECC_PUB_KEY_SIZE);
     let key = take KEYLEN shared;
     Some (m, nd\<lparr>pointerToKey := key, encryptionContext := key_ctx e key, nd_saved := nd_saved nd @ [key],
                hasEncryptionContextBeenEstablished := True\<rparr>)
   }"

text \<open>
  The handler; a connection of NULL is the reply to a key request. The result of
  \<open>decryptPckData\<close> is not looked at.
\<close>

definition client_processMsg ::
    "sys \<Rightarrow> connInfo_t option \<Rightarrow> byte list \<Rightarrow> node \<Rightarrow> (int \<times> connInfo_t option \<times> byte list \<times> node) option" where
  "client_processMsg e conn m nd = do {
     _ \<leftarrow> load32 m 0;
     addMsgLen \<leftarrow> map_option ntohl (load32 m 4);
     extraMsgLen \<leftarrow> map_option ntohl (load32 m 8);
     let extraOff = 12 + IVLEN + TAGLEN;
     let encOff = extraOff + unat extraMsgLen + unat addMsgLen;
     (_, m) \<leftarrow> printMessage m True True;
     case conn of
       None \<Rightarrow> do {
         (m, nd) \<leftarrow> receive_key e m extraOff nd;
         Some (0, None, m, nd)
       }
     | Some c \<Rightarrow> do {
         (_, k, m, out) \<leftarrow> decryptPckData (encryptionContext nd) m (decryptionBuffer nd);
         let nd = nd\<lparr>encryptionContext := k, decryptionBuffer := out\<rparr>;
         if sessionId c = 0 then do {
           nonce \<leftarrow> load32 out 0;
           Some (0, Some (node_establish nonce c), m, nd)
         } else do {
           (_, m) \<leftarrow> printMessage m False False;
           nd \<leftarrow> server_command e m (encOff + unat protocolSpecificEncryptedDataLen) nd;
           Some (0, Some c, m, nd)
         }
       }
   }"

section \<open>The queue holds commands\<close>

lemma u64_of_bytes_of_u64 [simp]: "u64_of_bytes (bytes_of_u64 w) = w"
proof (rule bit_word_eqI)
  fix n assume "n < LENGTH(64)"
  then show "bit (u64_of_bytes (bytes_of_u64 w)) n = bit w n"
    by (cases "n < 32") (auto simp: u64_of_bytes_def bytes_of_u64_def bit_simps)
qed

lemma length_bytes_of_u64 [simp]: "length (bytes_of_u64 w) = 8"
  by (simp add: bytes_of_u64_def)

text \<open>The 36 bytes of a command.\<close>

definition cmd_fields :: "nodeCmdInfo \<Rightarrow> byte list list" where
  "cmd_fields cmd = [nc_devId cmd, bytes_of_u32 (nc_devType cmd), bytes_of_u32 (nc_opcode cmd),
     bytes_of_u32 (nc_argsLen cmd), bytes_of_u64 (nc_args cmd)]"

definition cmd_bytes :: "nodeCmdInfo \<Rightarrow> byte list" where
  "cmd_bytes cmd = concat (cmd_fields cmd)"

definition cmd_ok :: "nodeCmdInfo \<Rightarrow> bool" where
  "cmd_ok cmd \<longleftrightarrow> length (nc_devId cmd) = 16"

lemma length_cmd_bytes [simp]: "cmd_ok cmd \<Longrightarrow> length (cmd_bytes cmd) = 36"
  by (simp add: cmd_bytes_def cmd_fields_def cmd_ok_def)

lemma serialize_bytes:
  assumes "cmd_ok cmd" "length output = 36"
  shows "serializeCmdInfo output cmd = Some (cmd_bytes cmd)"
proof -
  have "sum_list [16, 4, 4, 4, 8] \<le> length output" using assms(2) by simp
  from split_lengths [OF this] obtain fs rest where fs: "output = concat fs @ rest" "map length fs = [16, 4, 4, 4, 8]"
    by (elim exE conjE)
  then obtain a b c d g where f: "fs = [a, b, c, d, g]" "length a = 16" "length b = 4" "length c = 4" "length d = 4" "length g = 8"
    by (auto simp: map_eq_Cons_conv)
  have "rest = []" using assms(2) fs f by simp
  then have out: "output = concat [a, b, c, d, g]" using fs(1) f(1) by simp
  have id: "load_bytes (nc_devId cmd) 0 16 = Some (nc_devId cmd)" "length (nc_devId cmd) = 16"
    using assms(1) by (simp_all add: cmd_ok_def load_bytes_def)
  have st: "store_bytes (concat [a, b, c, d, g]) 0 (nc_devId cmd) = Some (concat [nc_devId cmd, b, c, d, g])"
    "store32 (concat [nc_devId cmd, b, c, d, g]) 16 (nc_devType cmd)
      = Some (concat [nc_devId cmd, bytes_of_u32 (nc_devType cmd), c, d, g])"
    "store32 (concat [nc_devId cmd, bytes_of_u32 (nc_devType cmd), c, d, g]) 20 (nc_opcode cmd)
      = Some (concat [nc_devId cmd, bytes_of_u32 (nc_devType cmd), bytes_of_u32 (nc_opcode cmd), d, g])"
    "store32 (concat [nc_devId cmd, bytes_of_u32 (nc_devType cmd), bytes_of_u32 (nc_opcode cmd), d, g]) 24 (nc_argsLen cmd)
      = Some (concat [nc_devId cmd, bytes_of_u32 (nc_devType cmd), bytes_of_u32 (nc_opcode cmd), bytes_of_u32 (nc_argsLen cmd), g])"
    "store_bytes (concat [nc_devId cmd, bytes_of_u32 (nc_devType cmd), bytes_of_u32 (nc_opcode cmd), bytes_of_u32 (nc_argsLen cmd), g])
        28 (bytes_of_u64 (nc_args cmd)) = Some (concat (cmd_fields cmd))"
    by (rule store_field [where i = 0] store32_field [where i = 1] store32_field [where i = 2] store32_field [where i = 3]
        store_field [where i = 4]; simp add: f id(2) cmd_fields_def)+
  have offs: "16 + 4 = (20 :: nat)" "20 + 4 = (24 :: nat)" "24 + 4 = (28 :: nat)" by simp_all
  show ?thesis
    unfolding serializeCmdInfo_def DEVIDLEN_def out
    by (simp only: id(1) st bind.bind_lunit offs cmd_bytes_def)
qed

lemma deserialize_bytes:
  assumes "cmd_ok cmd"
  shows "deserializeCmdInfo (cmd_bytes cmd) = Some cmd"
proof -
  have l: "length (nc_devId cmd) = 16" using assms by (simp add: cmd_ok_def)
  have "load_bytes (concat (cmd_fields cmd)) 0 16 = Some (nc_devId cmd)"
    "load32 (concat (cmd_fields cmd)) 16 = Some (nc_devType cmd)"
    "load32 (concat (cmd_fields cmd)) 20 = Some (nc_opcode cmd)"
    "load32 (concat (cmd_fields cmd)) 24 = Some (nc_argsLen cmd)"
    "load_bytes (concat (cmd_fields cmd)) 28 8 = Some (bytes_of_u64 (nc_args cmd))"
    by (rule load_field [where i = 0] load32_field [where i = 1] load32_field [where i = 2] load32_field [where i = 3]
        load_field [where i = 4]; simp add: l cmd_fields_def)+
  then show ?thesis by (simp add: deserializeCmdInfo_def DEVIDLEN_def cmd_bytes_def)
qed

definition queue_holds :: "arrayList \<Rightarrow> nodeCmdInfo list \<Rightarrow> bool" where
  "queue_holds q cmds \<longleftrightarrow> represents cmd_bytes q cmds \<and> dataSize q = 36 \<and> list_all cmd_ok cmds"

lemma getCommandQueueLength_holds: "queue_holds q cmds \<Longrightarrow> getCommandQueueLength q = int (length cmds)"
  using represents_length by (auto simp: queue_holds_def getCommandQueueLength_def sl_length_def)

lemma pop_holds:
  assumes "queue_holds q (cmd # cmds)"
  shows "\<exists>q'. popCommandQueue q = Some (cmd, q') \<and> queue_holds q' cmds"
proof -
  have q: "al_ok q" "al_elems q = cmd_bytes cmd # map cmd_bytes cmds" "dataSize q = 36" "cmd_ok cmd" "list_all cmd_ok cmds"
    "0 < al_length q"
    using assms represents_length [of cmd_bytes q "cmd # cmds"]
    by (auto simp: queue_holds_def represents_def sl_length_def)
  have "al_get q 0 = Some (cmd_bytes cmd)" using al.get_inside [OF q(1) _ q(6)] q(2) by simp
  moreover obtain q' where "removeFromList q 0 = Some (0, q')" "al_ok q'" "dataSize q' = dataSize q" "al_elems q' = map cmd_bytes cmds"
    using removeFromList_slots [OF q(1) _ q(6)] q(2) by auto
  ultimately show ?thesis
    using q by (simp add: popCommandQueue_def deserialize_bytes queue_holds_def represents_def)
qed

lemma add_holds:
  assumes "queue_holds q cmds" "cmd_ok cmd" "al_length q < allocated q \<or> grown_size q < 2 ^ 31"
  shows "\<exists>q'. client_addToCommandQueue e q cmd = Some q' \<and> (queue_holds q' (cmds @ [cmd]) \<or> queue_holds q' cmds)"
proof -
  have "al_admits q (cmd_bytes cmd)" using assms by (simp add: al_admits_def queue_holds_def)
  then obtain r q' where "addToList (sys_alloc e) q (cmd_bytes cmd) = Some (r, q')" "al_ok q'" "dataSize q' = dataSize q"
    "al_elems q' = al_elems q @ [cmd_bytes cmd] \<or> al_elems q' = al_elems q"
    using addToList_result [of q "cmd_bytes cmd" "sys_alloc e"] assms(1) by (auto simp: queue_holds_def represents_def)
  moreover have "serializeCmdInfo (uninit e sizeOfSerializedCmdInfo) cmd = Some (cmd_bytes cmd)"
    by (rule serialize_bytes [OF assms(2)]) (simp add: sizeOfSerializedCmdInfo_def DEVIDLEN_def)
  ultimately show ?thesis
    using assms(1,2) by (auto simp: client_addToCommandQueue_def queue_holds_def represents_def)
qed

lemma initializeCommandQueue_holds:
  assumes "malloc a 180 \<noteq> None"
  shows "queue_holds (initializeCommandQueue a) []"
proof -
  obtain b where b: "malloc a 180 = Some b" using assms by auto
  then have i: "initList a sizeOfSerializedCmdInfo = (0, initializeCommandQueue a)"
    by (simp add: initializeCommandQueue_def initList_def sizeOfSerializedCmdInfo_def DEVIDLEN_def)
  show ?thesis
    using initList_ok [OF _ _ i] by (simp add: queue_holds_def represents_def sizeOfSerializedCmdInfo_def DEVIDLEN_def)
qed

section \<open>Composing a message\<close>

lemma printPckData_plain:
  assumes "es \<noteq> []" "pck_len es < 2 ^ 31"
  shows "\<exists>out. printPckData (pck_host lim es @ junk) 0 False scheme = Some (out, pck_host lim es @ junk)"
proof -
  let ?x = "Some (lim, es, [])"
  have "(of_nat (length (opt_net ?x)) :: u32) \<noteq> 0"
    using assms u32_of_nat_eq [of "pck_len es" 0] by (simp add: opt_net_def pck_len_def)
  then show ?thesis
    using print_section_host [of 0 "[]" ?x junk scheme] assms
    by (simp add: print_section_def opt_net_def opt_hostbytes_def nonempty_arg_def)
qed

lemma composeNodeMessage_pck:
  assumes mem: "malloc (sys_alloc e) 255 \<noteq> None" and cmd: "cmd_ok cmd" "h (nc_args cmd) = Some args"
    "nc_argsLen cmd = of_nat (length args)" "length args \<le> 227"
  shows "\<exists>pck add j1 j2. composeNodeMessage e h cmd = Some (pck, add)
    \<and> Some pck = opt_host (Some (255, [be32 (nc_devType cmd), be32 (nc_opcode cmd), args], j1))
    \<and> Some add = opt_host (Some (255, [nc_devId cmd], j2))"
proof -
  let ?es = "[be32 (nc_devType cmd), be32 (nc_opcode cmd), args]"
  have id: "length (nc_devId cmd) = 16" using cmd(1) by (simp add: cmd_ok_def)
  obtain j2 where add: "new_pck (sys_alloc e) (map (\<lambda>x. (x, of_nat (length x))) [nc_devId cmd])
      = opt_host (Some (255, [nc_devId cmd], j2))"
    using new_pck_holds [OF mem, of "[nc_devId cmd]"] pck_holds_arg id by (fastforce simp: pck_len_def)
  obtain j1 where pck: "new_pck (sys_alloc e) (map (\<lambda>x. (x, of_nat (length x))) ?es) = opt_host (Some (255, ?es, j1))"
    using new_pck_holds [OF mem, of ?es] pck_holds_arg cmd(4) by (fastforce simp: pck_len_def)
  obtain o1 where o1: "printPckData (pck_host 255 ?es @ j1) 0 False 2 = Some (o1, pck_host 255 ?es @ j1)"
    using printPckData_plain [of ?es 255 j1 2] cmd(4) by (auto simp: pck_len_def)
  obtain o2 where o2: "printPckData (pck_host 255 [nc_devId cmd] @ j2) 0 False 0 = Some (o2, pck_host 255 [nc_devId cmd] @ j2)"
    using printPckData_plain [of "[nc_devId cmd]" 255 j2 0] id by (auto simp: pck_len_def)
  have "composeNodeMessage e h cmd = Some (pck_host 255 ?es @ j1, pck_host 255 [nc_devId cmd] @ j2)"
    using add pck o1 o2 id cmd(2,3)
    by (simp add: composeNodeMessage_def opt_host_def be32_def [symmetric] DEVIDLEN_def)
  then show ?thesis by (auto simp: opt_host_def)
qed

section \<open>Sending the queue\<close>

text \<open>The containers of a command of the node; what lies behind the elements in their blocks is arbitrary.\<close>

definition node_carries :: "nodeCmdInfo \<Rightarrow> byte list \<Rightarrow> pck_arg \<Rightarrow> pck_arg \<Rightarrow> bool" where
  "node_carries cmd args p a \<longleftrightarrow> (\<exists>j1 j2. p = Some (255, [be32 (nc_devType cmd), be32 (nc_opcode cmd), args], j1)
     \<and> a = Some (255, [nc_devId cmd], j2))"

definition node_ready :: "heap \<Rightarrow> send_env \<Rightarrow> nodeCmdInfo \<Rightarrow> bool" where
  "node_ready h env cmd \<longleftrightarrow> (\<exists>args. h (nc_args cmd) = Some args \<and> nc_argsLen cmd = of_nat (length args)
     \<and> length args \<le> 227 \<and> (\<forall>p a. node_carries cmd args p a \<longrightarrow> can_send env p a (replicate 255 0)))"

text \<open>The packets of a sequence of commands, sealed under consecutive numbers of the session.\<close>

fun node_sent :: "gcm_context \<Rightarrow> heap \<Rightarrow> connInfo_t \<Rightarrow> nodeCmdInfo list \<Rightarrow> (int \<times> byte list) list \<Rightarrow> bool" where
  "node_sent k h c [] ps = (ps = [])"
| "node_sent k h c (cmd # cmds) ps = (\<exists>iv t x p a args l qs. ps = (ci_socket c, x) # qs \<and> h (nc_args cmd) = Some args
     \<and> node_carries cmd args p a \<and> packet_ok p a None iv \<and> same_key k l
     \<and> sealed l iv a (htonl (sessionId c + (sendSessionIncrements c + 1))) 0 p t x
     \<and> node_sent k h (c\<lparr>sendSessionIncrements := sendSessionIncrements c + 1\<rparr>) cmds qs)"

lemma node_sent_key: "same_key k k' \<Longrightarrow> node_sent k' h c cmds ps \<Longrightarrow> node_sent k h c cmds ps"
proof (induction cmds arbitrary: c ps)
  case (Cons cmd cmds)
  then show ?case by (fastforce simp: same_key_def)
qed simp

lemma send_node_commands_sends:
  assumes "queue_holds (nodeCommandsQueue nd) (cmds @ others)" "list_all2 (node_ready (nd_heap nd)) envs cmds"
    "w_envs (nd_wire nd) = envs @ rest" "gcm_keyed (encryptionContext nd)" "sessionId c \<noteq> 0"
    "malloc (sys_alloc e) 255 \<noteq> None"
  shows "\<exists>ps k q. send_node_commands e (length cmds) c nd
      = Some (c\<lparr>sendSessionIncrements := sendSessionIncrements c + of_nat (length cmds)\<rparr>,
              nd\<lparr>nodeCommandsQueue := q, encryptionContext := k,
                 nd_wire := \<lparr>w_envs = rest, w_sent = w_sent (nd_wire nd) @ ps\<rparr>\<rparr>)
    \<and> node_sent (encryptionContext nd) (nd_heap nd) c cmds ps \<and> queue_holds q others
    \<and> same_key (encryptionContext nd) k"
  using assms
proof (induction cmds arbitrary: c nd envs rule: list.induct)
  case Nil
  have "envs = []" using Nil.prems(2) by simp
  then have "nd_wire nd = \<lparr>w_envs = rest, w_sent = w_sent (nd_wire nd) @ []\<rparr>"
    using Nil.prems(3) by (cases "nd_wire nd") simp
  then show ?case using Nil.prems(1)
    by (intro exI [of _ "[]"] exI [of _ "encryptionContext nd"] exI [of _ "nodeCommandsQueue nd"])
      (simp add: gcm.same_refl)
next
  case (Cons cmd cmds)
  then obtain env es where env: "envs = env # es" "node_ready (nd_heap nd) env cmd"
    "list_all2 (node_ready (nd_heap nd)) es cmds" by (auto simp: list_all2_Cons2)
  obtain q where q: "popCommandQueue (nodeCommandsQueue nd) = Some (cmd, q)" "queue_holds q (cmds @ others)"
    using pop_holds [of "nodeCommandsQueue nd" cmd "cmds @ others"] Cons.prems(1) by auto
  have cok: "cmd_ok cmd" using Cons.prems(1) by (simp add: queue_holds_def)
  obtain args where args: "nd_heap nd (nc_args cmd) = Some args" "nc_argsLen cmd = of_nat (length args)" "length args \<le> 227"
    "\<And>p a. node_carries cmd args p a \<Longrightarrow> can_send env p a (replicate 255 0)"
    using env(2) by (auto simp: node_ready_def)
  obtain pck add j1 j2 where msg: "composeNodeMessage e (nd_heap nd) cmd = Some (pck, add)"
    "Some pck = opt_host (Some (255, [be32 (nc_devType cmd), be32 (nc_opcode cmd), args], j1))"
    "Some add = opt_host (Some (255, [nc_devId cmd], j2))"
    using composeNodeMessage_pck [where h = "nd_heap nd", OF Cons.prems(6) cok args(1-3)] by blast
  let ?p = "Some (255, [be32 (nc_devType cmd), be32 (nc_opcode cmd), args], j1)" and ?a = "Some (255, [nc_devId cmd], j2)"
  have nc: "node_carries cmd args ?p ?a" by (auto simp: node_carries_def)
  have can: "can_send env ?p ?a (uninit e MAXMSGLEN)"
    using args(4) [OF nc] by (simp add: can_send_def MAXMSGLEN_def)
  have we: "w_envs (nd_wire nd) = env # (es @ rest)" using Cons.prems(3) env(1) by simp
  obtain k t buf x where sent: "send_packet (nd_wire nd) (ci_socket c) (Some c) (Some (encryptionContext nd)) (opt_host ?p) (opt_host ?a)
      None 0 (uninit e MAXMSGLEN)
      = Some (0, Some (c\<lparr>sendSessionIncrements := sendSessionIncrements c + 1\<rparr>), Some k, buf, emit (nd_wire nd) (es @ rest) (ci_socket c) x)"
    "sealed (encryptionContext nd) (se_iv env) ?a (htonl (sessionId c + (sendSessionIncrements c + 1))) 0 ?p t x"
    "same_key (encryptionContext nd) k"
    using session_sends [OF Cons.prems(5,4) we can, of "ci_socket c" 0] by blast
  let ?c = "c\<lparr>sendSessionIncrements := sendSessionIncrements c + 1\<rparr>"
  let ?nd = "nd\<lparr>nodeCommandsQueue := q, encryptionContext := k, nd_wire := emit (nd_wire nd) (es @ rest) (ci_socket c) x\<rparr>"
  have kk: "gcm_keyed k" using gcm.same_keyed [OF Cons.prems(4) sent(3)] .
  obtain ps k' q' where more: "send_node_commands e (length cmds) ?c ?nd
      = Some (?c\<lparr>sendSessionIncrements := sendSessionIncrements ?c + of_nat (length cmds)\<rparr>,
              ?nd\<lparr>nodeCommandsQueue := q', encryptionContext := k',
                 nd_wire := \<lparr>w_envs = rest, w_sent = w_sent (nd_wire ?nd) @ ps\<rparr>\<rparr>)"
    "node_sent k (nd_heap nd) ?c cmds ps" "queue_holds q' others" "same_key k k'"
    using Cons.IH [of ?nd es ?c] q(2) env(3) kk Cons.prems(5,6) by (auto simp: emit_def)
  have pok: "packet_ok ?p ?a None (se_iv env)" using can by (simp add: can_send_def)
  have ne: "x \<noteq> []"
    using sealed_shape [OF Cons.prems(4) pok sent(2)] by (fastforce simp: packet_size_def)
  have run: "send_node_commands e (length (cmd # cmds)) c nd
      = Some (c\<lparr>sendSessionIncrements := sendSessionIncrements c + of_nat (length (cmd # cmds))\<rparr>,
              nd\<lparr>nodeCommandsQueue := q', encryptionContext := k',
                 nd_wire := \<lparr>w_envs = rest, w_sent = w_sent (nd_wire nd) @ (ci_socket c, x) # ps\<rparr>\<rparr>)"
    using q(1) msg sent(1) more(1) ne by (simp add: emit_def add.assoc)
  have "node_sent (encryptionContext nd) (nd_heap nd) c (cmd # cmds) ((ci_socket c, x) # ps)"
    unfolding node_sent.simps
    using args(1) nc pok sent(2) node_sent_key [OF sent(3) more(2)] gcm.same_refl by blast
  moreover have "same_key (encryptionContext nd) k'" using sent(3) more(4) by (simp add: same_key_def)
  ultimately show ?case using run more(3) by blast
qed

section \<open>Receiving from the server\<close>

text \<open>Up to the decryption; a packet of the server has no extra data here.\<close>

lemma client_opening:
  assumes iv: "length iv = 12" and t: "length t = 16" and ne: "nonempty_arg a"
    and small: "44 + length (opt_net a) + length enc < 2 ^ 31"
  shows "client_processMsg e (Some c) (packet_bytes iv t [] (opt_net a) enc @ rest) nd = do {
    (_, k, m, out) \<leftarrow> decryptPckData (encryptionContext nd) (packet_bytes iv t [] (opt_net a) enc @ rest) (decryptionBuffer nd);
    let nd = nd\<lparr>encryptionContext := k, decryptionBuffer := out\<rparr>;
    if sessionId c = 0 then do {
      nonce \<leftarrow> load32 out 0;
      Some (0, Some (node_establish nonce c), m, nd)
    } else do {
      (_, m) \<leftarrow> printMessage m False False;
      nd \<leftarrow> server_command e m (52 + length (opt_net a)) nd;
      Some (0, Some c, m, nd)
    }
  }"
proof -
  let ?m = "packet_bytes iv t [] (opt_net a) enc @ rest" and ?A = "length (opt_net a)"
  have small': "44 + length ([] :: byte list) + ?A + length enc < 2 ^ 31" using small by simp
  note hd = packet_header(1-3) [OF iv t small', of rest]
  note u = packet_unat [OF small']
  obtain o1 where pr: "printMessage ?m True True = Some (o1, ?m)"
    using printMessage_packet(1) [OF iv t, of None a enc rest] small ne by (auto simp: nonempty_arg_def)
  have off: "12 + IVLEN + TAGLEN + unat (of_nat (length ([] :: byte list)) :: u32) + unat (of_nat (4 + ?A) :: u32)
      + unat protocolSpecificEncryptedDataLen = 52 + ?A"
    using u by (simp add: packet_consts)
  show ?thesis
    unfolding client_processMsg_def Let_def
    by (simp only: hd option.map ntohl_htonl bind.bind_lunit pr prod.case option.case off)
qed

lemma client_sealed:
  assumes key: "gcm_keyed k" "same_key k (encryptionContext nd)" and ok: "packet_ok p a None iv"
    and seal: "sealed k iv a nonce gs p t w" and room: "8 + length (opt_net p) \<le> length (decryptionBuffer nd)"
  shows "\<exists>l out. same_key k l \<and> length out = length (decryptionBuffer nd) \<and> client_processMsg e (Some c) (w @ rest) nd =
     (let nd' = nd\<lparr>encryptionContext := l, decryptionBuffer := out\<rparr>; m = host_packet iv t a nonce gs p @ rest in
      if sessionId c = 0 then Some (0, Some (node_establish nonce c), m, nd')
      else do { nd' \<leftarrow> server_command e m (52 + length (opt_net a)) nd'; Some (0, Some c, m, nd') })"
proof -
  obtain ct where w: "w = packet_bytes iv t [] (opt_net a) ct" "length t = 16" "length ct = 8 + length (opt_net p)"
    using sealed_shape [OF key(1) ok seal] by metis
  have iv: "length iv = 12" and small: "packet_size p a None < 2 ^ 31" and ne: "nonempty_arg a" "nonempty_arg p"
    using ok by (auto simp: packet_ok_def packet_size_def)
  have small': "44 + length (opt_net a) + length ct < 2 ^ 31" using small w(3) by (simp add: packet_size_def)
  obtain l out where o: "decryptPckData (encryptionContext nd) (w @ rest) (decryptionBuffer nd)
      = Some (0, l, host_packet iv t a nonce gs p @ rest, out)" "same_key k l" "load32 out 0 = Some nonce"
    "length out = length (decryptionBuffer nd)"
    using sealed_opens [OF key ok seal room, of rest] by blast
  obtain pr where pr: "printMessage (host_packet iv t a nonce gs p @ rest) False False
      = Some (pr, host_packet iv t a nonce gs p @ rest)"
    using printMessage_host [OF iv w(2) ne small] by blast
  show ?thesis
    using o client_opening [OF iv w(2) ne(1) small', of e c rest nd] pr unfolding w(1) [symmetric]
    by (intro exI [of _ l] exI [of _ out]) (simp add: Let_def)
qed

text \<open>The elements of a server command: the opcode in host order and the arguments.\<close>

lemma server_command_pck:
  assumes iv: "length iv = 12" "length t = 16" and small: "length args < 2 ^ 31" and off: "off = 52 + length (opt_net a)"
  shows "server_command e (host_packet iv t a nonce gs (Some (lim, [bytes_of_u32 opcode, args], junk)) @ rest) off nd = do {
    ev \<leftarrow> run_command opcode args; Some (nd\<lparr>nd_events := nd_events nd @ [ev]\<rparr>) }"
proof -
  let ?es = "[bytes_of_u32 opcode, args]"
  let ?m = "host_packet iv t a nonce gs (Some (lim, ?es, junk)) @ rest"
  obtain pre where pre: "?m = pre @ pck_host lim ?es @ rest" "length pre = off"
    using host_packet_pck [OF iv refl off, where nonce = nonce and gs = gs and rest = rest] by blast
  have pl: "pck_len ?es < 2 ^ 32" using small by (simp add: pck_len_def)
  have g: "getElementFromPckData ?m off out (of_nat j) = Some (case pck_at ?es j of None \<Rightarrow> (- 1, out)
      | Some x \<Rightarrow> (of_nat (length x), x @ drop (length x) out))"
    if "j < 2" "length (?es ! j) \<le> length out" for j out
    using getElement_pck_room [of ?es j out off pre lim rest] that pre pl by (auto simp: pck_at_def split: if_splits)
  have g0: "getElementFromPckData ?m off (uninit e 4) 0 = Some (4, bytes_of_u32 opcode)"
    using g [of 0 "uninit e 4"] by (simp add: pck_at_def)
  have n: "getElementLengthFromPckData ?m off 1 = Some (of_nat (length args))"
    using getElementLength_pck [of ?es 1 off pre lim rest] pre pl by simp
  have un: "unat (of_nat (length args) :: u32) = length args" using small by simp
  have ne: "of_nat (length args) \<noteq> (- 1 :: u32)"
  proof
    assume "of_nat (length args) = (- 1 :: u32)"
    then have "unat (of_nat (length args) :: u32) = unat (- 1 :: u32)" by simp
    then show False using small un by (simp add: unsigned_minus_1_eq_mask mask_eq_exp_minus_1)
  qed
  obtain r where g1: "getElementFromPckData ?m off (uninit e (length args)) 1 = Some (r, args)"
    using g [of 1 "uninit e (length args)"] by (cases args) (simp_all add: pck_at_def uninit_def)
  show ?thesis
    unfolding server_command_def
    by (simp only: g0 n un ne g1 bind.bind_lunit prod.case if_False u32_of_bytes_of_u32)
qed

lemma server_command_no_args:
  assumes iv: "length iv = 12" "length t = 16" and off: "off = 52 + length (opt_net a)"
  shows "server_command e (host_packet iv t a nonce gs (Some (lim, [bytes_of_u32 opcode], junk)) @ rest) off nd = None"
proof -
  let ?es = "[bytes_of_u32 opcode]"
  let ?m = "host_packet iv t a nonce gs (Some (lim, ?es, junk)) @ rest"
  obtain pre where pre: "?m = pre @ pck_host lim ?es @ rest" "length pre = off"
    using host_packet_pck [OF iv refl off, where nonce = nonce and gs = gs and rest = rest] by blast
  have pl: "pck_len ?es < 2 ^ 32" by (simp add: pck_len_def)
  have "bytes_of_u32 opcode \<noteq> []" by (simp add: bytes_of_u32_def)
  then have at: "pck_at ?es 0 = Some (bytes_of_u32 opcode)" by (simp add: pck_at_def)
  have "getElementFromPckData ?m off (uninit e 4) (of_nat 0) = Some (4, bytes_of_u32 opcode)"
    using getElement_pck_room [of ?es 0 "uninit e 4" off pre lim rest] pre pl at by simp
  moreover have "getElementLengthFromPckData ?m off 1 = Some (- 1)"
    using getElementLength_pck [of ?es 1 off pre lim rest] pre pl by simp
  ultimately show ?thesis by (simp add: server_command_def)
qed

text \<open>A forged answer during the handshake: the decryption fails, and the nonce read is 0.\<close>

lemma client_forged:
  assumes key: "gcm_keyed k" "same_key k (encryptionContext nd)" and ok: "packet_ok p a None iv"
    and enc: "encryptGcm k (plain_part nonce gs (opt_net p)) iv (be32 0 @ opt_net a) 16 0 = (0, k', ct, t)"
    and t': "length t' = 16" "t' \<noteq> t" and room: "8 + length (opt_net p) \<le> length (decryptionBuffer nd)"
    and c: "sessionId c = 0"
  shows "\<exists>l out. client_processMsg e (Some c) (packet_bytes iv t' [] (opt_net a) ct @ rest) nd
    = Some (0, Some (node_establish 0 c), packet_bytes iv t' [] (opt_net a) ct @ rest,
            nd\<lparr>encryptionContext := l, decryptionBuffer := out\<rparr>)"
proof -
  have iv: "length iv = 12" and ne: "nonempty_arg a" using ok by (auto simp: packet_ok_def)
  have "length ct = 8 + length (opt_net p)"
    using gcm.seal_total [OF key(1) packet_aead_sizes [OF ok, of nonce gs]] enc by (auto simp: plain_part_def)
  then have small: "44 + length (opt_net a) + length ct < 2 ^ 31" using ok by (simp add: packet_ok_def)
  obtain l out where "decryptPckData (encryptionContext nd) (packet_bytes iv t' [] (opt_net a) ct @ rest) (decryptionBuffer nd)
      = Some (- 1, l, packet_bytes iv t' [] (opt_net a) ct @ rest, out)" "load32 out 0 = Some 0"
    using decryptPckData_wrong_tag [OF key ok enc t' room] by blast
  then show ?thesis
    by (intro exI [of _ l] exI [of _ out]) (simp add: client_opening [OF iv t'(1) ne small] c)
qed

section \<open>Filling and emptying the queue\<close>

fun add_commands :: "sys \<Rightarrow> arrayList \<Rightarrow> nodeCmdInfo list \<Rightarrow> arrayList option" where
  "add_commands e q [] = Some q"
| "add_commands e q (cmd # cmds) = do { q \<leftarrow> client_addToCommandQueue e q cmd; add_commands e q cmds }"

fun pop_commands :: "nat \<Rightarrow> arrayList \<Rightarrow> (nodeCmdInfo list \<times> arrayList) option" where
  "pop_commands 0 q = Some ([], q)"
| "pop_commands (Suc n) q = do {
     (cmd, q) \<leftarrow> popCommandQueue q;
     (cmds, q) \<leftarrow> pop_commands n q;
     Some (cmd # cmds, q)
   }"

lemma add_holds_room:
  assumes "queue_holds q cmds" "cmd_ok cmd" "al_length q < allocated q"
  shows "\<exists>q'. client_addToCommandQueue e q cmd = Some q' \<and> queue_holds q' (cmds @ [cmd]) \<and> allocated q' = allocated q"
proof -
  have q: "al_ok q" "dataSize q = 36" "al_elems q = map cmd_bytes cmds" "list_all cmd_ok cmds"
    using assms(1) by (auto simp: queue_holds_def represents_def)
  have "length (cmd_bytes cmd) = dataSize q" using assms(2) q(2) by simp
  from addToList_room [OF q(1) assms(3) this, of "sys_alloc e"]
  obtain q' where "addToList (sys_alloc e) q (cmd_bytes cmd) = Some (0, q')" "al_ok q'" "dataSize q' = 36"
    "al_elems q' = map cmd_bytes cmds @ [cmd_bytes cmd]" "allocated q' = allocated q"
    unfolding q(2,3) by blast
  moreover have "serializeCmdInfo (uninit e sizeOfSerializedCmdInfo) cmd = Some (cmd_bytes cmd)"
    by (rule serialize_bytes [OF assms(2)]) (simp add: sizeOfSerializedCmdInfo_def DEVIDLEN_def)
  ultimately show ?thesis
    using assms(2) q(4) by (simp add: client_addToCommandQueue_def queue_holds_def represents_def)
qed

lemma add_commands_holds:
  assumes "queue_holds q cmds" "list_all cmd_ok new" "int (length cmds) + int (length new) \<le> allocated q"
  shows "\<exists>q'. add_commands e q new = Some q' \<and> queue_holds q' (cmds @ new)"
  using assms
proof (induction new arbitrary: q cmds)
  case (Cons cmd new)
  have "al_length q < allocated q"
    using Cons.prems getCommandQueueLength_holds [OF Cons.prems(1)] by (simp add: getCommandQueueLength_def)
  then obtain q' where "client_addToCommandQueue e q cmd = Some q'" "queue_holds q' (cmds @ [cmd])" "allocated q' = allocated q"
    using add_holds_room [OF Cons.prems(1)] Cons.prems(2) by fastforce
  then show ?case using Cons.IH [of q' "cmds @ [cmd]"] Cons.prems by simp
qed simp

lemma pop_commands_holds:
  "queue_holds q (cmds @ others) \<Longrightarrow> \<exists>q'. pop_commands (length cmds) q = Some (cmds, q') \<and> queue_holds q' others"
proof (induction cmds arbitrary: q)
  case (Cons cmd cmds)
  then show ?case using pop_holds [of q cmd "cmds @ others"] by fastforce
qed simp

section \<open>A small node\<close>

definition demo_command :: "byte \<Rightarrow> nodeCmdInfo" where
  "demo_command b = \<lparr>nc_devId = demo_id, nc_devType = 2, nc_opcode = 0, nc_argsLen = 7, nc_args = 4096 + ucast b\<rparr>"

definition demo_heap :: heap where
  "demo_heap = [4097 \<mapsto> [1, 0, 4, 1, 2, 3, 4], 4098 \<mapsto> [0, 0, 4, 1, 2, 3, 4]]"

definition demo_node :: "arrayList \<Rightarrow> send_env list \<Rightarrow> node" where
  "demo_node q envs = \<lparr>nd_devId = demo_id, nd_devType = 2, nodeCommandsQueue = q,
     nd_heap = demo_heap,
     decryptionBuffer = replicate 255 0, nd_sendBuffer = replicate 255 0, encryptionContext = demo_ctx,
     hasEncryptionContextBeenEstablished = True, pointerToKey = demo_key, privateDHKeyBuffer = [],
     nd_wire = \<lparr>w_envs = envs, w_sent = []\<rparr>, nd_saved = [], nd_events = []\<rparr>"

definition idle_node :: node where
  "idle_node = demo_node (initializeCommandQueue zero_alloc) []"

lemma demo_command_ok: "cmd_ok (demo_command b)"
  by (simp add: cmd_ok_def demo_command_def demo_id_def)

lemma demo_queue: "queue_holds (initializeCommandQueue zero_alloc) []" "allocated (initializeCommandQueue zero_alloc) = 5"
  using initializeCommandQueue_holds [of zero_alloc]
  by (simp_all add: initializeCommandQueue_def initList_def sizeOfSerializedCmdInfo_def DEVIDLEN_def)

lemma demo_queue_two:
  obtains q where "queue_holds q [demo_command 1, demo_command 2]"
  using add_commands_holds [OF demo_queue(1), of "[demo_command 1, demo_command 2]" demo_sys] demo_queue(2) demo_command_ok that
  by auto

lemma demo_node_ready:
  assumes "b \<in> {1, 2}"
  shows "node_ready demo_heap (demo_env 115) (demo_command b)"
proof -
  obtain x where h: "demo_heap (nc_args (demo_command b)) = Some [x, 0, 4, 1, 2, 3, 4]"
    using assms by (auto simp: demo_heap_def demo_command_def)
  have "can_send (demo_env 115) p a (replicate 255 0)" if "node_carries (demo_command b) [x, 0, 4, 1, 2, 3, 4] p a" for p a
    using that by (auto simp: node_carries_def demo_command_def demo_id_def can_send_def packet_ok_def nonempty_arg_def
        opt_net_def packet_size_def pck_len_def demo_env_def)
  then show ?thesis using h by (simp add: node_ready_def) (simp add: demo_command_def)
qed

section \<open>Properties\<close>

text \<open>
  C23. The node's queue is first in, first out through its serialisation: commands added while
  the block has room come out, after the ones already queued, in the order they were added and
  with every field intact, and the queue is then empty.
\<close>

theorem node_queue_fifo:
  assumes "queue_holds q cmds" "list_all cmd_ok new" "int (length cmds) + int (length new) \<le> allocated q"
  shows "\<exists>q1 q2. add_commands e q new = Some q1 \<and> getCommandQueueLength q1 = int (length cmds + length new)
    \<and> pop_commands (length cmds + length new) q1 = Some (cmds @ new, q2) \<and> getCommandQueueLength q2 = 0"
proof -
  obtain q1 where q1: "add_commands e q new = Some q1" "queue_holds q1 ((cmds @ new) @ [])"
    using add_commands_holds [OF assms] by auto
  then obtain q2 where "pop_commands (length (cmds @ new)) q1 = Some (cmds @ new, q2)" "queue_holds q2 []"
    using pop_commands_holds by blast
  then show ?thesis using q1 getCommandQueueLength_holds by fastforce
qed

theorem node_queue_fifo_witness:
  "\<exists>q1 q2. add_commands demo_sys (initializeCommandQueue zero_alloc) [demo_command 1, demo_command 2] = Some q1
    \<and> pop_commands 2 q1 = Some ([demo_command 1, demo_command 2], q2)"
  using node_queue_fifo [OF demo_queue(1), of "[demo_command 1, demo_command 2]" demo_sys] demo_queue(2) demo_command_ok
  by (fastforce simp: numeral_2_eq_2)

text \<open>
  In a session the node empties its queue: every queued command goes out, in order, in a
  packet of its own that is sealed with the node's key under the next number of the session
  and carries the device id, the device type, the opcode and the arguments; the send counter
  grows by the number of commands.
\<close>

lemma node_commands_sent:
  assumes "queue_holds (nodeCommandsQueue nd) cmds" "list_all2 (node_ready (nd_heap nd)) envs cmds"
    "w_envs (nd_wire nd) = envs @ others" "gcm_keyed (encryptionContext nd)" "sessionId c \<noteq> 0"
    "malloc (sys_alloc e) 255 \<noteq> None"
  shows "\<exists>ps c' nd'. flush_commands e c nd = Some (c', nd')
    \<and> sendSessionIncrements c' = sendSessionIncrements c + of_nat (length cmds) \<and> sessionId c' = sessionId c
    \<and> w_sent (nd_wire nd') = w_sent (nd_wire nd) @ ps
    \<and> node_sent (encryptionContext nd) (nd_heap nd) c cmds ps
    \<and> queue_holds (nodeCommandsQueue nd') []"
  using send_node_commands_sends [of nd cmds "[]" envs others c e] assms getCommandQueueLength_holds [OF assms(1)]
  by (fastforce simp: flush_commands_def)

text \<open>
  C24. During the handshake the node does not look at the result of the decryption: an answer
  with any other tag is not refused but opens a session with remote nonce 0, whose id is the
  node's own nonce.
\<close>

theorem forged_reply_opens_session:
  assumes "gcm_keyed k" "same_key k (encryptionContext nd)" "packet_ok p a None iv"
    and "encryptGcm k (plain_part nonce gs (opt_net p)) iv (be32 0 @ opt_net a) 16 0 = (0, k', ct, t)"
    and "length t' = 16" "t' \<noteq> t" "8 + length (opt_net p) \<le> length (decryptionBuffer nd)" "sessionId c = 0"
  shows "\<exists>c' m nd'. client_processMsg e (Some c) (packet_bytes iv t' [] (opt_net a) ct @ rest) nd = Some (0, Some c', m, nd')
    \<and> remoteNonce c' = 0 \<and> sessionId c' = htonl (localNonce c)"
  using client_forged [OF assms, of e rest] by (fastforce simp: node_establish_def Let_def)

theorem forged_reply_opens_session_witness:
  "\<exists>w c' m nd'. client_processMsg demo_sys (Some ((fresh_conn 3 0)\<lparr>localNonce := 5\<rparr>)) w idle_node = Some (0, Some c', m, nd')
    \<and> sessionId c' = htonl 5"
proof -
  have ok: "packet_ok None None None (replicate 12 5)" by (simp add: packet_ok_def nonempty_arg_def opt_net_def)
  obtain k' ct t where e: "encryptGcm demo_ctx (plain_part 3 0 (opt_net None)) (replicate 12 5) (be32 0 @ opt_net None) 16 0
      = (0, k', ct, t)" "length t = 16"
    using gcm.seal_total [OF demo_keyed packet_aead_sizes [OF ok, of 3 0]] by auto
  let ?t' = "map (\<lambda>b. b + 1) t"
  have t': "length ?t' = 16" "?t' \<noteq> t" using e(2) by (simp, cases t) auto
  have nd: "same_key demo_ctx (encryptionContext idle_node)"
    "8 + length (opt_net None) \<le> length (decryptionBuffer idle_node)"
    "sessionId ((fresh_conn 3 0)\<lparr>localNonce := 5\<rparr>) = 0"
    by (simp_all add: idle_node_def demo_node_def gcm.same_refl opt_net_def fresh_conn_def)
  from forged_reply_opens_session [OF demo_keyed nd(1) ok e(1) t' nd(2,3), of demo_sys "[]"]
  show ?thesis by auto
qed

text \<open>
  A command of the server without arguments makes the node read the length of an element
  that is not there, -1, as the size of a local array: rebooting or powering off a node has no
  defined behaviour.
\<close>

lemma argument_less_command_undefined:
  assumes "gcm_keyed k" "same_key k (encryptionContext nd)" "packet_ok p a None iv"
    and "p = Some (lim, [bytes_of_u32 opcode], junk)" "sealed k iv a nonce gs p t w"
    and "8 + length (opt_net p) \<le> length (decryptionBuffer nd)" "sessionId c \<noteq> 0"
  shows "client_processMsg e (Some c) (w @ rest) nd = None"
proof -
  have iv: "length iv = 12" "length t = 16"
    using sealed_shape [OF assms(1,3,5)] assms(3) by (auto simp: packet_ok_def)
  show ?thesis
    using client_sealed [OF assms(1-3,5,6), of e c rest] server_command_no_args [OF iv refl] assms(7)
    by (auto simp: Let_def assms(4))
qed

end
