(* ===== verification/Delivery.thy ===== *)
theory Delivery
  imports Wire
begin

text \<open>
  A sequence of messages on one socket, each cut into chunks by the network: every readiness
  event calls \<open>recvAll\<close> once and one message comes out. The locale \<open>packet_handler\<close> is the
  contract between \<open>recvAll\<close> and the handlers it calls back, \<open>processMsg\<close> of the server and of
  the node: on a message the state is ready for, the handler succeeds, keeps the processing
  buffer's size, acts on a view of the state as a pure function, and stays ready for the
  messages to come. From it follows that the whole sequence acts as the composition of the
  pure functions, in whatever chunks each message comes; no chunk has bytes of two messages.
\<close>

fun recv_messages :: "allocator \<Rightarrow> int \<Rightarrow> bool \<Rightarrow> 's callback \<Rightarrow> byte list list list \<Rightarrow> recvHolder list \<Rightarrow> int \<Rightarrow> 's
    \<Rightarrow> byte list \<Rightarrow> (recvHolder list \<times> 's \<times> byte list) option" where
  "recv_messages a junk full cb [] hs sock st pbuf = Some (hs, st, pbuf)"
| "recv_messages a junk full cb (cs # css) hs sock st pbuf = do {
     (_, hs, st, pbuf, _) \<leftarrow> recvAll a junk full cb (map RecvData cs) hs sock st pbuf;
     recv_messages a junk full cb css hs sock st pbuf
   }"

text \<open>
  The chunks of each message, with the fill position of a buffer of \<open>cap\<close> bytes going on from
  one message to the next.
\<close>

fun stream_fits :: "nat \<Rightarrow> nat \<Rightarrow> byte list list \<Rightarrow> byte list list list \<Rightarrow> bool" where
  "stream_fits cap s [] css \<longleftrightarrow> css = []"
| "stream_fits cap s (m # ms) css \<longleftrightarrow> (case css of [] \<Rightarrow> False
     | cs # css \<Rightarrow> placed m cap s \<and> concat cs = m \<and> fits cap s cs \<and> stream_fits cap ((s + length m) mod cap) ms css)"

locale packet_handler =
  fixes handler :: "'s callback" and ready :: "'s \<Rightarrow> 'x \<Rightarrow> bool" and bytes :: "'x \<Rightarrow> byte list"
    and view :: "'s \<Rightarrow> 'v" and effect :: "'x \<Rightarrow> 'v \<Rightarrow> 'v"
  assumes handles: "ready s x \<Longrightarrow> length (bytes x) \<le> length pbuf \<Longrightarrow> MAXMSGLEN \<le> length pbuf \<Longrightarrow>
      \<exists>s' pbuf'. handler s (bytes x @ drop (length (bytes x)) pbuf) = Some (s', pbuf') \<and> length pbuf' = length pbuf
        \<and> view s' = effect x (view s) \<and> (\<forall>y. ready s y \<longrightarrow> ready s' y)"
begin

lemma all_handled:
  assumes "\<forall>x\<in>set xs. ready s x \<and> length (bytes x) \<le> length pbuf" "MAXMSGLEN \<le> length pbuf"
    "\<forall>g\<in>set hs1 \<union> set hs2. rh_socket g \<noteq> rh_socket h" "idle h cap pos" "stream_fits cap pos (map bytes xs) css"
  shows "\<exists>h' s' pbuf'. recv_messages a junk full handler css (hs1 @ h # hs2) (rh_socket h) s pbuf
      = Some (hs1 @ h' # hs2, s', pbuf')
    \<and> view s' = fold effect xs (view s) \<and> (\<forall>y. ready s y \<longrightarrow> ready s' y)
    \<and> rh_socket h' = rh_socket h \<and> (\<exists>pos'. idle h' cap pos') \<and> length pbuf' = length pbuf"
  using assms
proof (induction xs arbitrary: s pbuf h pos css)
  case Nil
  then show ?case by auto
next
  case (Cons x xs)
  obtain cs css' where css: "css = cs # css'" "placed (bytes x) cap pos" "concat cs = bytes x" "fits cap pos cs"
    "stream_fits cap ((pos + length (bytes x)) mod cap) (map bytes xs) css'"
    using Cons.prems(5) by (auto split: list.splits)
  obtain s1 pbuf1 where one: "handler s (bytes x @ drop (length (bytes x)) pbuf) = Some (s1, pbuf1)" "length pbuf1 = length pbuf"
    "view s1 = effect x (view s)" "\<forall>y. ready s y \<longrightarrow> ready s1 y"
    using handles [of s x pbuf] Cons.prems(1,2) by auto
  have d: "deliver handler (bytes x) s pbuf = Some (s1, pbuf1)"
    using Cons.prems(1) one(1) by (simp add: deliver_def)
  obtain h1 where h1: "recvAll a junk full handler (map RecvData cs) (hs1 @ h # hs2) (rh_socket h) s pbuf
      = Some (0, hs1 @ h1 # hs2, s1, pbuf1, [])" "rh_socket h1 = rh_socket h"
    "idle h1 cap ((pos + length (bytes x)) mod cap)"
    using recvAll_message [OF pick_found [OF Cons.prems(3)] Cons.prems(4) css(2-4), where cb = handler and st = s and pbuf = pbuf
        and a = a and junk = junk and full = full and rs = "[]"] d
    by auto
  have "\<forall>x\<in>set xs. ready s1 x \<and> length (bytes x) \<le> length pbuf1" "MAXMSGLEN \<le> length pbuf1"
    "\<forall>g\<in>set hs1 \<union> set hs2. rh_socket g \<noteq> rh_socket h1"
    using Cons.prems(1-3) one(2,4) h1(2) by simp_all
  from Cons.IH [OF this h1(3) css(5)]
  obtain h' s' pbuf' pos' where more: "recv_messages a junk full handler css' (hs1 @ h1 # hs2) (rh_socket h) s1 pbuf1
      = Some (hs1 @ h' # hs2, s', pbuf')" "view s' = fold effect xs (view s1)" "\<forall>y. ready s1 y \<longrightarrow> ready s' y"
    "rh_socket h' = rh_socket h" "idle h' cap pos'" "length pbuf' = length pbuf1"
    unfolding h1(2) by (elim exE conjE) (rule that)
  have "recv_messages a junk full handler css (hs1 @ h # hs2) (rh_socket h) s pbuf = Some (hs1 @ h' # hs2, s', pbuf')"
    by (simp add: css(1) h1(1) more(1))
  moreover have "view s' = fold effect (x # xs) (view s)" by (simp add: more(2) one(3))
  moreover have "\<forall>y. ready s y \<longrightarrow> ready s' y" using one(4) more(3) by blast
  moreover have "length pbuf' = length pbuf" by (simp add: more(6) one(2))
  ultimately show ?case using more(4,5) by blast
qed

end

end
