(* ===== verification/SocketThread.thy ===== *)
theory SocketThread
  imports Delivery Node
begin

text \<open>
  The thread of the node that talks to the server, \<open>socketThread.c\<close>: it looks for the server's
  broadcast, and at every wake-up connects and either asks for a key or opens a session, sends
  its queue and reads the answers. What the system answers (whether the connection came up, the
  results of \<open>recv\<close>, the state of the lock for the beacon) are arguments.
\<close>

section \<open>Finding the server\<close>

definition broadcastMessageExpected :: "byte list" where
  "broadcastMessageExpected = map of_char ''BroadcastV100000''"

text \<open>
  The constant of \<open>compileFlag.h\<close> that says whether the server is on the same computer, and the loop
  over \<open>recvfrom\<close>, \<open>None\<close> an error: the socket is closed after the first datagram, whatever it
  holds, and \<open>recvfrom\<close> on a closed socket fails. The sender's address is overwritten where the
  constant is 1, as it is in the repository.
\<close>

definition localPlatform :: int where "localPlatform = 1"

fun find_server :: "int \<Rightarrow> bool \<Rightarrow> (byte list \<times> string) option list \<Rightarrow> string option" where
  "find_server platform is_open [] = None"
| "find_server platform is_open (None # ds) = find_server platform is_open ds"
| "find_server platform is_open (Some (msg, ip) # ds) =
     (if is_open then
        if take 16 (msg @ replicate 100 0) = broadcastMessageExpected
        then let controllerIp = ip in Some (if platform = 1 then ''127.0.0.1'' else controllerIp)
        else find_server platform False ds
      else find_server platform is_open ds)"

lemma find_server_closed: "find_server platform False ds = None"
proof (induction ds)
  case (Cons d ds)
  then show ?case by (cases d) auto
qed simp

section \<open>A wake-up\<close>

record socket_thread =
  th_node :: node
  connInfo :: connInfo_t
  th_holders :: "recvHolder list"
  recvProcessingBuffer :: "byte list"
  reconnectAttempts :: int
  mainControllerIp :: string

definition MAX_RECONNECT_ATTEMPTS :: int where "MAX_RECONNECT_ATTEMPTS = 5"

definition initializeSocket :: "int \<Rightarrow> socket_thread \<Rightarrow> socket_thread" where
  "initializeSocket sock th = th\<lparr>connInfo := initializeConnInfo sock\<rparr>"

definition connection_failed :: "socket_thread \<Rightarrow> socket_thread" where
  "connection_failed th =
     (let th = th\<lparr>reconnectAttempts := reconnectAttempts th + 1\<rparr>;
          th = (if reconnectAttempts th > MAX_RECONNECT_ATTEMPTS
                then th\<lparr>mainControllerIp := ''NONE'', reconnectAttempts := 0\<rparr> else th)
      in th\<lparr>connInfo := initializeConnInfo 0\<rparr>)"

text \<open>\<open>recvAll\<close> with the node's handler as its callback.\<close>

definition client_callback :: "sys \<Rightarrow> (connInfo_t option \<times> node) callback" where
  "client_callback e = (\<lambda>(c, nd) m. map_option (\<lambda>(r, c, m, nd). ((c, nd), m)) (client_processMsg e c m nd))"

definition client_recv :: "sys \<Rightarrow> int \<Rightarrow> int \<Rightarrow> recv_result list \<Rightarrow> recvHolder list \<Rightarrow> connInfo_t option \<times> node \<Rightarrow> byte list
    \<Rightarrow> (int \<times> recvHolder list \<times> (connInfo_t option \<times> node) \<times> byte list \<times> recv_result list) option" where
  "client_recv e junk sock results hs st pbuf =
     recvAll (sys_alloc e) junk (sys_full e) (client_callback e) results hs sock st pbuf"

text \<open>
  The loop that waits for the server's nonce ends on the result 0 (a message came) and -1 (an
  error), so a connection that the server closed, the result 1, is asked again.
\<close>

partial_function (option) wait_session :: "sys \<Rightarrow> int \<Rightarrow> int \<Rightarrow> recv_result list \<Rightarrow> recvHolder list \<Rightarrow> connInfo_t option \<times> node
    \<Rightarrow> byte list \<Rightarrow> (recvHolder list \<times> (connInfo_t option \<times> node) \<times> byte list \<times> recv_result list) option" where
  "wait_session e junk sock results hs st pbuf =
     (case fst st of
        None \<Rightarrow> None
      | Some c \<Rightarrow>
          if sessionId c \<noteq> 0 then Some (hs, st, pbuf, results)
          else do {
            (r, hs, st, pbuf, results) \<leftarrow> client_recv e junk sock results hs st pbuf;
            if r = 0 \<or> r = - 1 then Some (hs, st, pbuf, results)
            else wait_session e junk sock results hs st pbuf
          })"

text \<open>The beacon of a smart lock; \<open>lock\<close> holds the pointer \<open>malloc\<close> returns and the lock's state.\<close>

definition queue_beacon :: "sys \<Rightarrow> byte \<Rightarrow> u64 \<times> byte \<times> byte \<times> byte list \<times> byte \<Rightarrow> node \<Rightarrow> node option" where
  "queue_beacon e targetDevtype lock nd =
     (if targetDevtype = 2 then
        let (ptr, lockState, doorState, passcode, passcodeLen) = lock in do {
          (cmd, nd) \<leftarrow> composeSmartLockBeaconCmdInfo ptr lockState doorState passcode passcodeLen nd;
          q \<leftarrow> client_addToCommandQueue e (nodeCommandsQueue nd) cmd;
          Some (nd\<lparr>nodeCommandsQueue := q\<rparr>)
        }
      else Some nd)"

definition exchange_key :: "sys \<Rightarrow> byte \<Rightarrow> int \<Rightarrow> int \<Rightarrow> recv_result list \<Rightarrow> socket_thread \<Rightarrow> socket_thread option" where
  "exchange_key e targetDevtype junk sock results th = do {
     nd \<leftarrow> request_key e sock targetDevtype (th_node th);
     (_, hs, (_, nd), pbuf, _) \<leftarrow> client_recv e junk sock results (th_holders th) (None, nd) (recvProcessingBuffer th);
     Some (th\<lparr>th_node := nd, th_holders := hs, recvProcessingBuffer := pbuf\<rparr>)
   }"

definition run_session :: "sys \<Rightarrow> byte \<Rightarrow> u64 \<times> byte \<times> byte \<times> byte list \<times> byte \<Rightarrow> int \<Rightarrow> int \<Rightarrow> recv_result list
    \<Rightarrow> socket_thread \<Rightarrow> socket_thread option" where
  "run_session e targetDevtype lock junk sock results th = do {
     (hs, (c, nd), pbuf, results) \<leftarrow>
       (if localNonce (connInfo th) = 0 then do {
          (c, nd) \<leftarrow> send_nonce e (connInfo th) (th_node th);
          wait_session e junk sock results (th_holders th) (Some c, nd) (recvProcessingBuffer th)
        } else Some (th_holders th, (Some (connInfo th), th_node th), recvProcessingBuffer th, results));
     c \<leftarrow> c;
     (hs, nd, pbuf) \<leftarrow>
       (if sessionId c \<noteq> 0 then do {
          nd \<leftarrow> queue_beacon e targetDevtype lock nd;
          (c, nd) \<leftarrow> flush_commands e c nd;
          (_, hs, (_, nd), pbuf, _) \<leftarrow> client_recv e junk sock results hs (Some c, nd) pbuf;
          Some (hs, nd, pbuf)
        } else Some (hs, nd, pbuf));
     Some (th\<lparr>th_node := nd, connInfo := initializeConnInfo 0, th_holders := hs, recvProcessingBuffer := pbuf\<rparr>)
   }"

definition wake_up :: "sys \<Rightarrow> byte \<Rightarrow> u64 \<times> byte \<times> byte \<times> byte list \<times> byte \<Rightarrow> int \<Rightarrow> int \<Rightarrow> bool \<Rightarrow> recv_result list
    \<Rightarrow> socket_thread \<Rightarrow> socket_thread option" where
  "wake_up e targetDevtype lock junk sock connected results th =
     (let th = initializeSocket sock th in
      if \<not> connected then Some (connection_failed th)
      else if \<not> hasEncryptionContextBeenEstablished (th_node th) then exchange_key e targetDevtype junk sock results th
      else run_session e targetDevtype lock junk sock results th)"

section \<open>Between wake-ups\<close>

text \<open>The states of the thread: any sequence of wake-ups, each with answers of its own.\<close>

inductive thread_reachable :: "sys \<Rightarrow> byte \<Rightarrow> socket_thread \<Rightarrow> socket_thread \<Rightarrow> bool" for e devtype th0 where
  at_start: "thread_reachable e devtype th0 th0"
| woken: "thread_reachable e devtype th0 th \<Longrightarrow> wake_up e devtype lock junk sock connected results th = Some th'
    \<Longrightarrow> thread_reachable e devtype th0 th'"

inductive_cases thread_reachableE: "thread_reachable e devtype th0 th"

definition no_session :: "connInfo_t \<Rightarrow> bool" where
  "no_session c \<longleftrightarrow> sessionId c = 0 \<and> localNonce c = 0 \<and> remoteNonce c = 0 \<and> sendSessionIncrements c = 0"

lemma no_session_init [simp]: "no_session (initializeConnInfo sock)"
  by (simp add: no_session_def initializeConnInfo_def)

definition thread_ok :: "socket_thread \<Rightarrow> bool" where
  "thread_ok th \<longleftrightarrow> no_session (connInfo th) \<and> 0 \<le> reconnectAttempts th \<and> reconnectAttempts th \<le> MAX_RECONNECT_ATTEMPTS"

lemma exchange_key_keeps:
  "exchange_key e devtype junk sock results th = Some th' \<Longrightarrow>
     connInfo th' = connInfo th \<and> reconnectAttempts th' = reconnectAttempts th"
  by (auto simp: exchange_key_def bind_eq_Some_conv)

lemma run_session_keeps:
  "run_session e devtype lock junk sock results th = Some th' \<Longrightarrow>
     connInfo th' = initializeConnInfo 0 \<and> reconnectAttempts th' = reconnectAttempts th"
  by (auto simp: run_session_def bind_eq_Some_conv)

lemma wake_up_ok:
  assumes "wake_up e devtype lock junk sock connected results th = Some th'" "thread_ok th"
  shows "thread_ok th'"
proof -
  consider "th' = connection_failed (initializeSocket sock th)"
    | "exchange_key e devtype junk sock results (initializeSocket sock th) = Some th'"
    | "run_session e devtype lock junk sock results (initializeSocket sock th) = Some th'"
    using assms(1) unfolding wake_up_def Let_def
    by (cases connected; cases "hasEncryptionContextBeenEstablished (th_node (initializeSocket sock th))"; simp only: if_True if_False
        HOL.simp_thms option.inject)
  then show ?thesis
  proof cases
    case 1
    then show ?thesis using assms(2) by (auto simp: thread_ok_def connection_failed_def initializeSocket_def MAX_RECONNECT_ATTEMPTS_def Let_def)
  next
    case 2
    then show ?thesis using assms(2) exchange_key_keeps [OF 2] by (simp add: thread_ok_def initializeSocket_def)
  next
    case 3
    then show ?thesis using assms(2) run_session_keeps [OF 3] by (simp add: thread_ok_def initializeSocket_def)
  qed
qed

section \<open>A connection closed in the handshake\<close>

lemma client_recv_closed:
  assumes "\<forall>g\<in>set xs \<union> set ys. rh_socket g \<noteq> sock \<and> rh_socket g \<noteq> - 1" "recvQueue h = Some q"
    "rh_socket h \<in> {sock, - 1}" "sock \<noteq> - 1"
  shows "\<exists>h'. client_recv e junk sock (RecvClosed # results) (xs @ h # ys) st pbuf
      = Some (1, xs @ h' # ys, st, pbuf, results) \<and> recvQueue h' = Some q \<and> rh_socket h' = - 1"
proof -
  have pick: "pick_holder (sys_alloc e) junk (sys_full e) (xs @ h # ys) sock = Some (int (length xs), xs @ h # ys)"
  proof (cases "rh_socket h = sock")
    case True
    then show ?thesis using pick_found [of xs ys h] assms(1) by auto
  next
    case False
    then have s: "\<forall>g\<in>set (xs @ h # ys). rh_socket g \<noteq> sock" using assms by auto
    have "find_index (\<lambda>g. rh_socket g = - 1) (xs @ h # ys) = Some (length xs)"
      using assms(1,3) False by (induction xs) auto
    then show ?thesis using pick_other [OF s] by simp
  qed
  show ?thesis
    using recvAll_loop [OF pick, of "client_callback e" "RecvClosed # results"] assms(2)
    by (auto simp: client_recv_def resetRecvHolder_def)
qed

text \<open>Any number of closed answers is consumed, and the thread waits again.\<close>

lemma wait_session_closed:
  assumes "\<forall>g\<in>set xs \<union> set ys. rh_socket g \<noteq> sock \<and> rh_socket g \<noteq> - 1" "recvQueue h = Some q"
    "rh_socket h \<in> {sock, - 1}" "sock \<noteq> - 1" "sessionId c = 0"
  shows "\<exists>h'. wait_session e junk sock (replicate n RecvClosed @ results) (xs @ h # ys) (Some c, nd) pbuf
      = wait_session e junk sock results (xs @ h' # ys) (Some c, nd) pbuf
    \<and> recvQueue h' = Some q \<and> rh_socket h' \<in> {sock, - 1}"
  using assms(2,3)
proof (induction n arbitrary: h)
  case (Suc n)
  obtain h1 where h1: "client_recv e junk sock (RecvClosed # replicate n RecvClosed @ results) (xs @ h # ys) (Some c, nd) pbuf
      = Some (1, xs @ h1 # ys, (Some c, nd), pbuf, replicate n RecvClosed @ results)" "recvQueue h1 = Some q" "rh_socket h1 = - 1"
    using client_recv_closed [OF assms(1) Suc.prems assms(4)] by blast
  have "wait_session e junk sock (replicate (Suc n) RecvClosed @ results) (xs @ h # ys) (Some c, nd) pbuf
      = wait_session e junk sock (replicate n RecvClosed @ results) (xs @ h1 # ys) (Some c, nd) pbuf"
    using assms(5) h1(1) by (subst wait_session.simps) simp
  then show ?case using Suc.IH [of h1] h1(2,3) by auto
qed auto

section \<open>Properties\<close>

text \<open>
  C27. Between wake-ups the node has no session: in every state the thread reaches from its start
  the connection's session id, nonces and send counter are 0, so each session starts with fresh
  nonces; and the count of failed connections stays between 0 and its limit.
\<close>

theorem no_session_between_wake_ups:
  assumes "thread_reachable e devtype th0 th" "no_session (connInfo th0)" "reconnectAttempts th0 = 0"
  shows "no_session (connInfo th) \<and> 0 \<le> reconnectAttempts th \<and> reconnectAttempts th \<le> MAX_RECONNECT_ATTEMPTS"
proof -
  have "thread_ok th"
    using assms(1)
  proof induction
    case at_start
    then show ?case using assms(2,3) by (simp add: thread_ok_def MAX_RECONNECT_ATTEMPTS_def)
  qed (rule wake_up_ok)
  then show ?thesis by (simp add: thread_ok_def)
qed

definition demo_thread :: socket_thread where
  "demo_thread = \<lparr>th_node = idle_node, connInfo = initializeConnInfo 0, th_holders = [], recvProcessingBuffer = replicate 255 0,
     reconnectAttempts = 0, mainControllerIp = ''10.0.0.2''\<rparr>"

theorem no_session_between_wake_ups_witness:
  "\<exists>th. wake_up demo_sys 2 (1, 0, 0, [], 0) 0 3 False [] demo_thread = Some th \<and> no_session (connInfo th)
    \<and> reconnectAttempts th \<le> MAX_RECONNECT_ATTEMPTS"
proof -
  let ?th = "connection_failed (initializeSocket 3 demo_thread)"
  have w: "wake_up demo_sys 2 (1, 0, 0, [], 0) 0 3 False [] demo_thread = Some ?th" by (simp add: wake_up_def)
  have r: "thread_reachable demo_sys 2 demo_thread ?th" using thread_reachable.at_start w by (rule thread_reachable.woken)
  show ?thesis
    using w no_session_between_wake_ups [OF r] by (simp add: demo_thread_def)
qed

text \<open>
  A server that closes the connection while the node waits for its nonce keeps the thread
  waiting: \<open>recvAll\<close> reports the closed connection as 1, the loop ends only on 0 and -1, and
  \<open>recv\<close> on a closed connection goes on answering 0 bytes; any number of such answers leads
  back to the same wait.
\<close>

lemma closed_handshake_waits:
  assumes "\<forall>g\<in>set xs \<union> set ys. rh_socket g \<noteq> sock \<and> rh_socket g \<noteq> - 1" "recvQueue h = Some q" "rh_socket h = sock"
    "sock \<noteq> - 1" "sessionId c = 0"
  shows "\<exists>h'. wait_session e junk sock (replicate n RecvClosed @ results) (xs @ h # ys) (Some c, nd) pbuf
      = wait_session e junk sock results (xs @ h' # ys) (Some c, nd) pbuf"
proof -
  have "rh_socket h \<in> {sock, - 1}" using assms(3) by simp
  then show ?thesis
    using wait_session_closed [OF assms(1,2) _ assms(4,5), of e junk n results nd pbuf] by blast
qed

text \<open>
  The node looks at one datagram only: it closes the broadcast socket before it checks what
  it received, so after a datagram that is not the server's it never finds the server.
\<close>

lemma foreign_broadcast_blocks_discovery:
  assumes "take 16 (msg @ replicate 100 0) \<noteq> broadcastMessageExpected"
  shows "find_server platform True (replicate n None @ Some (msg, ip) # ds) = None"
  using assms find_server_closed by (induction n) simp_all

end
