(* ===== verification/EcdhField.thy ===== *)
theory EcdhField
  imports Ecdh
begin

text \<open>
  The reduction polynomial of \<open>ecdh.c\<close> gives a field: every polynomial that is not a multiple of it
  is invertible modulo it.

  The argument: squaring 163 times is the identity modulo the polynomial, and only 0 and 1 are equal to
  their squares. Then \<open>a ^ (2 ^ 163 - 1)\<close> is its own square and not 0, so it is 1, a multiple of \<open>a\<close>.
\<close>

section \<open>Products of polynomials\<close>

definition cl :: "nat \<Rightarrow> nat \<Rightarrow> nat" where
  "cl a b = pmul (blen a) a b"

lemma blen_less: "a < 2 ^ blen a"
  using blen_le [of a "blen a"] by simp

lemma cl_pmul: "a < 2 ^ n \<Longrightarrow> pmul n a b = cl a b"
  unfolding cl_def by (rule pmul_extend [OF blen_less]) (simp add: blen_le)

lemma less_max_blen: "a < 2 ^ max (blen a) (blen b)" "a < 2 ^ max (blen b) (blen a)"
  by (simp_all flip: blen_le)

lemma cl_xor_left: "cl (a XOR b) c = cl a c XOR cl b c"
proof -
  let ?n = "max (blen a) (blen b)"
  have "a XOR b < 2 ^ ?n" using blen_xor [of a b] by (simp only: blen_le)
  then show ?thesis
    using pmul_xor [of ?n a b c] cl_pmul [of "a XOR b" ?n c] cl_pmul [of a ?n c] cl_pmul [of b ?n c]
      less_max_blen [of a b] less_max_blen [of b a] by simp
qed

lemma cl_0 [simp]: "cl 0 b = 0" "cl a 0 = 0"
proof -
  show "cl 0 b = 0" by (simp add: cl_def)
  have "pmul n a 0 = 0" for n by (induction n) simp_all
  then show "cl a 0 = 0" by (simp add: cl_def)
qed

lemma cl_1 [simp]: "cl 1 b = b" "cl (Suc 0) b = b"
  by (simp_all add: cl_def bit_0)

lemma cl_push_left: "cl (push_bit i a) b = push_bit i (cl a b)"
proof -
  have "push_bit i a < 2 ^ (blen a + i)"
    by (simp flip: blen_le) (simp add: blen_push)
  then show ?thesis using pmul_push [OF blen_less, of a i b] cl_pmul by (simp add: cl_def)
qed

lemma cl_xor_right: "cl a (b XOR c) = cl a b XOR cl a c"
proof -
  have "pmul n a (b XOR c) = pmul n a b XOR pmul n a c" for n
    by (induction n) (simp_all add: push_xor xor.assoc xor.left_commute)
  then show ?thesis by (simp add: cl_def)
qed

lemma cl_push_right: "cl a (push_bit i b) = push_bit i (cl a b)"
proof -
  have "pmul n a (push_bit i b) = push_bit i (pmul n a b)" for n
    by (induction n) (simp_all add: push_xor push_bit_push_bit add.commute)
  then show ?thesis by (simp add: cl_def)
qed

text \<open>Every polynomial is a sum of powers.\<close>

definition pw :: "nat \<Rightarrow> nat" where
  "pw i = push_bit i 1"

lemma bit_pw: "bit (pw i) n \<longleftrightarrow> n = i"
  by (auto simp: pw_def bit_simps)

lemma pw_1: "pw 0 = 1" "push_bit j (pw i) = pw (i + j)"
  by (simp_all add: pw_def push_bit_nat_def power_add)

lemma xor_induct [case_names zero power]:
  assumes "P 0" "\<And>a i. P a \<Longrightarrow> P (pw i XOR a)"
  shows "P (a :: nat)"
proof -
  have "P (take_bit n a)" for n
  proof (induction n)
    case (Suc n)
    have "take_bit (Suc n) a = (if bit a n then pw n XOR take_bit n a else take_bit n a)"
      by (rule bit_eqI) (auto simp: bit_take_bit_iff bit_xor_iff bit_pw less_Suc_eq)
    then show ?case using Suc assms(2) by simp
  qed (simp add: assms(1))
  then have "P (take_bit (blen a) a)" .
  moreover have "take_bit (blen a) a = a" using blen_less [of a] by (simp add: take_bit_nat_eq_self_iff)
  ultimately show ?thesis by simp
qed

lemma cl_pw: "cl (pw i) b = push_bit i b" "cl b (pw i) = push_bit i b"
proof -
  show "cl (pw i) b = push_bit i b" for i b using cl_push_left [of i 1 b] by (simp add: pw_def del: push_bit_of_1)
  then show "cl b (pw i) = push_bit i b"
    by (induction b rule: xor_induct) (simp_all add: cl_xor_left push_xor pw_1 add.commute)
qed

lemmas cl_linear = cl_xor_left cl_xor_right cl_push_left cl_push_right cl_pw

lemma cl_one_right [simp]: "cl a 1 = a" "cl a (Suc 0) = a"
  using cl_pw(2) [of a 0] by (simp_all add: pw_1(1))

lemma cl_commute: "cl a b = cl b a"
  by (induction a rule: xor_induct) (simp_all add: cl_linear)

lemma cl_assoc: "cl (cl a b) c = cl a (cl b c)"
  by (induction a rule: xor_induct) (simp_all add: cl_linear)

lemma cl_left_commute: "cl a (cl b c) = cl b (cl a c)"
  by (metis cl_assoc cl_commute)

lemmas cl_ac = cl_assoc cl_commute cl_left_commute

section \<open>Congruence\<close>

lemma ideal_cl: "a \<in> ideal S \<Longrightarrow> cl b a \<in> ideal S"
  by (induction b rule: xor_induct) (auto simp: cl_linear intro: ideal_xor ideal_push)

lemma cong_cl: "cong a b \<Longrightarrow> cong c d \<Longrightarrow> cong (cl a c) (cl b d)"
proof -
  assume ab: "cong a b" and cd: "cong c d"
  have "cl a c XOR cl b c = cl c (a XOR b)" "cl b c XOR cl b d = cl b (c XOR d)"
    by (simp_all add: cl_linear cl_commute)
  then have "cong (cl a c) (cl b c)" "cong (cl b c) (cl b d)" using ideal_cl [OF ab] ideal_cl [OF cd] by simp_all
  then show ?thesis by (rule cong_trans)
qed

lemma cong_refl [simp]: "cong a a"
  by simp

lemma curve_sum: "curve = pw 163 XOR (pw 0 XOR (pw 3 XOR (pw 6 XOR pw 7)))"
  by (rule bit_eqI) (auto simp: bit_P bit_xor_iff bit_pw)

text \<open>A power with an exponent of at least 163, reduced once.\<close>

lemma cong_reduce: "cong (cl (pw 163) h) (h XOR (cl (pw 3) h XOR (cl (pw 6) h XOR cl (pw 7) h)))"
proof -
  have "cl (pw 163) h XOR (h XOR (cl (pw 3) h XOR (cl (pw 6) h XOR cl (pw 7) h))) = cl curve h"
    unfolding curve_sum cl_xor_left by (simp add: pw_1(1))
  then have "cl (pw 163) h XOR (h XOR (cl (pw 3) h XOR (cl (pw 6) h XOR cl (pw 7) h))) = cl h curve"
    by (simp add: cl_commute)
  then show ?thesis using ideal_cl [OF ideal_gen [of curve "{curve}"]] by simp
qed

lemma reduced_exists: "\<exists>r. blen r \<le> 163 \<and> cong a r"
proof (induction "blen a" arbitrary: a rule: less_induct)
  case less
  show ?case
  proof (cases "blen a \<le> 163")
    case False
    define i where "i = blen a - 164"
    have c: "blen (push_bit i curve) = blen a" using False blen_P blen_0(1) by (auto simp: blen_push i_def)
    have a: "a \<noteq> 0" using False by (cases "a = 0") simp_all
    let ?b = "a XOR push_bit i curve"
    have "blen ?b < blen a" using blen_cancel [of a "push_bit i curve"] c a by simp
    then obtain r where r: "blen r \<le> 163" "cong ?b r" using less by blast
    have "cong a ?b" using ideal_shift [of curve "{curve}" i] by simp
    then show ?thesis using r cong_trans by blast
  qed (use cong_refl in blast)
qed

lemma cong_reduced: "cong a b \<Longrightarrow> blen a \<le> 163 \<Longrightarrow> blen b \<le> 163 \<Longrightarrow> a = b"
  using ideal_P_small [of "a XOR b"] blen_xor [of a b] xor_cancel [of a b 0] by auto

section \<open>Squares\<close>

definition sq :: "nat \<Rightarrow> nat" where
  "sq a = cl a a"

lemma sq_xor: "sq (a XOR b) = sq a XOR sq b"
proof -
  have "x XOR (y XOR (y XOR z)) = x XOR z" for x y z :: nat by simp
  then show ?thesis by (simp add: sq_def cl_linear xor.assoc cl_commute [of b a])
qed

lemma sq_0 [simp]: "sq 0 = 0" "sq 1 = 1" "sq (Suc 0) = Suc 0"
  by (simp_all add: sq_def)

lemma sq_cl: "sq (cl a b) = cl (sq a) (sq b)"
  by (simp add: sq_def cl_ac)

lemma cong_sq: "cong a b \<Longrightarrow> cong (sq a) (sq b)"
  unfolding sq_def by (rule cong_cl)

definition frob :: "nat \<Rightarrow> nat \<Rightarrow> nat" where
  "frob n = sq ^^ n"

lemma frob_simps [simp]: "frob 0 a = a" "frob (Suc n) a = sq (frob n a)"
  by (simp_all add: frob_def)

lemma frob_0 [simp]: "frob n 0 = 0" "frob n 1 = 1" "frob n (Suc 0) = Suc 0"
  by (induction n) (simp_all del: One_nat_def add: One_nat_def [symmetric])

lemma frob_xor: "frob n (a XOR b) = frob n a XOR frob n b"
  by (induction n) (simp_all add: sq_xor)

lemma frob_cl: "frob n (cl a b) = cl (frob n a) (frob n b)"
  by (induction n) (simp_all add: sq_cl)

section \<open>Squaring 163 times\<close>

text \<open>Polynomials as lists of bits, to compute with; the value of a list.\<close>

primrec poly_val :: "bool list \<Rightarrow> nat" where
  "poly_val [] = 0"
| "poly_val (b # bs) = of_bool b XOR cl (pw 1) (poly_val bs)"

fun xorl :: "bool list \<Rightarrow> bool list \<Rightarrow> bool list" where
  "xorl [] ys = ys"
| "xorl xs [] = xs"
| "xorl (x # xs) (y # ys) = (x \<noteq> y) # xorl xs ys"

primrec spread :: "bool list \<Rightarrow> bool list" where
  "spread [] = []"
| "spread (b # bs) = b # False # spread bs"

definition reduce :: "bool list \<Rightarrow> bool list" where
  "reduce bs = (let h = drop 163 bs; h3 = False # False # False # h; h6 = False # False # False # h3
     in xorl (take 163 bs) (xorl h (xorl h3 (xorl h6 (False # h6)))))"

definition square :: "bool list \<Rightarrow> bool list" where
  "square bs = reduce (reduce (spread bs))"

lemma of_bool_xor: "of_bool (x \<noteq> y) = (of_bool x XOR of_bool y :: nat)"
  by simp

lemma val_xorl: "poly_val (xorl xs ys) = poly_val xs XOR poly_val ys"
  by (induction xs ys rule: xorl.induct)
    (simp_all add: of_bool_xor cl_xor_right xor.assoc xor.left_commute del: of_bool_eq of_bool_eq_iff)

lemma pw_pw: "cl (pw i) (cl (pw j) a) = cl (pw (i + j)) a"
proof -
  have "cl (pw i) (pw j) = pw (i + j)" by (simp add: cl_pw(1) pw_1(2) add.commute)
  then show ?thesis by (simp flip: cl_assoc)
qed

lemma val_spread: "poly_val (spread bs) = sq (poly_val bs)"
proof (induction bs)
  case (Cons b bs)
  have "sq (cl (pw 1) (poly_val bs)) = cl (pw 1) (cl (pw 1) (sq (poly_val bs)))"
    unfolding sq_cl sq_def [of "pw 1"] cl_assoc ..
  then show ?case using Cons by (cases b) (simp_all add: sq_xor)
qed simp

lemma val_split: "poly_val bs = poly_val (take n bs) XOR cl (pw n) (poly_val (drop n bs))"
proof (induction n arbitrary: bs)
  case 0
  show ?case by (simp add: pw_1(1))
next
  case (Suc n)
  show ?case
  proof (cases bs)
    case (Cons b cs)
    then show ?thesis using arg_cong [OF Suc [of cs], of "cl (pw 1)"] by (simp add: cl_xor_right pw_pw xor.assoc)
  qed simp
qed

lemma cong_reduce_val: "cong (poly_val (reduce bs)) (poly_val bs)"
proof -
  let ?h = "poly_val (drop 163 bs)"
  have "poly_val (reduce bs) = poly_val (take 163 bs) XOR (?h XOR (cl (pw 3) ?h XOR (cl (pw 6) ?h XOR cl (pw 7) ?h)))"
    by (simp add: reduce_def Let_def val_xorl cl_xor_right pw_pw eval_nat_numeral)
  moreover have "cong (poly_val (take 163 bs) XOR cl (pw 163) ?h) (poly_val (take 163 bs) XOR (?h XOR (cl (pw 3) ?h XOR (cl (pw 6) ?h XOR cl (pw 7) ?h))))"
    by (rule cong_xor [OF _ cong_reduce]) simp
  ultimately show ?thesis using val_split [of bs 163] cong_sym by simp
qed

lemma cong_square: "cong (poly_val (square bs)) (sq (poly_val bs))"
  unfolding square_def val_spread [symmetric] using cong_reduce_val cong_trans by blast

fun squares :: "nat \<Rightarrow> bool list \<Rightarrow> bool list" where
  "squares 0 bs = bs"
| "squares (Suc n) bs = squares n (square bs)"

lemma frob_sq: "frob n (sq a) = sq (frob n a)"
  by (induction n) simp_all

lemma cong_frob: "cong a b \<Longrightarrow> cong (frob n a) (frob n b)"
  by (induction n) (simp_all add: cong_sq)

lemma cong_squares: "cong (poly_val (squares n bs)) (frob n (poly_val bs))"
proof (induction n arbitrary: bs)
  case (Suc n)
  show ?case
    using cong_trans [OF Suc cong_frob [OF cong_square]] by (simp add: frob_sq)
qed simp


lemma squares_163: "list_all Not (xorl (squares 163 [False, True]) [False, True])"
  by code_simp

lemma val_zero: "list_all Not bs \<Longrightarrow> poly_val bs = 0"
  by (induction bs) simp_all

lemma frob_pw1: "cong (frob 163 (pw 1)) (pw 1)"
proof -
  have v: "poly_val [False, True] = pw 1" by simp
  have "poly_val (squares 163 [False, True]) XOR poly_val [False, True] = 0"
    using val_zero [OF squares_163] by (simp only: val_xorl)
  then have "poly_val (squares 163 [False, True]) = pw 1"
    using xor_cancel [of "poly_val (squares 163 [False, True])" "pw 1" 0] unfolding v by simp
  then show ?thesis using cong_squares [of 163 "[False, True]"] cong_sym unfolding v by simp
qed

lemma frob_163: "cong (frob 163 a) a"
proof (induction a rule: xor_induct)
  case (power a i)
  have "cong (frob 163 (pw i)) (pw i)"
  proof (induction i)
    case (Suc i)
    have "pw (Suc i) = cl (pw 1) (pw i)" by (simp add: cl_pw(1) pw_1(2))
    then show ?case using cong_cl [OF frob_pw1 Suc] by (simp only: frob_cl)
  qed (simp add: pw_1(1))
  then show ?case unfolding frob_xor using power by (rule cong_xor)
qed simp

section \<open>Linear maps\<close>

text \<open>The linear map that sends the power \<open>j\<close> to \<open>f j\<close>, on polynomials of at most \<open>n\<close> bits.\<close>

primrec lc :: "(nat \<Rightarrow> 'a :: semiring_bit_operations) \<Rightarrow> nat \<Rightarrow> nat \<Rightarrow> 'a" where
  "lc f 0 a = 0"
| "lc f (Suc n) a = lc f n a XOR (if bit a n then f n else 0)"

lemma lc_pw: "lc f n (pw k) = (if k < n then f k else 0)"
  by (induction n) (auto simp: bit_pw)

lemma lc_id: "lc pw n a = take_bit n a"
proof (induction n)
  case (Suc n)
  have "take_bit (Suc n) a = take_bit n a XOR (if bit a n then pw n else 0)"
    by (rule bit_eqI) (auto simp: bit_take_bit_iff bit_xor_iff bit_pw less_Suc_eq)
  then show ?case using Suc by simp
qed simp

lemma lc_map:
  assumes "\<And>a b. g (a XOR b) = g a XOR g b" "g 0 = 0"
  shows "g (lc f n a) = lc (\<lambda>j. g (f j)) n a"
  by (induction n) (simp_all add: assms)

lemma lc_0: "lc f n 0 = 0"
  by (induction n) simp_all

lemma lc_xor: "lc f n (a XOR b) = lc f n a XOR lc f n b"
  by (induction n) (auto simp: bit_xor_iff xor.assoc xor.left_commute)

lemma lc_cong: "(\<And>j. j < n \<Longrightarrow> cong (f j) (g j)) \<Longrightarrow> cong (lc f n a) (lc g n a)"
proof (induction n)
  case (Suc n)
  then show ?case using cong_xor [OF Suc.IH Suc.prems [of n]] by simp
qed simp

lemma lc_sum: "lc (\<lambda>j. f j XOR g j) n a = lc f n a XOR lc g n a"
  by (induction n) (simp_all add: xor.assoc xor.left_commute)

lemma lc_blen: "(\<And>j. j < n \<Longrightarrow> blen (f j) \<le> d) \<Longrightarrow> blen (lc f n a :: nat) \<le> d"
proof (induction n)
  case (Suc n)
  have "blen (lc f n a) \<le> d" "blen (if bit a n then f n else 0) \<le> d" using Suc by simp_all
  then show ?case using blen_xor [of "lc f n a" "if bit a n then f n else 0"] by simp
qed simp

section \<open>Elements that are their own squares\<close>

text \<open>The exponents of a power, reduced: \<open>fuel\<close> times 163 is replaced by 0, 3, 6 and 7.\<close>

fun expand :: "nat \<Rightarrow> nat \<Rightarrow> nat list" where
  "expand 0 n = [n]"
| "expand (Suc fuel) n = (if n < 163 then [n] else concat (map (expand fuel) [n - 163, n - 160, n - 157, n - 156]))"

definition xors :: "(nat \<Rightarrow> 'a :: semiring_bit_operations) \<Rightarrow> nat list \<Rightarrow> 'a" where
  "xors f ks = foldr (\<lambda>k x. f k XOR x) ks 0"

lemma xors_simps [simp]: "xors f [] = 0" "xors f (k # ks) = f k XOR xors f ks"
  by (simp_all add: xors_def)

lemma xors_append [simp]: "xors f (ks @ ls) = xors f ks XOR xors f ls"
  by (induction ks) (simp_all add: xor.assoc)

lemma cong_expand: "cong (pw n) (xors pw (expand fuel n))"
proof (induction fuel arbitrary: n)
  case (Suc fuel)
  show ?case
  proof (cases "n < 163")
    case False
    then have n: "pw n = cl (pw 163) (pw (n - 163))" "n - 160 = n - 163 + 3" "n - 157 = n - 163 + 6" "n - 156 = n - 163 + 7"
      by (simp_all add: cl_pw(1) pw_1(2))
    have c: "cl (pw i) (pw (n - 163)) = pw (n - 163 + i)" for i by (simp add: cl_pw(1) pw_1(2))
    have "cong (pw n) (pw (n - 163) XOR (pw (n - 160) XOR (pw (n - 157) XOR pw (n - 156))))"
      using cong_reduce [of "pw (n - 163)"] unfolding n by (simp only: c)
    moreover have "cong (pw (n - 163) XOR (pw (n - 160) XOR (pw (n - 157) XOR pw (n - 156)))) (xors pw (expand (Suc fuel) n))"
      using cong_xor [OF Suc [of "n - 163"] cong_xor [OF Suc [of "n - 160"] cong_xor [OF Suc [of "n - 157"] Suc [of "n - 156"]]]]
        False by simp
    ultimately show ?thesis by (rule cong_trans)
  qed simp
qed simp

text \<open>
  The square of the power \<open>j\<close> plus the power, reduced; and a linear map, row by row, that gives every
  power but the first back.
\<close>

definition square_plus :: "nat \<Rightarrow> nat list" where
  "square_plus j = j # expand 2 (2 * j)"

definition rows :: "int list" where
  "rows = [
    0, 3737819857894939159596578061756121213260183982218, 3737819857894939159596578061756121213260183982216,
    9153927685926563995795988814695436996891421258562, 3737819857894939159596578061756121213260183982220,
    187389592457587775940947772338936886565842671656, 9153927685926563995795988814695436996891421258570,
    211907157691932213354452156608689191545341863086, 3737819857894939159596578061756121213260183982236,
    7232021465363662301381287520039719437670047635728, 187389592457587775940947772338936886565842671624,
    363204063666062697880216948133467120770489984, 9153927685926563995795988814695436996891421258506,
    9172579611837528722626009749355315786503936301868, 211907157691932213354452156608689191545341862958,
    9179973640095491274159363880999719837875706733826, 3737819857894939159596578061756121213260183982492,
    3903334716984655148667764156601232658082217988276, 7232021465363662301381287520039719437670047636240,
    7175031673757434828155778596979665804044983484472, 187389592457587775940947772338936886565842672648,
    7199559826877920794216235453263460113911077872958, 363204063666062697880216948133467120770487936,
    3903228508857375653918201317271345124250292155826, 9153927685926563995795988814695436996891421254410,
    7251897371052916396265581344388193819850238730686, 9172579611837528722626009749355315786503936310060,
    187500726992537213955903307371522288376397879208, 211907157691932213354452156608689191545341846574,
    9303899267154927042837905971786223797079832151564, 9179973640095491274159363880999719837875706766594,
    3778857942761181759821331002408813049640459332796, 3737819857894939159596578061756121213260183916956,
    3918847271871038408819437685292856390511949331890, 3903334716984655148667764156601232658082217857204,
    9332142034912481480833150015876544894909009522570, 7232021465363662301381287520039719437670047374096,
    3918830631960004349386735743126510896179624506802, 7175031673757434828155778596979665804044982960184,
    3923205092906422779577628986617958943037753335068, 187389592457587775940947772338936886565843721224,
    3902978638628141533441829404426702169189554631732, 7199559826877920794216235453263460113911079970110,
    9459412686502500468116288309820110860082664840836, 363204063666062697880216948133467120774682240,
    9338387182624521047865587087129950408581101197828, 3903228508857375653918201317271345124250300544434,
    6988074370136224128478733705294904139855201679536, 9153927685926563995795988814695436996891438031626,
    7052219043737603358068500342767555587586169251766, 7251897371052916396265581344388193819850205176254,
    187495245913321288953408896007000300724547500302, 9172579611837528722626009749355315786504003418924,
    3951501113723486392228867246885110944582683862682, 187500726992537213955903307371522288376263661480,
    27152496352649159259086063255965263540465032750, 211907157691932213354452156608689191545610282030,
    180317022757855516772755749355388483615528283656, 9303899267154927042837905971786223797079295280652,
    7250838944863431254914151778659406009307665068062, 9179973640095491274159363880999719837874633024770,
    9298076452784530020934931796888122124660057055618, 3778857942761181759821331002408813049638311849148,
    7045292904866451337779458296118216083462650938552, 3737819857894939159596578061756121213255888949660,
    356078591173227511062384204825318230166616178222, 3918847271871038408819437685292856390520539266482,
    9298432607194811013491076343467813796283042350212, 3903334716984655148667764156601232658099397726388,
    3713284894957234924333760815868929938034551988916, 9332142034912481480833150015876544894874649784202,
    9458241514993482010900620599089793622479950470018, 7232021465363662301381287520039719437601327897360,
    7052660664080170505449065581144309064422764247350, 3918830631960004349386735743126510896042185553330,
    7021003839179508849611402227183650887011492822928, 7175031673757434828155778596979665803770105053240,
    9272385232017163475033699951821552165588805213476, 3923205092906422779577628986617958942487997521180,
    7200993890605202049486556261440728785295572669720, 187389592457587775940947772338936885466332093448,
    7021119549379687535966425583403193964166649848630, 3902978638628141533441829404426702171388577887284,
    7045381909733166758363165259408584187681699660048, 7199559826877920794216235453263460109513033459006,
    9353521322806882452634308364100673104934594610084, 9459412686502500468116288309820110851286571818628,
    9479755163662882909077553287372961882534694531338, 363204063666062697880216948133484712960726656,
    9272748392480819451761417461741294038521254333868, 9338387182624521047865587087129950373396729108996,
    9272318785008389486132055380747565164373384629290, 3903228508857375653918201317271345053881556366770,
    7257897800835939020600434452297833978727347056016, 6988074370136224128478733705294904280592690034864,
    9333914751473634857993454262391253303366579150764, 9153927685926563995795988814695436715416461320970,
    9459701673730192354854878891325215050389891271042, 7052219043737603358068500342767555024636215830454,
    7015474738163925101889251157718338679095130308280, 7251897371052916396265581344388192693950298333630,
    3711845274384910619440949239324610209280181688212, 187495245913321288953408896007002552524361185550,
    7252342982461651064448035396424646267675164110142, 9172579611837528722626009749355311282904376048428,
    3897788913224201254824847161313224559467767883836, 3951501113723486392228867246885101937383429121690,
    9146621836384120616139331392069019180998410618530, 187500726992537213955903307371540302774773143464,
    3746284783222518796279069068624079336703072523548, 27152496352649159259086063256001292337483996718,
    7237821967911013004368224678707158367283084517182, 211907157691932213354452156608617133951572354094,
    3771861710570994059845654963299437219575785763892, 180317022757855516772755749355244368427452427784,
    9152534491751624675763409418620940310660820641674, 9303899267154927042837905971786512027455446992396,
    192923500137133423091376747012801914740900097544, 7250838944863431254914151778659982470059968491550,
    26054626225837121745118787131601978505817748878, 9179973640095491274159363880998566916370026177794,
    9274188299354536830010196691986934529919679118348, 9298076452784530020934931796885816281650843361666,
    3753590122420330970973810243972854179545803933756, 3778857942761181759821331002404201363619884461244,
    185684102643804996788223994086659202231629970990, 7045292904866451337779458296127439455499505714360,
    340196632427342682791085426957166776422851861166, 3737819857894939159596578061737674469182179398044,
    155574443695307546013493073262921314878361704064, 356078591173227511062384204788424742019197074990,
    7230944310086595923583099391638102235739352647952, 3918847271871038408819437685219069414225701060018,
    7070708588564095128749439286345821572430513914006, 9298432607194811013491076343615387748872718763140,
    7020646346813090682404408382947794760712992047792, 3903334716984655148667764156306084752920044900532,
    339835018693116673868415701623286095590581055264, 3713284894957234924333760815278634127675846337204,
    3938843090587334577831165531489548004603716979226, 9332142034912481480833150014695953274157238480778,
    3897364614430007871037529247274054264922481127066, 9458241514993482010900620601450976863914773076866,
    9353885850482366586303597891015086505678673372202, 7232021465363662301381287524762085920470973111056,
    3744791876760300345313476474879469972581384331410, 7052660664080170505449065590589042030162054674742,
    181465003791368759461833315816777270771342376960, 3918830631960004349386735724237044964563604698546,
    3777126688068427195393972601460843880239472137500, 7021003839179508849611402264962582749968654532496,
    3776399269697167854181855715554331022658589870140, 7175031673757434828155778672537529529684428472376,
    7212641417440036854598271068887758138778394769296, 9272385232017163475033699800705824713760158375204,
    9393246346601556426792082906052243507464884131108, 3923205092906422779577629288849413846145291197724,
    5199321495225842077800262894472404232916116525202, 7200993890605202049486555656977818977980985316632,
    4098117695708936915907144987774793560386470437788, 187389592457587775940948981264756500095506799624,
    5846007970381518809200575898195168289224386527382, 7021119549379687535966428001254833193424999260982
   ]"

definition row :: "nat \<Rightarrow> int" where
  "row k = rows ! k"

lemma rows_invert:
  "list_all (\<lambda>j. list_all (\<lambda>k. k < 163) (square_plus j) \<and> xors row (square_plus j) = (if j = 0 then 0 else push_bit j 1)) [0..<163]"
  by code_simp

lemma xors_map:
  assumes "\<And>a b. g (a XOR b) = g a XOR g b" "g 0 = 0"
  shows "g (xors f ks) = xors (\<lambda>k. g (f k)) ks"
  by (induction ks) (simp_all add: assms)

lemma xors_blen: "list_all (\<lambda>k. k < d) ks \<Longrightarrow> blen (xors pw ks) \<le> d"
proof (induction ks)
  case (Cons k ks)
  have "blen (pw k) = Suc k" unfolding pw_def blen_push by simp
  then show ?case using Cons blen_xor [of "pw k" "xors pw ks"] by auto
qed simp

lemma xors_cong: "list_all (\<lambda>k. f k = g k) ks \<Longrightarrow> xors f ks = xors g ks"
  by (induction ks) simp_all

text \<open>Only the sums of the first power, 0 and 1, are their own squares.\<close>

lemma idempotent:
  assumes "cong (sq e) e" "blen e \<le> 163"
  shows "e = 0 \<or> e = 1"
proof -
  define D where "D = (\<lambda>j. xors pw (square_plus j))"
  have rows: "list_all (\<lambda>k. k < 163) (square_plus j)" "xors row (square_plus j) = (if j = 0 then 0 else push_bit j 1)"
    if "j < 163" for j using rows_invert that by (auto simp: list_all_iff)
  have e: "lc pw 163 e = e" using assms(2) by (simp add: lc_id take_bit_nat_eq_self_iff blen_le)
  have "cong (lc D 163 e) (lc (\<lambda>j. pw j XOR sq (pw j)) 163 e)"
  proof (rule lc_cong)
    fix j
    have "sq (pw j) = pw (2 * j)" by (simp add: sq_def cl_pw(1) pw_1(2) mult_2)
    then show "cong (D j) (pw j XOR sq (pw j))"
      using cong_xor [OF cong_refl [of "pw j"] cong_sym [OF cong_expand [of "2 * j" 2]]] by (simp add: D_def square_plus_def)
  qed
  moreover have "lc (\<lambda>j. pw j XOR sq (pw j)) 163 e = e XOR sq e"
    unfolding lc_sum e using lc_map [of sq pw 163 e, OF sq_xor sq_0(1)] e by simp
  ultimately have "cong (lc D 163 e) 0" using cong_trans [of _ "e XOR sq e" 0] assms(1) by (simp add: xor.commute)
  moreover have "blen (lc D 163 e) \<le> 163" by (rule lc_blen) (simp add: D_def xors_blen rows(1))
  ultimately have "lc D 163 e = 0" using cong_reduced by simp
  then have "lc (\<lambda>j. lc row 163 (D j)) 163 e = 0"
    using lc_map [of "lc row 163" D 163 e, OF lc_xor lc_0] by (simp add: lc_0)
  moreover have D: "lc row 163 (D j) = (if j = 0 then 0 else push_bit j 1)" if "j < 163" for j
  proof -
    have "lc row 163 (D j) = xors (\<lambda>k. lc row 163 (pw k)) (square_plus j)"
      unfolding D_def by (rule xors_map [OF lc_xor lc_0])
    also have "\<dots> = xors row (square_plus j)"
      by (rule xors_cong) (use rows(1) [OF that] in \<open>simp add: lc_pw list_all_iff\<close>)
    finally show ?thesis using rows(2) [OF that] by simp
  qed
  moreover have "bit (lc (\<lambda>j. lc row 163 (D j)) n e) k \<longleftrightarrow> k \<noteq> 0 \<and> k < n \<and> bit e k" if "n \<le> 163" for n k
    using that
  proof (induction n)
    case (Suc n)
    then show ?case by (auto simp: bit_xor_iff D bit_exp_iff less_Suc_eq)
  qed simp
  ultimately have "\<not> bit e k" if "k \<noteq> 0" "k < 163" for k using that by (metis bit_0_eq bot_apply bot_bool_def order_refl)
  moreover have "\<not> bit e k" if "163 \<le> k" for k using bit_ge_blen [of e k] assms(2) that by simp
  ultimately have bits: "\<not> bit e k" if "k \<noteq> 0" for k using that by (meson not_le)
  show ?thesis
  proof (cases "bit e 0")
    case True
    have "bit e k \<longleftrightarrow> bit 1 k" for k using bits [of k] True by (cases "k = 0") (simp_all add: bit_1_iff)
    then have "e = 1" by (intro bit_eqI) blast
    then show ?thesis ..
  next
    case False
    have "\<not> bit e k" for k using bits [of k] False by (cases "k = 0") simp_all
    then have "e = 0" by (intro bit_eqI) simp
    then show ?thesis ..
  qed
qed

section \<open>The field\<close>

text \<open>\<open>a\<close> to the power \<open>2 ^ n - 1\<close>.\<close>

primrec cofactor :: "nat \<Rightarrow> nat \<Rightarrow> nat" where
  "cofactor 0 a = 1"
| "cofactor (Suc n) a = cl a (sq (cofactor n a))"

lemma cofactor_frob: "cl (cofactor n a) a = frob n a"
proof (induction n)
  case (Suc n)
  have "cl (cofactor (Suc n) a) a = cl (sq (cofactor n a)) (sq a)" by (simp add: sq_def cl_ac)
  also have "\<dots> = sq (cl (cofactor n a) a)" by (simp add: sq_cl)
  finally show ?case using Suc by simp
qed simp

lemma invertible:
  assumes "a \<noteq> 0" "blen a \<le> 163"
  shows "1 \<in> ideal {a, curve}"
proof -
  let ?e = "cofactor 163 a" and ?b = "sq (cofactor 162 a)"
  have e: "?e = cl a ?b" using cofactor.simps(2) [of 162 a] by simp
  have ea: "cong (cl ?e a) a" unfolding cofactor_frob by (rule frob_163)
  have "cong (cl (cl ?e a) ?b) (cl a ?b)" by (rule cong_cl [OF ea cong_refl])
  then have sqe: "cong (sq ?e) ?e" by (simp add: sq_def e cl_assoc)
  obtain r where r: "blen r \<le> 163" "cong ?e r" using reduced_exists by blast
  have "cong (sq r) r"
    using cong_trans [OF cong_sq [OF cong_sym [OF r(2)]] cong_trans [OF sqe r(2)]] .
  then have "r = 0 \<or> r = 1" using idempotent r(1) by blast
  moreover have "r \<noteq> 0"
  proof
    assume "r = 0"
    then have "cong (cl ?e a) 0" using cong_cl [OF r(2) cong_refl [of a]] by simp
    then have "cong a 0" using cong_trans [OF cong_sym [OF ea]] by blast
    then show False using cong_reduced [of a 0] assms by simp
  qed
  ultimately have one: "cong (cl a ?b) 1" using r(2) unfolding e by simp
  have "cl ?b a \<in> ideal {a, curve}" by (rule ideal_cl [OF ideal_gen]) simp
  moreover have "cl a ?b XOR 1 \<in> ideal {a, curve}" by (rule ideal_trans [OF one]) (auto intro: ideal_gen)
  ultimately have "cl a ?b XOR (cl a ?b XOR 1) \<in> ideal {a, curve}" using ideal_xor cl_commute [of a ?b] by metis
  then show ?thesis by simp
qed

end
