(* ===== verification/EcdhTotal.thy ===== *)
theory EcdhTotal
  imports EcdhField
begin

text \<open>
  The loops of \<open>ecdh.c\<close> end: the inversion on every element but 0, the operations on points on all points
  with reduced coordinates, and so a key agreement with a public key that the library made, for all
  random bytes.
\<close>

section \<open>Elements and points\<close>

definition reduced :: "bitvec \<Rightarrow> bool" where
  "reduced x \<longleftrightarrow> length x = 6 \<and> blen (bv x) \<le> 163"

definition reduced_point :: "bitvec \<times> bitvec \<Rightarrow> bool" where
  "reduced_point P \<longleftrightarrow> reduced (fst P) \<and> reduced (snd P)"

lemma is_zero_bv: "length x = 6 \<Longrightarrow> bitvec_is_zero x \<longleftrightarrow> bv x = 0"
proof -
  assume "length x = 6"
  moreover have "bitvec_is_zero x \<longleftrightarrow> x = bitvec_zero" if "length x = 6"
    using that by (auto simp: bitvec_is_zero_def bitvec_zero_def words6 length_Suc_conv numeral_eq_Suc)
  ultimately show ?thesis using bv_inject [of x bitvec_zero] by auto
qed

lemma equal_bv: "length x = 6 \<Longrightarrow> length y = 6 \<Longrightarrow> bitvec_equal x y \<longleftrightarrow> x = y"
  by (auto simp: bitvec_equal_def list_all_iff words6(1) list_eq_iff_nth_eq)

lemma reduced_add: "reduced x \<Longrightarrow> reduced y \<Longrightarrow> reduced (gf2field_add x y)"
  using blen_xor [of "bv x" "bv y"] by (auto simp: reduced_def)

lemma reduced_mul: "reduced x \<Longrightarrow> reduced y \<Longrightarrow> reduced (gf2field_mul x y)"
  using gf2field_mul_cong [of x y] by (simp add: reduced_def)

lemma bv_inc: "length x = 6 \<Longrightarrow> bv (gf2field_inc x) = bv x XOR 1"
  by (rule bit_eqI) (auto simp: bit_bv gf2field_inc_def nth_list_update bit_xor_iff bit_Suc_0 bit_1_iff)

lemma reduced_inc: "reduced x \<Longrightarrow> reduced (gf2field_inc x)"
  using blen_xor [of "bv x" 1] by (auto simp: reduced_def bv_inc) (simp add: gf2field_inc_def)

lemma reduced_zero: "reduced bitvec_zero" "reduced_point gf2point_zero"
  by (simp_all add: reduced_def reduced_point_def gf2point_zero_def)

lemma inv_defined: "reduced x \<Longrightarrow> bv x \<noteq> 0 \<Longrightarrow> \<exists>z. gf2field_inv x = Some z \<and> reduced z"
  using gf2field_inv_inverse [of x] invertible [of "bv x"] by (auto simp: reduced_def)

lemmas reduced_intros = reduced_add reduced_mul reduced_inc reduced_zero

lemma double_defined: "reduced_point P \<Longrightarrow> \<exists>Q. gf2point_double P = Some Q \<and> reduced_point Q"
proof -
  assume P: "reduced_point P"
  then have f: "reduced (fst P)" "reduced (snd P)" "length (fst P) = 6" by (simp_all add: reduced_point_def reduced_def)
  show ?thesis
  proof (cases "bitvec_is_zero (fst P)")
    case False
    then obtain z where "gf2field_inv (fst P) = Some z" "reduced z" using inv_defined f is_zero_bv by blast
    then show ?thesis using False f by (auto simp: gf2point_double_def Let_def reduced_point_def case_prod_beta intro!: reduced_intros)
  qed (use f in \<open>auto simp: gf2point_double_def reduced_point_def reduced_intros case_prod_beta\<close>)
qed

lemma add_defined: "reduced_point P \<Longrightarrow> reduced_point Q \<Longrightarrow> \<exists>R. gf2point_add P Q = Some R \<and> reduced_point R"
proof -
  assume P: "reduced_point P" and Q: "reduced_point Q"
  then have f: "reduced (fst P)" "reduced (snd P)" "reduced (fst Q)" "reduced (snd Q)" "length (fst P) = 6" "length (fst Q) = 6"
    by (simp_all add: reduced_point_def reduced_def)
  let ?b = "gf2field_add (fst P) (fst Q)"
  show ?thesis
  proof (cases "gf2point_is_zero P \<or> gf2point_is_zero Q \<or> bitvec_equal (fst P) (fst Q)")
    case True
    have z: "\<exists>a b. gf2point_zero = (a, b) \<and> reduced_point (a, b)" by (metis reduced_zero(2) surj_pair)
    then show ?thesis
      using True P Q double_defined [OF P] by (cases P; cases Q) (auto simp: gf2point_add_def)
  next
    case False
    have "bv ?b \<noteq> 0"
    proof
      assume "bv ?b = 0"
      then have "bv (fst P) = bv (fst Q)" using xor_cancel [of "bv (fst P)" "bv (fst Q)" 0] by simp
      then show False using False bv_inject f equal_bv by metis
    qed
    then obtain z where "gf2field_inv ?b = Some z" "reduced z" using inv_defined [of ?b] f reduced_add by blast
    then show ?thesis
      using False f by (auto simp: gf2point_add_def Let_def reduced_point_def case_prod_beta intro!: reduced_intros)
  qed
qed

lemma mul_defined:
  assumes "reduced_point P"
  shows "\<exists>Q. gf2point_mul P e = Some Q \<and> reduced_point Q"
proof -
  have "reduced_point T \<Longrightarrow> \<exists>Q. point_mul_loop P e n T = Some Q \<and> reduced_point Q" for n T
  proof (induction n arbitrary: T)
    case (Suc n)
    obtain T1 where T1: "gf2point_double T = Some T1" "reduced_point T1" using double_defined Suc.prems by blast
    obtain T2 where "(if bitvec_get_bit e n then gf2point_add T1 P else Some T1) = Some T2" "reduced_point T2"
      using T1 add_defined [OF T1(2) assms] by (cases "bitvec_get_bit e n") auto
    then show ?case using Suc.IH T1 by simp
  qed simp
  then show ?thesis using reduced_zero(2) by (simp add: gf2point_mul_def)
qed

section \<open>Key agreement\<close>

lemma base_reduced: "reduced_point (base_x, base_y)"
proof -
  have "bitvec_degree base_x \<le> 163" "bitvec_degree base_y \<le> 163" "length base_x = 6" "length base_y = 6" by code_simp+
  then show ?thesis by (simp add: reduced_point_def reduced_def degree_bv)
qed

text \<open>Whatever the random bytes: a key pair comes out, and its public key is a point with reduced coordinates.\<close>

lemma generate_keys_defined:
  "\<exists>r P priv. ecdh_generate_keys random = Some (r, bytes_of_point P, priv) \<and> reduced_point P"
proof -
  let ?private = "clear_high_bits (vec_of_bytes random) (bitvec_degree base_order) (BITVEC_NWORDS * 32)"
  obtain P where "gf2point_mul (base_x, base_y) ?private = Some P" "reduced_point P" using mul_defined [OF base_reduced] by blast
  then have "\<not> bitvec_degree (vec_of_bytes random) < CURVE_DEGREE div 2 \<Longrightarrow>
      ecdh_generate_keys random = Some (1, bytes_of_point P, bytes_of_vec ?private)"
    by (simp add: ecdh_generate_keys_def Let_def)
  moreover have "bitvec_degree (vec_of_bytes random) < CURVE_DEGREE div 2 \<Longrightarrow>
      ecdh_generate_keys random = Some (0, bytes_of_point (base_x, base_y), random)"
    by (simp add: ecdh_generate_keys_def)
  ultimately show ?thesis using \<open>reduced_point P\<close> base_reduced by blast
qed

lemma point_length: "reduced_point P \<Longrightarrow> length (bytes_of_point P) = ECC_PUB_KEY_SIZE"
  by (simp add: reduced_point_def reduced_def bytes_of_point_def length_bytes_of_vec curve_consts)

lemma point_of_bytes_of_point: "reduced_point P \<Longrightarrow> point_of_bytes (bytes_of_point P) = P"
  using vec_of_bytes_of_vec [of "snd P" "[]"]
  by (simp add: reduced_point_def reduced_def point_of_bytes_def bytes_of_point_def length_bytes_of_vec curve_consts)

text \<open>The shared secret with such a key is computed or, where the point is refused, left as it was.\<close>

lemma shared_secret_defined:
  assumes "reduced_point P"
  shows "\<exists>r secret. ecdh_shared_secret priv (bytes_of_point P) output = Some (r, secret)"
proof -
  obtain Q where "gf2point_mul P (vec_of_bytes priv) = Some Q" using mul_defined [OF assms] by blast
  then show ?thesis by (simp add: ecdh_shared_secret_def point_of_bytes_of_point [OF assms])
qed

end
