(* ===== verification/System.thy ===== *)
theory System
  imports Server SocketThread EcdhTotal
begin

text \<open>
  Server and node together: what one end sends, cut into chunks by the network and reassembled
  by \<open>recvAll\<close>, is what the other end's handler acts on. The contract \<open>packet_handler\<close> is
  interpreted on the two \<open>processMsg\<close> functions; the theorems follow the commands of the node
  to the server's list of devices, the server's queue to the node, and the key exchange.
\<close>

section \<open>The server as a packet handler\<close>

definition server_callback :: "sys \<Rightarrow> (connInfo_t \<times> server) callback" where
  "server_callback e = (\<lambda>(c, s) m. map_option (\<lambda>(r, c, m, s). ((c, s), m)) (processMsg e c m s))"

text \<open>A command in a packet; \<open>nm_bytes\<close> is the packet.\<close>

record message =
  nm_devType :: u32
  nm_opcode :: u32
  nm_args :: "byte list"
  nm_bytes :: "byte list"

definition established :: "connInfo_t \<Rightarrow> bool" where
  "established c \<longleftrightarrow> connectionType c = 0 \<and> sessionId c \<noteq> 0 \<and> localNonce c \<noteq> 0 \<and> remoteNonce c \<noteq> 0"

definition server_ready :: "sys \<Rightarrow> byte list \<Rightarrow> nat \<Rightarrow> int \<Rightarrow> connInfo_t \<times> server \<Rightarrow> message \<Rightarrow> bool" where
  "server_ready e devid i now = (\<lambda>(c, s) x. established c \<and> sv_time s = now \<and> dev_index (devInfos s) devid = Some i
     \<and> command_ok (nm_devType x) (nm_opcode x) (nm_args x)
     \<and> (\<exists>k iv a nonce gs p t lim pjunk alim ids junk. gcm_keyed k \<and> same_key k (key_ctx e (di_key (devInfos s ! i)))
         \<and> packet_ok p a None iv \<and> p = command_pck lim (nm_devType x) (nm_opcode x) (nm_args x) pjunk
         \<and> sealed k iv a nonce gs p t (nm_bytes x) \<and> a = node_add alim devid ids junk \<and> node_add_ok devid ids
         \<and> 8 + length (opt_net p) \<le> length (decryptedMsgBuffer s)))"

definition server_effect :: "nat \<Rightarrow> int \<Rightarrow> message \<Rightarrow> connInfo_t \<times> devInfo list \<Rightarrow> connInfo_t \<times> devInfo list" where
  "server_effect i now x = (\<lambda>(c, devs).
     (c, devs[i := apply_command now (nm_devType x) (nm_opcode x) (nm_args x) (devs ! i)]))"

lemma apply_command_keeps [simp]:
  "di_devId (apply_command now ty op args d) = di_devId d" "di_key (apply_command now ty op args d) = di_key d"
  by (simp_all add: apply_command_def Let_def updateDeviceStatus_def lock_beacon_def)

lemma server_handles:
  assumes "server_ready e devid i now cs x" "length (nm_bytes x) \<le> length pbuf" "MAXMSGLEN \<le> length pbuf"
  shows "\<exists>cs' pbuf'. server_callback e cs (nm_bytes x @ drop (length (nm_bytes x)) pbuf) = Some (cs', pbuf')
    \<and> length pbuf' = length pbuf
    \<and> (fst cs', devInfos (snd cs')) = server_effect i now x (fst cs, devInfos (snd cs))
    \<and> (\<forall>y. server_ready e devid i now cs y \<longrightarrow> server_ready e devid i now cs' y)"
proof -
  obtain c s where cs: "cs = (c, s)" by (cases cs)
  let ?d = "devInfos s ! i"
  have r: "established c" "sv_time s = now" "dev_index (devInfos s) devid = Some i"
    "command_ok (nm_devType x) (nm_opcode x) (nm_args x)"
    using assms(1) by (simp_all add: cs server_ready_def)
  obtain k iv a nonce gs p t lim pjunk alim ids junk where sealed: "gcm_keyed k" "same_key k (key_ctx e (di_key ?d))"
    "packet_ok p a None iv" "p = command_pck lim (nm_devType x) (nm_opcode x) (nm_args x) pjunk"
    "sealed k iv a nonce gs p t (nm_bytes x)" "a = node_add alim devid ids junk" "node_add_ok devid ids"
    "8 + length (opt_net p) \<le> length (decryptedMsgBuffer s)"
    using assms(1) unfolding cs server_ready_def prod.case by (elim conjE exE) (rule that)
  have conn: "connectionType c = 0" "sessionId c \<noteq> 0" "localNonce c \<noteq> 0" "remoteNonce c \<noteq> 0"
    using r(1) by (simp_all add: established_def)
  let ?m = "nm_bytes x @ drop (length (nm_bytes x)) pbuf"
  have len: "length ?m = length pbuf" "MAXMSGLEN \<le> length ?m" using assms(2,3) by simp_all
  let ?devs = "(devInfos s)[i := apply_command now (nm_devType x) (nm_opcode x) (nm_args x) ?d]"
  obtain m l out where p: "processMsg e c ?m s = Some (None, c, m, s\<lparr>gcmCtx := l, decryptedMsgBuffer := out, devInfos := ?devs\<rparr>)"
    "length m = length ?m" "length out = length (decryptedMsgBuffer s)"
    using command_applied [OF sealed(1-4) r(4) sealed(5-7) conn r(3) refl sealed(8) len(2)] r(2) by blast
  have i: "i < length (devInfos s)" using dev_index_Some [OF r(3)] by simp
  have "dev_index ?devs devid = Some i"
    using dev_index_update [of "apply_command now (nm_devType x) (nm_opcode x) (nm_args x)" "devInfos s" i devid] r(3) i by simp
  then have "server_ready e devid i now (c, s\<lparr>gcmCtx := l, decryptedMsgBuffer := out, devInfos := ?devs\<rparr>) y"
    if "server_ready e devid i now cs y" for y
    using that i p(3) by (simp add: cs server_ready_def)
  then show ?thesis using p(1,2) len(1) by (auto simp: cs server_callback_def server_effect_def)
qed

interpretation server_in: packet_handler "server_callback e" "server_ready e devid i now" nm_bytes
    "\<lambda>cs. (fst cs, devInfos (snd cs))" "server_effect i now" for e devid i now
  by unfold_locales (rule server_handles)

section \<open>The node as a packet handler\<close>

text \<open>A packet that a node with the key context \<open>ctx\<close> and a decryption buffer of \<open>n\<close> bytes opens.\<close>

definition client_accepts :: "gcm_context \<Rightarrow> nat \<Rightarrow> message \<Rightarrow> bool" where
  "client_accepts ctx n x \<longleftrightarrow> (\<exists>k iv a nonce gs t lim junk p. p = Some (lim, [bytes_of_u32 (nm_opcode x), nm_args x], junk)
     \<and> gcm_keyed k \<and> same_key k ctx \<and> packet_ok p a None iv \<and> sealed k iv a nonce gs p t (nm_bytes x)
     \<and> 8 + length (opt_net p) \<le> n)"

lemma client_accepts_key:
  assumes "client_accepts ctx n x" "same_key k ctx" "same_key k l"
  shows "client_accepts l n x"
proof -
  have "same_key k' l" if "same_key k' ctx" for k' using that assms(2,3) by (simp add: same_key_def)
  with assms(1) show ?thesis unfolding client_accepts_def by blast
qed

definition client_ready :: "connInfo_t option \<times> node \<Rightarrow> message \<Rightarrow> bool" where
  "client_ready = (\<lambda>(c, nd) x. (\<exists>c'. c = Some c' \<and> sessionId c' \<noteq> 0) \<and> run_command (nm_opcode x) (nm_args x) \<noteq> None
     \<and> client_accepts (encryptionContext nd) (length (decryptionBuffer nd)) x)"

definition client_view :: "connInfo_t option \<times> node \<Rightarrow> connInfo_t option \<times> node_event list \<times> arrayList \<times> wire" where
  "client_view = (\<lambda>(c, nd). (c, nd_events nd, nodeCommandsQueue nd, nd_wire nd))"

definition client_effect :: "message \<Rightarrow> connInfo_t option \<times> node_event list \<times> arrayList \<times> wire
    \<Rightarrow> connInfo_t option \<times> node_event list \<times> arrayList \<times> wire" where
  "client_effect x = (\<lambda>(c, evs, qw). (c, evs @ [the (run_command (nm_opcode x) (nm_args x))], qw))"

lemma client_handles:
  assumes "client_ready cn x" "length (nm_bytes x) \<le> length pbuf"
  shows "\<exists>cn' pbuf'. client_callback e cn (nm_bytes x @ drop (length (nm_bytes x)) pbuf) = Some (cn', pbuf')
    \<and> length pbuf' = length pbuf
    \<and> client_view cn' = client_effect x (client_view cn) \<and> (\<forall>y. client_ready cn y \<longrightarrow> client_ready cn' y)"
proof -
  obtain c nd ev where cn: "cn = (Some c, nd)" "sessionId c \<noteq> 0" "run_command (nm_opcode x) (nm_args x) = Some ev"
    using assms(1) by (cases cn) (auto simp: client_ready_def)
  obtain k iv a nonce gs t lim junk p where sealed: "p = Some (lim, [bytes_of_u32 (nm_opcode x), nm_args x], junk)"
    "gcm_keyed k" "same_key k (encryptionContext nd)" "packet_ok p a None iv" "sealed k iv a nonce gs p t (nm_bytes x)"
    "8 + length (opt_net p) \<le> length (decryptionBuffer nd)"
    using assms(1) unfolding cn(1) client_ready_def client_accepts_def prod.case by (elim conjE exE) (rule that)
  let ?rest = "drop (length (nm_bytes x)) pbuf"
  obtain l out where cl: "same_key k l" "length out = length (decryptionBuffer nd)"
    "client_processMsg e (Some c) (nm_bytes x @ ?rest) nd =
     (let nd' = nd\<lparr>encryptionContext := l, decryptionBuffer := out\<rparr>; m = host_packet iv t a nonce gs p @ ?rest in
      if sessionId c = 0 then Some (0, Some (node_establish nonce c), m, nd')
      else do { nd' \<leftarrow> server_command e m (52 + length (opt_net a)) nd'; Some (0, Some c, m, nd') })"
    using client_sealed [OF sealed(2-6), of e c ?rest] by blast
  have iv: "length t = 16" "length (nm_bytes x) = packet_size p a None" "length iv = 12"
    using sealed_shape [OF sealed(2,4,5)] sealed(4) by (metis, metis, simp add: packet_ok_def)
  have "length (nm_args x) < 2 ^ 31" using sealed(4) by (simp add: packet_ok_def sealed(1) opt_net_def pck_len_def)
  note sc = server_command_pck [OF iv(3,1) this refl, of e a nonce gs lim "nm_opcode x" junk ?rest]
  let ?nd = "nd\<lparr>encryptionContext := l, decryptionBuffer := out, nd_events := nd_events nd @ [ev]\<rparr>"
  have r: "client_callback e cn (nm_bytes x @ ?rest) = Some ((Some c, ?nd), host_packet iv t a nonce gs p @ ?rest)"
    using cl(3) cn(2,3) sc by (simp add: client_callback_def cn(1) sealed(1) Let_def)
  have "client_ready (Some c, ?nd) y" if "client_ready cn y" for y
    using that client_accepts_key [OF _ sealed(3) cl(1)] cl(2) by (auto simp: cn(1) client_ready_def)
  then show ?thesis
    using r iv assms(2) cn(3)
    by (intro exI [of _ "(Some c, ?nd)"] exI [of _ "host_packet iv t a nonce gs p @ ?rest"]) (auto simp: client_effect_def client_view_def cn(1))
qed

interpretation client_in: packet_handler "client_callback e" client_ready nm_bytes client_view client_effect for e
  by unfold_locales (rule client_handles)

section \<open>The node's queue reaches the server\<close>

text \<open>A queued command that the server has a defined reaction to, as the server sees it.\<close>

definition command_of :: "heap \<Rightarrow> nodeCmdInfo \<Rightarrow> byte list" where
  "command_of h cmd = the (h (nc_args cmd))"

definition server_takes :: "byte list \<Rightarrow> heap \<Rightarrow> nodeCmdInfo \<Rightarrow> bool" where
  "server_takes devid h cmd \<longleftrightarrow> nc_devId cmd = devid \<and> length devid = 16
     \<and> command_ok (nc_devType cmd) (nc_opcode cmd) (command_of h cmd)"

definition message_of :: "heap \<Rightarrow> nodeCmdInfo \<Rightarrow> byte list \<Rightarrow> message" where
  "message_of h cmd x = \<lparr>nm_devType = nc_devType cmd, nm_opcode = nc_opcode cmd, nm_args = command_of h cmd, nm_bytes = x\<rparr>"

definition apply_queued :: "nat \<Rightarrow> int \<Rightarrow> heap \<Rightarrow> nodeCmdInfo \<Rightarrow> devInfo list \<Rightarrow> devInfo list" where
  "apply_queued i now h cmd devs = devs[i := apply_command now (nc_devType cmd) (nc_opcode cmd) (command_of h cmd) (devs ! i)]"

text \<open>A packet that fits the send buffer leaves room for 147 bytes of arguments.\<close>

lemma node_ready_small:
  assumes "node_ready h env cmd" "cmd_ok cmd"
  shows "length (command_of h cmd) \<le> 147"
proof -
  obtain args where a: "h (nc_args cmd) = Some args" "\<forall>p a. node_carries cmd args p a \<longrightarrow> can_send env p a (replicate 255 0)"
    using assms(1) by (auto simp: node_ready_def)
  let ?p = "Some (255, [be32 (nc_devType cmd), be32 (nc_opcode cmd), args], [])" and ?a = "Some (255, [nc_devId cmd], [])"
  have "node_carries cmd args ?p ?a" by (simp add: node_carries_def)
  then have "can_send env ?p ?a (replicate 255 0)" using a(2) by blast
  then have "packet_size ?p ?a None \<le> 255" by (simp add: can_send_def)
  then show ?thesis using a(1) assms(2) by (simp add: packet_size_def opt_net_def pck_len_def command_of_def cmd_ok_def)
qed

lemma sealed_framed:
  assumes "gcm_keyed k" "packet_ok p a None iv" "sealed k iv a nonce gs p t x"
  shows "framed x"
proof -
  have len: "length x = packet_size p a None" "length t = 16" using sealed_shape [OF assms] by metis+
  have iv: "length iv = 12" using assms(2) by (simp add: packet_ok_def)
  obtain ct where "x = packet_bytes iv t [] (opt_net a) ct" using sealed_shape [OF assms] by metis
  then have "take 4 x = be32 (of_nat (length x))" by (simp add: packet_bytes_def packet_fields_def iv len(2) add.assoc)
  then show ?thesis using len assms(2) by (simp add: framed_def packet_ok_def packet_size_def)
qed

lemma node_sent_length: "node_sent ctx h c cmds ps \<Longrightarrow> length ps = length cmds"
  by (induction cmds arbitrary: c ps) auto

lemma node_sent_ready:
  assumes "node_sent ctx h c cmds ps" "gcm_keyed ctx" "same_key ctx (key_ctx e (di_key (devInfos s ! i)))"
    "established cs" "sv_time s = now" "dev_index (devInfos s) devid = Some i" "255 \<le> length (decryptedMsgBuffer s)"
    "list_all (\<lambda>cmd. server_takes devid h cmd \<and> length (command_of h cmd) \<le> 147) cmds"
  shows "\<exists>xs. map nm_bytes xs = map snd ps \<and> (\<forall>x\<in>set xs. server_ready e devid i now (cs, s) x
        \<and> length (nm_bytes x) \<le> 255 \<and> framed (nm_bytes x))
    \<and> (\<forall>c devs. fold (server_effect i now) xs (c, devs) = (c, fold (apply_queued i now h) cmds devs))"
  using assms(1,8)
proof (induction cmds arbitrary: c ps)
  case Nil
  then show ?case by simp
next
  case (Cons cmd cmds)
  obtain iv t x p a args l qs where n: "ps = (ci_socket c, x) # qs" "h (nc_args cmd) = Some args" "node_carries cmd args p a"
    "packet_ok p a None iv" "same_key ctx l" "sealed l iv a (htonl (sessionId c + (sendSessionIncrements c + 1))) 0 p t x"
    "node_sent ctx h (c\<lparr>sendSessionIncrements := sendSessionIncrements c + 1\<rparr>) cmds qs"
    using Cons.prems(1) unfolding node_sent.simps by (elim exE conjE) (rule that)
  obtain xs where xs: "map nm_bytes xs = map snd qs" "\<forall>x\<in>set xs. server_ready e devid i now (cs, s) x
      \<and> length (nm_bytes x) \<le> 255 \<and> framed (nm_bytes x)"
    "\<forall>c devs. fold (server_effect i now) xs (c, devs) = (c, fold (apply_queued i now h) cmds devs)"
    using Cons.IH [OF n(7)] Cons.prems(2) by auto
  obtain j1 j2 where pa: "p = command_pck 255 (nc_devType cmd) (nc_opcode cmd) args j1" "a = node_add 255 devid [] j2"
    using n(3) Cons.prems(2) by (auto simp: node_carries_def command_pck_def node_add_def server_takes_def)
  have args: "command_of h cmd = args" "length args \<le> 147" "length devid = 16"
    "command_ok (nc_devType cmd) (nc_opcode cmd) args"
    using n(2) Cons.prems(2) by (auto simp: command_of_def server_takes_def)
  have kl: "gcm_keyed l" "same_key l (key_ctx e (di_key (devInfos s ! i)))"
    using gcm.same_keyed [OF assms(2) n(5)] n(5) assms(3) by (simp_all add: same_key_def)
  have len: "length x = packet_size p a None"
    using sealed_shape [OF kl(1) n(4,6)] by metis
  have sz: "length (opt_net p) \<le> 175" "length (opt_net a) = 28" "node_add_ok devid []"
    using args by (simp_all add: pa command_pck_def node_add_def opt_net_def pck_len_def node_add_ok_def)
  have "8 + length (opt_net p) \<le> length (decryptedMsgBuffer s)" using sz assms(7) by simp
  then have "server_ready e devid i now (cs, s) (message_of h cmd x)"
    using kl n(4,6) pa args sz assms(4-6) by (simp add: server_ready_def message_of_def) blast
  moreover have "length x \<le> 255" using len sz by (simp add: packet_size_def)
  moreover have "framed x" using sealed_framed [OF kl(1) n(4,6)] .
  moreover have "server_effect i now (message_of h cmd x) (c, devs) = (c, apply_queued i now h cmd devs)" for c devs
    by (simp add: server_effect_def message_of_def apply_queued_def)
  ultimately show ?case
    using xs n(1) by (intro exI [of _ "message_of h cmd x # xs"]) (simp, simp add: message_of_def)
qed

section \<open>The steps of a session\<close>

lemma send_nonce_sends:
  assumes c: "no_session c" and key: "gcm_keyed (encryptionContext nd)" and env: "w_envs (nd_wire nd) = env # envs"
    and id: "length (nd_devId nd) = 16" and mem: "malloc (sys_alloc e) 255 \<noteq> None"
    and can: "\<And>j. can_send env None (Some (255, [nd_devId nd], j)) (nd_sendBuffer nd)"
  shows "\<exists>j k buf t w. send_nonce e c nd = Some (c\<lparr>localNonce := fresh_nonce env\<rparr>,
        nd\<lparr>encryptionContext := k, nd_sendBuffer := buf, nd_wire := emit (nd_wire nd) envs (ci_socket c) w\<rparr>)
    \<and> sealed (encryptionContext nd) (se_iv env) (Some (255, [nd_devId nd], j)) (htonl (fresh_nonce env)) 0 None t w
    \<and> same_key (encryptionContext nd) k"
proof -
  have z: "sessionId c = 0" "localNonce c = 0" using c by (simp_all add: no_session_def)
  have "pck_len [nd_devId nd] \<le> 255" using id by (simp add: pck_len_def)
  from new_pck_arg [OF mem this] obtain j where
    j: "new_pck (sys_alloc e) [(nd_devId nd, of_nat DEVIDLEN)] = opt_host (Some (255, [nd_devId nd], j))"
    using id by (auto simp: DEVIDLEN_def)
  let ?a = "Some (255, [nd_devId nd], j)"
  obtain am where am: "opt_host ?a = Some am" by (simp add: opt_host_def)
  obtain k t buf w where s: "send_packet (nd_wire nd) (ci_socket c) (Some c) (Some (encryptionContext nd)) (opt_host None) (opt_host ?a)
      None 0 (nd_sendBuffer nd)
      = Some (0, Some (c\<lparr>localNonce := fresh_nonce env\<rparr>), Some k, buf, emit (nd_wire nd) envs (ci_socket c) w)"
    "sealed (encryptionContext nd) (se_iv env) ?a (htonl (fresh_nonce env)) 0 None t w" "same_key (encryptionContext nd) k"
    using first_sends [OF z key env can, where sock = "ci_socket c" and gs = 0] by blast
  have "send_nonce e c nd = Some (c\<lparr>localNonce := fresh_nonce env\<rparr>,
        nd\<lparr>encryptionContext := k, nd_sendBuffer := buf, nd_wire := emit (nd_wire nd) envs (ci_socket c) w\<rparr>)"
    using s(1) by (simp add: send_nonce_def z j am opt_host_def)
  then show ?thesis using s(2,3) by blast
qed

text \<open>The server's nonce arrives while the node waits for it.\<close>

lemma wait_session_message:
  assumes key: "gcm_keyed l" "same_key l (encryptionContext nd)" and ok: "packet_ok None None None iv"
    and seal: "sealed l iv None nonce gs None t x" and room: "255 \<le> length (decryptionBuffer nd)" and small: "length x \<le> length pbuf"
    and c: "sessionId c = 0" and h: "\<forall>g\<in>set hs1 \<union> set hs2. rh_socket g \<noteq> rh_socket h" "idle h cap pos"
    and cs: "placed x cap pos" "concat cs = x" "fits cap pos cs"
  shows "\<exists>h' l' out pbuf'. wait_session e junk (rh_socket h) (map RecvData cs @ rs) (hs1 @ h # hs2) (Some c, nd) pbuf
      = Some (hs1 @ h' # hs2, (Some (node_establish nonce c), nd\<lparr>encryptionContext := l', decryptionBuffer := out\<rparr>), pbuf', rs)
    \<and> same_key l l' \<and> length out = length (decryptionBuffer nd) \<and> length pbuf' = length pbuf
    \<and> rh_socket h' = rh_socket h \<and> idle h' cap ((pos + length x) mod cap)"
proof -
  have "8 + length (opt_net None) \<le> length (decryptionBuffer nd)" using room by simp
  from client_sealed [OF key ok seal this, of e c "drop (length x) pbuf"]
  obtain l' out where cl: "same_key l l'" "length out = length (decryptionBuffer nd)"
    "client_processMsg e (Some c) (x @ drop (length x) pbuf) nd
      = Some (0, Some (node_establish nonce c), host_packet iv t None nonce gs None @ drop (length x) pbuf,
              nd\<lparr>encryptionContext := l', decryptionBuffer := out\<rparr>)"
    by (auto simp: c Let_def)
  let ?pb = "host_packet iv t None nonce gs None @ drop (length x) pbuf"
  have iv: "length t = 16" "length x = packet_size None None None" "length iv = 12"
    using sealed_shape [OF key(1) ok seal] ok by (metis, metis, simp add: packet_ok_def)
  have d: "deliver (client_callback e) x (Some c, nd) pbuf
      = Some ((Some (node_establish nonce c), nd\<lparr>encryptionContext := l', decryptionBuffer := out\<rparr>), ?pb)"
    using small cl(3) by (simp add: deliver_def client_callback_def)
  obtain h' where h': "client_recv e junk (rh_socket h) (map RecvData cs @ rs) (hs1 @ h # hs2) (Some c, nd) pbuf
      = Some (0, hs1 @ h' # hs2, (Some (node_establish nonce c), nd\<lparr>encryptionContext := l', decryptionBuffer := out\<rparr>), ?pb, rs)"
    "rh_socket h' = rh_socket h" "idle h' cap ((pos + length x) mod cap)"
    using recvAll_message [OF pick_found [OF h(1)] h(2) cs, where cb = "client_callback e" and st = "(Some c, nd)" and pbuf = pbuf
        and a = "sys_alloc e" and junk = junk and full = "sys_full e" and rs = rs] d
    by (auto simp: client_recv_def)
  have "wait_session e junk (rh_socket h) (map RecvData cs @ rs) (hs1 @ h # hs2) (Some c, nd) pbuf
      = Some (hs1 @ h' # hs2, (Some (node_establish nonce c), nd\<lparr>encryptionContext := l', decryptionBuffer := out\<rparr>), ?pb, rs)"
    using c h'(1) by (subst wait_session.simps) simp
  then show ?thesis using cl(1,2) h'(2,3) iv small
    by (intro exI [of _ h'] exI [of _ l'] exI [of _ out] exI [of _ ?pb]) simp
qed

text \<open>The beacon reads and changes only the heap and the queue.\<close>

lemma queue_beacon_frame:
  "queue_beacon e ty lock (nd\<lparr>encryptionContext := k, decryptionBuffer := out, nd_sendBuffer := buf, nd_wire := w\<rparr>)
    = map_option (\<lambda>n. n\<lparr>encryptionContext := k, decryptionBuffer := out, nd_sendBuffer := buf, nd_wire := w\<rparr>)
        (queue_beacon e ty lock nd)"
  by (auto simp: queue_beacon_def composeSmartLockBeaconCmdInfo_def composeBeaconPacketCmdInfo_def
      split: prod.splits Option.bind_split)

lemma queue_beacon_changes:
  "queue_beacon e ty lock nd = Some nb \<Longrightarrow> \<exists>h q. nb = nd\<lparr>nd_heap := h, nodeCommandsQueue := q\<rparr>"
proof -
  assume a: "queue_beacon e ty lock nd = Some nb"
  show ?thesis
  proof (cases "ty = 2")
    case True
    then show ?thesis using a
      by (auto simp: queue_beacon_def composeSmartLockBeaconCmdInfo_def composeBeaconPacketCmdInfo_def bind_eq_Some_conv
          split: prod.splits if_splits)
  next
    case False
    then show ?thesis using a
      by (intro exI [of _ "nd_heap nd"] exI [of _ "nodeCommandsQueue nd"]) (simp add: queue_beacon_def)
  qed
qed

text \<open>The server's command, received by the node in the session.\<close>

lemma client_recv_command:
  assumes "client_ready cn x" "length (nm_bytes x) \<le> 255" "length pbuf = 255"
    "\<forall>g\<in>set hs1 \<union> set hs2. rh_socket g \<noteq> rh_socket h" "idle h cap pos" "stream_fits cap pos [nm_bytes x] [cs]"
  shows "\<exists>r h' cn' pbuf' rs. client_recv e junk (rh_socket h) (map RecvData cs) (hs1 @ h # hs2) cn pbuf
      = Some (r, hs1 @ h' # hs2, cn', pbuf', rs) \<and> client_view cn' = client_effect x (client_view cn)"
proof -
  have "\<forall>y\<in>set [x]. client_ready cn y \<and> length (nm_bytes y) \<le> length pbuf" "MAXMSGLEN \<le> length pbuf"
    "stream_fits cap pos (map nm_bytes [x]) [cs]"
    using assms(1-3,6) by (simp_all add: MAXMSGLEN_def)
  from client_in.all_handled [OF this(1,2) assms(4,5) this(3), of "sys_alloc e" junk "sys_full e" e]
  obtain h' cn' pbuf' where "recv_messages (sys_alloc e) junk (sys_full e) (client_callback e) [cs] (hs1 @ h # hs2) (rh_socket h) cn pbuf
      = Some (hs1 @ h' # hs2, cn', pbuf')" "client_view cn' = fold client_effect [x] (client_view cn)"
    by blast
  then show ?thesis by (auto simp: client_recv_def bind_eq_Some_conv)
qed

text \<open>What the server sent for its queue is what the node is ready for.\<close>

lemma sent_command_ready:
  assumes sent: "sent_in_session (key_ctx es key) c1 [cmd] ps" and key: "gcm_keyed (key_ctx es key)" "same_key (key_ctx es key) (encryptionContext nd)"
    and cmd: "command_ready 255 env cmd" "argsPtr cmd = Some args" "run_command (opCode cmd) args \<noteq> None"
    and nd: "255 \<le> length (decryptionBuffer nd)" "sessionId c \<noteq> 0"
  shows "\<exists>y. ps = [(ci_socket c1, y)] \<and> framed y \<and> length y \<le> 255
    \<and> client_ready (Some c, nd) \<lparr>nm_devType = 0, nm_opcode = opCode cmd, nm_args = args, nm_bytes = y\<rparr>"
proof -
  obtain iv t y p a where y: "ps = [(ci_socket c1, y)]" "carries cmd p a" "packet_ok p a None iv"
    "sealed (key_ctx es key) iv a (htonl (sessionId c1 + (sendSessionIncrements c1 + 1))) (gSettings cmd) p t y"
    using sent by auto
  obtain junk where p: "p = Some (255, [bytes_of_u32 (opCode cmd), args], junk)"
    using y(2) cmd(2) by (auto simp: carries_def command_elems_def)
  have "can_send env p a (replicate 255 0)" using cmd(1) y(2) by (simp add: command_ready_def)
  then have sz: "packet_size p a None \<le> 255" by (simp add: can_send_def)
  have len: "length y = packet_size p a None" using sealed_shape [OF key(1) y(3,4)] by metis
  have "8 + length (opt_net p) \<le> length (decryptionBuffer nd)" using sz nd(1) by (simp add: packet_size_def)
  then have "client_accepts (encryptionContext nd) (length (decryptionBuffer nd))
      \<lparr>nm_devType = 0, nm_opcode = opCode cmd, nm_args = args, nm_bytes = y\<rparr>"
    using key y(3,4) p by (simp add: client_accepts_def) blast
  then show ?thesis
    using y(1) sealed_framed [OF key(1) y(3,4)] len sz cmd(3) nd(2) by (simp add: client_ready_def)
qed

text \<open>The node's part of a session, from its nonce to the command that it receives.\<close>

lemma run_session_commands:
  assumes nd: "gcm_keyed (encryptionContext nd)" "length (nd_devId nd) = 16" "255 \<le> length (decryptionBuffer nd)"
      "w_envs (nd_wire nd) = env0 # envs @ others" "malloc (sys_alloc e) 255 \<noteq> None"
    and beacon: "queue_beacon e ty lock nd = Some nb" "queue_holds (nodeCommandsQueue nb) cmds"
      "list_all2 (node_ready (nd_heap nb)) envs cmds"
    and nonce: "send_nonce e c nd = Some (c\<lparr>localNonce := fresh_nonce env0\<rparr>,
        nd\<lparr>encryptionContext := k, nd_sendBuffer := buf, nd_wire := emit (nd_wire nd) (envs @ others) (ci_socket c) w\<rparr>)"
      "same_key (encryptionContext nd) k" "w \<noteq> []" "no_session c"
    and x: "gcm_keyed l" "same_key l k" "packet_ok None None None iv" "sealed l iv None (htonl n) 0 None t x" "length x \<le> 255"
    and sess: "htonl (fresh_nonce env0) + htonl n \<noteq> 0" "length pbuf = 255"
    and h: "\<forall>g\<in>set hs1 \<union> set hs2. rh_socket g \<noteq> rh_socket h" "idle h cap pos" "ci_socket c = rh_socket h"
    and y: "\<forall>nd' cn. same_key l (encryptionContext nd') \<longrightarrow> 255 \<le> length (decryptionBuffer nd') \<longrightarrow> sessionId cn \<noteq> 0 \<longrightarrow>
        client_ready (Some cn, nd') \<lparr>nm_devType = 0, nm_opcode = op, nm_args = args, nm_bytes = y\<rparr>"
      "run_command op args = Some ev" "length y \<le> 255"
    and cs: "stream_fits cap pos [x, y] [cs1, cs2]" "recvProcessingBuffer th = pbuf" "th_holders th = hs1 @ h # hs2"
      "th_node th = nd" "connInfo th = c"
  shows "\<exists>th' ps cn. run_session e ty lock junk (rh_socket h) (map RecvData (cs1 @ cs2)) th = Some th'
    \<and> nd_events (th_node th') = nd_events nd @ [ev]
    \<and> w_sent (nd_wire (th_node th')) = w_sent (nd_wire nd) @ (rh_socket h, w) # ps
    \<and> sessionId cn = htonl (fresh_nonce env0) + htonl n \<and> node_sent (encryptionContext nd) (nd_heap nb) cn cmds ps
    \<and> queue_holds (nodeCommandsQueue (th_node th')) []"
proof -
  let ?nd1 = "nd\<lparr>encryptionContext := k, nd_sendBuffer := buf, nd_wire := emit (nd_wire nd) (envs @ others) (ci_socket c) w\<rparr>"
  let ?c1 = "c\<lparr>localNonce := fresh_nonce env0\<rparr>"
  have l1: "same_key l (encryptionContext ?nd1)" using x(2) by simp
  have room: "255 \<le> length (decryptionBuffer ?nd1)" using nd(3) by simp
  have small: "length x \<le> length pbuf" using x(5) sess(2) by simp
  have s0: "sessionId ?c1 = 0" "localNonce c = 0" using nonce(4) by (simp_all add: no_session_def)
  have cx: "placed x cap pos" "concat cs1 = x" "fits cap pos cs1" "stream_fits cap ((pos + length x) mod cap) [y] [cs2]"
    using cs(1) by simp_all
  obtain h' l' out pbuf' where wait: "wait_session e junk (rh_socket h) (map RecvData cs1 @ map RecvData cs2) (hs1 @ h # hs2) (Some ?c1, ?nd1) pbuf
      = Some (hs1 @ h' # hs2, (Some (node_establish (htonl n) ?c1), ?nd1\<lparr>encryptionContext := l', decryptionBuffer := out\<rparr>), pbuf',
              map RecvData cs2)"
    "same_key l l'" "length out = length (decryptionBuffer ?nd1)" "length pbuf' = length pbuf"
    "rh_socket h' = rh_socket h" "idle h' cap ((pos + length x) mod cap)"
    using wait_session_message [OF x(1) l1 x(3,4) room small s0(1) h(1,2) cx(1-3)] by blast
  let ?c2 = "node_establish (htonl n) ?c1"
  let ?nd2 = "nd\<lparr>encryptionContext := l', decryptionBuffer := out, nd_sendBuffer := buf,
      nd_wire := emit (nd_wire nd) (envs @ others) (ci_socket c) w\<rparr>"
  have nd2: "?nd1\<lparr>encryptionContext := l', decryptionBuffer := out\<rparr> = ?nd2" by simp
  have sid: "sessionId ?c2 = htonl (fresh_nonce env0) + htonl n" "ci_socket ?c2 = rh_socket h"
    by (simp_all add: node_establish_def Let_def h(3))
  obtain hp qb where nb: "nb = nd\<lparr>nd_heap := hp, nodeCommandsQueue := qb\<rparr>" using queue_beacon_changes [OF beacon(1)] by blast
  let ?nd3 = "nb\<lparr>encryptionContext := l', decryptionBuffer := out, nd_sendBuffer := buf,
      nd_wire := emit (nd_wire nd) (envs @ others) (ci_socket c) w\<rparr>"
  have b: "queue_beacon e ty lock ?nd2 = Some ?nd3" unfolding queue_beacon_frame beacon(1) by simp
  have kl: "same_key (encryptionContext nd) l'" "gcm_keyed l'"
    using nonce(2) x(2) wait(2) gcm.same_keyed [OF x(1) wait(2)] by (simp_all add: same_key_def)
  have n3: "nodeCommandsQueue ?nd3 = nodeCommandsQueue nb" "nd_heap ?nd3 = nd_heap nb" "w_envs (nd_wire ?nd3) = envs @ others"
    "encryptionContext ?nd3 = l'" "w_sent (nd_wire ?nd3) = w_sent (nd_wire nd) @ [(rh_socket h, w)]"
    using nonce(3) by (simp_all add: emit_eq h(3))
  have s2: "sessionId ?c2 \<noteq> 0" using sess(1) sid(1) by simp
  obtain ps k4 q4 where sent: "send_node_commands e (length cmds) ?c2 ?nd3
      = Some (?c2\<lparr>sendSessionIncrements := sendSessionIncrements ?c2 + of_nat (length cmds)\<rparr>,
              ?nd3\<lparr>nodeCommandsQueue := q4, encryptionContext := k4,
                 nd_wire := \<lparr>w_envs = others, w_sent = w_sent (nd_wire ?nd3) @ ps\<rparr>\<rparr>)"
    "node_sent l' (nd_heap nb) ?c2 cmds ps" "queue_holds q4 []" "same_key l' k4"
    using send_node_commands_sends [of ?nd3 cmds "[]" envs others ?c2 e] beacon(2,3) n3(1-4) kl(2) s2 nd(5) by auto
  let ?c4 = "?c2\<lparr>sendSessionIncrements := sendSessionIncrements ?c2 + of_nat (length cmds)\<rparr>"
  let ?nd4 = "?nd3\<lparr>nodeCommandsQueue := q4, encryptionContext := k4,
     nd_wire := \<lparr>w_envs = others, w_sent = w_sent (nd_wire ?nd3) @ ps\<rparr>\<rparr>"
  have f: "flush_commands e ?c2 ?nd3 = Some (?c4, ?nd4)"
    using sent(1) getCommandQueueLength_holds [OF beacon(2)] by (simp add: flush_commands_def)
  let ?y = "\<lparr>nm_devType = 0, nm_opcode = op, nm_args = args, nm_bytes = y\<rparr>"
  have "same_key l (encryptionContext ?nd4)" "255 \<le> length (decryptionBuffer ?nd4)" "sessionId ?c4 \<noteq> 0"
    using wait(2,3) sent(4) nd(3) s2 by (simp_all add: same_key_def)
  then have ready: "client_ready (Some ?c4, ?nd4) ?y" using y(1) by blast
  obtain r h5 cn5 pbuf5 rs where recv: "client_recv e junk (rh_socket h) (map RecvData cs2) (hs1 @ h' # hs2) (Some ?c4, ?nd4) pbuf'
      = Some (r, hs1 @ h5 # hs2, cn5, pbuf5, rs)" "client_view cn5 = client_effect ?y (client_view (Some ?c4, ?nd4))"
    using client_recv_command [OF ready, of pbuf' hs1 hs2 h' cap "(pos + length x) mod cap" cs2 e junk]
      y(3) wait(4-6) sess(2) h(1) cx(4) by auto
  obtain c5 nd5 where cn5: "cn5 = (c5, nd5)" by (cases cn5)
  have v: "nd_events nd5 = nd_events nd @ [ev]" "nodeCommandsQueue nd5 = q4"
    "w_sent (nd_wire nd5) = w_sent (nd_wire nd) @ (rh_socket h, w) # ps"
    using recv(2) n3(5) by (simp_all add: cn5 client_view_def client_effect_def y(2) nb)
  have "run_session e ty lock junk (rh_socket h) (map RecvData (cs1 @ cs2)) th
      = Some (th\<lparr>th_node := nd5, connInfo := initializeConnInfo 0, th_holders := hs1 @ h5 # hs2, recvProcessingBuffer := pbuf5\<rparr>)"
    by (simp only: run_session_def cs(2-5) s0(2) nonce(1) map_append wait(1) [unfolded nd2] b f recv(1) [unfolded cn5] s2
        bind.bind_lunit prod.case if_True HOL.simp_thms)
  moreover have "node_sent (encryptionContext nd) (nd_heap nb) ?c2 cmds ps"
    using node_sent_key [OF kl(1) sent(2)] .
  ultimately show ?thesis using v sid(1) sent(3) by fastforce
qed

section \<open>The steps of a key exchange\<close>



text \<open>
  The server, on the packets of the connection \<open>cs\<close> in any fragmentation that the receive buffer
  takes, ends with the devices \<open>devs\<close>; the connection is unchanged and the holder ready again.
\<close>

definition packets_lead_to :: "sys \<Rightarrow> connInfo_t \<Rightarrow> server \<Rightarrow> byte list list \<Rightarrow> devInfo list \<Rightarrow> bool" where
  "packets_lead_to e cs s packets devs \<longleftrightarrow> (\<forall>css cap pos hs1 h hs2 pbuf a junk full.
     stream_fits cap pos packets css \<longrightarrow> idle h cap pos \<longrightarrow> length pbuf = 255
       \<longrightarrow> (\<forall>g\<in>set hs1 \<union> set hs2. rh_socket g \<noteq> rh_socket h)
     \<longrightarrow> (\<exists>h' s' pbuf' pos'. recv_messages a junk full (server_callback e) css (hs1 @ h # hs2) (rh_socket h) (cs, s) pbuf
           = Some (hs1 @ h' # hs2, (cs, s'), pbuf') \<and> idle h' cap pos' \<and> devInfos s' = devs))"

lemma node_packets_lead:
  assumes "node_sent ctx h cn cmds ps" "gcm_keyed ctx" "same_key ctx (key_ctx es (di_key (devInfos s ! i)))"
    "established cs" "dev_index (devInfos s) devid = Some i" "255 \<le> length (decryptedMsgBuffer s)"
    "list_all2 (node_ready h) envs cmds" "list_all cmd_ok cmds" "list_all (server_takes devid h) cmds"
  shows "list_all (\<lambda>x. framed x \<and> length x \<le> 255) (map snd ps)
    \<and> packets_lead_to es cs s (map snd ps) (fold (apply_queued i (sv_time s) h) cmds (devInfos s))"
proof -
  have "list_all (\<lambda>cmd. server_takes devid h cmd \<and> length (command_of h cmd) \<le> 147) cmds"
    using assms(7-9) by (induction rule: list_all2_induct) (auto simp: node_ready_small)
  from node_sent_ready [OF assms(1-4) refl assms(5,6) this]
  obtain xs where xs: "map nm_bytes xs = map snd ps"
    "\<forall>x\<in>set xs. server_ready es devid i (sv_time s) (cs, s) x \<and> length (nm_bytes x) \<le> 255 \<and> framed (nm_bytes x)"
    "\<forall>c devs. fold (server_effect i (sv_time s)) xs (c, devs) = (c, fold (apply_queued i (sv_time s) h) cmds devs)"
    by blast
  have recv: "\<exists>h' s' pbuf' pos'. recv_messages a junk full (server_callback es) css (hs1 @ g # hs2) (rh_socket g) (cs, s) pbuf
        = Some (hs1 @ h' # hs2, (cs, s'), pbuf') \<and> idle h' cap pos'
      \<and> devInfos s' = fold (apply_queued i (sv_time s) h) cmds (devInfos s)"
    if "stream_fits cap pos (map snd ps) css" "idle g cap pos" "length pbuf = 255"
      "\<forall>g'\<in>set hs1 \<union> set hs2. rh_socket g' \<noteq> rh_socket g" for css cap pos hs1 g hs2 pbuf a junk full
  proof -
    have "\<forall>x\<in>set xs. server_ready es devid i (sv_time s) (cs, s) x \<and> length (nm_bytes x) \<le> length pbuf" "MAXMSGLEN \<le> length pbuf"
      using xs(2) that(3) by (auto simp: MAXMSGLEN_def)
    from server_in.all_handled [OF this that(4,2), of css, unfolded xs(1), OF that(1), of a junk full]
    obtain h' st pbuf' pos' where r: "recv_messages a junk full (server_callback es) css (hs1 @ g # hs2) (rh_socket g) (cs, s) pbuf
        = Some (hs1 @ h' # hs2, st, pbuf')" "idle h' cap pos'"
      "(fst st, devInfos (snd st)) = fold (server_effect i (sv_time s)) xs (cs, devInfos s)"
      by auto
    then show ?thesis using xs(3) by (cases st) auto
  qed
  moreover have "list_all (\<lambda>x. framed x \<and> length x \<le> 255) (map snd ps)"
    using xs(2) unfolding xs(1) [symmetric] by (auto simp: list_all_iff)
  ultimately show ?thesis unfolding packets_lead_to_def by (intro conjI allI impI)
qed

text \<open>Messages that arrive whole, one after the other, in a fresh holder.\<close>

definition demo_ring :: "int \<Rightarrow> recvHolder" where
  "demo_ring sock = \<lparr>rh_socket = sock, recvQueue = Some (replicate 765 0), rh_size = 765, sizeUsed = 0, firstMsgPtr = None,
     firstMsgSize = 0, firstMsgSizeUsed = 0, timeSinceUsed = 0\<rparr>"

lemma demo_ring_idle: "idle (demo_ring sock) 765 0" "rh_socket (demo_ring sock) = sock"
  by (simp_all add: idle_def demo_ring_def)

lemma two_whole_messages:
  assumes "list_all (\<lambda>x. framed x \<and> length x \<le> 255) [x, y]"
  shows "stream_fits 765 0 [x, y] [[x], [y]]"
  using assms by (auto simp: placed_def framed_def)

text \<open>The two packets of a node that sends two commands.\<close>

lemma demo_packets:
  "\<exists>x y. packets_lead_to demo_sys demo_conn (demo_server []) [x, y]
      (fold (apply_queued 0 (sv_time (demo_server [])) demo_heap) [demo_command 1, demo_command 2] (devInfos (demo_server [])))
    \<and> stream_fits 765 0 [x, y] [[x], [y]]"
proof -
  obtain q where q: "queue_holds q [demo_command 1, demo_command 2]" by (rule demo_queue_two)
  let ?nd = "demo_node q [demo_env 115, demo_env 115]" and ?cmds = "[demo_command 1, demo_command 2]"
  have nd: "nodeCommandsQueue ?nd = q" "w_envs (nd_wire ?nd) = [demo_env 115, demo_env 115] @ []" "encryptionContext ?nd = demo_ctx"
    "nd_heap ?nd = demo_heap" by (simp_all add: demo_node_def)
  have ready: "list_all2 (node_ready demo_heap) [demo_env 115, demo_env 115] ?cmds"
    using demo_node_ready [of 1] demo_node_ready [of 2] by simp
  have takes: "list_all (server_takes demo_id demo_heap) ?cmds"
    by (simp add: server_takes_def command_of_def demo_heap_def demo_command_def demo_id_def command_ok_def)
  have mem: "malloc (sys_alloc demo_sys) 255 \<noteq> None" by (simp add: demo_sys_def)
  have q': "queue_holds q (?cmds @ [])" using q by simp
  from send_node_commands_sends [of ?nd, unfolded nd(1,3,4), OF q' ready nd(2) demo_keyed demo_conn_session(2) mem]
  obtain ps where ps: "node_sent demo_ctx demo_heap demo_conn ?cmds ps" by (elim exE conjE) (rule that)
  obtain x y where xy: "map snd ps = [x, y]" using node_sent_length [OF ps] by (cases ps; cases "tl ps") (auto simp: length_Suc_conv)
  have "same_key demo_ctx (key_ctx demo_sys (di_key (devInfos (demo_server []) ! 0)))" "established demo_conn"
    "255 \<le> length (decryptedMsgBuffer (demo_server []))" "list_all cmd_ok ?cmds"
    using demo_conn_session q by (simp_all add: demo_server_def demo_key_ctx gcm.same_refl established_def queue_holds_def)
  from node_packets_lead [OF ps demo_keyed this(1,2) demo_from_device(2) this(3) ready this(4) takes]
  have "list_all (\<lambda>x. framed x \<and> length x \<le> 255) [x, y]" "packets_lead_to demo_sys demo_conn (demo_server []) [x, y]
      (fold (apply_queued 0 (sv_time (demo_server [])) demo_heap) ?cmds (devInfos (demo_server [])))"
    unfolding xy by simp_all
  then show ?thesis using two_whole_messages by blast
qed

section \<open>Properties\<close>

text \<open>
  C5. What the node queued happens at the server, in order: in a session with the same key on
  both ends, the node sends its queue, and a server that receives those packets through
  \<open>recvAll\<close> ends with the commands applied one after the other to the device that sent them, on a
  connection that is unchanged and a receive buffer that is ready for the next message. The network
  may cut each packet into any chunks, but \<open>stream_fits\<close> asks two things of the stream: that no chunk
  has bytes of two packets, which \<open>recvAll\<close> does not take apart, and that no length word lies across
  the end of the receive buffer, where \<open>handleMsgLen\<close> reads behind it.
\<close>

theorem node_queue_reaches_server:
  assumes "queue_holds (nodeCommandsQueue nd) cmds" "list_all2 (node_ready (nd_heap nd)) envs cmds"
    "w_envs (nd_wire nd) = envs @ others" "gcm_keyed (encryptionContext nd)" "sessionId cn \<noteq> 0"
    "malloc (sys_alloc en) 255 \<noteq> None" "list_all (server_takes devid (nd_heap nd)) cmds"
    and "same_key (encryptionContext nd) (key_ctx es (di_key (devInfos s ! i)))" "dev_index (devInfos s) devid = Some i"
    "established cs" "255 \<le> length (decryptedMsgBuffer s)"
  shows "\<exists>ps cn' nd'. flush_commands en cn nd = Some (cn', nd') \<and> w_sent (nd_wire nd') = w_sent (nd_wire nd) @ ps
    \<and> queue_holds (nodeCommandsQueue nd') [] \<and> length ps = length cmds
    \<and> list_all (\<lambda>x. framed x \<and> length x \<le> 255) (map snd ps)
    \<and> packets_lead_to es cs s (map snd ps) (fold (apply_queued i (sv_time s) (nd_heap nd)) cmds (devInfos s))"
proof -
  obtain ps k q where sent: "send_node_commands en (length cmds) cn nd
      = Some (cn\<lparr>sendSessionIncrements := sendSessionIncrements cn + of_nat (length cmds)\<rparr>,
              nd\<lparr>nodeCommandsQueue := q, encryptionContext := k,
                 nd_wire := \<lparr>w_envs = others, w_sent = w_sent (nd_wire nd) @ ps\<rparr>\<rparr>)"
    "node_sent (encryptionContext nd) (nd_heap nd) cn cmds ps" "queue_holds q []"
    using send_node_commands_sends [of nd cmds "[]" envs others cn en] assms(1-6) by auto
  have cok: "list_all cmd_ok cmds" using assms(1) by (simp add: queue_holds_def)
  note lead = node_packets_lead [OF sent(2) assms(4,8,10,9,11,2) cok assms(7)]
  have "flush_commands en cn nd = Some (cn\<lparr>sendSessionIncrements := sendSessionIncrements cn + of_nat (length cmds)\<rparr>,
      nd\<lparr>nodeCommandsQueue := q, encryptionContext := k, nd_wire := \<lparr>w_envs = others, w_sent = w_sent (nd_wire nd) @ ps\<rparr>\<rparr>)"
    using sent(1) getCommandQueueLength_holds [OF assms(1)] by (simp add: flush_commands_def)
  then show ?thesis using sent(3) lead node_sent_length [OF sent(2)] by (intro exI [of _ ps]) auto
qed

theorem node_queue_reaches_server_witness:
  "\<exists>q nd' cn' css h' s' pbuf'. flush_commands demo_sys demo_conn (demo_node q [demo_env 115, demo_env 115]) = Some (cn', nd')
    \<and> recv_messages zero_alloc 0 False (server_callback demo_sys) css [demo_ring 4] 4 (demo_conn, demo_server []) (replicate 255 0)
      = Some ([h'], (demo_conn, s'), pbuf') \<and> map lockState (devInfos s') = [0] \<and> map passwordLen (devInfos s') = [4]"
proof -
  obtain q where q: "queue_holds q [demo_command 1, demo_command 2]" by (rule demo_queue_two)
  let ?nd = "demo_node q [demo_env 115, demo_env 115]" and ?cmds = "[demo_command 1, demo_command 2]"
  have nd: "nodeCommandsQueue ?nd = q" "w_envs (nd_wire ?nd) = [demo_env 115, demo_env 115] @ []" "encryptionContext ?nd = demo_ctx"
    "nd_heap ?nd = demo_heap" by (simp_all add: demo_node_def)
  have takes: "list_all (server_takes demo_id demo_heap) ?cmds"
    by (simp add: server_takes_def command_of_def demo_heap_def demo_command_def demo_id_def command_ok_def)
  have ready: "list_all2 (node_ready demo_heap) [demo_env 115, demo_env 115] ?cmds"
    using demo_node_ready [of 1] demo_node_ready [of 2] by simp
  have mem: "malloc (sys_alloc demo_sys) 255 \<noteq> None" by (simp add: demo_sys_def)
  have key: "same_key demo_ctx (key_ctx demo_sys (di_key (devInfos (demo_server []) ! 0)))"
    by (simp add: demo_server_def demo_key_ctx gcm.same_refl)
  have est: "established demo_conn" using demo_conn_session by (simp add: established_def)
  have buf: "255 \<le> length (decryptedMsgBuffer (demo_server []))" by (simp add: demo_server_def)
  from node_queue_reaches_server [of ?nd, unfolded nd(1,3,4), OF q ready nd(2) demo_keyed demo_conn_session(2) mem takes key
      demo_from_device(2) est buf]
  obtain ps :: "(int \<times> byte list) list" and cn' nd' where r: "flush_commands demo_sys demo_conn ?nd = Some (cn', nd')" "length ps = length ?cmds"
    "list_all (\<lambda>x. framed x \<and> length x \<le> 255) (map snd ps)"
    "packets_lead_to demo_sys demo_conn (demo_server []) (map snd ps)
      (fold (apply_queued 0 (sv_time (demo_server [])) demo_heap) ?cmds (devInfos (demo_server [])))"
    by blast
  obtain x y where xy: "map snd ps = [x, y]" using r(2) by (cases ps; cases "tl ps") (auto simp: length_Suc_conv)
  have fits: "stream_fits 765 0 (map snd ps) [[x], [y]]"
    unfolding xy by (rule two_whole_messages) (use r(3) in \<open>simp only: xy\<close>)
  obtain h' s' pbuf' where m: "recv_messages zero_alloc 0 False (server_callback demo_sys) [[x], [y]] [demo_ring 4] 4
      (demo_conn, demo_server []) (replicate 255 0) = Some ([h'], (demo_conn, s'), pbuf')"
    "devInfos s' = fold (apply_queued 0 (sv_time (demo_server [])) demo_heap) ?cmds (devInfos (demo_server []))"
    using r(4) [unfolded packets_lead_to_def, rule_format, OF fits demo_ring_idle(1) [of 4], of "replicate 255 0" "[]" "[]" zero_alloc 0 False]
    by (auto simp: demo_ring_idle(2))
  have "map lockState (devInfos s') = [0]" "map passwordLen (devInfos s') = [4]"
    by (simp_all add: m(2) demo_server_def apply_queued_def apply_command_def lock_beacon_def updateDeviceStatus_def
        command_of_def demo_heap_def demo_command_def)
  then show ?thesis
    using r(1) m(1) by (intro exI [of _ q] exI [of _ nd'] exI [of _ cn'] exI [of _ "[[x], [y]]"] exI [of _ h'] exI [of _ s'] exI [of _ pbuf'] conjI)
qed

lemma server_answers_nonce:
  fixes k0 :: gcm_context and env0 env env1 :: send_env and nd :: node
  defines "ident \<equiv> htonl (fresh_nonce env0) + htonl (fresh_nonce env)"
  assumes keyed: "gcm_keyed k0"
    and packet: "packet_ok None a None (se_iv env0)" "sealed k0 (se_iv env0) a (htonl (fresh_nonce env0)) 0 None t w"
      "a = node_add 255 devid [] j" "node_add_ok devid []" "length w \<le> 255"
    and sv: "connectionType cs = 0" "no_session cs" "from_device s devid d"
      "same_key k0 (key_ctx es (di_key d))" "8 \<le> length (decryptedMsgBuffer s)"
      "w_envs (sv_wire s) = env # env1 # rest" "can_send env None None (sendProcessingBuffer s)"
      "length (sendProcessingBuffer s) = 255" "malloc (sys_alloc es) 255 \<noteq> None" "length sbuf = 255"
    and cmd: "fst (drain devid (commandsQueue s)) = [cmd]" "command_ready 255 env1 cmd" "argsPtr cmd = Some args"
      "run_command (opCode cmd) args \<noteq> None" "255 \<le> length (decryptionBuffer nd)" "same_key k0 (encryptionContext nd)"
    and sess: "ident \<noteq> 0"
  shows "\<exists>cs' m s' l tag x y. processMsg es cs (w @ drop (length w) sbuf) s = Some (None, cs', m, s') \<and> sessionId cs' = ident
    \<and> w_sent (sv_wire s') = w_sent (sv_wire s) @ [(ci_socket cs, x), (ci_socket cs, y)]
    \<and> commandsQueue s' = snd (drain devid (commandsQueue s))
    \<and> gcm_keyed l \<and> same_key k0 l \<and> packet_ok None None None (se_iv env)
    \<and> sealed l (se_iv env) None (htonl (fresh_nonce env)) 0 None tag x
    \<and> list_all (\<lambda>x. framed x \<and> length x \<le> 255) [x, y]
    \<and> (\<forall>nd' cn. same_key l (encryptionContext nd') \<longrightarrow> 255 \<le> length (decryptionBuffer nd') \<longrightarrow> sessionId cn \<noteq> 0 \<longrightarrow>
        client_ready (Some cn, nd') \<lparr>nm_devType = 0, nm_opcode = opCode cmd, nm_args = args, nm_bytes = y\<rparr>)"
proof -
  have conn: "sessionId cs = 0" "localNonce cs = 0" "remoteNonce cs = 0" "sendSessionIncrements cs = 0"
    using sv(2) by (simp_all add: no_session_def)
  have hyps: "8 + length (opt_net None) \<le> length (decryptedMsgBuffer s)" "MAXMSGLEN \<le> length (w @ drop (length w) sbuf)"
    "w_envs (sv_wire s) = env # [env1] @ rest"
    "list_all2 (command_ready (length (sendProcessingBuffer s))) [env1] (fst (drain devid (commandsQueue s)))"
    using sv(5,6,8,10) packet(5) cmd(1,2) by (simp_all add: MAXMSGLEN_def)
  from first_message_flushes [OF keyed sv(4) packet(1-4) sv(1) conn(1-3) sv(3) hyps(1-3) sv(7) hyps(4) sv(9) sess [unfolded ident_def]]
  obtain c1 cs' m s' l tag x ps where raw: "processMsg es cs (w @ drop (length w) sbuf) s = Some (None, cs', m, s')"
    "c1 = cs\<lparr>remoteNonce := htonl (fresh_nonce env0), localNonce := htonl (fresh_nonce env), sessionId := ident\<rparr>"
    "cs' = c1\<lparr>sendSessionIncrements := sendSessionIncrements cs + of_nat (length (fst (drain devid (commandsQueue s))))\<rparr>"
    "w_sent (sv_wire s') = w_sent (sv_wire s) @ (ci_socket cs, x) # ps"
    "same_key k0 l" "sealed l (se_iv env) None (htonl (fresh_nonce env)) 0 None tag x"
    "sent_in_session (key_ctx es (di_key d)) c1 (fst (drain devid (commandsQueue s))) ps"
    "commandsQueue s' = snd (drain devid (commandsQueue s))"
    by (elim exE conjE) (rule that [unfolded ident_def])
  have l: "gcm_keyed l" "gcm_keyed (key_ctx es (di_key d))"
    using gcm.same_keyed [OF keyed raw(5)] gcm.same_keyed [OF keyed sv(4)] by simp_all
  have okx: "packet_ok None None None (se_iv env)" using sv(7) by (simp add: can_send_def)
  have "length x = packet_size None None None" using sealed_shape [OF l(1) okx raw(6)] by metis
  then have x: "framed x" "length x \<le> 255" using sealed_framed [OF l(1) okx raw(6)] by (simp_all add: packet_size_def)
  have ready: "\<exists>y. ps = [(ci_socket c1, y)] \<and> framed y \<and> length y \<le> 255
      \<and> client_ready (Some cn, nd') \<lparr>nm_devType = 0, nm_opcode = opCode cmd, nm_args = args, nm_bytes = y\<rparr>"
    if "same_key l (encryptionContext nd')" "255 \<le> length (decryptionBuffer nd')" "sessionId cn \<noteq> 0" for nd' cn
  proof -
    have "same_key (key_ctx es (di_key d)) (encryptionContext nd')" using that(1) raw(5) sv(4) by (simp add: same_key_def)
    from sent_command_ready [OF raw(7) [unfolded cmd(1)] l(2) this cmd(2-4) that(2,3)] show ?thesis .
  qed
  have "same_key l (encryptionContext nd)" using raw(5) cmd(6) by (simp add: same_key_def)
  from ready [OF this cmd(5), of cs'] raw(2,3) sess obtain y where y: "ps = [(ci_socket cs, y)]" "framed y" "length y \<le> 255" by auto
  have "sessionId cs' = ident" using raw(2,3) by simp
  moreover have "client_ready (Some cn, nd') \<lparr>nm_devType = 0, nm_opcode = opCode cmd, nm_args = args, nm_bytes = y\<rparr>"
    if "same_key l (encryptionContext nd')" "255 \<le> length (decryptionBuffer nd')" "sessionId cn \<noteq> 0" for nd' cn
    using ready [OF that] y(1) by simp
  ultimately show ?thesis
    using raw(1,4,5,6,8) l(1) okx x y
    by (intro exI [of _ cs'] exI [of _ m] exI [of _ s'] exI [of _ l] exI [of _ tag] exI [of _ x] exI [of _ y]) simp
qed

text \<open>
  C1. One session, end to end: a node that holds the key the server has for it wakes up and sends
  its nonce; the server, on that packet, answers with its own nonce and sends the command queued
  for the device; the node, reading both from its socket in whatever chunks they arrive, joins
  the session under the same id as the server, sends everything it had queued (its beacon
  included) numbered within that session, and carries out the server's command.
\<close>

theorem session_end_to_end:
  assumes nd: "hasEncryptionContextBeenEstablished (th_node th)" "th_node th = nd" "gcm_keyed (encryptionContext nd)"
      "length (nd_devId nd) = 16" "255 \<le> length (decryptionBuffer nd)" "length (recvProcessingBuffer th) = 255"
      "w_envs (nd_wire nd) = env0 # envs @ others" "malloc (sys_alloc en) 255 \<noteq> None"
      "\<And>j. can_send env0 None (Some (255, [nd_devId nd], j)) (nd_sendBuffer nd)" "length (nd_sendBuffer nd) = 255"
    and beacon: "queue_beacon en ty lock nd = Some nb" "queue_holds (nodeCommandsQueue nb) cmds"
      "list_all2 (node_ready (nd_heap nb)) envs cmds"
    and h: "th_holders th = hs1 @ h # hs2" "\<forall>g\<in>set hs1 \<union> set hs2. rh_socket g \<noteq> rh_socket h" "idle h cap pos"
    and sv: "connectionType cs = 0" "no_session cs" "from_device s (nd_devId nd) d"
      "same_key (encryptionContext nd) (key_ctx es (di_key d))" "8 \<le> length (decryptedMsgBuffer s)"
      "w_envs (sv_wire s) = env # env1 # rest" "can_send env None None (sendProcessingBuffer s)"
      "length (sendProcessingBuffer s) = 255" "malloc (sys_alloc es) 255 \<noteq> None" "length sbuf = 255"
    and cmd: "fst (drain (nd_devId nd) (commandsQueue s)) = [cmd]" "command_ready 255 env1 cmd" "argsPtr cmd = Some args"
      "run_command (opCode cmd) args = Some ev"
    and sess: "htonl (fresh_nonce env0) + htonl (fresh_nonce env) \<noteq> 0"
  shows "\<exists>w cs' m s' x y. processMsg es cs (w @ drop (length w) sbuf) s = Some (None, cs', m, s')
    \<and> w_sent (sv_wire s') = w_sent (sv_wire s) @ [(ci_socket cs, x), (ci_socket cs, y)]
    \<and> commandsQueue s' = snd (drain (nd_devId nd) (commandsQueue s))
    \<and> list_all (\<lambda>x. framed x \<and> length x \<le> 255) [x, y]
    \<and> (\<forall>cs1 cs2. stream_fits cap pos [x, y] [cs1, cs2] \<longrightarrow>
        (\<exists>th' ps cn. wake_up en ty lock junk (rh_socket h) True (map RecvData (cs1 @ cs2)) th = Some th'
          \<and> nd_events (th_node th') = nd_events nd @ [ev] \<and> queue_holds (nodeCommandsQueue (th_node th')) []
          \<and> w_sent (nd_wire (th_node th')) = w_sent (nd_wire nd) @ (rh_socket h, w) # ps
          \<and> sessionId cn = sessionId cs' \<and> node_sent (encryptionContext nd) (nd_heap nb) cn cmds ps))"
proof -
  let ?c = "initializeConnInfo (rh_socket h)" and ?th = "initializeSocket (rh_socket h) th"
  have c: "no_session ?c" "ci_socket ?c = rh_socket h" by (simp_all add: initializeConnInfo_def no_session_def)
  obtain j k buf t w where n: "send_nonce en ?c nd = Some (?c\<lparr>localNonce := fresh_nonce env0\<rparr>,
        nd\<lparr>encryptionContext := k, nd_sendBuffer := buf, nd_wire := emit (nd_wire nd) (envs @ others) (ci_socket ?c) w\<rparr>)"
    "sealed (encryptionContext nd) (se_iv env0) (Some (255, [nd_devId nd], j)) (htonl (fresh_nonce env0)) 0 None t w"
    "same_key (encryptionContext nd) k"
    using send_nonce_sends [OF c(1) nd(3,7,4,8,9)] by blast
  let ?a = "Some (255, [nd_devId nd], j)"
  have ok: "packet_ok None ?a None (se_iv env0)" using nd(9) by (simp add: can_send_def)
  have a: "?a = node_add 255 (nd_devId nd) [] j" "node_add_ok (nd_devId nd) []"
    using nd(4) by (simp_all add: node_add_def node_add_ok_def pck_len_def)
  have "length w = packet_size None ?a None" using sealed_shape [OF nd(3) ok n(2)] by metis
  then have w: "w \<noteq> []" "length w \<le> 255"
    using nd(9) [of j] nd(10) by (auto simp: can_send_def packet_size_def)
  have rc: "run_command (opCode cmd) args \<noteq> None" using cmd(4) by simp
  from server_answers_nonce [OF nd(3) ok n(2) a w(2) sv(1-10) cmd(1-3) rc nd(5) gcm.same_refl sess]
  obtain cs' m s' l tag x y where srv: "processMsg es cs (w @ drop (length w) sbuf) s = Some (None, cs', m, s')"
    "sessionId cs' = htonl (fresh_nonce env0) + htonl (fresh_nonce env)"
    "w_sent (sv_wire s') = w_sent (sv_wire s) @ [(ci_socket cs, x), (ci_socket cs, y)]"
    "commandsQueue s' = snd (drain (nd_devId nd) (commandsQueue s))"
    "gcm_keyed l" "same_key (encryptionContext nd) l" "packet_ok None None None (se_iv env)"
    "sealed l (se_iv env) None (htonl (fresh_nonce env)) 0 None tag x"
    "list_all (\<lambda>x. framed x \<and> length x \<le> 255) [x, y]"
    "\<forall>nd' cn. same_key l (encryptionContext nd') \<longrightarrow> 255 \<le> length (decryptionBuffer nd') \<longrightarrow> sessionId cn \<noteq> 0 \<longrightarrow>
        client_ready (Some cn, nd') \<lparr>nm_devType = 0, nm_opcode = opCode cmd, nm_args = args, nm_bytes = y\<rparr>"
    by (elim exE conjE) (rule that)
  have xy: "same_key l k" "length x \<le> 255" "length y \<le> 255" using srv(6,9) n(3) by (simp_all add: same_key_def)
  have run: "\<exists>th' ps cn. wake_up en ty lock junk (rh_socket h) True (map RecvData (cs1 @ cs2)) th = Some th'
          \<and> nd_events (th_node th') = nd_events nd @ [ev] \<and> queue_holds (nodeCommandsQueue (th_node th')) []
          \<and> w_sent (nd_wire (th_node th')) = w_sent (nd_wire nd) @ (rh_socket h, w) # ps
          \<and> sessionId cn = sessionId cs' \<and> node_sent (encryptionContext nd) (nd_heap nb) cn cmds ps"
    if fits: "stream_fits cap pos [x, y] [cs1, cs2]" for cs1 cs2
  proof -
    have th: "recvProcessingBuffer ?th = recvProcessingBuffer th" "th_holders ?th = hs1 @ h # hs2" "th_node ?th = nd" "connInfo ?th = ?c"
      by (simp_all add: initializeSocket_def h(1) nd(2))
    from run_session_commands [OF nd(3-5,7,8) beacon n(1,3) w(1) c(1) srv(5) xy(1) srv(7,8) xy(2) sess nd(6) h(2,3) c(2) srv(10) cmd(4) xy(3) fits th, of junk]
    show ?thesis unfolding srv(2)
      using nd(1) by (simp add: wake_up_def Let_def) (simp add: initializeSocket_def, blast)
  qed
  show ?thesis
    using srv(1,3,4,9) run by (intro exI [of _ w] exI [of _ cs'] exI [of _ m] exI [of _ s'] exI [of _ x] exI [of _ y]) simp
qed

text \<open>A node with an empty queue wakes up: its beacon goes out, and the queued new passcode comes in.\<close>

definition demo_session_node :: node where
  "demo_session_node = demo_node (initializeCommandQueue zero_alloc) [demo_env 80, demo_env 115]"

definition demo_session_thread :: socket_thread where
  "demo_session_thread = \<lparr>th_node = demo_session_node, connInfo = initializeConnInfo 0, th_holders = [demo_ring 3],
     recvProcessingBuffer = replicate 255 0, reconnectAttempts = 0, mainControllerIp = ''10.0.0.2''\<rparr>"

lemma demo_beacon_queued:
  obtains nb where "queue_beacon demo_sys 2 (4097, 1, 0, [1, 2, 3, 4], 4) demo_session_node = Some nb"
    "queue_holds (nodeCommandsQueue nb) [demo_command 1]" "nd_heap nb = demo_heap"
proof -
  have c: "composeSmartLockBeaconCmdInfo 4097 1 0 [1, 2, 3, 4] 4 demo_session_node = Some (demo_command 1, demo_session_node)"
    by (auto simp: composeSmartLockBeaconCmdInfo_def composeBeaconPacketCmdInfo_def load_bytes_def demo_session_node_def
        demo_node_def demo_command_def demo_heap_def)
  obtain q where q: "client_addToCommandQueue demo_sys (initializeCommandQueue zero_alloc) (demo_command 1) = Some q"
    "queue_holds q ([] @ [demo_command 1])"
    using add_holds_room [OF demo_queue(1) demo_command_ok, of demo_sys 1] demo_queue(2) getCommandQueueLength_holds [OF demo_queue(1)]
    by (auto simp: getCommandQueueLength_def)
  show thesis
    by (rule that [of "demo_session_node\<lparr>nodeCommandsQueue := q\<rparr>"])
      (use q c in \<open>simp_all add: queue_beacon_def demo_session_node_def demo_node_def\<close>)
qed

theorem session_end_to_end_witness:
  "\<exists>w cs' m s' x y th'. processMsg demo_sys (fresh_conn 4 0) w (demo_server [demo_env 52, demo_env 76]) = Some (None, cs', m, s')
    \<and> w_sent (sv_wire s') = [(4, x), (4, y)]
    \<and> wake_up demo_sys 2 (4097, 1, 0, [1, 2, 3, 4], 4) 0 3 True (map RecvData [x, y]) demo_session_thread = Some th'
    \<and> nd_events (th_node th') = [ChangePasscode [1, 2, 3, 4]]"
proof -
  let ?lock = "(4097, 1, 0, [1, 2, 3, 4], 4) :: u64 \<times> byte \<times> byte \<times> byte list \<times> byte"
  let ?nd = demo_session_node and ?th = demo_session_thread and ?s = "demo_server [demo_env 52, demo_env 76]"
  obtain nb where nb: "queue_beacon demo_sys 2 ?lock ?nd = Some nb" "queue_holds (nodeCommandsQueue nb) [demo_command 1]"
    "nd_heap nb = demo_heap" by (rule demo_beacon_queued)
  have n: "nd_devId ?nd = demo_id" "encryptionContext ?nd = demo_ctx" "nd_events ?nd = []" "length demo_id = 16"
    "w_envs (nd_wire ?nd) = demo_env 80 # [demo_env 115] @ []" "hasEncryptionContextBeenEstablished (th_node ?th)" "th_node ?th = ?nd"
    "255 \<le> length (decryptionBuffer ?nd)" "length (recvProcessingBuffer ?th) = 255" "length (nd_sendBuffer ?nd) = 255"
    "th_holders ?th = [] @ demo_ring 3 # []" "rh_socket (demo_ring 3) = 3" "malloc (sys_alloc demo_sys) 255 \<noteq> None"
    by (simp_all add: demo_session_node_def demo_session_thread_def demo_node_def demo_id_def demo_ring_idle demo_sys_def)
  have can: "can_send (demo_env 80) None (Some (255, [demo_id], j)) (nd_sendBuffer ?nd)" for j
    by (simp add: can_send_def packet_ok_def nonempty_arg_def packet_size_def opt_net_def pck_len_def demo_env_def n(4,10))
  have ready: "list_all2 (node_ready (nd_heap nb)) [demo_env 115] [demo_command 1]"
    using demo_node_ready [of 1] nb(3) by simp
  have holders: "\<forall>g\<in>set [] \<union> set []. rh_socket g \<noteq> rh_socket (demo_ring 3)" by simp
  have s: "connectionType (fresh_conn 4 0) = 0" "no_session (fresh_conn 4 0)" "8 \<le> length (decryptedMsgBuffer ?s)"
    "same_key demo_ctx (key_ctx demo_sys (di_key demo_dev))" "w_envs (sv_wire ?s) = demo_env 52 # demo_env 76 # []"
    "can_send (demo_env 52) None None (sendProcessingBuffer ?s)" "length (sendProcessingBuffer ?s) = 255"
    "w_sent (sv_wire ?s) = []" "length (replicate 255 (0 :: byte)) = 255" "ci_socket (fresh_conn 4 0) = 4"
    using demo_can_send(2) by (simp_all add: fresh_conn_def no_session_def demo_server_def demo_key_ctx gcm.same_refl)
  have cmd: "fst (drain demo_id (commandsQueue ?s)) = [demo_cmd]" "argsPtr demo_cmd = Some [1, 2, 3, 4]"
    "run_command (opCode demo_cmd) [1, 2, 3, 4] = Some (ChangePasscode [1, 2, 3, 4])"
    by (simp_all add: demo_drain) (simp_all add: demo_cmd_def run_command_def)
  have nonce: "htonl (fresh_nonce (demo_env 80)) + htonl (fresh_nonce (demo_env 52)) \<noteq> 0" by code_simp
  from session_end_to_end [of ?th ?nd, unfolded n(1,2,3), OF n(6,7) demo_keyed n(4,8,9,5,13) can n(10) nb(1,2) ready n(11) holders
      demo_ring_idle(1) s(1,2) demo_from_device(1) s(4,3,5,6,7) n(13) s(9) cmd(1) demo_ready cmd(2,3) nonce, of 0]
  obtain w cs' m s' x y where r: "processMsg demo_sys (fresh_conn 4 0) (w @ drop (length w) (replicate 255 0)) ?s = Some (None, cs', m, s')"
    "w_sent (sv_wire s') = w_sent (sv_wire ?s) @ [(ci_socket (fresh_conn 4 0), x), (ci_socket (fresh_conn 4 0), y)]"
    "list_all (\<lambda>x. framed x \<and> length x \<le> 255) [x, y]"
    "\<And>cs1 cs2. stream_fits 765 0 [x, y] [cs1, cs2] \<Longrightarrow>
        \<exists>th'. wake_up demo_sys 2 ?lock 0 (rh_socket (demo_ring 3)) True (map RecvData (cs1 @ cs2)) ?th = Some th'
          \<and> nd_events (th_node th') = [] @ [ChangePasscode [1, 2, 3, 4]]"
    by blast
  obtain th' where "wake_up demo_sys 2 ?lock 0 3 True (map RecvData [x, y]) ?th = Some th'"
    "nd_events (th_node th') = [ChangePasscode [1, 2, 3, 4]]"
    using r(4) [OF two_whole_messages [OF r(3)]] n(12) by auto
  then show ?thesis using r(1,2) unfolding s(8,10) append_Nil by blast
qed









end
