(* ===== verification/SmartLock.thy ===== *)
theory SmartLock
  imports C_Prelude
begin

text \<open>
  The smart lock of \<open>nodeClient/testEsp32/main\<close>: the keypad (\<open>smartLock/matrixKeyboard.c\<close>), the
  passcode, LEDs, motor and switches (\<open>smartLock/smartLockCore.c\<close>), and the command that changes
  the passcode (\<open>commands/smartLock/commands.c\<close>). The state holds the global variables, the
  levels the code drives its pins to, the one-shot timers that are running and what was stored
  in flash; the levels the code reads and the results of starting a timer are arguments of the
  event. A timer that runs may expire, once.
\<close>

section \<open>State\<close>

definition MAX_PASSWORD_LEN :: nat where "MAX_PASSWORD_LEN = 12"

definition KEYPAD_COL1_PIN :: nat where "KEYPAD_COL1_PIN = 33"
definition KEYPAD_COL2_PIN :: nat where "KEYPAD_COL2_PIN = 27"
definition KEYPAD_COL3_PIN :: nat where "KEYPAD_COL3_PIN = 32"
definition MOTOR_DRIVER_IN1_PIN :: nat where "MOTOR_DRIVER_IN1_PIN = 25"
definition MOTOR_DRIVER_IN2_PIN :: nat where "MOTOR_DRIVER_IN2_PIN = 26"
definition BAD_STATUS_LED_PIN :: nat where "BAD_STATUS_LED_PIN = 13"
definition GOOD_STATUS_LED_PIN :: nat where "GOOD_STATUS_LED_PIN = 14"
definition ACTIVE_BUZZER_PIN :: nat where "ACTIVE_BUZZER_PIN = 18"
definition POWER_LED_PIN :: nat where "POWER_LED_PIN = 15"

lemmas pin_defs = KEYPAD_COL1_PIN_def KEYPAD_COL2_PIN_def KEYPAD_COL3_PIN_def MOTOR_DRIVER_IN1_PIN_def
  MOTOR_DRIVER_IN2_PIN_def BAD_STATUS_LED_PIN_def GOOD_STATUS_LED_PIN_def ACTIVE_BUZZER_PIN_def POWER_LED_PIN_def

datatype timer = DebounceTimer | GoodLedTimer | BadLedTimer | MotorTimeoutTimer | OpenSwitchTimer | ClosedSwitchTimer
  | ProximityDetectorTimer

record smart_lock =
  passwordBuffer :: "byte list"
  passwordCurrentLength :: byte
  isDebounceTimerRunning :: int
  currentPasscode :: "byte list"
  currentPasscodeLen :: byte
  currentDoorState :: byte
  currentLockState :: byte
  motorStatus :: byte
  isOpenSwitchTimerRunning :: byte
  isClosedSwitchTimerRunning :: byte
  gpio :: "nat \<Rightarrow> nat"
  running :: "timer set"
  nvs_passcode :: "byte list option"
  nvs_passcodeLen :: "byte option"

definition gpio_set_level :: "nat \<Rightarrow> nat \<Rightarrow> smart_lock \<Rightarrow> smart_lock" where
  "gpio_set_level pin level s = s\<lparr>gpio := (gpio s)(pin := level)\<rparr>"

text \<open>\<open>starts\<close> tells which timers the system agrees to start.\<close>

definition start_timer :: "(timer \<Rightarrow> bool) \<Rightarrow> timer \<Rightarrow> smart_lock \<Rightarrow> smart_lock" where
  "start_timer starts t s = (if starts t then s\<lparr>running := insert t (running s)\<rparr> else s)"

definition initKeypad :: "smart_lock \<Rightarrow> smart_lock" where
  "initKeypad s = gpio_set_level KEYPAD_COL3_PIN 0 (gpio_set_level KEYPAD_COL2_PIN 0 (gpio_set_level KEYPAD_COL1_PIN 0 s))"

definition initLock :: "smart_lock \<Rightarrow> smart_lock" where
  "initLock s =
     (let s = initKeypad s;
          s = gpio_set_level POWER_LED_PIN 1 s;
          s = gpio_set_level GOOD_STATUS_LED_PIN 0 s;
          s = gpio_set_level BAD_STATUS_LED_PIN 0 s;
          s = gpio_set_level ACTIVE_BUZZER_PIN 0 s;
          s = gpio_set_level MOTOR_DRIVER_IN1_PIN 0 s
      in gpio_set_level MOTOR_DRIVER_IN2_PIN 0 s)"

text \<open>The initial values of the globals, and \<open>initLock\<close>.\<close>

definition power_on :: smart_lock where
  "power_on = initLock \<lparr>passwordBuffer = replicate MAX_PASSWORD_LEN 0, passwordCurrentLength = 0, isDebounceTimerRunning = 0,
     currentPasscode = [1, 2, 4, 4] @ replicate (MAX_PASSWORD_LEN - 4) 0, currentPasscodeLen = 4, currentDoorState = 0,
     currentLockState = 0, motorStatus = 0, isOpenSwitchTimerRunning = 0, isClosedSwitchTimerRunning = 0, gpio = (\<lambda>_. 0),
     running = {}, nvs_passcode = None, nvs_passcodeLen = None\<rparr>"

section \<open>The passcode, the motor and the lights\<close>

definition rotateMotorClockwise :: "(timer \<Rightarrow> bool) \<Rightarrow> smart_lock \<Rightarrow> smart_lock" where
  "rotateMotorClockwise starts s =
     start_timer starts MotorTimeoutTimer
       ((gpio_set_level MOTOR_DRIVER_IN2_PIN 0 (gpio_set_level MOTOR_DRIVER_IN1_PIN 1 s))\<lparr>motorStatus := 1\<rparr>)"

definition rotateMotorAnticlockwise :: "(timer \<Rightarrow> bool) \<Rightarrow> smart_lock \<Rightarrow> smart_lock" where
  "rotateMotorAnticlockwise starts s =
     start_timer starts MotorTimeoutTimer
       ((gpio_set_level MOTOR_DRIVER_IN2_PIN 1 (gpio_set_level MOTOR_DRIVER_IN1_PIN 0 s))\<lparr>motorStatus := 2\<rparr>)"

definition passcodeWrong :: "(timer \<Rightarrow> bool) \<Rightarrow> smart_lock \<Rightarrow> smart_lock" where
  "passcodeWrong starts s =
     start_timer starts BadLedTimer (gpio_set_level ACTIVE_BUZZER_PIN 1 (gpio_set_level BAD_STATUS_LED_PIN 1 s))"

definition passcodeCorrect :: "(timer \<Rightarrow> bool) \<Rightarrow> smart_lock \<Rightarrow> smart_lock" where
  "passcodeCorrect starts s =
     rotateMotorClockwise starts
       (start_timer starts GoodLedTimer (gpio_set_level GOOD_STATUS_LED_PIN 1 (gpio_set_level ACTIVE_BUZZER_PIN 1 s)))"

text \<open>Both codes are printed up to the length that was typed.\<close>

definition passcodeEntered :: "(timer \<Rightarrow> bool) \<Rightarrow> byte list \<Rightarrow> byte \<Rightarrow> smart_lock \<Rightarrow> smart_lock option" where
  "passcodeEntered starts passcode passcodeLen s = do {
     typed \<leftarrow> load_bytes passcode 0 (unat passcodeLen);
     current \<leftarrow> load_bytes (currentPasscode s) 0 (unat passcodeLen);
     if passcodeLen = currentPasscodeLen s then
       if current = typed then Some (passcodeCorrect starts s) else Some (passcodeWrong starts s)
     else Some (passcodeWrong starts s)
   }"

definition goodLedTimeoutCallback :: "smart_lock \<Rightarrow> smart_lock" where
  "goodLedTimeoutCallback s = gpio_set_level ACTIVE_BUZZER_PIN 0 (gpio_set_level GOOD_STATUS_LED_PIN 0 s)"

definition badLedTimeoutCallback :: "smart_lock \<Rightarrow> smart_lock" where
  "badLedTimeoutCallback s = gpio_set_level ACTIVE_BUZZER_PIN 0 (gpio_set_level BAD_STATUS_LED_PIN 0 s)"

definition motorTimeoutCallback :: "smart_lock \<Rightarrow> smart_lock" where
  "motorTimeoutCallback s =
     (gpio_set_level MOTOR_DRIVER_IN2_PIN 0 (gpio_set_level MOTOR_DRIVER_IN1_PIN 0 s))\<lparr>motorStatus := 0\<rparr>"

text \<open>
  Storing the passcode: \<open>nvs\<close> tells whether the storage opened, and whether each value was
  written; after a failed open an uninitialised handle is used.
\<close>

definition setPasscode :: "bool \<times> bool \<times> bool \<Rightarrow> byte list \<Rightarrow> byte \<Rightarrow> int \<Rightarrow> smart_lock \<Rightarrow> smart_lock option" where
  "setPasscode nvs passcode passcodeLen saveToMemory s = do {
     code \<leftarrow> load_bytes passcode 0 (unat passcodeLen);
     cur \<leftarrow> store_bytes (currentPasscode s) 0 code;
     let s = s\<lparr>currentPasscode := cur, currentPasscodeLen := passcodeLen\<rparr>;
     if saveToMemory = 1 then
       let (opened, len_ok, code_ok) = nvs in
       if \<not> opened then None
       else
         let s = (if len_ok then s\<lparr>nvs_passcodeLen := Some (currentPasscodeLen s)\<rparr> else s);
             s = (if code_ok then s\<lparr>nvs_passcode := Some (take (unat (currentPasscodeLen s)) (currentPasscode s))\<rparr> else s)
         in Some s
     else Some s
   }"

section \<open>The switches\<close>

definition lockSwitchStateInterrupt :: "(timer \<Rightarrow> bool) \<Rightarrow> int \<Rightarrow> smart_lock \<Rightarrow> smart_lock" where
  "lockSwitchStateInterrupt starts switchType s =
     (if switchType = 1 then
        if isClosedSwitchTimerRunning s = 0 then
          let s = start_timer starts ClosedSwitchTimer s in
          if starts ClosedSwitchTimer then s\<lparr>isClosedSwitchTimerRunning := 1\<rparr> else s
        else s
      else if switchType = 2 then
        if isOpenSwitchTimerRunning s = 0 then
          let s = start_timer starts OpenSwitchTimer s in
          if starts OpenSwitchTimer then s\<lparr>isOpenSwitchTimerRunning := 1\<rparr> else s
        else s
      else s)"

definition openSwitchTimerCallback :: "nat \<Rightarrow> smart_lock \<Rightarrow> smart_lock" where
  "openSwitchTimerCallback level s =
     (let s = (if level = 0 then s\<lparr>currentLockState := 0\<rparr> else s) in s\<lparr>isOpenSwitchTimerRunning := 0\<rparr>)"

definition closedSwitchTimerCallback :: "nat \<Rightarrow> smart_lock \<Rightarrow> smart_lock" where
  "closedSwitchTimerCallback level s =
     (let s = (if level = 0 then s\<lparr>currentLockState := 1\<rparr> else s) in s\<lparr>isClosedSwitchTimerRunning := 0\<rparr>)"

definition proximitySensorInterruptCallback :: "(timer \<Rightarrow> bool) \<Rightarrow> smart_lock \<Rightarrow> smart_lock" where
  "proximitySensorInterruptCallback starts s = start_timer starts ProximityDetectorTimer s"

definition proximityTimerCallback :: "nat \<Rightarrow> smart_lock \<Rightarrow> smart_lock" where
  "proximityTimerCallback level s =
     (if level = 0 then s\<lparr>currentDoorState := 0\<rparr> else if level = 1 then s\<lparr>currentDoorState := 1\<rparr> else s)"

section \<open>The keypad\<close>

definition debounceTimerCallback :: "smart_lock \<Rightarrow> smart_lock" where
  "debounceTimerCallback s = s\<lparr>isDebounceTimerRunning := 0\<rparr>"

text \<open>The columns are driven high one after the other; the row is read each time.\<close>

definition scan_columns :: "smart_lock \<Rightarrow> smart_lock" where
  "scan_columns s =
     (let drive = (\<lambda>a b c s. gpio_set_level KEYPAD_COL3_PIN c (gpio_set_level KEYPAD_COL2_PIN b (gpio_set_level KEYPAD_COL1_PIN a s)))
      in drive 0 0 1 (drive 0 1 0 (drive 1 0 0 s)))"

definition finalColVal :: "nat \<times> nat \<times> nat \<Rightarrow> nat" where
  "finalColVal cols =
     (let (colNum1, colNum2, colNum3) = cols in
      if colNum1 = 1 then 1 else if colNum2 = 1 then 2 else if colNum3 = 1 then 3 else 0)"

definition keyVal :: "u32 \<Rightarrow> nat \<Rightarrow> byte" where
  "keyVal rowNum col =
     (if rowNum = 1 then if col = 1 then 1 else if col = 2 then 2 else if col = 3 then 3 else 20
      else if rowNum = 2 then if col = 1 then 4 else if col = 2 then 5 else if col = 3 then 6 else 20
      else if rowNum = 3 then if col = 1 then 7 else if col = 2 then 8 else if col = 3 then 9 else 20
      else if rowNum = 4 then if col = 1 then 10 else if col = 2 then 11 else if col = 3 then 11 else 20
      else 20)"

definition submit :: "(timer \<Rightarrow> bool) \<Rightarrow> smart_lock \<Rightarrow> smart_lock option" where
  "submit starts s = do {
     s \<leftarrow> passcodeEntered starts (passwordBuffer s) (passwordCurrentLength s) s;
     Some (s\<lparr>passwordCurrentLength := 0\<rparr>)
   }"

definition key_pressed :: "(timer \<Rightarrow> bool) \<Rightarrow> byte \<Rightarrow> smart_lock \<Rightarrow> smart_lock option" where
  "key_pressed starts key s =
     (if key \<noteq> 20 then
        if key = 10 then
          Some (if passwordCurrentLength s > 0 then s\<lparr>passwordCurrentLength := passwordCurrentLength s - 1\<rparr> else s)
        else if key = 11 then submit starts s
        else if unat (passwordCurrentLength s) < MAX_PASSWORD_LEN then do {
          buf \<leftarrow> store_bytes (passwordBuffer s) (unat (passwordCurrentLength s)) [key];
          Some (s\<lparr>passwordBuffer := buf, passwordCurrentLength := passwordCurrentLength s + 1\<rparr>)
        }
        else submit starts s
      else Some s)"

definition keypadInterruptHandler ::
    "(timer \<Rightarrow> bool) \<Rightarrow> u32 \<Rightarrow> nat \<times> nat \<times> nat \<Rightarrow> smart_lock \<Rightarrow> smart_lock option" where
  "keypadInterruptHandler starts rowNum cols s =
     (let s = gpio_set_level 2 1 s in
      if isDebounceTimerRunning s = 1 then Some s
      else
        let s = s\<lparr>isDebounceTimerRunning := 1\<rparr>;
            s = start_timer starts DebounceTimer s;
            s = scan_columns s
        in key_pressed starts (keyVal rowNum (finalColVal cols)) s)"

section \<open>The command of the server\<close>

text \<open>
  \<open>isdigit\<close> of a character; the digits are collected in a local array, and a rejected code
  changes nothing.
\<close>

definition is_digit :: "byte \<Rightarrow> bool" where
  "is_digit c \<longleftrightarrow> 48 \<le> c \<and> c \<le> 57"

definition changePasscode :: "bool \<times> bool \<times> bool \<Rightarrow> byte list \<Rightarrow> smart_lock \<Rightarrow> (int \<times> smart_lock) option" where
  "changePasscode nvs args s =
     (if length args > MAX_PASSWORD_LEN then Some (- 1, s)
      else if \<not> list_all is_digit args then Some (- 1, s)
      else do {
        s \<leftarrow> setPasscode nvs (map (\<lambda>c. c - 48) args) (of_nat (length args)) 1 s;
        Some (0, s)
      })"

section \<open>Events\<close>

text \<open>An event carries what the hardware and the system answer while it is handled.\<close>

datatype lock_event =
    KeypadInterrupt "timer \<Rightarrow> bool" u32 "nat \<times> nat \<times> nat"
  | SwitchInterrupt "timer \<Rightarrow> bool" int
  | ProximityInterrupt "timer \<Rightarrow> bool"
  | TimerExpires timer nat
  | PasscodeCommand "bool \<times> bool \<times> bool" "byte list"

fun timer_callback :: "timer \<Rightarrow> nat \<Rightarrow> smart_lock \<Rightarrow> smart_lock" where
  "timer_callback DebounceTimer level s = debounceTimerCallback s"
| "timer_callback GoodLedTimer level s = goodLedTimeoutCallback s"
| "timer_callback BadLedTimer level s = badLedTimeoutCallback s"
| "timer_callback MotorTimeoutTimer level s = motorTimeoutCallback s"
| "timer_callback OpenSwitchTimer level s = openSwitchTimerCallback level s"
| "timer_callback ClosedSwitchTimer level s = closedSwitchTimerCallback level s"
| "timer_callback ProximityDetectorTimer level s = proximityTimerCallback level s"

inductive lock_step :: "smart_lock \<Rightarrow> lock_event \<Rightarrow> smart_lock \<Rightarrow> bool" where
  key_step: "keypadInterruptHandler starts row cols s = Some s' \<Longrightarrow> lock_step s (KeypadInterrupt starts row cols) s'"
| switch_step: "lock_step s (SwitchInterrupt starts sw) (lockSwitchStateInterrupt starts sw s)"
| proximity_step: "lock_step s (ProximityInterrupt starts) (proximitySensorInterruptCallback starts s)"
| timer_step: "t \<in> running s \<Longrightarrow> lock_step s (TimerExpires t level) (timer_callback t level (s\<lparr>running := running s - {t}\<rparr>))"
| command_step: "changePasscode nvs args s = Some (r, s') \<Longrightarrow> lock_step s (PasscodeCommand nvs args) s'"

inductive_cases lock_stepE: "lock_step s ev s'"

inductive lock_steps :: "smart_lock \<Rightarrow> lock_event list \<Rightarrow> smart_lock \<Rightarrow> bool" where
  no_steps: "lock_steps s [] s"
| more_steps: "lock_step s ev s1 \<Longrightarrow> lock_steps s1 evs s2 \<Longrightarrow> lock_steps s (ev # evs) s2"

inductive_simps lock_steps_simps [simp]: "lock_steps s [] s'" "lock_steps s (ev # evs) s'"

section \<open>What every operation keeps\<close>

definition digits :: "byte \<Rightarrow> byte \<Rightarrow> byte list \<Rightarrow> bool" where
  "digits lo hi ds \<longleftrightarrow> (\<forall>d\<in>set ds. lo \<le> d \<and> d \<le> hi)"

text \<open>The code typed so far, and the current one.\<close>

definition typed :: "smart_lock \<Rightarrow> byte list" where
  "typed s = take (unat (passwordCurrentLength s)) (passwordBuffer s)"

definition passcode :: "smart_lock \<Rightarrow> byte list" where
  "passcode s = take (unat (currentPasscodeLen s)) (currentPasscode s)"

definition codes_ok :: "smart_lock \<Rightarrow> bool" where
  "codes_ok s \<longleftrightarrow> length (passwordBuffer s) = 12 \<and> length (currentPasscode s) = 12
     \<and> unat (passwordCurrentLength s) \<le> 12 \<and> unat (currentPasscodeLen s) \<le> 12
     \<and> digits 1 9 (typed s) \<and> digits 0 9 (passcode s)"

definition motor_ok :: "smart_lock \<Rightarrow> bool" where
  "motor_ok s \<longleftrightarrow> motorStatus s \<in> {0, 1} \<and> gpio s MOTOR_DRIVER_IN1_PIN = unat (motorStatus s) \<and> gpio s MOTOR_DRIVER_IN2_PIN = 0"

definition reports_ok :: "smart_lock \<Rightarrow> bool" where
  "reports_ok s \<longleftrightarrow> currentLockState s \<in> {0, 1} \<and> currentDoorState s \<in> {0, 1} \<and> isDebounceTimerRunning s \<in> {0, 1}"

definition lock_ok :: "smart_lock \<Rightarrow> bool" where
  "lock_ok s \<longleftrightarrow> codes_ok s \<and> motor_ok s \<and> reports_ok s"

text \<open>The fields the codes depend on are those of another state.\<close>

definition same_codes :: "smart_lock \<Rightarrow> smart_lock \<Rightarrow> bool" where
  "same_codes s s' \<longleftrightarrow> passwordBuffer s' = passwordBuffer s \<and> passwordCurrentLength s' = passwordCurrentLength s
     \<and> currentPasscode s' = currentPasscode s \<and> currentPasscodeLen s' = currentPasscodeLen s"

lemma same_codes_ok: "same_codes s s' \<Longrightarrow> codes_ok s' \<longleftrightarrow> codes_ok s"
  by (simp add: same_codes_def codes_ok_def typed_def passcode_def)

lemmas pin_ops = gpio_set_level_def start_timer_def pin_defs

lemma power_on_ok: "lock_ok power_on"
  by (simp add: lock_ok_def codes_ok_def motor_ok_def reports_ok_def power_on_def initLock_def initKeypad_def Let_def pin_ops
      typed_def passcode_def digits_def MAX_PASSWORD_LEN_def)

lemma callback_ok: "lock_ok s \<Longrightarrow> lock_ok (timer_callback t level s)"
  by (cases t) (simp_all add: lock_ok_def codes_ok_def motor_ok_def reports_ok_def typed_def passcode_def pin_ops Let_def
      debounceTimerCallback_def goodLedTimeoutCallback_def badLedTimeoutCallback_def motorTimeoutCallback_def
      openSwitchTimerCallback_def closedSwitchTimerCallback_def proximityTimerCallback_def)

lemma running_ok: "lock_ok (s\<lparr>running := r\<rparr>) \<longleftrightarrow> lock_ok s"
  by (simp add: lock_ok_def codes_ok_def motor_ok_def reports_ok_def typed_def passcode_def)

lemma switch_ok: "lock_ok s \<Longrightarrow> lock_ok (lockSwitchStateInterrupt starts sw s)"
  by (simp add: lock_ok_def codes_ok_def motor_ok_def reports_ok_def typed_def passcode_def pin_ops Let_def lockSwitchStateInterrupt_def)

lemma proximity_ok: "lock_ok s \<Longrightarrow> lock_ok (proximitySensorInterruptCallback starts s)"
  by (simp add: proximitySensorInterruptCallback_def start_timer_def running_ok)

subsection \<open>Submitting a code\<close>

lemma correct_codes: "same_codes s (passcodeCorrect starts s)" "motorStatus (passcodeCorrect starts s) = 1"
    "motor_ok (passcodeCorrect starts s)" "reports_ok s \<Longrightarrow> reports_ok (passcodeCorrect starts s)"
  by (simp_all add: passcodeCorrect_def rotateMotorClockwise_def same_codes_def motor_ok_def reports_ok_def pin_ops)

lemma wrong_codes: "same_codes s (passcodeWrong starts s)" "motorStatus (passcodeWrong starts s) = motorStatus s"
    "motor_ok s \<Longrightarrow> motor_ok (passcodeWrong starts s)" "reports_ok s \<Longrightarrow> reports_ok (passcodeWrong starts s)"
  by (simp_all add: passcodeWrong_def same_codes_def motor_ok_def reports_ok_def pin_ops)

lemma submit_result:
  assumes "codes_ok s"
  shows "submit starts s = Some ((if typed s = passcode s then passcodeCorrect starts s else passcodeWrong starts s)\<lparr>passwordCurrentLength := 0\<rparr>)"
proof -
  let ?n = "unat (passwordCurrentLength s)"
  have ld: "load_bytes (passwordBuffer s) 0 ?n = Some (typed s)"
    "load_bytes (currentPasscode s) 0 ?n = Some (take ?n (currentPasscode s))"
    using assms by (simp_all add: codes_ok_def load_bytes_def typed_def)
  have "typed s = passcode s \<longleftrightarrow> passwordCurrentLength s = currentPasscodeLen s \<and> take ?n (currentPasscode s) = typed s"
  proof
    assume eq: "typed s = passcode s"
    then have "length (typed s) = length (passcode s)" by simp
    then have "?n = unat (currentPasscodeLen s)" using assms by (simp add: codes_ok_def typed_def passcode_def)
    then show "passwordCurrentLength s = currentPasscodeLen s \<and> take ?n (currentPasscode s) = typed s"
      using eq by (simp add: passcode_def word_unat_eq_iff)
  next
    assume "passwordCurrentLength s = currentPasscodeLen s \<and> take ?n (currentPasscode s) = typed s"
    then show "typed s = passcode s" unfolding passcode_def by metis
  qed
  then show ?thesis by (simp add: submit_def passcodeEntered_def ld)
qed

lemma submit_ok:
  assumes "lock_ok s"
  shows "\<exists>s'. submit starts s = Some s' \<and> lock_ok s'"
proof -
  have c: "codes_ok s" using assms by (simp add: lock_ok_def)
  have z: "lock_ok (r\<lparr>passwordCurrentLength := 0\<rparr>)" if "lock_ok r" for r
    using that by (simp add: lock_ok_def codes_ok_def motor_ok_def reports_ok_def typed_def passcode_def digits_def)
  have "lock_ok (if typed s = passcode s then passcodeCorrect starts s else passcodeWrong starts s)"
    using assms correct_codes [where s = s and starts = starts] wrong_codes [where s = s and starts = starts] same_codes_ok
    by (auto simp: lock_ok_def)
  then show ?thesis using z by (simp add: submit_result [OF c])
qed

subsection \<open>A key\<close>

text \<open>The digits appended to the buffer.\<close>

lemma add_digit:
  assumes "codes_ok s" "length (typed s) < 12" "1 \<le> d" "d \<le> 9"
  shows "\<exists>s'. key_pressed starts d s = Some s' \<and> codes_ok s' \<and> typed s' = typed s @ [d] \<and> passcode s' = passcode s
    \<and> s' = s\<lparr>passwordBuffer := passwordBuffer s', passwordCurrentLength := passwordCurrentLength s + 1\<rparr>"
proof -
  let ?n = "unat (passwordCurrentLength s)"
  have l: "length (passwordBuffer s) = 12" "?n < 12" using assms(1,2) by (simp_all add: codes_ok_def typed_def)
  have n1: "unat (passwordCurrentLength s + 1) = Suc ?n"
    using l(2) by (simp add: unat_word_ariths)
  have d: "d \<noteq> 20" "d \<noteq> 10" "d \<noteq> 11" using assms(4) by (auto simp: word_le_nat_alt)
  let ?b = "take ?n (passwordBuffer s) @ [d] @ drop (Suc ?n) (passwordBuffer s)"
  have st: "store_bytes (passwordBuffer s) ?n [d] = Some ?b" using l by (simp add: store_bytes_def)
  let ?s = "s\<lparr>passwordBuffer := ?b, passwordCurrentLength := passwordCurrentLength s + 1\<rparr>"
  have t: "typed ?s = typed s @ [d]" using l by (simp add: typed_def n1)
  have "codes_ok ?s"
    using assms l n1 t by (auto simp: codes_ok_def digits_def passcode_def)
  moreover have "key_pressed starts d s = Some ?s" using d l st by (simp add: key_pressed_def MAX_PASSWORD_LEN_def)
  ultimately show ?thesis using t by (intro exI [of _ ?s]) (simp add: passcode_def)
qed

lemma key_values: "keyVal row col \<in> {1, 2, 3, 4, 5, 6, 7, 8, 9, 10, 11, 20}"
  by (simp add: keyVal_def)

lemma key_ok:
  assumes "lock_ok s" "key \<in> {1, 2, 3, 4, 5, 6, 7, 8, 9, 10, 11, 20}"
  shows "\<exists>s'. key_pressed starts key s = Some s' \<and> lock_ok s'"
proof -
  have c: "codes_ok s" using assms(1) by (simp add: lock_ok_def)
  consider "key = 20" | "key = 10" | "key = 11" | "1 \<le> key" "key \<le> 9" using assms(2) by auto
  then show ?thesis
  proof cases
    case 2
    let ?s = "s\<lparr>passwordCurrentLength := passwordCurrentLength s - 1\<rparr>"
    have "lock_ok ?s" if "passwordCurrentLength s > 0"
    proof -
      have u: "unat (passwordCurrentLength s - 1) = unat (passwordCurrentLength s) - 1"
        using that by (simp add: unat_sub word_less_nat_alt word_le_nat_alt)
      then have "set (typed ?s) \<subseteq> set (typed s)" by (simp add: typed_def set_take_subset_set_take)
      then show ?thesis
        using assms(1) u by (auto simp: lock_ok_def codes_ok_def motor_ok_def reports_ok_def passcode_def digits_def)
    qed
    then show ?thesis using assms(1) 2 by (simp add: key_pressed_def)
  next
    case 3
    then show ?thesis using submit_ok [OF assms(1), of starts] by (simp add: key_pressed_def)
  next
    case 4
    show ?thesis
    proof (cases "length (typed s) < 12")
      case True
      then obtain s' where s': "key_pressed starts key s = Some s'" "codes_ok s'"
        "s' = s\<lparr>passwordBuffer := passwordBuffer s', passwordCurrentLength := passwordCurrentLength s + 1\<rparr>"
        using add_digit [OF c _ 4] by blast
      have "motor_ok s'" "reports_ok s'"
        using assms(1) by (subst s'(3), simp add: lock_ok_def motor_ok_def reports_ok_def)+
      then show ?thesis using s'(1,2) by (simp add: lock_ok_def)
    next
      case False
      then have "\<not> unat (passwordCurrentLength s) < MAX_PASSWORD_LEN"
        using c by (simp add: codes_ok_def typed_def MAX_PASSWORD_LEN_def)
      moreover have "key \<noteq> 20" "key \<noteq> 10" "key \<noteq> 11" using 4 by (auto simp: word_le_nat_alt)
      ultimately show ?thesis using submit_ok [OF assms(1), of starts] by (simp add: key_pressed_def)
    qed
  qed (use assms(1) in \<open>simp add: key_pressed_def\<close>)
qed

text \<open>The part of the handler before the key.\<close>

definition key_ready :: "(timer \<Rightarrow> bool) \<Rightarrow> smart_lock \<Rightarrow> smart_lock" where
  "key_ready starts s = scan_columns (start_timer starts DebounceTimer ((gpio_set_level 2 1 s)\<lparr>isDebounceTimerRunning := 1\<rparr>))"

lemma keypad_key:
  "keypadInterruptHandler starts row cols s =
     (if isDebounceTimerRunning s = 1 then Some (gpio_set_level 2 1 s)
      else key_pressed starts (keyVal row (finalColVal cols)) (key_ready starts s))"
  by (simp add: keypadInterruptHandler_def key_ready_def Let_def gpio_set_level_def)

lemma key_ready_ok: "lock_ok s \<Longrightarrow> lock_ok (key_ready starts s)"
  by (simp add: key_ready_def scan_columns_def Let_def pin_ops lock_ok_def codes_ok_def motor_ok_def reports_ok_def typed_def passcode_def)

lemma keypad_ok:
  assumes "lock_ok s"
  shows "\<exists>s'. keypadInterruptHandler starts row cols s = Some s' \<and> lock_ok s'"
proof -
  have "lock_ok (gpio_set_level 2 1 s)"
    using assms by (simp add: pin_ops lock_ok_def codes_ok_def motor_ok_def reports_ok_def typed_def passcode_def)
  then show ?thesis
    using key_ok [OF key_ready_ok [OF assms] key_values] by (simp add: keypad_key)
qed

subsection \<open>The command\<close>

lemma changePasscode_result:
  assumes "codes_ok s"
  shows "changePasscode nvs args s =
    (if length args > 12 \<or> \<not> list_all is_digit args then Some (- 1, s)
     else if \<not> fst nvs then None
     else Some (0, s\<lparr>currentPasscode := map (\<lambda>c. c - 48) args @ drop (length args) (currentPasscode s),
                     currentPasscodeLen := of_nat (length args),
                     nvs_passcodeLen := (if fst (snd nvs) then Some (of_nat (length args)) else nvs_passcodeLen s),
                     nvs_passcode := (if snd (snd nvs) then Some (map (\<lambda>c. c - 48) args) else nvs_passcode s)\<rparr>))"
proof -
  have n: "unat (of_nat (length args) :: byte) = length args" if "length args \<le> 12" using that by (simp add: unat_of_nat)
  show ?thesis
    using assms n by (cases nvs) (simp add: changePasscode_def setPasscode_def MAX_PASSWORD_LEN_def codes_ok_def load_bytes_def
        store_bytes_def Let_def)
qed

lemma command_ok:
  assumes "lock_ok s" "changePasscode nvs args s = Some (r, s')"
  shows "lock_ok s'"
proof -
  have c: "codes_ok s" using assms(1) by (simp add: lock_ok_def)
  show ?thesis
  proof (cases "length args > 12 \<or> \<not> list_all is_digit args")
    case True
    then show ?thesis using assms by (simp add: changePasscode_result [OF c])
  next
    case False
    then have l: "length args \<le> 12" "list_all is_digit args" by auto
    have n: "unat (of_nat (length args) :: byte) = length args" using l(1) by (simp add: unat_of_nat)
    have d: "digits 0 9 (map (\<lambda>c. c - 48) args)"
    proof -
      have "c - 48 \<le> 9" if "is_digit c" for c :: byte
        using that by (auto simp: is_digit_def word_le_nat_alt unat_sub)
      then show ?thesis using l(2) by (auto simp: digits_def list_all_iff)
    qed
    have "fst nvs" using assms(2) False by (auto simp: changePasscode_result [OF c] split: if_splits)
    then have s': "s' = s\<lparr>currentPasscode := map (\<lambda>c. c - 48) args @ drop (length args) (currentPasscode s),
                     currentPasscodeLen := of_nat (length args),
                     nvs_passcodeLen := (if fst (snd nvs) then Some (of_nat (length args)) else nvs_passcodeLen s),
                     nvs_passcode := (if snd (snd nvs) then Some (map (\<lambda>c. c - 48) args) else nvs_passcode s)\<rparr>"
      using assms(2) False by (simp add: changePasscode_result [OF c])
    show ?thesis using assms(1) l(1) n d unfolding s'
      by (simp add: lock_ok_def codes_ok_def motor_ok_def reports_ok_def typed_def passcode_def)
  qed
qed

lemma step_ok:
  assumes "lock_step s ev s'" "lock_ok s"
  shows "lock_ok s'"
  using assms
proof (cases rule: lock_step.cases)
  case (key_step starts row cols)
  then show ?thesis using keypad_ok [OF assms(2), of starts row cols] by auto
next
  case (timer_step t level)
  then show ?thesis using callback_ok running_ok assms(2) by auto
qed (use assms(2) in \<open>auto simp: switch_ok proximity_ok intro: command_ok\<close>)

lemma steps_ok: "lock_steps s evs s' \<Longrightarrow> lock_ok s \<Longrightarrow> lock_ok s'"
  by (induction rule: lock_steps.induct) (auto intro: step_ok)

section \<open>Typing a code\<close>

text \<open>
  A press of the key in row \<open>row\<close> and column \<open>col\<close>: the row reads high when that column is driven
  high. Then the debounce timer expires.
\<close>

definition press :: "(timer \<Rightarrow> bool) \<Rightarrow> u32 \<Rightarrow> nat \<Rightarrow> lock_event list" where
  "press starts row col =
     [KeypadInterrupt starts row (if col = 1 then 1 else 0, if col = 2 then 1 else 0, if col = 3 then 1 else 0),
      TimerExpires DebounceTimer 0]"

definition press_digit :: "(timer \<Rightarrow> bool) \<Rightarrow> byte \<Rightarrow> lock_event list" where
  "press_digit starts d = press starts (of_nat ((unat d - 1) div 3 + 1)) ((unat d - 1) mod 3 + 1)"

lemma digit_cases:
  fixes d :: byte
  assumes "1 \<le> d" "d \<le> 9"
  shows "d \<in> {1, 2, 3, 4, 5, 6, 7, 8, 9}"
proof -
  have "unat d \<in> {1..9}" using assms by (simp add: word_le_nat_alt)
  then have "unat d \<in> {1, 2, 3, 4, 5, 6, 7, 8, 9}" by auto
  then show ?thesis by (auto simp: word_unat_eq_iff)
qed

lemma digit_key:
  assumes "1 \<le> d" "d \<le> 9"
  shows "keyVal (of_nat ((unat d - 1) div 3 + 1)) ((unat d - 1) mod 3 + 1) = d" "(unat d - 1) mod 3 + 1 \<in> {1, 2, 3 :: nat}"
  using digit_cases [OF assms] by (auto simp: keyVal_def)

lemma lock_steps_append: "lock_steps s (xs @ ys) s2 \<longleftrightarrow> (\<exists>s1. lock_steps s xs s1 \<and> lock_steps s1 ys s2)"
  by (induction xs arbitrary: s) (simp, fastforce)

text \<open>One press on an idle keypad: the key acts, and the keypad is idle again.\<close>

lemma key_ready_same: "same_codes s (key_ready starts s)" "motorStatus (key_ready starts s) = motorStatus s"
    "starts DebounceTimer \<Longrightarrow> DebounceTimer \<in> running (key_ready starts s)" "isDebounceTimerRunning (key_ready starts s) = 1"
  by (simp_all add: key_ready_def scan_columns_def Let_def pin_ops same_codes_def)

lemma press_steps:
  assumes "isDebounceTimerRunning s \<noteq> 1" "col \<in> {1, 2, 3}"
  shows "lock_steps s (press starts row col) s2 \<longleftrightarrow>
    (\<exists>s1. key_pressed starts (keyVal row col) (key_ready starts s) = Some s1 \<and> DebounceTimer \<in> running s1
      \<and> s2 = debounceTimerCallback (s1\<lparr>running := running s1 - {DebounceTimer}\<rparr>))"
proof -
  have "finalColVal (if col = 1 then 1 else 0, if col = 2 then 1 else 0, if col = 3 then 1 else 0) = col"
    using assms(2) by (auto simp: finalColVal_def)
  then show ?thesis
    using assms(1) by (auto simp: press_def keypad_key lock_step.simps)
qed

definition idle_keypad :: "smart_lock \<Rightarrow> bool" where
  "idle_keypad s \<longleftrightarrow> isDebounceTimerRunning s = 0"

lemma press_digit_types:
  assumes "lock_ok s" "idle_keypad s" "length (typed s) < 12" "1 \<le> d" "d \<le> 9" "starts DebounceTimer"
  shows "\<exists>s'. lock_steps s (press_digit starts d) s' \<and> lock_ok s' \<and> idle_keypad s' \<and> typed s' = typed s @ [d]
    \<and> passcode s' = passcode s \<and> motorStatus s' = motorStatus s"
proof -
  let ?r = "key_ready starts s"
  have r: "typed ?r = typed s" "passcode ?r = passcode s"
    using key_ready_same(1) [of s starts] by (simp_all add: same_codes_def typed_def passcode_def)
  have "codes_ok ?r" using key_ready_ok [OF assms(1)] by (simp add: lock_ok_def)
  from add_digit [OF this _ assms(4,5)] assms(3) r(1) obtain s1 where s1: "key_pressed starts d ?r = Some s1" "codes_ok s1"
    "typed s1 = typed s @ [d]" "passcode s1 = passcode s"
    "s1 = ?r\<lparr>passwordBuffer := passwordBuffer s1, passwordCurrentLength := passwordCurrentLength ?r + 1\<rparr>"
    unfolding r by metis
  have run: "running s1 = running ?r" "motorStatus s1 = motorStatus s"
    using key_ready_same(2) [of starts s] by (subst s1(5), simp)+
  let ?s2 = "debounceTimerCallback (s1\<lparr>running := running s1 - {DebounceTimer}\<rparr>)"
  have idle: "isDebounceTimerRunning s \<noteq> 1" using assms(2) by (simp add: idle_keypad_def)
  have steps: "lock_steps s (press_digit starts d) ?s2"
    unfolding press_digit_def press_steps [OF idle digit_key(2) [OF assms(4,5)]] digit_key(1) [OF assms(4,5)]
    using s1(1) key_ready_same(3) [of starts s] assms(6) run(1) by auto
  have "lock_ok ?s2" using steps_ok [OF steps assms(1)] .
  then show ?thesis
    using steps s1(3,4) run(2) by (intro exI [of _ ?s2]) (simp add: debounceTimerCallback_def idle_keypad_def typed_def passcode_def)
qed

lemma press_digits_type:
  assumes "digits 1 9 ds" "lock_ok s" "idle_keypad s" "length (typed s) + length ds \<le> 12" "starts DebounceTimer"
  shows "\<exists>s'. lock_steps s (concat (map (press_digit starts) ds)) s' \<and> lock_ok s' \<and> idle_keypad s'
    \<and> typed s' = typed s @ ds \<and> passcode s' = passcode s \<and> motorStatus s' = motorStatus s"
  using assms
proof (induction ds arbitrary: s)
  case Nil
  then show ?case by auto
next
  case (Cons d ds)
  then obtain s1 where s1: "lock_steps s (press_digit starts d) s1" "lock_ok s1" "idle_keypad s1" "typed s1 = typed s @ [d]"
    "passcode s1 = passcode s" "motorStatus s1 = motorStatus s"
    using press_digit_types [of s d starts] by (auto simp: digits_def)
  obtain s2 where s2: "lock_steps s1 (concat (map (press_digit starts) ds)) s2" "lock_ok s2" "idle_keypad s2"
    "typed s2 = typed s1 @ ds" "passcode s2 = passcode s1" "motorStatus s2 = motorStatus s1"
    using Cons.IH [of s1] Cons.prems s1(2-4) by (auto simp: digits_def)
  then show ?case using s1 by (intro exI [of _ s2]) (auto simp: lock_steps_append)
qed

lemma press_submit:
  assumes "lock_ok s" "idle_keypad s" "starts DebounceTimer" "col \<in> {2, 3}"
  shows "\<exists>s'. lock_steps s (press starts 4 col) s' \<and> typed s' = []
    \<and> motorStatus s' = (if typed s = passcode s then 1 else motorStatus s)"
proof -
  let ?r = "key_ready starts s"
  have r: "typed ?r = typed s" "passcode ?r = passcode s"
    using key_ready_same(1) [of s starts] by (simp_all add: same_codes_def typed_def passcode_def)
  have c: "codes_ok ?r" using key_ready_ok [OF assms(1)] by (simp add: lock_ok_def)
  let ?s1 = "(if typed s = passcode s then passcodeCorrect starts ?r else passcodeWrong starts ?r)\<lparr>passwordCurrentLength := 0\<rparr>"
  have k: "key_pressed starts (keyVal 4 col) ?r = Some ?s1"
    using assms(4) submit_result [OF c, of starts] r by (auto simp: keyVal_def key_pressed_def)
  have run: "DebounceTimer \<in> running ?s1"
    using key_ready_same(3) [of starts s] assms(3)
    by (simp add: passcodeCorrect_def passcodeWrong_def rotateMotorClockwise_def start_timer_def gpio_set_level_def)
  have idle: "isDebounceTimerRunning s \<noteq> 1" "col \<in> {1, 2, 3}" using assms(2,4) by (auto simp: idle_keypad_def)
  let ?s2 = "debounceTimerCallback (?s1\<lparr>running := running ?s1 - {DebounceTimer}\<rparr>)"
  have "lock_steps s (press starts 4 col) ?s2"
    unfolding press_steps [OF idle] using k run by auto
  then show ?thesis
    using correct_codes(2) wrong_codes(2) key_ready_same(2) [of starts s]
    by (intro exI [of _ ?s2]) (simp add: debounceTimerCallback_def typed_def)
qed

section \<open>The motor's timeout\<close>

text \<open>The system starts every timer the handlers ask for, but one that runs already.\<close>

fun answers :: "lock_event \<Rightarrow> timer \<Rightarrow> bool" where
  "answers (KeypadInterrupt starts row cols) t = starts t"
| "answers (SwitchInterrupt starts sw) t = starts t"
| "answers (ProximityInterrupt starts) t = starts t"
| "answers (TimerExpires u level) t = True"
| "answers (PasscodeCommand nvs args) t = True"

inductive served_steps :: "smart_lock \<Rightarrow> lock_event list \<Rightarrow> smart_lock \<Rightarrow> bool" where
  no_served: "served_steps s [] s"
| more_served: "lock_step s ev s1 \<Longrightarrow> (\<forall>t. answers ev t \<or> t \<in> running s) \<Longrightarrow> served_steps s1 evs s2 \<Longrightarrow> served_steps s (ev # evs) s2"

definition motor_guarded :: "smart_lock \<Rightarrow> bool" where
  "motor_guarded s \<longleftrightarrow> (motorStatus s = 1 \<longrightarrow> MotorTimeoutTimer \<in> running s)"

lemma key_guarded:
  assumes "key_pressed starts key s = Some s'" "\<forall>t. starts t \<or> t \<in> running s" "motor_guarded s" "codes_ok s"
  shows "motor_guarded s'"
  using assms submit_result [OF assms(4), of starts]
  by (auto simp: key_pressed_def motor_guarded_def passcodeCorrect_def passcodeWrong_def rotateMotorClockwise_def
      start_timer_def gpio_set_level_def bind_eq_Some_conv split: if_splits)

lemma step_guarded:
  assumes "lock_step s ev s'" "\<forall>t. answers ev t \<or> t \<in> running s" "motor_guarded s" "lock_ok s"
  shows "motor_guarded s'"
  using assms(1)
proof (cases rule: lock_step.cases)
  case (key_step starts row cols)
  have "codes_ok (key_ready starts s)" using key_ready_ok [OF assms(4)] by (simp add: lock_ok_def)
  moreover have "running s \<subseteq> running (key_ready starts s)"
    by (auto simp: key_ready_def scan_columns_def Let_def gpio_set_level_def start_timer_def)
  moreover have "motor_guarded (key_ready starts s)" "motor_guarded (gpio_set_level 2 1 s)"
    using assms(3) by (simp_all add: motor_guarded_def key_ready_def scan_columns_def Let_def gpio_set_level_def start_timer_def)
  ultimately show ?thesis
    using key_step assms(2) key_guarded [of starts _ "key_ready starts s" s']
    by (auto simp: keypad_key subset_iff split: if_splits)
next
  case (timer_step t level)
  then show ?thesis using assms(3)
    by (cases t) (auto simp: motor_guarded_def debounceTimerCallback_def goodLedTimeoutCallback_def badLedTimeoutCallback_def
        motorTimeoutCallback_def openSwitchTimerCallback_def closedSwitchTimerCallback_def proximityTimerCallback_def
        gpio_set_level_def Let_def)
next
  case (command_step nvs args r)
  have "codes_ok s" using assms(4) by (simp add: lock_ok_def)
  then show ?thesis using command_step assms(3) by (auto simp: changePasscode_result motor_guarded_def split: if_splits)
qed (use assms(3) in \<open>simp_all add: motor_guarded_def lockSwitchStateInterrupt_def proximitySensorInterruptCallback_def
      start_timer_def Let_def\<close>)

lemma steps_guarded: "served_steps s evs s' \<Longrightarrow> motor_guarded s \<Longrightarrow> lock_ok s \<Longrightarrow> motor_guarded s'"
proof (induction rule: served_steps.induct)
  case (more_served s ev s1 evs s2)
  then show ?case using step_guarded [of s ev s1] step_ok [of s ev s1] by blast
qed

lemma served_lock_steps: "served_steps s evs s' \<Longrightarrow> lock_steps s evs s'"
  by (induction rule: served_steps.induct) auto

lemma lock_steps_served: "lock_steps s evs s' \<Longrightarrow> (\<forall>ev\<in>set evs. \<forall>t. answers ev t) \<Longrightarrow> served_steps s evs s'"
  by (induction rule: lock_steps.induct) (auto intro: served_steps.intros)

section \<open>A passcode that cannot be typed\<close>

fun is_command :: "lock_event \<Rightarrow> bool" where
  "is_command (PasscodeCommand nvs args) \<longleftrightarrow> True"
| "is_command ev \<longleftrightarrow> False"

definition locked_out :: "smart_lock \<Rightarrow> bool" where
  "locked_out s \<longleftrightarrow> 0 \<in> set (passcode s) \<and> motorStatus s = 0"

lemma key_locked_out:
  assumes "key_pressed starts key s = Some s'" "locked_out s" "codes_ok s"
  shows "locked_out s'"
proof -
  have "(0 :: byte) \<notin> set (typed s)" using assms(3) by (force simp: codes_ok_def digits_def word_le_nat_alt)
  then have "typed s \<noteq> passcode s" using assms(2) by (auto simp: locked_out_def)
  then have sub: "submit starts s = Some ((passcodeWrong starts s)\<lparr>passwordCurrentLength := 0\<rparr>)"
    using submit_result [OF assms(3)] by simp
  show ?thesis
    using assms(1,2) sub by (auto simp: key_pressed_def locked_out_def passcode_def passcodeWrong_def start_timer_def
        gpio_set_level_def bind_eq_Some_conv split: if_splits)
qed

lemma step_locked_out:
  assumes "lock_step s ev s'" "\<not> is_command ev" "locked_out s" "lock_ok s"
  shows "locked_out s'"
  using assms(1)
proof (cases rule: lock_step.cases)
  case (key_step starts row cols)
  have "codes_ok (key_ready starts s)" using key_ready_ok [OF assms(4)] by (simp add: lock_ok_def)
  moreover have "locked_out (key_ready starts s)" "locked_out (gpio_set_level 2 1 s)"
    using assms(3) by (simp_all add: locked_out_def passcode_def key_ready_def scan_columns_def Let_def gpio_set_level_def start_timer_def)
  ultimately show ?thesis
    using key_step key_locked_out [of starts _ "key_ready starts s" s'] by (auto simp: keypad_key split: if_splits)
next
  case (timer_step t level)
  then show ?thesis using assms(3)
    by (cases t) (auto simp: locked_out_def passcode_def debounceTimerCallback_def goodLedTimeoutCallback_def badLedTimeoutCallback_def
        motorTimeoutCallback_def openSwitchTimerCallback_def closedSwitchTimerCallback_def proximityTimerCallback_def
        gpio_set_level_def Let_def)
qed (use assms(2,3) in \<open>simp_all add: locked_out_def passcode_def lockSwitchStateInterrupt_def proximitySensorInterruptCallback_def
      start_timer_def Let_def\<close>)

lemma steps_locked_out:
  "lock_steps s evs s' \<Longrightarrow> list_all (Not \<circ> is_command) evs \<Longrightarrow> locked_out s \<Longrightarrow> lock_ok s \<Longrightarrow> locked_out s'"
  by (induction rule: lock_steps.induct) (auto intro: step_locked_out step_ok)

section \<open>The third column\<close>

lemma third_column_key: "key_pressed starts key s = Some s' \<Longrightarrow> gpio s' KEYPAD_COL3_PIN = gpio s KEYPAD_COL3_PIN"
  by (auto simp: key_pressed_def submit_def passcodeEntered_def passcodeCorrect_def passcodeWrong_def rotateMotorClockwise_def
      pin_ops bind_eq_Some_conv split: if_splits)

lemma third_column_command: "changePasscode nvs args s = Some (r, s') \<Longrightarrow> gpio s' = gpio s"
proof (cases nvs)
  case (fields opened len_ok code_ok)
  assume "changePasscode nvs args s = Some (r, s')"
  moreover have "setPasscode nvs code n 1 s = Some s' \<Longrightarrow> gpio s' = gpio s" for code n s'
    unfolding fields setPasscode_def by (auto simp: bind_eq_Some_conv Let_def split: if_split_asm)
  ultimately show ?thesis by (auto simp: changePasscode_def bind_eq_Some_conv split: if_splits)
qed

lemma third_column_step:
  assumes "lock_step s ev s'" "gpio s KEYPAD_COL3_PIN = 1"
  shows "gpio s' KEYPAD_COL3_PIN = 1"
  using assms(1)
proof (cases rule: lock_step.cases)
  case (key_step starts row cols)
  have "gpio (key_ready starts s) KEYPAD_COL3_PIN = 1" "gpio (gpio_set_level 2 1 s) KEYPAD_COL3_PIN = 1"
    using assms(2) by (simp_all add: key_ready_def scan_columns_def Let_def pin_ops)
  then show ?thesis
    using key_step third_column_key [of starts _ "key_ready starts s" s'] by (simp add: keypad_key split: if_split_asm)
next
  case (timer_step t level)
  then show ?thesis using assms(2)
    by (cases t) (simp_all add: debounceTimerCallback_def goodLedTimeoutCallback_def badLedTimeoutCallback_def
        motorTimeoutCallback_def openSwitchTimerCallback_def closedSwitchTimerCallback_def proximityTimerCallback_def
        pin_ops Let_def)
next
  case (command_step nvs args r)
  then show ?thesis using assms(2) third_column_command by simp
qed (use assms(2) in \<open>simp_all add: lockSwitchStateInterrupt_def proximitySensorInterruptCallback_def start_timer_def Let_def\<close>)

lemma third_column_steps: "lock_steps s evs s' \<Longrightarrow> gpio s KEYPAD_COL3_PIN = 1 \<Longrightarrow> gpio s' KEYPAD_COL3_PIN = 1"
proof (induction rule: lock_steps.induct)
  case (more_steps s ev s1 evs s2)
  then show ?case using third_column_step [of s ev s1] by blast
qed

section \<open>Properties\<close>

lemma power_on_facts: "idle_keypad power_on" "isDebounceTimerRunning power_on = 0" "typed power_on = []"
    "passcode power_on = [1, 2, 4, 4]" "motorStatus power_on = 0" "gpio power_on KEYPAD_COL3_PIN = 0"
  by (simp_all add: idle_keypad_def typed_def passcode_def power_on_def initLock_def initKeypad_def Let_def pin_ops
      MAX_PASSWORD_LEN_def)

subsection \<open>The invariant\<close>

text \<open>
  C28. Whatever happens to the lock from power-on, the codes stay within their arrays and made of
  digits, the motor is off or turns clockwise as its pins say, the reports are 0 or 1, and the
  keypad handler never leaves the bounds of an array.
\<close>

theorem lock_invariant:
  assumes "lock_steps power_on evs s"
  shows "length (passwordBuffer s) = 12 \<and> length (currentPasscode s) = 12
    \<and> unat (passwordCurrentLength s) \<le> 12 \<and> unat (currentPasscodeLen s) \<le> 12
    \<and> digits 1 9 (typed s) \<and> digits 0 9 (passcode s)
    \<and> motorStatus s \<in> {0, 1} \<and> gpio s MOTOR_DRIVER_IN1_PIN = unat (motorStatus s) \<and> gpio s MOTOR_DRIVER_IN2_PIN = 0
    \<and> currentLockState s \<in> {0, 1} \<and> currentDoorState s \<in> {0, 1} \<and> isDebounceTimerRunning s \<in> {0, 1}
    \<and> (\<exists>s'. keypadInterruptHandler starts row cols s = Some s')"
proof -
  have ok: "lock_ok s" using steps_ok [OF assms power_on_ok] .
  then show ?thesis
    using keypad_ok [OF ok, of starts row cols]
    unfolding lock_ok_def codes_ok_def motor_ok_def reports_ok_def by blast
qed

theorem lock_invariant_witness:
  "\<exists>s. lock_steps power_on (press_digit (\<lambda>_. True) 5) s \<and> typed s = [5] \<and> unat (passwordCurrentLength s) \<le> 12
    \<and> (\<exists>s'. keypadInterruptHandler (\<lambda>_. True) 2 (0, 1, 0) s = Some s')"
proof -
  obtain s where s: "lock_steps power_on (press_digit (\<lambda>_. True) 5) s" "typed s = [5]"
    using press_digit_types [of power_on 5 "\<lambda>_. True"] power_on_ok power_on_facts by auto
  then show ?thesis using lock_invariant [OF s(1), of "\<lambda>_. True" 2 "(0, 1, 0)"] by blast
qed

subsection \<open>Opening the door\<close>

lemma press_code:
  assumes "lock_ok s" "idle_keypad s" "typed s = []" "digits 1 9 ds" "length ds \<le> 12" "starts DebounceTimer" "col \<in> {2, 3}"
  shows "\<exists>s'. lock_steps s (concat (map (press_digit starts) ds) @ press starts 4 col) s' \<and> typed s' = []
    \<and> motorStatus s' = (if ds = passcode s then 1 else motorStatus s)"
proof -
  obtain s1 where s1: "lock_steps s (concat (map (press_digit starts) ds)) s1" "lock_ok s1" "idle_keypad s1"
    "typed s1 = ds" "passcode s1 = passcode s" "motorStatus s1 = motorStatus s"
    using press_digits_type [of ds s starts] assms by auto
  obtain s2 where s2: "lock_steps s1 (press starts 4 col) s2" "typed s2 = []"
    "motorStatus s2 = (if typed s1 = passcode s1 then 1 else motorStatus s1)"
    using press_submit [of s1 starts col, OF s1(2,3) assms(6,7)] by blast
  have "lock_steps s (concat (map (press_digit starts) ds) @ press starts 4 col) s2"
    using s1(1) s2(1) lock_steps_append by blast
  then show ?thesis using s2(2,3) s1(4-6) by (intro exI [of _ s2]) simp
qed

text \<open>The events determine the run.\<close>

lemma lock_step_det: "lock_step s ev a \<Longrightarrow> lock_step s ev b \<Longrightarrow> a = b"
  by (cases ev) (auto elim!: lock_stepE)

lemma lock_steps_det: "lock_steps s evs a \<Longrightarrow> lock_steps s evs b \<Longrightarrow> a = b"
proof (induction arbitrary: b rule: lock_steps.induct)
  case (more_steps s ev s1 evs s2)
  from more_steps.prems obtain s1' where "lock_step s ev s1'" "lock_steps s1' evs b" by auto
  then show ?case using lock_step_det more_steps.hyps(1) more_steps.IH by metis
qed simp

text \<open>
  C29. In any state the lock can reach with its keypad idle and nothing typed, the interrupts of the
  keys of up to twelve digits from 1 to 9 and then of one of the submit keys, each followed by the
  debounce timer's expiry, are handled completely, clear the typed code, and start the motor
  exactly when the digits are the current passcode; with another code the motor is left as it was.
\<close>

theorem typed_code_opens:
  assumes "lock_steps power_on evs s" "isDebounceTimerRunning s = 0" "typed s = []" "starts DebounceTimer"
    "digits 1 9 ds" "length ds \<le> 12" "col \<in> {2, 3}"
  shows "(\<exists>s'. lock_steps s (concat (map (press_digit starts) ds) @ press starts 4 col) s')
    \<and> (\<forall>s'. lock_steps s (concat (map (press_digit starts) ds) @ press starts 4 col) s' \<longrightarrow>
          typed s' = [] \<and> motorStatus s' = (if ds = passcode s then 1 else motorStatus s))"
  using press_code [OF steps_ok [OF assms(1) power_on_ok], of ds starts col] assms(2-) lock_steps_det
  unfolding idle_keypad_def by metis

theorem typed_code_opens_witness:
  "\<exists>s'. lock_steps power_on (concat (map (press_digit (\<lambda>_. True)) [1, 2, 4, 4]) @ press (\<lambda>_. True) 4 3) s' \<and> motorStatus s' = 1"
proof -
  have d: "digits 1 9 [1, 2, 4, 4]" by (simp add: digits_def)
  show ?thesis
    using typed_code_opens [OF no_steps power_on_facts(2,3) _ d, of "\<lambda>_. True" 3] power_on_facts(4) by auto
qed

subsection \<open>The motor stops\<close>

text \<open>
  C30. As long as the system starts every timer it is asked for (or has it running), the motor
  never turns without its timeout timer running, and that timer's expiry stops the motor.
\<close>

theorem motor_timeout_pending:
  assumes "served_steps power_on evs s" "motorStatus s \<noteq> 0"
  shows "\<exists>s'. lock_step s (TimerExpires MotorTimeoutTimer level) s' \<and> motorStatus s' = 0
    \<and> gpio s' MOTOR_DRIVER_IN1_PIN = 0 \<and> gpio s' MOTOR_DRIVER_IN2_PIN = 0"
proof -
  have g: "motor_guarded power_on"
    by (simp add: motor_guarded_def power_on_def initLock_def initKeypad_def Let_def pin_ops)
  have "motor_ok s"
    using served_lock_steps [OF assms(1)] steps_ok power_on_ok by (auto simp: lock_ok_def)
  then have "MotorTimeoutTimer \<in> running s"
    using steps_guarded [OF assms(1) g power_on_ok] assms(2) by (auto simp: motor_guarded_def motor_ok_def)
  from timer_step [OF this, of level] show ?thesis
    by (intro exI conjI) (assumption, simp_all add: motorTimeoutCallback_def pin_ops)
qed

theorem motor_timeout_pending_witness:
  "\<exists>s s'. served_steps power_on (concat (map (press_digit (\<lambda>_. True)) [1, 2, 4, 4]) @ press (\<lambda>_. True) 4 2) s
    \<and> motorStatus s = 1 \<and> lock_step s (TimerExpires MotorTimeoutTimer 0) s' \<and> motorStatus s' = 0"
proof -
  have d: "digits 1 9 [1, 2, 4, 4]" by (simp add: digits_def)
  obtain s where s: "lock_steps power_on (concat (map (press_digit (\<lambda>_. True)) [1, 2, 4, 4]) @ press (\<lambda>_. True) 4 2) s"
    "motorStatus s = 1"
    using press_code [of power_on "[1, 2, 4, 4]" "\<lambda>_. True" 2] power_on_ok power_on_facts d by auto
  have "served_steps power_on (concat (map (press_digit (\<lambda>_. True)) [1, 2, 4, 4]) @ press (\<lambda>_. True) 4 2) s"
    using s(1) by (rule lock_steps_served) (auto simp: press_digit_def press_def)
  with motor_timeout_pending [OF this, of 0] s(2) show ?thesis by auto
qed

subsection \<open>A passcode with a zero\<close>

text \<open>
  C31. The server may set a passcode of up to twelve digits, 0 among them. The keypad has no key
  for 0 (its key submits the code), so after such a command that found the motor off, no sequence
  of key presses, switch and sensor interrupts and timer expiries starts the motor.
\<close>

theorem zero_passcode_locks_out:
  assumes "lock_steps power_on evs s" "motorStatus s = 0"
    and "changePasscode nvs args s = Some (0, s1)" "48 \<in> set args"
    and "lock_steps s1 evs' s2" "list_all (Not \<circ> is_command) evs'"
  shows "motorStatus s2 = 0 \<and> gpio s2 MOTOR_DRIVER_IN1_PIN = 0"
proof -
  have ok: "lock_ok s" using steps_ok [OF assms(1) power_on_ok] .
  then have ok1: "lock_ok s1" using command_ok assms(3) by blast
  have c: "codes_ok s" using ok by (simp add: lock_ok_def)
  have "locked_out s1"
  proof -
    have l: "length args \<le> 12" using assms(3) by (auto simp: changePasscode_result [OF c] split: if_splits)
    then have n: "unat (of_nat (length args) :: byte) = length args" by (simp add: unat_of_nat)
    have "passcode s1 = map (\<lambda>c. c - 48) args \<and> motorStatus s1 = 0"
      using assms(2,3) l n by (auto simp: changePasscode_result [OF c] passcode_def split: if_splits)
    then show ?thesis using assms(4) by (force simp: locked_out_def)
  qed
  with ok1 have "locked_out s2" "lock_ok s2"
    using steps_locked_out [OF assms(5,6)] steps_ok [OF assms(5)] by auto
  then show ?thesis by (simp add: locked_out_def lock_ok_def motor_ok_def)
qed

theorem zero_passcode_locks_out_witness:
  "\<exists>s1 s2. changePasscode (True, True, True) [49, 48] power_on = Some (0, s1)
    \<and> lock_steps s1 (press (\<lambda>_. True) 1 1 @ press (\<lambda>_. True) 4 2) s2 \<and> motorStatus s2 = 0"
proof -
  have c: "codes_ok power_on" using power_on_ok by (simp add: lock_ok_def)
  obtain s1 where s1: "changePasscode (True, True, True) [49, 48] power_on = Some (0, s1)"
    by (simp add: changePasscode_result [OF c] is_digit_def)
  have ok: "lock_ok s1" using command_ok [OF power_on_ok s1] .
  have i: "idle_keypad s1" "typed s1 = []"
    using s1 power_on_facts(1,3) by (auto simp: changePasscode_result [OF c] is_digit_def idle_keypad_def typed_def)
  obtain s2 where s2: "lock_steps s1 (press (\<lambda>_. True) 1 1 @ press (\<lambda>_. True) 4 2) s2"
    using press_code [OF ok i, of "[1]" "\<lambda>_. True" 2] by (auto simp: digits_def press_digit_def)
  show ?thesis
    using zero_passcode_locks_out [OF no_steps power_on_facts(5) s1 _ s2] s1 s2 by (auto simp: press_def)
qed

subsection \<open>The third column\<close>

text \<open>
  Handling a key leaves the third column driven high for as long as the lock runs: the scan
  ends with that column at 1, and nothing sets it back to the 0 it was initialised with.
\<close>

lemma third_column_left_high:
  assumes "keypadInterruptHandler starts row cols s = Some s1" "isDebounceTimerRunning s = 0" "lock_steps s1 evs s2"
  shows "gpio s2 KEYPAD_COL3_PIN = 1"
proof (rule third_column_steps [OF assms(3)])
  have "gpio (key_ready starts s) KEYPAD_COL3_PIN = 1" by (simp add: key_ready_def scan_columns_def Let_def pin_ops)
  then show "gpio s1 KEYPAD_COL3_PIN = 1"
    using assms(1,2) third_column_key [of starts _ "key_ready starts s" s1] by (simp add: keypad_key)
qed

end
