(* ===== verification/Handlers.thy ===== *)
theory Handlers
  imports Delivery
begin

text \<open>
  Two more contracts between \<open>recvAll\<close> and its callback: what the callback keeps, the call
  keeps; and a callback that is another one seen through a function on its state gives a call
  that is the other one seen through that function.
\<close>

section \<open>What the callback keeps\<close>

locale keeping_handler =
  fixes handler :: "'s callback" and kept :: "'s \<Rightarrow> bool"
  assumes keeps: "handler s m = Some (s', m') \<Longrightarrow> kept s \<Longrightarrow> kept s'"
begin

lemma handleMsgData_keeps: "handleMsgData handler h rs s b = Some (n, h', s', b') \<Longrightarrow> kept s \<Longrightarrow> kept s'"
proof (induction "unat (firstMsgSizeUsed h)" arbitrary: h s b n rule: less_induct)
  case less
  show ?case
  proof (cases "firstMsgSizeUsed h \<ge> firstMsgSize h \<and> firstMsgSize h > 4")
    case False
    then show ?thesis using less.prems by (subst (asm) handleMsgData.simps) auto
  next
    case c: True
    show ?thesis
    proof (cases "firstMsgSizeUsed h > firstMsgSize h")
      case False
      then show ?thesis using less.prems c keeps
        by (subst (asm) handleMsgData.simps) (auto simp: bind_eq_Some_conv)
    next
      case True
      let ?h2 = "circulateBuffer (h\<lparr>firstMsgPtr := Some (sizeUsed h + uint (firstMsgSize h)),
          firstMsgSizeUsed := firstMsgSizeUsed h - firstMsgSize h, firstMsgSize := 5\<rparr>) rs"
      obtain b1 s2 b2 h3 m where h3: "handleMsgLen ?h2 (firstMsgSizeUsed ?h2) = Some h3"
          and s2: "handler s b1 = Some (s2, b2)" and r: "handleMsgData handler h3 rs s2 b2 = Some (m, h', s', b')"
        using less.prems c True
        by (subst (asm) handleMsgData.simps) (auto simp: bind_eq_Some_conv)
      have "firstMsgSizeUsed h3 = firstMsgSizeUsed h - firstMsgSize h"
        using handleMsgLen_used [OF h3] by simp
      moreover have "unat (firstMsgSizeUsed h - firstMsgSize h) < unat (firstMsgSizeUsed h)"
        using c by (auto simp: unat_sub word_less_nat_alt word_le_nat_alt)
      ultimately show ?thesis
        using less.hyps [OF _ r] keeps [OF s2] less.prems(2) by simp
    qed
  qed
qed

lemma recv_loop_keeps: "recv_loop handler rs h s b = Some (r, h', s', b', rs') \<Longrightarrow> kept s \<Longrightarrow> kept s'"
proof (induction rs arbitrary: h s b)
  case (Cons x rs)
  show ?case
  proof (cases x)
    case (RecvData bs)
    then show ?thesis
      using Cons.prems Cons.IH handleMsgData_keeps
      by (auto simp: Let_def bind_eq_Some_conv split: option.splits if_splits; blast)
  qed (use Cons.prems in \<open>auto split: option.splits\<close>)
qed simp

lemma recvAll_keeps: "recvAll a junk full handler rs hs sock s b = Some (r, hs', s', b', rs') \<Longrightarrow> kept s \<Longrightarrow> kept s'"
  using recv_loop_keeps by (auto simp: recvAll_def bind_eq_Some_conv)

end

section \<open>A callback seen through a function\<close>

locale lifted_handler =
  fixes handler :: "'s callback" and seen :: "'t callback" and lift :: "'s \<Rightarrow> 't"
  assumes lifted: "seen (lift s) m = map_option (\<lambda>(s, m). (lift s, m)) (handler s m)"
begin

lemma handleMsgData_lifted:
  "handleMsgData seen h rs (lift s) b = map_option (\<lambda>(n, h, s, b). (n, h, lift s, b)) (handleMsgData handler h rs s b)"
proof (induction "unat (firstMsgSizeUsed h)" arbitrary: h s b rule: less_induct)
  case less
  show ?case
  proof (cases "firstMsgSizeUsed h \<ge> firstMsgSize h \<and> firstMsgSize h > 4")
    case False
    then show ?thesis by (subst (1 2) handleMsgData.simps) auto
  next
    case c: True
    let ?h2 = "circulateBuffer (h\<lparr>firstMsgPtr := Some (sizeUsed h + uint (firstMsgSize h)),
        firstMsgSizeUsed := firstMsgSizeUsed h - firstMsgSize h, firstMsgSize := 5\<rparr>) rs"
    have more: "handleMsgData seen h3 rs (lift s2) b2
        = map_option (\<lambda>(n, h, s, b). (n, h, lift s, b)) (handleMsgData handler h3 rs s2 b2)"
      if "handleMsgLen ?h2 (firstMsgSizeUsed ?h2) = Some h3" for h3 s2 b2
    proof (rule less.hyps)
      have "firstMsgSizeUsed h3 = firstMsgSizeUsed h - firstMsgSize h" using handleMsgLen_used [OF that] by simp
      moreover have "unat (firstMsgSizeUsed h - firstMsgSize h) < unat (firstMsgSizeUsed h)"
        using c by (auto simp: unat_sub word_less_nat_alt word_le_nat_alt)
      ultimately show "unat (firstMsgSizeUsed h3) < unat (firstMsgSizeUsed h)" by simp
    qed
    show ?thesis
    proof (cases "copyMessage h b")
      case None
      then show ?thesis using c by (subst (1 2) handleMsgData.simps) simp
    next
      case (Some b1)
      show ?thesis
      proof (cases "handler s b1")
        case None
        then show ?thesis using c Some lifted [of s b1] by (subst (1 2) handleMsgData.simps) simp
      next
        case s2: (Some p)
        obtain s2 b2 where p: "p = (s2, b2)" by (cases p)
        show ?thesis
          using c Some lifted [of s b1] s2 more
          by (subst (1 2) handleMsgData.simps)
            (simp add: p Let_def split: Option.bind_split option.splits; force)
      qed
    qed
  qed
qed

lemma recv_loop_lifted:
  "recv_loop seen rs h (lift s) b = map_option (\<lambda>(r, h, s, b, rs). (r, h, lift s, b, rs)) (recv_loop handler rs h s b)"
proof (induction rs arbitrary: h s b)
  case (Cons x rs)
  show ?case
  proof (cases x)
    case (RecvData bs)
    then show ?thesis
      using Cons.IH
      by (auto simp: Let_def handleMsgData_lifted split: option.splits Option.bind_splits)
  qed (auto split: option.splits)
qed simp

lemma recvAll_lifted:
  "recvAll a junk full seen rs hs sock (lift s) b
    = map_option (\<lambda>(r, hs, s, b, rs). (r, hs, lift s, b, rs)) (recvAll a junk full handler rs hs sock s b)"
  by (auto simp: recvAll_def recv_loop_lifted split: Option.bind_splits)

end

end
