(* ===== verification/EventLoop.thy ===== *)
theory EventLoop
  imports System Handlers
begin

text \<open>
  The thread of the server that waits for connections and messages,
  \<open>mainserver/mainServer/epollRecievingThread.c\<close>: the set-up of its two listening sockets and one
  handler per event of \<open>epoll_wait\<close>. The sockets that are open and those that \<open>epoll\<close> watches are sets, with
  the documented behaviour of \<open>epoll_ctl\<close> and \<open>close\<close>; what \<open>accept\<close>, \<open>fcntl\<close> and \<open>recv\<close> answer
  comes with the event.
\<close>

section \<open>State and events\<close>

record event_loop =
  connectionsInfo :: connInfos
  recvHolders :: "recvHolder list"
  el_server :: server
  processMsgBuffer :: "byte list"
  open_sockets :: "int set"
  watched :: "int set"
  sockNodeLocal :: int
  sockLANLocal :: int
  sockNodeRemote :: int

record epoll_event =
  ev_fd :: int
  ev_in :: bool
  ev_err :: bool
  ev_hup :: bool
  ev_other :: bool

record os_answers =
  newFd :: int
  nonblocking_ok :: bool
  recv_results :: "recv_result list"
  malloc_junk :: int

datatype loop_result = Running event_loop | ThreadExit | ProcessExit

text \<open>A socket that is not open (EBADF) or watched already (EEXIST) is refused.\<close>

definition epoll_add :: "int \<Rightarrow> event_loop \<Rightarrow> event_loop option" where
  "epoll_add fd el =
     (if fd \<in> open_sockets el \<and> fd \<notin> watched el then Some (el\<lparr>watched := insert fd (watched el)\<rparr>) else None)"

text \<open>A closed socket is watched no longer.\<close>

definition close_socket :: "int \<Rightarrow> event_loop \<Rightarrow> event_loop" where
  "close_socket fd el = el\<lparr>open_sockets := open_sockets el - {fd}, watched := watched el - {fd}\<rparr>"

section \<open>The set-up\<close>

text \<open>What the calls answer for one address of the list that \<open>getaddrinfo\<close> returns.\<close>

record addr_answers =
  socket_fd :: int
  reuse_ok :: bool
  bind_ok :: bool

record setup_answers =
  nodeSocketInfo :: "addr_answers list option"
  LANSocketInfo :: "addr_answers list option"
  listen_node_ok :: bool
  listen_LAN_ok :: bool
  epoll_create_ok :: bool

text \<open>
  The loop over the addresses, which every path leaves in its first round: an error ends the
  thread (no result). Without an address the pointer is NULL.
\<close>

definition open_listener :: "addr_answers list \<Rightarrow> int option option" where
  "open_listener infos =
     (case infos of [] \<Rightarrow> Some None
      | p # _ \<Rightarrow> if socket_fd p = - 1 \<or> \<not> reuse_ok p \<or> \<not> bind_ok p then None else Some (Some (socket_fd p)))"

definition start_thread :: "setup_answers \<Rightarrow> event_loop \<Rightarrow> loop_result" where
  "start_thread a el =
     (let r = do {
        nodes \<leftarrow> nodeSocketInfo a;
        lans \<leftarrow> LANSocketInfo a;
        p1 \<leftarrow> open_listener nodes;
        p2 \<leftarrow> open_listener lans;
        fd1 \<leftarrow> p1;
        fd2 \<leftarrow> p2;
        if \<not> listen_node_ok a \<or> \<not> listen_LAN_ok a \<or> \<not> epoll_create_ok a then None
        else do {
          el \<leftarrow> epoll_add fd1 (el\<lparr>sockNodeLocal := fd1, sockLANLocal := fd2,
                 open_sockets := insert fd1 (insert fd2 (open_sockets el))\<rparr>);
          epoll_add fd2 el
        }
      } in case r of None \<Rightarrow> ThreadExit | Some el \<Rightarrow> Running el)"

section \<open>The handlers\<close>

text \<open>The message handler on the connection of the socket; NULL is dereferenced at once.\<close>

definition epoll_callback :: "sys \<Rightarrow> (connInfo_t option \<times> server) callback" where
  "epoll_callback e = (\<lambda>(c, s) m. do {
     c \<leftarrow> c;
     (_, c, m, s) \<leftarrow> processMsg e c m s;
     Some ((Some c, s), m)
   })"

definition accept_node :: "sys \<Rightarrow> os_answers \<Rightarrow> event_loop \<Rightarrow> loop_result" where
  "accept_node e ans el =
     (let (fd, conns) = accept1 (newFd ans) (sys_full e) (connectionsInfo el) 0;
          el = el\<lparr>connectionsInfo := conns, sockNodeRemote := fd\<rparr>
      in if fd = - 1 then ThreadExit
         else
           let el = el\<lparr>open_sockets := insert fd (open_sockets el)\<rparr> in
           if \<not> nonblocking_ok ans then ThreadExit
           else case epoll_add (sockNodeRemote el) el of None \<Rightarrow> ThreadExit | Some el \<Rightarrow> Running el)"

text \<open>A user on the local network: the socket that is added to \<open>epoll\<close> is the last node's.\<close>

definition accept_user :: "sys \<Rightarrow> os_answers \<Rightarrow> event_loop \<Rightarrow> loop_result" where
  "accept_user e ans el =
     (let (fd, conns) = accept1 (newFd ans) (sys_full e) (connectionsInfo el) 1;
          el = el\<lparr>connectionsInfo := conns\<rparr>
      in if fd = - 1 then ThreadExit
         else
           let el = el\<lparr>open_sockets := insert fd (open_sockets el)\<rparr> in
           if \<not> nonblocking_ok ans then ThreadExit
           else case epoll_add (sockNodeRemote el) el of None \<Rightarrow> ThreadExit | Some el \<Rightarrow> Running el)"

text \<open>What \<open>processMsg\<close> wrote through the pointer that was found.\<close>

definition write_connection :: "int option \<Rightarrow> connInfo_t option \<Rightarrow> connInfos \<Rightarrow> connInfos" where
  "write_connection p c cs = (case (p, c) of (Some i, Some c) \<Rightarrow> cs[nat i := c] | _ \<Rightarrow> cs)"

text \<open>
  The connection is looked up once and \<open>processMsg\<close> writes through the pointer. When \<open>recvAll\<close>
  returns 1 it has closed the socket.
\<close>

definition serve_message :: "sys \<Rightarrow> os_answers \<Rightarrow> int \<Rightarrow> event_loop \<Rightarrow> event_loop option" where
  "serve_message e ans fd el = do {
     p \<leftarrow> findConnInfo (connectionsInfo el) fd;
     let c = Option.bind p (sl_get (connectionsInfo el));
     (r, hs, (c, s), buf, _) \<leftarrow> recvAll (sys_alloc e) (malloc_junk ans) (sys_full e) (epoll_callback e) (recv_results ans)
         (recvHolders el) fd (c, el_server el) (processMsgBuffer el);
     let el = el\<lparr>recvHolders := hs, el_server := s, processMsgBuffer := buf,
       connectionsInfo := write_connection p c (connectionsInfo el)\<rparr>;
     if r = 1 then do {
       (_, conns) \<leftarrow> removeConnInfo (connectionsInfo el) fd;
       Some ((close_socket fd el)\<lparr>connectionsInfo := conns\<rparr>)
     } else Some el
   }"

definition handle_event :: "sys \<Rightarrow> os_answers \<Rightarrow> epoll_event \<Rightarrow> event_loop \<Rightarrow> loop_result option" where
  "handle_event e ans ev el =
     (if ev_hup ev \<or> ev_err ev \<or> \<not> ev_in ev then do {
        (_, conns) \<leftarrow> close1 (if ev_fd ev \<in> open_sockets el then 0 else - 1) (ev_fd ev) (connectionsInfo el);
        Some (Running ((close_socket (ev_fd ev) el)\<lparr>connectionsInfo := conns\<rparr>))
      }
      else if ev_fd ev = sockNodeLocal el then Some (accept_node e ans el)
      else if ev_fd ev = sockLANLocal el then Some (accept_user e ans el)
      else if \<not> ev_other ev then map_option Running (serve_message e ans (ev_fd ev) el)
      else Some ProcessExit)"

text \<open>The events of one or more calls of \<open>epoll_wait\<close>.\<close>

fun handle_events :: "sys \<Rightarrow> (os_answers \<times> epoll_event) list \<Rightarrow> event_loop \<Rightarrow> loop_result option" where
  "handle_events e [] el = Some (Running el)"
| "handle_events e ((ans, ev) # evs) el = do {
     r \<leftarrow> handle_event e ans ev el;
     case r of Running el \<Rightarrow> handle_events e evs el | _ \<Rightarrow> Some r
   }"

section \<open>What the system promises\<close>

text \<open>
  Events come for watched sockets, listening sockets have no errors, and \<open>accept\<close> fails or
  returns a descriptor that is not open.
\<close>

definition kernel_ok :: "os_answers \<Rightarrow> epoll_event \<Rightarrow> event_loop \<Rightarrow> bool" where
  "kernel_ok ans ev el \<longleftrightarrow> ev_fd ev \<in> watched el
     \<and> (ev_fd ev \<in> {sockNodeLocal el, sockLANLocal el} \<longrightarrow> ev_in ev \<and> \<not> ev_err ev \<and> \<not> ev_hup ev)
     \<and> (newFd ans = - 1 \<or> 0 \<le> newFd ans \<and> newFd ans \<notin> open_sockets el)"

inductive loop_reachable :: "sys \<Rightarrow> event_loop \<Rightarrow> event_loop \<Rightarrow> bool" for e el0 where
  loop_start: "loop_reachable e el0 el0"
| loop_event: "loop_reachable e el0 el \<Longrightarrow> kernel_ok ans ev el \<Longrightarrow> handle_event e ans ev el = Some (Running el')
    \<Longrightarrow> loop_reachable e el0 el'"

text \<open>The thread before its first event: two listening sockets, no connection.\<close>

definition loop_starts :: "event_loop \<Rightarrow> bool" where
  "loop_starts el \<longleftrightarrow> connectionsInfo el = [] \<and> open_sockets el = {sockNodeLocal el, sockLANLocal el}
     \<and> watched el = open_sockets el \<and> - 1 \<notin> open_sockets el"

text \<open>A thread that gets through its set-up starts like this.\<close>

lemma open_listener_some: "open_listener infos = Some (Some fd) \<Longrightarrow> fd \<noteq> - 1"
  by (cases infos) (auto simp: open_listener_def split: if_splits)

lemma start_thread_starts:
  assumes "start_thread a el = Running el'" "connectionsInfo el = []" "open_sockets el = {}" "watched el = {}"
  shows "loop_starts el' \<and> sockNodeLocal el' \<noteq> sockLANLocal el'"
proof -
  obtain nodes lans fd1 fd2 where l: "open_listener nodes = Some (Some fd1)" "open_listener lans = Some (Some fd2)"
    and el': "Option.bind (epoll_add fd1 (el\<lparr>sockNodeLocal := fd1, sockLANLocal := fd2,
        open_sockets := insert fd1 (insert fd2 (open_sockets el))\<rparr>)) (epoll_add fd2) = Some el'"
    using assms(1) by (auto simp: start_thread_def bind_eq_Some_conv split: option.splits if_splits)
  then show ?thesis
    using open_listener_some [OF l(1)] open_listener_some [OF l(2)] assms(2-4)
    by (auto simp: epoll_add_def loop_starts_def split: if_splits)
qed

section \<open>A connection keeps its socket\<close>

definition same_end :: "connInfo_t \<Rightarrow> connInfo_t \<Rightarrow> bool" where
  "same_end c c' \<longleftrightarrow> ci_socket c' = ci_socket c \<and> connectionType c' = connectionType c"

lemma same_end_refl [simp]: "same_end c c"
  by (simp add: same_end_def)

lemma same_end_trans: "same_end a b \<Longrightarrow> same_end b c \<Longrightarrow> same_end a c"
  by (simp add: same_end_def)

lemma encrypt_same_end:
  "encryptAndSendAll env (Some c) ctx p a x gs buf = Some (r, Some c', sent, st) \<Longrightarrow> same_end c c'"
  by (auto simp: encryptAndSendAll_def same_end_def Let_def bind_eq_Some_conv split: if_splits)

lemma encrypt_some_end:
  "encryptAndSendAll env (Some c) ctx p a x gs buf = Some (r, c', sent, st) \<Longrightarrow> \<exists>c''. c' = Some c''"
  by (auto simp: encryptAndSendAll_def Let_def bind_eq_Some_conv split: if_splits)

lemma send_packet_same_end:
  "send_packet w sock (Some c) ctx p a x gs buf = Some (r, Some c', k, b, w') \<Longrightarrow> same_end c c'"
  by (cases "w_envs w") (auto simp: send_packet_def bind_eq_Some_conv dest: encrypt_same_end)

lemma sendOffCommand_same_end: "sendOffCommand e cmd c devid s = Some (c', s') \<Longrightarrow> same_end c c'"
  by (auto simp: sendOffCommand_def bind_eq_Some_conv dest: send_packet_same_end)

lemma send_commands_same_end: "send_commands e cmds c devid s = Some (c', s') \<Longrightarrow> same_end c c'"
proof (induction cmds arbitrary: c s)
  case (Cons cmd cmds)
  then obtain c1 s1 where "sendOffCommand e cmd c devid s = Some (c1, s1)" "send_commands e cmds c1 devid s1 = Some (c', s')"
    by (auto simp: bind_eq_Some_conv)
  then show ?case using sendOffCommand_same_end Cons.IH same_end_trans by blast
qed simp

lemma send_queue_same_end: "send_queue_loop e devid q i c s = Some (q', c', s') \<Longrightarrow> same_end c c'"
proof (induction e devid q i c s rule: send_queue_loop.induct)
  case (1 e devid q i c s)
  show ?case
  proof (cases "i < sl_length q")
    case True
    then obtain r where r: "sl_get q i = Some r" using "1.prems" by (subst (asm) send_queue_loop.simps) (auto simp: bind_eq_Some_conv)
    show ?thesis
    proof (cases "cr_devId r = devid")
      case dev: True
      then obtain c1 s1 where c1: "send_commands e (commandRequestsCommands r) c devid s = Some (c1, s1)"
        "send_queue_loop e devid (snd (sl_delete q i)) (i + 1) c1 s1 = Some (q', c', s')"
        using "1.prems" True r by (subst (asm) send_queue_loop.simps) (auto simp: bind_eq_Some_conv)
      then show ?thesis using "1.IH"(1) [OF True r dev c1(1) refl] send_commands_same_end same_end_trans by blast
    next
      case False
      then show ?thesis using "1.prems" True r "1.IH"(2) [OF True r False] by (subst (asm) send_queue_loop.simps) simp
    qed
  next
    case False
    then show ?thesis using "1.prems" by (subst (asm) send_queue_loop.simps) simp
  qed
qed

lemma sendQueued_same_end: "sendQueuedMessages e c devid s = Some (c', s') \<Longrightarrow> same_end c c'"
  by (auto simp: sendQueuedMessages_def bind_eq_Some_conv dest: send_queue_same_end)

lemma server_establish_same_end: "server_establish env k n c buf = Some (c', sent, st) \<Longrightarrow> same_end c c'"
  unfolding server_establish_def
  by (auto simp: bind_eq_Some_conv same_end_def dest!: encrypt_same_end)

lemma establish_same_end: "establish_session e c devid m off s = Some (c', s') \<Longrightarrow> same_end c c'"
  unfolding establish_session_def
  by (auto simp: bind_eq_Some_conv dest!: server_establish_same_end sendQueued_same_end intro: same_end_trans)

lemma decrypted_same_end: "decrypted_message e c devid m off s = Some (c', s') \<Longrightarrow> same_end c c'"
  unfolding decrypted_message_def
  by (auto simp: bind_eq_Some_conv server_complete_def Let_def same_end_def
      dest: establish_same_end sendQueued_same_end split: if_splits)

lemma register_same_end: "register_device e c who m off s = Some (r, c', m', s') \<Longrightarrow> c' = c"
  by (auto simp: register_device_def Let_def bind_eq_Some_conv)

lemma processMsg_same_end: "processMsg e c m s = Some (r, c', m', s') \<Longrightarrow> same_end c c'"
  unfolding processMsg_def Let_def
  by (auto simp: bind_eq_Some_conv split: option.splits if_split_asm dest!: register_same_end decrypted_same_end)

interpretation own_end: keeping_handler "epoll_callback e" "\<lambda>(c, s). rel_option same_end c0 c" for e c0
proof
  fix s :: "connInfo_t option \<times> server" and m s' m'
  assume "epoll_callback e s m = Some (s', m')" "case s of (c, s) \<Rightarrow> rel_option same_end c0 c"
  then show "case s' of (c, s) \<Rightarrow> rel_option same_end c0 c"
    by (cases c0) (auto simp: epoll_callback_def bind_eq_Some_conv option_rel_Some1 same_end_def dest!: processMsg_same_end)
qed

text \<open>On a connection that exists it is the callback of the server.\<close>

interpretation with_connection: lifted_handler "server_callback e" "epoll_callback e" "\<lambda>(c, s). (Some c, s)" for e
  by unfold_locales (auto simp: epoll_callback_def server_callback_def split: Option.bind_split)

section \<open>The connections and the watched sockets\<close>

lemma remove_filter:
  assumes "distinct (map f xs)"
  shows "(case find_index (\<lambda>x. f x = a) xs of None \<Rightarrow> xs | Some i \<Rightarrow> take i xs @ drop (Suc i) xs) = filter (\<lambda>x. f x \<noteq> a) xs"
  using assms
proof (induction xs)
  case (Cons x xs)
  show ?case
  proof (cases "f x = a")
    case True
    then have "filter (\<lambda>x. f x \<noteq> a) xs = xs" using Cons.prems by (auto simp: filter_id_conv image_iff)
    then show ?thesis using True by simp
  next
    case False
    then show ?thesis using Cons by (auto split: option.splits)
  qed
qed simp

lemma removeConnInfo_filter:
  assumes "sockets_distinct cs"
  shows "\<exists>r. removeConnInfo cs sock = Some (r, filter (\<lambda>c. ci_socket c \<noteq> sock) cs)"
  using remove_filter [of ci_socket cs sock] assms
  by (cases "find_index (\<lambda>c. ci_socket c = sock) cs")
    (auto simp: removeConnInfo_def socket_index_eq sockets_distinct_def sl_delete_def sl_length_def dest: find_index_Some)

lemma close1_filter:
  assumes "sockets_distinct cs"
  shows "close1 0 sock cs = Some (0, filter (\<lambda>c. ci_socket c \<noteq> sock) cs)"
  using remove_filter [of ci_socket cs sock] assms
  by (cases "find_index (\<lambda>c. ci_socket c = sock) cs")
    (auto simp: close1_def socket_index_eq sockets_distinct_def sl_delete_def sl_length_def dest: find_index_Some)

text \<open>
  What is kept: one connection for every socket that is watched apart from the listening ones,
  and no socket is open that is not watched.
\<close>

definition loop_ok :: "event_loop \<Rightarrow> bool" where
  "loop_ok el \<longleftrightarrow> sockets_distinct (connectionsInfo el)
     \<and> ci_socket ` set (connectionsInfo el) = watched el - {sockNodeLocal el, sockLANLocal el}
     \<and> open_sockets el = watched el \<and> {sockNodeLocal el, sockLANLocal el} \<subseteq> watched el \<and> - 1 \<notin> watched el"

text \<open>A connection other than the socket's is not touched.\<close>

definition others_kept :: "int \<Rightarrow> connInfos \<Rightarrow> connInfos \<Rightarrow> bool" where
  "others_kept fd cs cs' \<longleftrightarrow> filter (\<lambda>c. ci_socket c \<noteq> fd) cs' = filter (\<lambda>c. ci_socket c \<noteq> fd) cs"

lemma filter_update_out: "i < length xs \<Longrightarrow> \<not> P (xs ! i) \<Longrightarrow> \<not> P y \<Longrightarrow> filter P (xs[i := y]) = filter P xs"
proof (induction xs arbitrary: i)
  case (Cons x xs)
  then show ?case by (cases i) auto
qed simp

lemma serve_message_connections:
  assumes "serve_message e ans fd el = Some el'" "sockets_distinct (connectionsInfo el)"
  shows "\<exists>cs. map ci_socket cs = map ci_socket (connectionsInfo el) \<and> others_kept fd (connectionsInfo el) cs
    \<and> (connectionsInfo el' = cs \<and> open_sockets el' = open_sockets el \<and> watched el' = watched el
      \<or> connectionsInfo el' = filter (\<lambda>c. ci_socket c \<noteq> fd) cs \<and> open_sockets el' = open_sockets el - {fd}
        \<and> watched el' = watched el - {fd})
    \<and> sockNodeLocal el' = sockNodeLocal el \<and> sockLANLocal el' = sockLANLocal el \<and> sockNodeRemote el' = sockNodeRemote el"
proof -
  let ?cs = "connectionsInfo el" and ?i = "find_index (\<lambda>c. ci_socket c = fd) (connectionsInfo el)"
  let ?c = "map_option (\<lambda>i. ?cs ! i) ?i"
  have get: "Option.bind (map_option int ?i) (sl_get ?cs) = ?c"
    by (cases ?i) (auto simp: sl_get_nth dest: find_index_Some)
  obtain r hs c s buf rs where recv: "recvAll (sys_alloc e) (malloc_junk ans) (sys_full e) (epoll_callback e) (recv_results ans)
      (recvHolders el) fd (?c, el_server el) (processMsgBuffer el) = Some (r, hs, (c, s), buf, rs)"
    using assms(1) unfolding serve_message_def findConnInfo_result bind.bind_lunit Let_def get
    by (auto simp: bind_eq_Some_conv)
  have rel: "rel_option same_end ?c c"
    using own_end.recvAll_keeps [OF recv, of ?c] by (simp add: option.rel_refl)
  let ?cs' = "write_connection (map_option int ?i) c ?cs"
  have kept: "map ci_socket ?cs' = map ci_socket ?cs \<and> others_kept fd ?cs ?cs'"
  proof (cases ?i)
    case (Some i)
    then obtain b where b: "c = Some b" "same_end (?cs ! i) b" using rel by (auto simp: option_rel_Some1)
    have i: "i < length ?cs" "ci_socket (?cs ! i) = fd" using find_index_Some [OF Some] by auto
    then have "map ci_socket (?cs[i := b]) = map ci_socket ?cs"
      using b(2) by (simp add: map_update same_end_def) (metis list_update_id length_map nth_map)
    then show ?thesis using Some b i by (simp add: write_connection_def others_kept_def filter_update_out same_end_def)
  qed (simp add: write_connection_def others_kept_def)
  then have d: "sockets_distinct ?cs'" using assms(2) by (simp add: sockets_distinct_def)
  obtain q where q: "removeConnInfo ?cs' fd = Some (q, filter (\<lambda>c. ci_socket c \<noteq> fd) ?cs')"
    using removeConnInfo_filter [OF d] by blast
  show ?thesis
    using assms(1) kept
    unfolding serve_message_def findConnInfo_result bind.bind_lunit Let_def get recv
    by (intro exI [of _ ?cs']) (auto simp: q close_socket_def split: if_splits)
qed

text \<open>A new connection is the last one of the list and has no session.\<close>

lemma accept_connections:
  assumes "accept1 fd full cs ty = (r, cs')" "\<not> full" "r \<noteq> - 1"
  shows "r = fd" "cs' = cs @ [fresh_conn fd ty]"
  using assms by (auto simp: accept1_def sl_push_def split: if_splits)

lemma watched_accept:
  assumes "epoll_add a (el\<lparr>connectionsInfo := cs, open_sockets := insert fd (open_sockets el)\<rparr>) = Some el'"
    "loop_ok el" "fd \<notin> open_sockets el"
  shows "a = fd \<and> el' = el\<lparr>connectionsInfo := cs, open_sockets := insert fd (open_sockets el), watched := insert fd (watched el)\<rparr>"
  using assms by (auto simp: epoll_add_def loop_ok_def split: if_splits)

lemma loop_ok_accepted:
  assumes "loop_ok el" "fd \<notin> open_sockets el" "fd \<noteq> - 1"
  shows "loop_ok (el\<lparr>connectionsInfo := connectionsInfo el @ [fresh_conn fd ty], open_sockets := insert fd (open_sockets el),
    watched := insert fd (watched el)\<rparr>)"
proof -
  have "fd \<notin> ci_socket ` set (connectionsInfo el)" "fd \<noteq> sockNodeLocal el" "fd \<noteq> sockLANLocal el"
    using assms(1,2) by (auto simp: loop_ok_def)
  then show ?thesis using assms by (auto simp: loop_ok_def sockets_distinct_def fresh_conn_def)
qed

lemma loop_ok_closed:
  assumes "loop_ok el" "fd \<notin> {sockNodeLocal el, sockLANLocal el}"
  shows "loop_ok ((close_socket fd el)\<lparr>connectionsInfo := filter (\<lambda>c. ci_socket c \<noteq> fd) (connectionsInfo el)\<rparr>)"
proof -
  have "distinct (map ci_socket (filter (\<lambda>c. ci_socket c \<noteq> fd) (connectionsInfo el)))"
    using assms(1) by (simp add: loop_ok_def sockets_distinct_def distinct_map_filter)
  then show ?thesis using assms by (auto simp: loop_ok_def sockets_distinct_def close_socket_def)
qed

text \<open>How one event changes the connections.\<close>

inductive connections_step :: "epoll_event \<Rightarrow> os_answers \<Rightarrow> event_loop \<Rightarrow> event_loop \<Rightarrow> bool" for ev ans el where
  accepted: "connectionsInfo el' = connectionsInfo el @ [fresh_conn (newFd ans) ty] \<Longrightarrow> ev_fd ev \<in> {sockNodeLocal el, sockLANLocal el}
    \<Longrightarrow> newFd ans \<noteq> - 1 \<Longrightarrow> open_sockets el' = insert (newFd ans) (open_sockets el) \<Longrightarrow> watched el' = insert (newFd ans) (watched el)
    \<Longrightarrow> sockNodeLocal el' = sockNodeLocal el \<Longrightarrow> sockLANLocal el' = sockLANLocal el \<Longrightarrow> connections_step ev ans el el'"
| served: "map ci_socket (connectionsInfo el') = map ci_socket (connectionsInfo el)
    \<Longrightarrow> others_kept (ev_fd ev) (connectionsInfo el) (connectionsInfo el')
    \<Longrightarrow> ev_fd ev \<notin> {sockNodeLocal el, sockLANLocal el}
    \<Longrightarrow> open_sockets el' = open_sockets el \<Longrightarrow> watched el' = watched el
    \<Longrightarrow> sockNodeLocal el' = sockNodeLocal el \<Longrightarrow> sockLANLocal el' = sockLANLocal el \<Longrightarrow> connections_step ev ans el el'"
| ended: "connectionsInfo el' = filter (\<lambda>c. ci_socket c \<noteq> ev_fd ev) (connectionsInfo el)
    \<Longrightarrow> ev_fd ev \<notin> {sockNodeLocal el, sockLANLocal el}
    \<Longrightarrow> open_sockets el' = open_sockets el - {ev_fd ev} \<Longrightarrow> watched el' = watched el - {ev_fd ev}
    \<Longrightarrow> sockNodeLocal el' = sockNodeLocal el \<Longrightarrow> sockLANLocal el' = sockLANLocal el \<Longrightarrow> connections_step ev ans el el'"

lemma event_connections:
  assumes "handle_event e ans ev el = Some (Running el')" "kernel_ok ans ev el" "loop_ok el" "\<not> sys_full e"
  shows "connections_step ev ans el el'"
proof -
  let ?fd = "ev_fd ev"
  have d: "sockets_distinct (connectionsInfo el)" "?fd \<in> open_sockets el" using assms(2,3) by (auto simp: loop_ok_def kernel_ok_def)
  consider "ev_hup ev \<or> ev_err ev \<or> \<not> ev_in ev" | "\<not> (ev_hup ev \<or> ev_err ev \<or> \<not> ev_in ev)" "?fd = sockNodeLocal el"
    | "\<not> (ev_hup ev \<or> ev_err ev \<or> \<not> ev_in ev)" "?fd \<noteq> sockNodeLocal el" "?fd = sockLANLocal el"
    | "\<not> (ev_hup ev \<or> ev_err ev \<or> \<not> ev_in ev)" "?fd \<noteq> sockNodeLocal el" "?fd \<noteq> sockLANLocal el" by blast
  then show ?thesis
  proof cases
    case 1
    then have out: "?fd \<notin> {sockNodeLocal el, sockLANLocal el}" using assms(2) by (auto simp: kernel_ok_def)
    show ?thesis
      using assms(1) 1 close1_filter [OF d(1), of ?fd] d(2) out
      by (intro ended) (auto simp: handle_event_def close_socket_def)
  next
    case 2
    obtain r cs where a: "accept1 (newFd ans) (sys_full e) (connectionsInfo el) 0 = (r, cs)" by fastforce
    have r: "r \<noteq> - 1" "epoll_add r (el\<lparr>connectionsInfo := cs, sockNodeRemote := r, open_sockets := insert r (open_sockets el)\<rparr>) = Some el'"
      using assms(1) 2 a by (auto simp: handle_event_def accept_node_def Let_def split: if_splits option.splits)
    note c = accept_connections [OF a assms(4) r(1)]
    show ?thesis
      using r 2 c by (intro accepted [where ty = 0]) (auto simp: epoll_add_def split: if_splits)
  next
    case 3
    obtain r cs where a: "accept1 (newFd ans) (sys_full e) (connectionsInfo el) 1 = (r, cs)" by fastforce
    have r: "r \<noteq> - 1"
      "epoll_add (sockNodeRemote el) (el\<lparr>connectionsInfo := cs, open_sockets := insert r (open_sockets el)\<rparr>) = Some el'"
      using assms(1) 3 a by (auto simp: handle_event_def accept_user_def Let_def split: if_splits option.splits)
    note c = accept_connections [OF a assms(4) r(1)]
    have "r \<notin> open_sockets el" using assms(2) r(1) c(1) by (auto simp: kernel_ok_def)
    from watched_accept [OF r(2) assms(3) this] show ?thesis
      using r(1) 3 c by (intro accepted [where ty = 1]) auto
  next
    case 4
    then have m: "serve_message e ans ?fd el = Some el'" using assms(1) by (auto simp: handle_event_def split: if_splits)
    obtain cs where cs: "map ci_socket cs = map ci_socket (connectionsInfo el)" "others_kept ?fd (connectionsInfo el) cs"
      "connectionsInfo el' = cs \<and> open_sockets el' = open_sockets el \<and> watched el' = watched el
        \<or> connectionsInfo el' = filter (\<lambda>c. ci_socket c \<noteq> ?fd) cs \<and> open_sockets el' = open_sockets el - {?fd} \<and> watched el' = watched el - {?fd}"
      "sockNodeLocal el' = sockNodeLocal el" "sockLANLocal el' = sockLANLocal el"
      using serve_message_connections [OF m d(1)] by blast
    from cs(3) show ?thesis
    proof
      assume "connectionsInfo el' = cs \<and> open_sockets el' = open_sockets el \<and> watched el' = watched el"
      then show ?thesis using cs 4 by (intro served) auto
    next
      assume "connectionsInfo el' = filter (\<lambda>c. ci_socket c \<noteq> ?fd) cs \<and> open_sockets el' = open_sockets el - {?fd} \<and> watched el' = watched el - {?fd}"
      then show ?thesis using cs 4 by (intro ended) (auto simp: others_kept_def)
    qed
  qed
qed

lemma connections_step_ok:
  assumes "connections_step ev ans el el'" "loop_ok el" "kernel_ok ans ev el"
  shows "loop_ok el'"
  using assms(1)
proof cases
  case (accepted ty)
  have "newFd ans \<notin> open_sockets el" using assms(3) accepted by (auto simp: kernel_ok_def)
  from loop_ok_accepted [OF assms(2) this accepted(3), of ty] show ?thesis
    using accepted by (simp add: loop_ok_def)
next
  case served
  then have "ci_socket ` set (connectionsInfo el') = ci_socket ` set (connectionsInfo el)"
    by (metis list.set_map)
  then show ?thesis using served assms(2) by (simp add: loop_ok_def sockets_distinct_def)
next
  case ended
  from loop_ok_closed [OF assms(2) ended(2)] show ?thesis
    using ended by (simp add: loop_ok_def close_socket_def)
qed

lemma reachable_ok:
  assumes "loop_reachable e el0 el" "loop_starts el0" "\<not> sys_full e"
  shows "loop_ok el"
  using assms(1)
proof induction
  case loop_start
  then show ?case using assms(2) by (auto simp: loop_starts_def loop_ok_def sockets_distinct_def)
next
  case (loop_event el ans ev el')
  then show ?case using connections_step_ok [OF event_connections] assms(3) by blast
qed

section \<open>Serving one connection\<close>

lemma find_in_middle:
  "\<forall>d\<in>set xs. ci_socket d \<noteq> ci_socket c \<Longrightarrow> find_index (\<lambda>d. ci_socket d = ci_socket c) (xs @ c # ys) = Some (length xs)"
  by (induction xs) auto

lemma serve_message_on:
  assumes "connectionsInfo el = xs @ c # ys" "\<forall>d\<in>set xs. ci_socket d \<noteq> ci_socket c"
    "recvAll (sys_alloc e) (malloc_junk ans) (sys_full e) (server_callback e) (recv_results ans) (recvHolders el) (ci_socket c)
       (c, el_server el) (processMsgBuffer el) = Some (r, hs, (c', s), buf, rs)" "r \<noteq> 1"
  shows "serve_message e ans (ci_socket c) el
    = Some (el\<lparr>recvHolders := hs, el_server := s, processMsgBuffer := buf, connectionsInfo := xs @ c' # ys\<rparr>)"
  using with_connection.recvAll_lifted [of "sys_alloc e" "malloc_junk ans" "sys_full e" e "recv_results ans" "recvHolders el"
      "ci_socket c" "(c, el_server el)" "processMsgBuffer el"] assms
  by (simp add: serve_message_def findConnInfo_result find_in_middle write_connection_def)

lemma open_connection:
  assumes "RecvClosed \<notin> set rs" "recv_loop cb rs h st b = Some (r, h', st', b', rs')"
  shows "r \<noteq> 1"
  using assms
proof (induction rs arbitrary: h st b)
  case (Cons x rs)
  then show ?case
    by (cases x; cases "recvQueue h")
      (auto simp: Let_def bind_eq_Some_conv split: if_splits)
qed simp

lemma recvAll_open:
  "RecvClosed \<notin> set rs \<Longrightarrow> recvAll a junk full cb rs hs sock st b = Some (r, hs', st', b', rs') \<Longrightarrow> r \<noteq> 1"
  by (auto simp: recvAll_def bind_eq_Some_conv dest!: open_connection)

definition readable :: "int \<Rightarrow> epoll_event" where
  "readable fd = \<lparr>ev_fd = fd, ev_in = True, ev_err = False, ev_hup = False, ev_other = False\<rparr>"

definition hung_up :: "int \<Rightarrow> epoll_event" where
  "hung_up fd = \<lparr>ev_fd = fd, ev_in = True, ev_err = False, ev_hup = True, ev_other = False\<rparr>"

definition answers_with :: "int \<Rightarrow> byte list list \<Rightarrow> os_answers" where
  "answers_with fd cs = \<lparr>newFd = fd, nonblocking_ok = True, recv_results = map RecvData cs, malloc_junk = 0\<rparr>"

lemma own_connection:
  assumes "recvAll a junk full (server_callback e) rs hs sock (c, s) b = Some (r, hs', (c', s'), b', rs')"
  shows "ci_socket c' = ci_socket c"
  using own_end.recvAll_keeps [of a junk full e rs hs sock "(Some c, s)" b r hs' "(Some c', s')" b' rs' "Some c"]
    with_connection.recvAll_lifted [of a junk full e rs hs sock "(c, s)" b] assms
  by (simp add: same_end_def)

text \<open>The events of a stream of messages are the calls of \<open>recvAll\<close> on it.\<close>

lemma events_receive:
  assumes "connectionsInfo el = xs @ c # ys" "\<forall>d\<in>set xs. ci_socket d \<noteq> ci_socket c"
    "ci_socket c \<notin> {sockNodeLocal el, sockLANLocal el}"
    "recv_messages (sys_alloc e) 0 (sys_full e) (server_callback e) css (recvHolders el) (ci_socket c) (c, el_server el)
       (processMsgBuffer el) = Some (hs, (c', s), buf)"
  shows "handle_events e (map (\<lambda>cs. (answers_with (- 1) cs, readable (ci_socket c))) css) el
    = Some (Running (el\<lparr>recvHolders := hs, el_server := s, processMsgBuffer := buf, connectionsInfo := xs @ c' # ys\<rparr>))"
  using assms
proof (induction css arbitrary: el c)
  case Nil
  then show ?case by simp
next
  case (Cons cs css)
  let ?ans = "answers_with (- 1) cs" and ?fd = "ci_socket c"
  obtain r hs1 c1 s1 b1 rs where one: "recvAll (sys_alloc e) 0 (sys_full e) (server_callback e) (map RecvData cs) (recvHolders el)
      ?fd (c, el_server el) (processMsgBuffer el) = Some (r, hs1, (c1, s1), b1, rs)"
    "recv_messages (sys_alloc e) 0 (sys_full e) (server_callback e) css hs1 ?fd (c1, s1) b1 = Some (hs, (c', s), buf)"
    using Cons.prems(4) by (auto simp: bind_eq_Some_conv)
  have fd: "ci_socket c1 = ?fd" using own_connection [OF one(1)] .
  have r: "r \<noteq> 1" by (rule recvAll_open [OF _ one(1)]) auto
  let ?el = "el\<lparr>recvHolders := hs1, el_server := s1, processMsgBuffer := b1, connectionsInfo := xs @ c1 # ys\<rparr>"
  have "serve_message e ?ans ?fd el = Some ?el"
    by (rule serve_message_on [OF Cons.prems(1,2) _ r]) (simp add: answers_with_def one(1))
  then have "handle_event e ?ans (readable ?fd) el = Some (Running ?el)"
    using Cons.prems(3) by (simp add: handle_event_def readable_def)
  then show ?case using Cons.IH [of ?el c1] Cons.prems(2,3) one(2) by (simp add: fd)
qed

section \<open>Properties\<close>

definition demo_loop :: event_loop where
  "demo_loop = \<lparr>connectionsInfo = [], recvHolders = [demo_ring 4], el_server = demo_server [], processMsgBuffer = replicate 255 0,
     open_sockets = {5, 6}, watched = {5, 6}, sockNodeLocal = 5, sockLANLocal = 6, sockNodeRemote = 0\<rparr>"

lemma demo_loop_starts: "loop_starts demo_loop"
  by (simp add: loop_starts_def demo_loop_def)

lemma not_full: "\<not> sys_full demo_sys"
  by (simp add: demo_sys_def)

text \<open>A node connects on the listening socket.\<close>

lemma accept_event:
  assumes "loop_ok el" "fd \<notin> open_sockets el" "fd \<noteq> - 1" "\<not> sys_full e"
  shows "handle_event e (answers_with fd cs) (readable (sockNodeLocal el)) el
    = Some (Running (el\<lparr>connectionsInfo := connectionsInfo el @ [fresh_conn fd 0], sockNodeRemote := fd,
        open_sockets := insert fd (open_sockets el), watched := insert fd (watched el)\<rparr>))"
proof -
  have "fd \<notin> watched el" using assms(1,2) by (simp add: loop_ok_def)
  then show ?thesis
    using assms(3,4)
    by (simp add: handle_event_def readable_def accept_node_def answers_with_def accept1_def sl_push_def epoll_add_def)
qed

definition demo_connected :: event_loop where
  "demo_connected = demo_loop\<lparr>connectionsInfo := [fresh_conn 4 0], sockNodeRemote := 4, open_sockets := {4, 5, 6}, watched := {4, 5, 6}\<rparr>"

lemma demo_connects: "handle_event demo_sys (answers_with 4 []) (readable 5) demo_loop = Some (Running demo_connected)"
    "kernel_ok (answers_with 4 []) (readable 5) demo_loop" "loop_reachable demo_sys demo_loop demo_connected"
proof -
  have ok: "loop_ok demo_loop" using reachable_ok [OF loop_start demo_loop_starts not_full] .
  show e: "handle_event demo_sys (answers_with 4 []) (readable 5) demo_loop = Some (Running demo_connected)"
    using accept_event [OF ok _ _ not_full, of 4 "[]"] by (simp add: demo_loop_def demo_connected_def)
  show k: "kernel_ok (answers_with 4 []) (readable 5) demo_loop"
    by (simp add: kernel_ok_def readable_def answers_with_def demo_loop_def)
  show "loop_reachable demo_sys demo_loop demo_connected" by (rule loop_event [OF loop_start k e])
qed

subsection \<open>Connections and sockets\<close>

text \<open>
  C8. Whatever events come, as long as the lists can grow: the server has exactly one connection
  record for every socket it watches apart from the two listening ones, no record for any other,
  and no open socket that it does not watch; so a message is never handled without its record.
\<close>

theorem one_connection_per_socket:
  assumes "loop_reachable e el0 el" "loop_starts el0" "\<not> sys_full e"
  shows "distinct (map ci_socket (connectionsInfo el))
    \<and> ci_socket ` set (connectionsInfo el) = watched el - {sockNodeLocal el, sockLANLocal el}
    \<and> open_sockets el = watched el
    \<and> (fd \<in> watched el - {sockNodeLocal el, sockLANLocal el} \<longrightarrow>
        (\<exists>i. findConnInfo (connectionsInfo el) fd = Some (Some (int i)) \<and> ci_socket (connectionsInfo el ! i) = fd))"
proof -
  have ok: "loop_ok el" using reachable_ok [OF assms] .
  have "\<exists>i. findConnInfo (connectionsInfo el) fd = Some (Some (int i)) \<and> ci_socket (connectionsInfo el ! i) = fd"
    if "fd \<in> ci_socket ` set (connectionsInfo el)"
  proof (cases "find_index (\<lambda>c. ci_socket c = fd) (connectionsInfo el)")
    case None
    then show ?thesis using that find_socket_None [of fd "connectionsInfo el"] by simp
  next
    case (Some i)
    then show ?thesis using find_index_Some [OF Some] by (auto simp: findConnInfo_result)
  qed
  then show ?thesis using ok by (simp add: loop_ok_def sockets_distinct_def)
qed

theorem one_connection_per_socket_witness:
  "loop_reachable demo_sys demo_loop demo_connected \<and> findConnInfo (connectionsInfo demo_connected) 4 = Some (Some 0)"
proof -
  have "\<exists>i. findConnInfo (connectionsInfo demo_connected) 4 = Some (Some (int i))"
    using one_connection_per_socket [OF demo_connects(3) demo_loop_starts not_full, of 4]
    by (auto simp: demo_connected_def demo_loop_def)
  moreover have "findConnInfo (connectionsInfo demo_connected) 4 = Some (Some 0)"
    by (simp add: findConnInfo_result demo_connected_def fresh_conn_def)
  ultimately show ?thesis using demo_connects(3) by simp
qed

text \<open>
  C9. Sessions are kept apart: an event on one socket leaves the connection record of every other
  socket as it was, nonces, session id and counters included, and the only record it can add is
  one without a session, for a socket that \<open>accept\<close> just returned.
\<close>

theorem sessions_isolated:
  assumes "loop_reachable e el0 el" "loop_starts el0" "\<not> sys_full e" "kernel_ok ans ev el"
    "handle_event e ans ev el = Some (Running el')"
  shows "(\<forall>c\<in>set (connectionsInfo el). ci_socket c \<noteq> ev_fd ev \<longrightarrow> c \<in> set (connectionsInfo el'))
    \<and> (\<forall>c\<in>set (connectionsInfo el'). ci_socket c \<noteq> ev_fd ev \<longrightarrow>
        c \<in> set (connectionsInfo el) \<or> (\<exists>ty. c = fresh_conn (newFd ans) ty \<and> newFd ans \<notin> open_sockets el))"
proof -
  have ok: "loop_ok el" using reachable_ok [OF assms(1-3)] .
  have "connections_step ev ans el el'" using event_connections [OF assms(5,4) ok assms(3)] .
  then show ?thesis
  proof cases
    case (accepted ty)
    then show ?thesis using assms(4) by (auto simp: kernel_ok_def)
  next
    case served
    have "c \<in> set (connectionsInfo el) \<longleftrightarrow> c \<in> set (connectionsInfo el')" if "ci_socket c \<noteq> ev_fd ev" for c
      using arg_cong [OF served(2) [unfolded others_kept_def], of set] that by auto
    then show ?thesis by blast
  qed auto
qed

theorem sessions_isolated_witness:
  "\<exists>el'. handle_event demo_sys (answers_with 7 []) (readable 5) demo_connected = Some (Running el')
    \<and> fresh_conn 4 0 \<in> set (connectionsInfo el')"
proof -
  have ok: "loop_ok demo_connected" using reachable_ok [OF demo_connects(3) demo_loop_starts not_full] .
  have k: "kernel_ok (answers_with 7 []) (readable 5) demo_connected"
    by (simp add: kernel_ok_def readable_def answers_with_def demo_connected_def demo_loop_def)
  have "sockNodeLocal demo_connected = 5" "7 \<notin> open_sockets demo_connected" by (simp_all add: demo_connected_def demo_loop_def)
  then obtain el' where e: "handle_event demo_sys (answers_with 7 []) (readable 5) demo_connected = Some (Running el')"
    using accept_event [OF ok _ _ not_full, of 7 "[]"] by auto
  have "fresh_conn 4 0 \<in> set (connectionsInfo demo_connected)" "ci_socket (fresh_conn 4 0) \<noteq> ev_fd (readable 5)"
    by (simp_all add: demo_connected_def fresh_conn_def readable_def)
  then show ?thesis
    using sessions_isolated [OF demo_connects(3) demo_loop_starts not_full k e] e by blast
qed

text \<open>
  A user who connects on the local network stops the server's receiving thread: the socket
  added to \<open>epoll\<close> is the last node's, which is watched already or closed, unless \<open>accept\<close>
  happens to return that very number.
\<close>

lemma user_connection_ends_thread:
  assumes "loop_reachable e el0 el" "loop_starts el0" "\<not> sys_full e" "sockLANLocal el \<noteq> sockNodeLocal el"
    "kernel_ok ans (readable (sockLANLocal el)) el" "newFd ans \<noteq> - 1"
  shows "handle_event e ans (readable (sockLANLocal el)) el = Some ThreadExit
    \<longleftrightarrow> \<not> nonblocking_ok ans \<or> newFd ans \<noteq> sockNodeRemote el"
proof -
  have ok: "loop_ok el" using reachable_ok [OF assms(1-3)] .
  have "newFd ans \<notin> open_sockets el" using assms(5,6) by (auto simp: kernel_ok_def)
  then show ?thesis
    using assms(3,4,6) ok
    by (auto simp: handle_event_def readable_def accept_user_def accept1_def sl_push_def epoll_add_def loop_ok_def Let_def)
qed

subsection \<open>Messages\<close>

text \<open>
  C7. The event loop adds nothing to what a connection's messages do: when packets lead the server
  to a list of devices over \<open>recvAll\<close> alone, then the readiness events that bring these packets, one
  event for each, lead the event loop to that list, with every connection record unchanged. A packet
  may come in several chunks; as \<open>stream_fits\<close> says, no chunk has bytes of two packets and no length
  word lies across the end of the receive buffer.
\<close>

theorem epoll_delivers:
  assumes "packets_lead_to e c (el_server el) packets devs" "stream_fits cap pos packets css"
    and "connectionsInfo el = xs @ c # ys" "\<forall>d\<in>set xs. ci_socket d \<noteq> ci_socket c"
    "ci_socket c \<notin> {sockNodeLocal el, sockLANLocal el}"
    and "recvHolders el = hs1 @ h # hs2" "rh_socket h = ci_socket c" "\<forall>g\<in>set hs1 \<union> set hs2. rh_socket g \<noteq> ci_socket c"
    "idle h cap pos" "length (processMsgBuffer el) = 255"
  shows "\<exists>el'. handle_events e (map (\<lambda>cs. (answers_with (- 1) cs, readable (ci_socket c))) css) el = Some (Running el')
    \<and> devInfos (el_server el') = devs \<and> connectionsInfo el' = connectionsInfo el"
proof -
  have "\<forall>g\<in>set hs1 \<union> set hs2. rh_socket g \<noteq> rh_socket h" using assms(7,8) by simp
  then obtain h' s' buf' where r: "recv_messages (sys_alloc e) 0 (sys_full e) (server_callback e) css (hs1 @ h # hs2) (rh_socket h)
      (c, el_server el) (processMsgBuffer el) = Some (hs1 @ h' # hs2, (c, s'), buf')" "devInfos s' = devs"
    using assms(1,2,9,10) unfolding packets_lead_to_def by blast
  show ?thesis
    using events_receive [OF assms(3-5), of e css, unfolded assms(6), OF r(1) [unfolded assms(7)]] r(2) assms(3) by simp
qed

text \<open>The two messages of a node that was accepted before, each readable as a whole.\<close>

definition demo_session_loop :: event_loop where
  "demo_session_loop = demo_connected\<lparr>connectionsInfo := [demo_conn]\<rparr>"

theorem epoll_delivers_witness:
  "\<exists>css el'. length css = 2
    \<and> handle_events demo_sys (map (\<lambda>cs. (answers_with (- 1) cs, readable 4)) css) demo_session_loop = Some (Running el')
    \<and> map lockState (devInfos (el_server el')) = [0] \<and> connectionsInfo el' = [demo_conn]"
proof -
  let ?el = demo_session_loop
  have sv: "el_server ?el = demo_server []" "connectionsInfo ?el = [] @ demo_conn # []" "recvHolders ?el = [] @ demo_ring 4 # []"
    "ci_socket demo_conn = 4" "length (processMsgBuffer ?el) = 255" "4 \<notin> {sockNodeLocal ?el, sockLANLocal ?el}"
    by (simp_all add: demo_session_loop_def demo_connected_def demo_loop_def demo_conn_def fresh_conn_def)
  let ?devs = "fold (apply_queued 0 (sv_time (demo_server [])) demo_heap) [demo_command 1, demo_command 2] (devInfos (demo_server []))"
  obtain x y where m: "packets_lead_to demo_sys demo_conn (demo_server []) [x, y] ?devs" "stream_fits 765 0 [x, y] [[x], [y]]"
    using demo_packets by blast
  have lead: "packets_lead_to demo_sys demo_conn (el_server ?el) [x, y] ?devs" unfolding sv(1) by (rule m(1))
  have lock: "map lockState ?devs = [0]"
    by (simp add: demo_server_def apply_queued_def apply_command_def lock_beacon_def updateDeviceStatus_def
        command_of_def demo_heap_def demo_command_def)
  have "\<exists>el'. handle_events demo_sys (map (\<lambda>cs. (answers_with (- 1) cs, readable (ci_socket demo_conn))) [[x], [y]]) ?el
      = Some (Running el') \<and> devInfos (el_server el') = ?devs \<and> connectionsInfo el' = connectionsInfo ?el"
    by (rule epoll_delivers [OF lead m(2) sv(2) _ _ sv(3) _ _ _ sv(5)])
      (use sv(4,6) demo_ring_idle [of 4] in auto)
  then obtain el' where "handle_events demo_sys (map (\<lambda>cs. (answers_with (- 1) cs, readable 4)) [[x], [y]]) ?el = Some (Running el')"
    "devInfos (el_server el') = ?devs" "connectionsInfo el' = [demo_conn]"
    unfolding sv(2,4) by auto
  then show ?thesis using lock by (intro exI [of _ "[[x], [y]]"] exI [of _ el']) simp
qed

subsection \<open>A connection that is hung up\<close>

lemma receiving_time [simp]: "receiving (h\<lparr>timeSinceUsed := t\<rparr>) msg cap s k = receiving h msg cap s k"
  by (simp add: receiving_def)

lemma placed_splice:
  assumes "placed old cap pos" "4 \<le> k" "k \<le> length old" "length b = length old - k"
  shows "placed (take k old @ b) cap pos"
proof -
  have "take 4 (take k old @ b) = take 4 old" "length (take k old @ b) = length old" using assms(2-4) by simp_all
  then show ?thesis using assms(1) by (simp add: placed_def framed_def)
qed

text \<open>
  C32. Closing a socket on a hang-up forgets the connection but not its receive holder: when a node
  was cut off in the middle of a message and the next node is given the same socket number, the
  first bytes the new node sends are taken for the rest of the old message, and the server handles
  that mixture as a message of the new connection.
\<close>

theorem stale_bytes_after_hangup:
  assumes "loop_reachable e el0 el" "loop_starts el0" "\<not> sys_full e" "fd \<in> watched el - {sockNodeLocal el, sockLANLocal el}"
    and "recvHolders el = hs1 @ h # hs2" "rh_socket h = fd" "\<forall>g\<in>set hs1 \<union> set hs2. rh_socket g \<noteq> fd"
    and "receiving h old cap pos k" "placed old cap pos" "4 \<le> k" "k < length old"
    and "concat cs = b" "length b = length old - k" "fits cap ((pos + k) mod cap) cs" "length old \<le> length (processMsgBuffer el)"
    and "processMsg e (fresh_conn fd 0) (take k old @ b @ drop (length old) (processMsgBuffer el)) (el_server el) = Some (r, c', m', s')"
  shows "\<exists>el'. handle_events e [(answers_with (- 1) [], hung_up fd), (answers_with fd [], readable (sockNodeLocal el)),
      (answers_with (- 1) cs, readable fd)] el = Some (Running el')
    \<and> el_server el' = s' \<and> connectionsInfo el' = filter (\<lambda>c. ci_socket c \<noteq> fd) (connectionsInfo el) @ [c']"
proof -
  have ok: "loop_ok el" using reachable_ok [OF assms(1-3)] .
  have fd: "fd \<in> open_sockets el" "fd \<noteq> sockNodeLocal el" "fd \<noteq> sockLANLocal el" "fd \<noteq> - 1" "sockets_distinct (connectionsInfo el)"
    using ok assms(4) by (auto simp: loop_ok_def)
  let ?cs = "filter (\<lambda>c. ci_socket c \<noteq> fd) (connectionsInfo el)"
  let ?el1 = "(close_socket fd el)\<lparr>connectionsInfo := ?cs\<rparr>"
  have hup: "handle_event e (answers_with (- 1) []) (hung_up fd) el = Some (Running ?el1)"
    using close1_filter [OF fd(5), of fd] fd(1) by (simp add: handle_event_def hung_up_def)
  have ok1: "loop_ok ?el1" using loop_ok_closed [OF ok] fd(2,3) by simp
  have fresh: "fd \<notin> open_sockets ?el1" and node: "sockNodeLocal ?el1 = sockNodeLocal el"
    by (simp_all add: close_socket_def)
  let ?el2 = "?el1\<lparr>connectionsInfo := ?cs @ [fresh_conn fd 0], sockNodeRemote := fd,
        open_sockets := insert fd (open_sockets ?el1), watched := insert fd (watched ?el1)\<rparr>"
  have acc: "handle_event e (answers_with fd []) (readable (sockNodeLocal el)) ?el1 = Some (Running ?el2)"
    using accept_event [OF ok1 fresh fd(4) assms(3), of "[]"] unfolding node by simp
  let ?new = "take k old @ b"
  have pl: "placed ?new cap pos" by (rule placed_splice [OF assms(9,10) _ assms(13)]) (use assms(11) in simp)
  have rc: "receiving (h\<lparr>timeSinceUsed := 0\<rparr>) ?new cap pos k"
    using assms(8,11,13) by (auto simp: receiving_def)
  have len: "length ?new = length old" "concat cs = drop k ?new" using assms(11-13) by simp_all
  have d: "deliver (server_callback e) ?new (fresh_conn fd 0, el_server el) (processMsgBuffer el) = Some ((c', s'), m')"
    using assms(15,16) unfolding deliver_def len(1) by (simp add: server_callback_def)
  have ne: "b \<noteq> []" using assms(11,13) by auto
  obtain h' where loop: "recv_loop (server_callback e) (map RecvData cs) (h\<lparr>timeSinceUsed := 0\<rparr>) (fresh_conn fd 0, el_server el)
      (processMsgBuffer el) = Some (0, h', (c', s'), m', [])"
    using recv_loop_message [where rs = "[]", OF rc pl _ len(2) assms(14), of "server_callback e" "(fresh_conn fd 0, el_server el)"
        "processMsgBuffer el"] d assms(11) len(1) ne by auto
  have pick: "pick_holder (sys_alloc e) 0 (sys_full e) (recvHolders el) fd = Some (int (length hs1), hs1 @ h # hs2)"
    using pick_found [of hs1 hs2 h] assms(5-7) by simp
  have serve: "serve_message e (answers_with (- 1) cs) (ci_socket (fresh_conn fd 0)) ?el2
      = Some (?el2\<lparr>recvHolders := hs1 @ h' # hs2, el_server := s', processMsgBuffer := m', connectionsInfo := ?cs @ c' # []\<rparr>)"
  proof (rule serve_message_on)
    show "recvAll (sys_alloc e) (malloc_junk (answers_with (- 1) cs)) (sys_full e) (server_callback e) (recv_results (answers_with (- 1) cs))
        (recvHolders ?el2) (ci_socket (fresh_conn fd 0)) (fresh_conn fd 0, el_server ?el2) (processMsgBuffer ?el2)
        = Some (0, hs1 @ h' # hs2, (c', s'), m', [])"
      using recvAll_loop [OF pick loop] by (simp add: answers_with_def fresh_conn_def close_socket_def)
  qed (auto simp: fresh_conn_def)
  have "handle_event e (answers_with (- 1) cs) (readable fd) ?el2
      = Some (Running (?el2\<lparr>recvHolders := hs1 @ h' # hs2, el_server := s', processMsgBuffer := m', connectionsInfo := ?cs @ c' # []\<rparr>))"
    using serve fd(2,3) by (simp add: handle_event_def readable_def close_socket_def fresh_conn_def)
  then show ?thesis by (simp add: hup acc)
qed

text \<open>The first message of a node to a server that knows it.\<close>

lemma demo_first_message:
  "\<exists>w c' m s'. framed w \<and> length w \<le> 255 \<and> processMsg demo_sys (fresh_conn 4 0) (w @ drop (length w) (replicate 255 0))
      (demo_server [demo_env 52, demo_env 76]) = Some (None, c', m, s') \<and> sessionId c' \<noteq> 0"
proof -
  let ?s = "demo_server [demo_env 52, demo_env 76]"
  have ok: "packet_ok None demo_node_add None (replicate 12 5)"
    by (simp add: packet_ok_def nonempty_arg_def demo_node_add_ok)
      (simp add: demo_node_add_def node_add_def)
  obtain t w where seal: "sealed demo_ctx (replicate 12 5) demo_node_add 3 0 None t w"
    using demo_sealed [OF ok] by metis
  have lw: "length w = packet_size None demo_node_add None" using sealed_shape [OF demo_keyed ok seal] by metis
  have w: "framed w" "length w \<le> 255"
    using sealed_framed [OF demo_keyed ok seal] by (simp_all add: lw packet_size_def demo_node_add_ok(2))
  have same: "same_key demo_ctx (key_ctx demo_sys (di_key demo_dev))" by (simp add: demo_key_ctx gcm.same_refl)
  have conn: "connectionType (fresh_conn 4 0) = 0" "sessionId (fresh_conn 4 0) = 0" "localNonce (fresh_conn 4 0) = 0"
    "remoteNonce (fresh_conn 4 0) = 0" by (simp_all add: fresh_conn_def)
  have hyps: "8 + length (opt_net None) \<le> length (decryptedMsgBuffer ?s)"
    "MAXMSGLEN \<le> length (w @ drop (length w) (replicate 255 0))" "w_envs (sv_wire ?s) = demo_env 52 # [demo_env 76] @ []"
    "can_send (demo_env 52) None None (sendProcessingBuffer ?s)"
    "list_all2 (command_ready (length (sendProcessingBuffer ?s))) [demo_env 76] (fst (drain demo_id (commandsQueue ?s)))"
    "malloc (sys_alloc demo_sys) 255 \<noteq> None"
    using w(2) by (simp_all add: demo_can_send demo_drain demo_ready MAXMSGLEN_def demo_sys_def) (simp_all add: demo_server_def demo_ready demo_can_send)
  from first_message_flushes [OF demo_keyed same ok seal demo_node_add_def demo_node_add_ok(1) conn
      demo_from_device(1) hyps demo_session]
  show ?thesis using w demo_session by (elim exE conjE) (intro exI conjI, assumption+, simp)
qed

theorem stale_bytes_after_hangup_witness:
  "\<exists>el w el' c'. loop_reachable demo_sys (demo_loop\<lparr>recvHolders := recvHolders el, el_server := el_server el\<rparr>) el
    \<and> handle_events demo_sys [(answers_with (- 1) [], hung_up 4), (answers_with 4 [], readable 5),
        (answers_with (- 1) [drop 4 w], readable 4)] el = Some (Running el')
    \<and> connectionsInfo el' = [c'] \<and> sessionId c' \<noteq> 0"
proof -
  obtain w c' m s' where w: "framed w" "length w \<le> 255" "processMsg demo_sys (fresh_conn 4 0) (w @ drop (length w) (replicate 255 0))
      (demo_server [demo_env 52, demo_env 76]) = Some (None, c', m, s')" "sessionId c' \<noteq> 0"
    using demo_first_message by blast
  have l: "4 < length w" using w(1) by (simp add: framed_def)
  let ?h = "(demo_ring 4)\<lparr>recvQueue := Some (take 4 w @ replicate 761 0), sizeUsed := 4, firstMsgPtr := Some 0,
    firstMsgSize := of_nat (length w), firstMsgSizeUsed := 4\<rparr>"
  let ?st = "demo_server [demo_env 52, demo_env 76]"
  let ?from = "demo_loop\<lparr>recvHolders := [?h], el_server := ?st\<rparr>" and ?el = "demo_connected\<lparr>recvHolders := [?h], el_server := ?st\<rparr>"
  have start: "loop_starts ?from" by (simp add: loop_starts_def demo_loop_def)
  have ok: "loop_ok ?from" using reachable_ok [OF loop_start start not_full] .
  have "handle_event demo_sys (answers_with 4 []) (readable (sockNodeLocal ?from)) ?from = Some (Running ?el)"
    using accept_event [OF ok _ _ not_full, of 4 "[]"] by (simp add: demo_connected_def demo_loop_def)
  moreover have "kernel_ok (answers_with 4 []) (readable (sockNodeLocal ?from)) ?from"
    by (simp add: kernel_ok_def readable_def answers_with_def demo_loop_def)
  ultimately have reach: "loop_reachable demo_sys ?from ?el" using loop_event [OF loop_start] by blast
  have fd: "4 \<in> watched ?el - {sockNodeLocal ?el, sockLANLocal ?el}" by (simp add: demo_connected_def demo_loop_def)
  have hs: "recvHolders ?el = [] @ ?h # []" "rh_socket ?h = 4" by (simp_all add: demo_ring_def)
  have rc: "receiving ?h w 765 0 4" using l by (simp add: receiving_def demo_ring_def ring_def)
  have pl: "placed w 765 0" using w(1,2) by (simp add: placed_def)
  have buf: "processMsgBuffer ?el = replicate 255 0" by (simp add: demo_connected_def demo_loop_def)
  have p: "processMsg demo_sys (fresh_conn 4 0) (take 4 w @ drop 4 w @ drop (length w) (processMsgBuffer ?el)) (el_server ?el)
      = Some (None, c', m, s')"
    using w(3) unfolding buf append_assoc [symmetric] append_take_drop_id by simp
  have fits: "fits 765 ((0 + 4) mod 765) [drop 4 w]" using l w(2) by simp
  have "\<exists>el'. handle_events demo_sys [(answers_with (- 1) [], hung_up 4), (answers_with 4 [], readable (sockNodeLocal ?el)),
        (answers_with (- 1) [drop 4 w], readable 4)] ?el = Some (Running el')
      \<and> el_server el' = s' \<and> connectionsInfo el' = filter (\<lambda>c. ci_socket c \<noteq> 4) (connectionsInfo ?el) @ [c']"
    by (rule stale_bytes_after_hangup [OF reach start not_full fd hs _ rc pl _ l _ _ fits _ p]) (use l w(2) buf in auto)
  moreover have "sockNodeLocal ?el = 5" "filter (\<lambda>c. ci_socket c \<noteq> 4) (connectionsInfo ?el) @ [c'] = [c']"
    by (simp_all add: demo_connected_def demo_loop_def fresh_conn_def)
  ultimately obtain el' where e: "handle_events demo_sys [(answers_with (- 1) [], hung_up 4), (answers_with 4 [], readable 5),
        (answers_with (- 1) [drop 4 w], readable 4)] ?el = Some (Running el')" "connectionsInfo el' = [c']"
    by metis
  have "loop_reachable demo_sys (demo_loop\<lparr>recvHolders := recvHolders ?el, el_server := el_server ?el\<rparr>) ?el"
    using reach by simp
  then show ?thesis using e w(4) by blast
qed

end
