(* ===== verification/Json.thy ===== *)
theory Json
  imports "HOL-Library.Countable" C_Prelude
begin

text \<open>
  The JSON library json-c, which the server links against and which is not part of the
  repository: a record of the functions the server calls, on values of any type, and
  \<open>json_ok\<close>, what its documentation promises of them. NULL, which the library's functions
  take, is \<open>None\<close>. A concrete instance shows that the promises can be kept.
\<close>

section \<open>The interface\<close>

record 'j json_lib =
  js_parse :: "byte list \<Rightarrow> 'j option"
  js_text :: "'j \<Rightarrow> byte list"
  js_new_object :: 'j
  js_new_array :: 'j
  js_new_string :: "byte list \<Rightarrow> 'j"
  js_new_int :: "int \<Rightarrow> 'j"
  js_set_string :: "'j \<Rightarrow> byte list \<Rightarrow> 'j"
  js_set_int :: "'j \<Rightarrow> int \<Rightarrow> 'j"
  js_get :: "'j \<Rightarrow> string \<Rightarrow> 'j option"
  js_has :: "'j \<Rightarrow> string \<Rightarrow> bool"
  js_put :: "string \<Rightarrow> 'j \<Rightarrow> 'j \<Rightarrow> 'j"
  js_items :: "'j \<Rightarrow> 'j list option"
  js_add_item :: "'j \<Rightarrow> 'j \<Rightarrow> 'j"
  js_set_item :: "nat \<Rightarrow> 'j \<Rightarrow> 'j \<Rightarrow> 'j"
  js_string :: "'j \<Rightarrow> byte list"
  js_string_len :: "'j \<Rightarrow> nat"
  js_int :: "'j \<Rightarrow> int"
  js_int64 :: "'j \<Rightarrow> int"

text \<open>
  The functions on a possible NULL, which also stands for the value null (so a member can exist
  and be NULL): a member of NULL is NULL, its number 0, its string NULL and of length 0. A string in memory ends with a NUL byte. Functions that change a value in place
  return the changed value, and their caller puts it back where it came from.
\<close>

definition js_member :: "'j json_lib \<Rightarrow> 'j option \<Rightarrow> string \<Rightarrow> 'j option" where
  "js_member L j key = Option.bind j (\<lambda>j. js_get L j key)"

definition js_number :: "'j json_lib \<Rightarrow> 'j option \<Rightarrow> int" where
  "js_number L j = (case j of None \<Rightarrow> 0 | Some j \<Rightarrow> js_int L j)"

definition js_number64 :: "'j json_lib \<Rightarrow> 'j option \<Rightarrow> int" where
  "js_number64 L j = (case j of None \<Rightarrow> 0 | Some j \<Rightarrow> js_int64 L j)"

definition js_memory :: "'j json_lib \<Rightarrow> 'j option \<Rightarrow> byte list option" where
  "js_memory L j = map_option (\<lambda>j. js_string L j @ [0]) j"

definition js_length :: "'j json_lib \<Rightarrow> 'j option \<Rightarrow> nat" where
  "js_length L j = (case j of None \<Rightarrow> 0 | Some j \<Rightarrow> js_string_len L j)"

definition js_object :: "'j json_lib \<Rightarrow> (string \<times> 'j) list \<Rightarrow> 'j" where
  "js_object L kvs = fold (\<lambda>(k, v) j. js_put L k v j) kvs (js_new_object L)"

definition js_array :: "'j json_lib \<Rightarrow> 'j list \<Rightarrow> 'j" where
  "js_array L xs = fold (\<lambda>x j. js_add_item L j x) xs (js_new_array L)"

section \<open>What is documented\<close>

text \<open>
  A value written to a file is read back; a member that was put is found and the others are as
  before; an array holds what was added to it, in order; a string and an \<open>int\<close> are what they
  were made of. \<open>is_object\<close> tells the values that are objects.
\<close>

definition json_ok :: "'j json_lib \<Rightarrow> ('j \<Rightarrow> bool) \<Rightarrow> bool" where
  "json_ok L is_object \<longleftrightarrow>
     (\<forall>j. js_parse L (js_text L j) = Some j)
     \<and> is_object (js_new_object L) \<and> (\<forall>k. js_get L (js_new_object L) k = None)
     \<and> (\<forall>j k v. is_object j \<longrightarrow> is_object (js_put L k v j) \<and> js_get L (js_put L k v j) = (js_get L j)(k \<mapsto> v))
     \<and> js_items L (js_new_array L) = Some []
     \<and> (\<forall>j xs x. js_items L j = Some xs \<longrightarrow> js_items L (js_add_item L j x) = Some (xs @ [x]))
     \<and> (\<forall>j xs i x. js_items L j = Some xs \<longrightarrow> i < length xs \<longrightarrow> js_items L (js_set_item L i x j) = Some (xs[i := x]))
     \<and> (\<forall>s. js_string L (js_new_string L s) = s \<and> js_string_len L (js_new_string L s) = length s)
     \<and> (\<forall>n. - (2 ^ 31) \<le> n \<longrightarrow> n < 2 ^ 31 \<longrightarrow> js_int L (js_new_int L n) = n)
     \<and> (\<forall>n. - (2 ^ 31) \<le> n \<longrightarrow> n < 2 ^ 31 \<longrightarrow> js_int64 L (js_new_int L n) = n)
     \<and> (\<forall>j k. js_get L j k \<noteq> None \<longrightarrow> js_has L j k)
     \<and> (\<forall>s t. js_set_string L (js_new_string L s) t = js_new_string L t)
     \<and> (\<forall>n m. js_set_int L (js_new_int L n) m = js_new_int L m)"

lemma json_okD:
  assumes "json_ok L ob"
  shows "js_parse L (js_text L j) = Some j" "ob (js_new_object L)" "js_get L (js_new_object L) k = None"
    "ob j \<Longrightarrow> ob (js_put L k v j)" "ob j \<Longrightarrow> js_get L (js_put L k v j) = (js_get L j)(k \<mapsto> v)"
    "js_items L (js_new_array L) = Some []" "js_items L j = Some xs \<Longrightarrow> js_items L (js_add_item L j x) = Some (xs @ [x])"
    "js_items L j = Some xs \<Longrightarrow> i < length xs \<Longrightarrow> js_items L (js_set_item L i x j) = Some (xs[i := x])"
    "js_string L (js_new_string L s) = s" "js_string_len L (js_new_string L s) = length s"
    "- (2 ^ 31) \<le> n \<Longrightarrow> n < 2 ^ 31 \<Longrightarrow> js_int L (js_new_int L n) = n"
    "js_set_string L (js_new_string L s) t = js_new_string L t" "js_set_int L (js_new_int L n) m = js_new_int L m"
    "- (2 ^ 31) \<le> n \<Longrightarrow> n < 2 ^ 31 \<Longrightarrow> js_int64 L (js_new_int L n) = n" "js_get L j k = Some v \<Longrightarrow> js_has L j k"
  using assms unfolding json_ok_def by (blast | metis option.distinct(1))+

section \<open>An instance\<close>

datatype json = JString "nat list" | JInt int | JArray "json list" | JObject "(string \<times> json) list"

instance json :: countable
  by countable_datatype

definition json_bytes :: "json \<Rightarrow> byte list" where
  "json_bytes j = (case j of JString s \<Rightarrow> map of_nat s | _ \<Rightarrow> [])"

fun json_put :: "string \<Rightarrow> json \<Rightarrow> json \<Rightarrow> json" where
  "json_put k v (JObject kvs) = JObject (kvs @ [(k, v)])"
| "json_put k v j = j"

fun json_get :: "json \<Rightarrow> string \<Rightarrow> json option" where
  "json_get (JObject kvs) k = map_of (rev kvs) k"
| "json_get j k = None"

fun json_is_object :: "json \<Rightarrow> bool" where
  "json_is_object (JObject kvs) = True"
| "json_is_object j = False"

fun json_items :: "json \<Rightarrow> json list option" where
  "json_items (JArray xs) = Some xs"
| "json_items j = None"

fun json_add_item :: "json \<Rightarrow> json \<Rightarrow> json" where
  "json_add_item (JArray xs) x = JArray (xs @ [x])"
| "json_add_item j x = j"

fun json_set_item :: "nat \<Rightarrow> json \<Rightarrow> json \<Rightarrow> json" where
  "json_set_item i x (JArray xs) = JArray (xs[i := x])"
| "json_set_item i x j = j"

fun json_int :: "json \<Rightarrow> int" where
  "json_int (JInt n) = n"
| "json_int j = 0"

fun json_set_string :: "json \<Rightarrow> byte list \<Rightarrow> json" where
  "json_set_string (JString s) t = JString (map unat t)"
| "json_set_string j t = j"

fun json_set_int :: "json \<Rightarrow> int \<Rightarrow> json" where
  "json_set_int (JInt n) m = JInt m"
| "json_set_int j m = j"

definition demo_json :: "json json_lib" where
  "demo_json = \<lparr>js_parse = (\<lambda>bs. Some (from_nat (length bs))), js_text = (\<lambda>j. replicate (to_nat j) 0),
     js_new_object = JObject [], js_new_array = JArray [], js_new_string = (\<lambda>s. JString (map unat s)), js_new_int = JInt,
     js_set_string = json_set_string, js_set_int = json_set_int,
     js_get = json_get, js_has = (\<lambda>j k. json_get j k \<noteq> None), js_put = json_put, js_items = json_items, js_add_item = json_add_item, js_set_item = json_set_item,
     js_string = json_bytes, js_string_len = (\<lambda>j. length (json_bytes j)), js_int = json_int, js_int64 = json_int\<rparr>"

lemma demo_json_ok: "json_ok demo_json json_is_object"
proof -
  have put: "json_is_object j \<Longrightarrow> json_is_object (json_put k v j) \<and> json_get (json_put k v j) = (json_get j)(k \<mapsto> v)" for j k v
    by (cases j) (auto simp: fun_eq_iff)
  have add: "json_items j = Some xs \<Longrightarrow> json_items (json_add_item j x) = Some (xs @ [x])" for j xs x
    by (cases j) auto
  have set: "json_items j = Some xs \<Longrightarrow> json_items (json_set_item i x j) = Some (xs[i := x])" for j xs x i
    by (cases j) auto
  show ?thesis
    unfolding json_ok_def using put add set by (auto simp: demo_json_def json_bytes_def comp_def)
qed

end
