(* ===== verification/DeviceConfig.thy ===== *)
theory DeviceConfig
  imports Json Server
begin

text \<open>
  The file \<open>deviceInfos.json\<close> in which the server keeps its devices: \<open>saveDevInfoToConfigFile\<close>
  and the first half of \<open>loadInServerSettings\<close> (\<open>mainserver/mainServer/server.c\<close>), and what
  \<open>main\<close> does with the file when the server starts. A file is its contents, \<open>None\<close> when it
  does not exist; writes succeed.
\<close>

section \<open>Saving\<close>

text \<open>\<open>memcmp\<close> of the device id with the member \<open>devId\<close> of an entry.\<close>

definition entry_matches :: "'j json_lib \<Rightarrow> devInfo \<Rightarrow> 'j \<Rightarrow> bool option" where
  "entry_matches L d j = do {
     m \<leftarrow> js_memory L (js_get L j ''devId'');
     devid \<leftarrow> load_bytes m 0 DEVIDLEN;
     Some (devid = di_devId d)
   }"

text \<open>The members are changed in place; the connection type is written to the device type.\<close>

definition update_entry :: "'j json_lib \<Rightarrow> devInfo \<Rightarrow> 'j \<Rightarrow> 'j" where
  "update_entry L d j =
     (let j = (case js_get L j ''encryptionKey'' of None \<Rightarrow> j
               | Some k \<Rightarrow> js_put L ''encryptionKey'' (js_set_string L k (di_key d)) j);
          j = (case js_get L j ''devtype'' of None \<Rightarrow> j
               | Some t \<Rightarrow> js_put L ''devtype'' (js_set_int L t (sint (di_devType d))) j)
      in case js_get L j ''devtype'' of None \<Rightarrow> j
         | Some t \<Rightarrow> js_put L ''devtype'' (js_set_int L t (uint (deviceConnectionType d))) j)"

fun update_entries :: "'j json_lib \<Rightarrow> devInfo \<Rightarrow> nat \<Rightarrow> 'j list \<Rightarrow> 'j \<Rightarrow> ('j \<times> bool) option" where
  "update_entries L d i [] arr = Some (arr, False)"
| "update_entries L d i (j # js) arr = do {
     b \<leftarrow> entry_matches L d j;
     (arr, found) \<leftarrow> update_entries L d (Suc i) js (if b then js_set_item L i (update_entry L d j) arr else arr);
     Some (arr, b \<or> found)
   }"

definition new_entry :: "'j json_lib \<Rightarrow> devInfo \<Rightarrow> 'j" where
  "new_entry L d = js_object L
     [(''devId'', js_new_string L (di_devId d)), (''encryptionKey'', js_new_string L (di_key d)),
      (''devtype'', js_new_int L (sint (di_devType d))),
      (''deviceConnectionType'', js_new_int L (uint (deviceConnectionType d)))]"

definition saveDevInfoToConfigFile :: "'j json_lib \<Rightarrow> devInfo \<Rightarrow> byte list option \<Rightarrow> byte list option option" where
  "saveDevInfoToConfigFile L d file =
     (case Option.bind file (js_parse L) of
        None \<Rightarrow> Some file
      | Some config \<Rightarrow> do {
          let config = (case js_get L config ''deviceInfos'' of Some arr \<Rightarrow> config
                        | None \<Rightarrow> js_put L ''deviceInfos'' (js_new_array L) config);
          arr \<leftarrow> js_get L config ''deviceInfos'';
          items \<leftarrow> js_items L arr;
          (arr, found) \<leftarrow> update_entries L d 0 items arr;
          let arr = (if found then arr else js_add_item L arr (new_entry L d));
          Some (Some (js_text L (js_put L ''deviceInfos'' arr config)))
        })"

section \<open>Loading\<close>

text \<open>The other fields of the device keep what the stack held.\<close>

definition read_entry :: "sys \<Rightarrow> 'j json_lib \<Rightarrow> 'j \<Rightarrow> devInfo option" where
  "read_entry e L j = do {
     m \<leftarrow> js_memory L (js_get L j ''devId'');
     devid \<leftarrow> load_bytes m 0 DEVIDLEN;
     m \<leftarrow> js_memory L (js_get L j ''encryptionKey'');
     key \<leftarrow> load_bytes m 0 KEYLEN;
     Some ((stack_devInfo e)\<lparr>di_devId := devid, di_key := key,
       di_devType := word_of_int (js_number L (js_get L j ''devtype'')),
       deviceConnectionType := word_of_int (js_number L (js_get L j ''deviceConnectionType''))\<rparr>)
   }"

fun load_entries :: "sys \<Rightarrow> 'j json_lib \<Rightarrow> 'j list \<Rightarrow> devInfo list \<Rightarrow> devInfo list option" where
  "load_entries e L [] devs = Some devs"
| "load_entries e L (j # js) devs = do {
     d \<leftarrow> read_entry e L j;
     load_entries e L js (snd (sl_push (sys_full e) devs d))
   }"

definition load_device_file :: "sys \<Rightarrow> 'j json_lib \<Rightarrow> byte list option \<Rightarrow> devInfo list \<Rightarrow> devInfo list option" where
  "load_device_file e L file devs =
     (case Option.bind file (js_parse L) of
        None \<Rightarrow> Some devs
      | Some config \<Rightarrow> (case js_get L config ''deviceInfos'' of
            None \<Rightarrow> Some devs
          | Some arr \<Rightarrow> do { items \<leftarrow> js_items L arr; load_entries e L items devs }))"

text \<open>
  The start of the server: the devices are loaded, and then a test device whose id and key are
  constants of the program is saved.
\<close>

definition test_device :: "sys \<Rightarrow> devInfo" where
  "test_device e = (stack_devInfo e)\<lparr>di_devId := literal ''TestTestTestTest'', di_key := literal ''TestTestTestKey2''\<rparr>"

definition start_server :: "sys \<Rightarrow> 'j json_lib \<Rightarrow> byte list option \<Rightarrow> (devInfo list \<times> byte list option) option" where
  "start_server e L file = do {
     devs \<leftarrow> load_device_file e L file [];
     file \<leftarrow> saveDevInfoToConfigFile L (test_device e) file;
     Some (devs, file)
   }"

section \<open>What a file holds\<close>

text \<open>What is kept of a device: its id, its key and its two types.\<close>

type_synonym kept = "byte list \<times> byte list \<times> u32 \<times> byte"

definition kept_of :: "devInfo \<Rightarrow> kept" where
  "kept_of d = (di_devId d, di_key d, di_devType d, deviceConnectionType d)"

definition entry_of :: "'j json_lib \<Rightarrow> ('j \<Rightarrow> bool) \<Rightarrow> kept \<Rightarrow> 'j \<Rightarrow> bool" where
  "entry_of L ob = (\<lambda>(devid, key, ty, conn) j. length devid = 16 \<and> length key = 16 \<and> ob j
     \<and> js_get L j ''devId'' = Some (js_new_string L devid) \<and> js_get L j ''encryptionKey'' = Some (js_new_string L key)
     \<and> js_get L j ''devtype'' = Some (js_new_int L (sint ty))
     \<and> js_get L j ''deviceConnectionType'' = Some (js_new_int L (uint conn)))"

definition config_holds :: "'j json_lib \<Rightarrow> ('j \<Rightarrow> bool) \<Rightarrow> byte list option \<Rightarrow> kept list \<Rightarrow> bool" where
  "config_holds L ob file ks \<longleftrightarrow> (\<exists>config arr items. Option.bind file (js_parse L) = Some config \<and> ob config
     \<and> js_get L config ''deviceInfos'' = Some arr \<and> js_items L arr = Some items \<and> list_all2 (entry_of L ob) ks items)"

text \<open>What saving a device makes of the kept ones: a known device loses its type.\<close>

definition resave :: "devInfo \<Rightarrow> kept \<Rightarrow> kept" where
  "resave d = (\<lambda>(devid, key, ty, conn).
     if devid = di_devId d then (devid, di_key d, ucast (deviceConnectionType d), conn) else (devid, key, ty, conn))"

definition save_kept :: "devInfo \<Rightarrow> kept list \<Rightarrow> kept list" where
  "save_kept d ks = map (resave d) ks @ (if di_devId d \<in> fst ` set ks then [] else [kept_of d])"

lemma entry_matches_of:
  assumes "json_ok L ob" "entry_of L ob k j"
  shows "entry_matches L d j = Some (fst k = di_devId d)"
  using assms(2) json_okD(9) [OF assms(1)]
  by (auto simp: entry_of_def entry_matches_def js_memory_def load_bytes_def shared_consts)

lemma sint_wider:
  fixes b :: byte
  shows "sint (ucast b :: u32) = uint b"
proof -
  have "uint (ucast b :: u32) = uint b" "uint b < 256" using uint_lt2p [of b] by (simp_all add: uint_up_ucast is_up)
  moreover have "- (2 ^ 31) \<le> uint b" by (rule order_trans [OF _ uint_ge_0]) simp
  ultimately show ?thesis by (simp add: sint_uint signed_take_bit_int_eq_self)
qed

lemma update_entry_of:
  assumes "json_ok L ob" "entry_of L ob k j" "fst k = di_devId d" "length (di_key d) = 16"
  shows "entry_of L ob (resave d k) (update_entry L d j)"
proof -
  obtain devid key ty conn where k: "k = (devid, key, ty, conn)" by (cases k) auto
  note ok = json_okD [OF assms(1)]
  show ?thesis
    using assms(2-4) unfolding update_entry_def
    by (simp add: k entry_of_def resave_def ok(4,5,12,13) Let_def sint_wider)
qed

lemma update_entries_of:
  assumes "json_ok L ob" "length (di_key d) = 16" "list_all2 (entry_of L ob) ks js"
    "js_items L arr = Some (pre @ js)"
  shows "\<exists>arr' js'. update_entries L d (length pre) js arr = Some (arr', di_devId d \<in> fst ` set ks)
    \<and> js_items L arr' = Some (pre @ js') \<and> list_all2 (entry_of L ob) (map (resave d) ks) js'"
  using assms(3,4)
proof (induction ks js arbitrary: pre arr rule: list_all2_induct)
  case Nil
  then show ?case by auto
next
  case (Cons k ks j js)
  let ?b = "fst k = di_devId d" and ?j = "update_entry L d j"
  let ?x = "if ?b then ?j else j" and ?arr = "if ?b then js_set_item L (length pre) ?j arr else arr"
  have x: "entry_of L ob (resave d k) ?x"
    using update_entry_of [OF assms(1) Cons.hyps(1) _ assms(2)] Cons.hyps(1) by (cases k) (auto simp: resave_def)
  have "js_items L ?arr = Some ((pre @ [?x]) @ js)"
    using json_okD(8) [OF assms(1) Cons.prems, of "length pre" ?j] Cons.prems by simp
  from Cons.IH [OF this] obtain arr' js' where
    more: "update_entries L d (Suc (length pre)) js ?arr = Some (arr', di_devId d \<in> fst ` set ks)"
    "js_items L arr' = Some (pre @ ?x # js')" "list_all2 (entry_of L ob) (map (resave d) ks) js'"
    by auto
  then show ?case
    using entry_matches_of [OF assms(1) Cons.hyps(1), of d] x by (auto intro!: exI [of _ "?x # js'"])
qed

lemma new_entry_of:
  assumes "json_ok L ob" "length (di_devId d) = 16" "length (di_key d) = 16"
  shows "entry_of L ob (kept_of d) (new_entry L d)"
  using assms(2,3) json_okD(2,4,5) [OF assms(1)] by (simp add: entry_of_def kept_of_def new_entry_def js_object_def)

text \<open>Saving acts on the kept devices, whatever was saved before.\<close>

lemma save_holds:
  assumes "json_ok L ob" "config_holds L ob file ks" "length (di_devId d) = 16" "length (di_key d) = 16"
  shows "\<exists>file'. saveDevInfoToConfigFile L d file = Some file' \<and> config_holds L ob file' (save_kept d ks)"
proof -
  note ok = json_okD [OF assms(1)]
  obtain config arr items where c: "Option.bind file (js_parse L) = Some config" "ob config" "js_get L config ''deviceInfos'' = Some arr"
    "js_items L arr = Some ([] @ items)" "list_all2 (entry_of L ob) ks items"
    using assms(2) unfolding config_holds_def by auto
  obtain arr1 items1 where u: "update_entries L d 0 items arr = Some (arr1, di_devId d \<in> fst ` set ks)"
    "js_items L arr1 = Some items1" "list_all2 (entry_of L ob) (map (resave d) ks) items1"
    using update_entries_of [OF assms(1,4) c(5,4)] by auto
  let ?found = "di_devId d \<in> fst ` set ks"
  let ?arr = "if ?found then arr1 else js_add_item L arr1 (new_entry L d)"
  let ?items = "items1 @ (if ?found then [] else [new_entry L d])"
  have items: "js_items L ?arr = Some ?items" using u(2) ok(7) by simp
  have "list_all2 (entry_of L ob) (save_kept d ks) ?items"
    using u(3) new_entry_of [OF assms(1,3,4)] by (simp add: save_kept_def list_all2_appendI)
  then have "config_holds L ob (Some (js_text L (js_put L ''deviceInfos'' ?arr config))) (save_kept d ks)"
    unfolding config_holds_def using items ok(4,5) c(2)
    by (intro exI [of _ "js_put L ''deviceInfos'' ?arr config"] exI [of _ ?arr] exI [of _ ?items]) (simp add: ok(1))
  moreover have "saveDevInfoToConfigFile L d file = Some (Some (js_text L (js_put L ''deviceInfos'' ?arr config)))"
    using c(1,3,4) u(1) by (simp add: saveDevInfoToConfigFile_def Let_def)
  ultimately show ?thesis by blast
qed

lemma read_entry_of:
  assumes "json_ok L ob" "entry_of L ob (devid, key, ty, conn) j"
  shows "read_entry e L j = Some ((stack_devInfo e)\<lparr>di_devId := devid, di_key := key, di_devType := ty, deviceConnectionType := conn\<rparr>)"
proof -
  note ok = json_okD [OF assms(1)]
  have "- (2 ^ 31) \<le> sint ty" "sint ty < 2 ^ 31" "uint conn < 2 ^ 31"
    using sint_range_size [of ty] uint_lt2p [of conn] by (simp_all add: word_size)
  then have "js_int L (js_new_int L (sint ty)) = sint ty" "js_int L (js_new_int L (uint conn)) = uint conn"
    using ok(11) [of "sint ty"] ok(11) [of "uint conn"] uint_ge_0 [of conn] by (simp_all add: order_trans [OF _ uint_ge_0])
  then show ?thesis
    using assms(2) ok(9)
    by (simp add: entry_of_def read_entry_def js_memory_def js_number_def load_bytes_def shared_consts)
qed

definition loaded :: "sys \<Rightarrow> kept \<Rightarrow> devInfo" where
  "loaded e = (\<lambda>(devid, key, ty, conn).
     (stack_devInfo e)\<lparr>di_devId := devid, di_key := key, di_devType := ty, deviceConnectionType := conn\<rparr>)"

lemma load_entries_of:
  assumes "json_ok L ob" "list_all2 (entry_of L ob) ks js" "\<not> sys_full e"
  shows "load_entries e L js devs = Some (devs @ map (loaded e) ks)"
  using assms(2)
proof (induction ks js arbitrary: devs rule: list_all2_induct)
  case (Cons k ks j js)
  then show ?case
    using read_entry_of [OF assms(1), of _ _ _ _ j e] assms(3) by (cases k) (simp add: sl_push_def loaded_def)
qed simp

lemma load_holds:
  assumes "json_ok L ob" "config_holds L ob file ks" "\<not> sys_full e"
  shows "load_device_file e L file devs = Some (devs @ map (loaded e) ks)"
  using assms(2) load_entries_of [OF assms(1) _ assms(3)] unfolding config_holds_def load_device_file_def by auto

section \<open>Properties\<close>

fun save_all :: "'j json_lib \<Rightarrow> devInfo list \<Rightarrow> byte list option \<Rightarrow> byte list option option" where
  "save_all L [] file = Some file"
| "save_all L (d # ds) file = do { file \<leftarrow> saveDevInfoToConfigFile L d file; save_all L ds file }"

lemma save_all_holds:
  assumes "json_ok L ob" "config_holds L ob cfg ks" "\<forall>d\<in>set ds. length (di_devId d) = 16 \<and> length (di_key d) = 16"
    "distinct (map fst ks @ map di_devId ds)"
  shows "\<exists>cfg'. save_all L ds cfg = Some cfg' \<and> config_holds L ob cfg' (ks @ map kept_of ds)"
  using assms(2-4)
proof (induction ds arbitrary: cfg ks)
  case (Cons d ds)
  have new: "save_kept d ks = ks @ [kept_of d]"
  proof -
    have "map (resave d) ks = ks" using Cons.prems(3) by (intro map_idI) (force simp: resave_def)
    then show ?thesis using Cons.prems(3) by (simp add: save_kept_def)
  qed
  obtain file1 where f: "saveDevInfoToConfigFile L d cfg = Some file1" "config_holds L ob file1 (ks @ [kept_of d])"
    using save_holds [OF assms(1) Cons.prems(1), of d] Cons.prems(2) new by auto
  from Cons.IH [OF f(2)] Cons.prems(2,3) f(1) show ?case by (auto simp: kept_of_def)
qed auto

text \<open>
  C11. Devices survive a restart: the server saves the devices it registered, each once, to a file
  that holds others; what it loads from that file at its next start is exactly the devices of the
  file and the saved ones, in order, with their ids, keys and types.
\<close>

theorem devices_survive_restart:
  assumes "json_ok L ob" "config_holds L ob file ks" "\<forall>d\<in>set ds. length (di_devId d) = 16 \<and> length (di_key d) = 16"
    "distinct (map fst ks @ map di_devId ds)" "\<not> sys_full e"
  shows "\<exists>file' devs. save_all L ds file = Some file' \<and> load_device_file e L file' [] = Some devs
    \<and> map kept_of devs = ks @ map kept_of ds"
proof -
  obtain file' where f: "save_all L ds file = Some file'" "config_holds L ob file' (ks @ map kept_of ds)"
    using save_all_holds [OF assms(1-4)] by blast
  have "kept_of (loaded e k) = k" for k by (cases k) (simp add: kept_of_def loaded_def)
  then show ?thesis using f load_holds [OF assms(1) f(2) assms(5), of "[]"] by (simp add: comp_def)
qed

definition demo_file :: "byte list option" where
  "demo_file = Some (js_text demo_json (JObject [(''deviceInfos'', JArray [])]))"

definition demo_lock :: devInfo where
  "demo_lock = demo_dev\<lparr>di_devType := 2\<rparr>"

lemma demo_lock: "length (di_devId demo_lock) = 16" "length (di_key demo_lock) = 16" "di_devType demo_lock = 2" "\<not> sys_full demo_sys"
  by (simp_all add: demo_lock_def demo_dev_def demo_id_def demo_key_def) (simp add: demo_sys_def)

lemma demo_file_holds: "config_holds demo_json json_is_object demo_file []"
  unfolding config_holds_def demo_file_def
  using json_okD(1) [OF demo_json_ok] by (simp add: demo_json_def)

theorem devices_survive_restart_witness:
  "\<exists>file' devs. save_all demo_json [demo_lock] demo_file = Some file' \<and> load_device_file demo_sys demo_json file' [] = Some devs
    \<and> map kept_of devs = [kept_of demo_lock]"
  using devices_survive_restart [OF demo_json_ok demo_file_holds, of "[demo_lock]" demo_sys] demo_lock
  by simp

text \<open>
  A device that registers again keeps its id and gets its new key, but from the next start on
  the server takes its connection type for its device type: the entry's type is overwritten with
  the connection type, which itself is never updated.
\<close>

lemma saved_again_loses_type:
  assumes "json_ok L ob" "config_holds L ob file [kept_of d]" "di_devId d' = di_devId d"
    "length (di_devId d) = 16" "length (di_key d') = 16" "\<not> sys_full e"
  shows "\<exists>file' x. saveDevInfoToConfigFile L d' file = Some file' \<and> load_device_file e L file' [] = Some [x]
    \<and> di_devId x = di_devId d \<and> di_key x = di_key d' \<and> di_devType x = ucast (deviceConnectionType d')
    \<and> deviceConnectionType x = deviceConnectionType d"
proof -
  obtain file' where f: "saveDevInfoToConfigFile L d' file = Some file'" "config_holds L ob file' (save_kept d' [kept_of d])"
    using save_holds [OF assms(1,2), of d'] assms(3-5) by auto
  have "save_kept d' [kept_of d] = [(di_devId d, di_key d', ucast (deviceConnectionType d'), deviceConnectionType d)]"
    using assms(3) by (simp add: save_kept_def resave_def kept_of_def)
  then show ?thesis using f load_holds [OF assms(1) f(2) assms(6), of "[]"] by (simp add: loaded_def)
qed

text \<open>
  Whatever devices a server has, from its second start on it knows a device whose id and key
  are constants of the program: \<open>main\<close> saves it to the file of known devices at every start, and
  its key replaces that of a device registered under this id.
\<close>

lemma test_device_known:
  assumes "json_ok L ob" "config_holds L ob file ks" "\<not> sys_full e"
  shows "\<exists>devs file' devs' file''. start_server e L file = Some (devs, file') \<and> start_server e L file' = Some (devs', file'')
    \<and> (\<exists>d\<in>set devs'. di_devId d = literal ''TestTestTestTest'')
    \<and> (\<forall>d\<in>set devs'. di_devId d = literal ''TestTestTestTest'' \<longrightarrow> di_key d = literal ''TestTestTestKey2'')"
proof -
  let ?t = "test_device e"
  have t: "length (di_devId ?t) = 16" "length (di_key ?t) = 16" by (simp_all add: test_device_def literal_def)
  obtain file' where f: "saveDevInfoToConfigFile L ?t file = Some file'" "config_holds L ob file' (save_kept ?t ks)"
    using save_holds [OF assms(1,2) t] by blast
  obtain file'' where g: "saveDevInfoToConfigFile L ?t file' = Some file''"
    using save_holds [OF assms(1) f(2) t] by blast
  let ?devs' = "map (loaded e) (save_kept ?t ks)"
  have re: "fst (resave ?t k) = fst k" "fst k = di_devId ?t \<Longrightarrow> fst (snd (resave ?t k)) = di_key ?t" for k
    by (cases k; simp add: resave_def)+
  have ids: "di_devId (loaded e k) = fst k" "di_key (loaded e k) = fst (snd k)" for k by (cases k; simp add: loaded_def)+
  have kept: "set (save_kept ?t ks) = resave ?t ` set ks \<union> (if di_devId ?t \<in> fst ` set ks then {} else {kept_of ?t})"
    by (simp add: save_kept_def)
  have "\<exists>k\<in>set (save_kept ?t ks). fst k = di_devId ?t"
  proof (cases "di_devId ?t \<in> fst ` set ks")
    case True
    then obtain k where "k \<in> set ks" "fst k = di_devId ?t" by auto
    then show ?thesis using re(1) [of k] unfolding kept by (intro bexI [of _ "resave ?t k"]) auto
  next
    case False
    then show ?thesis unfolding kept by (simp add: kept_of_def)
  qed
  then have "\<exists>d\<in>set ?devs'. di_devId d = di_devId ?t" by (auto simp: ids)
  moreover have "fst (snd k) = di_key ?t" if "k \<in> set (save_kept ?t ks)" "fst k = di_devId ?t" for k
    using that re unfolding kept by (auto simp: kept_of_def split: if_split_asm)
  then have "\<forall>d\<in>set ?devs'. di_devId d = di_devId ?t \<longrightarrow> di_key d = di_key ?t" by (auto simp: ids)
  moreover have "start_server e L file = Some (map (loaded e) ks, file')" "start_server e L file' = Some (?devs', file'')"
    using f g load_holds [OF assms(1,2,3), of "[]"] load_holds [OF assms(1) f(2) assms(3), of "[]"] by (simp_all add: start_server_def)
  ultimately show ?thesis by (auto simp: test_device_def)
qed

end
