(* ===== verification/RemoteLink.thy ===== *)
theory RemoteLink
  imports Json Server
begin

text \<open>
  The link of the server to the remote server, \<open>mainserver/mainServer/webSocketThread.c\<close>: the
  turns of its thread and its callback, one case per reason. The web socket library and the JSON
  library are not part of the repository: what the first asks and delivers are the steps, the
  second is a parameter. The commands that arrive go to the server's queue, the report is made of
  its devices.
\<close>

section \<open>State\<close>

definition WEBSOCKET_BUFFER_LENGTH :: nat where "WEBSOCKET_BUFFER_LENGTH = 15000"

text \<open>The constructor for no action is \<open>None\<close> in the source.\<close>

datatype remoteActionRequest = NoRequest | GetDeviceData

record localSettingsStruct =
  username :: "byte list"
  propertyId :: "byte list"
  propertyKey :: "byte list"

text \<open>
  \<open>connectionAuthenticated\<close> is 0 (not), 1 (yes) or 2 (asked). A web socket is there or not;
  \<open>writable_asked\<close> is the library's note of \<open>lws_callback_on_writable\<close>.
\<close>

record remote_link =
  web_socket :: bool
  connectionAuthenticated :: int
  currentSeqNum :: int
  actionRequest :: remoteActionRequest
  writable_asked :: bool
  link_sent :: "byte list list"

text \<open>The JSON library, the padding after a send buffer, the settings and an unset local request.\<close>

record 'j link_env =
  le_json :: "'j json_lib"
  le_post :: nat
  le_settings :: localSettingsStruct
  le_request :: commandRequest_t

datatype lws_callback_reasons =
    CLIENT_ESTABLISHED
  | CLIENT_RECEIVE "byte list" "byte list"
  | CLIENT_WRITEABLE
  | CLOSED
  | CLIENT_CLOSED
  | CLIENT_CONNECTION_ERROR
  | EVENT_WAIT_CANCELLED
  | OTHER_REASON

definition link_starts :: remote_link where
  "link_starts = \<lparr>web_socket = False, connectionAuthenticated = 0, currentSeqNum = 0, actionRequest = GetDeviceData,
     writable_asked = False, link_sent = []\<rparr>"

text \<open>The settings that \<open>initServer\<close> writes into zeroed fields.\<close>

definition initial_settings :: localSettingsStruct where
  "initial_settings =
     \<lparr>username = literal ''test@gmail.com'' @ replicate 16 0, propertyId = literal ''6238ca120382660655217a84'',
      propertyKey = literal ''propKey1'' @ replicate 4 0\<rparr>"

section \<open>Messages from the remote server\<close>

text \<open>The copy of a member's string, in a block of its length.\<close>

definition member_bytes :: "sys \<Rightarrow> 'j json_lib \<Rightarrow> 'j \<Rightarrow> string \<Rightarrow> (byte list \<times> u32) option" where
  "member_bytes e L v key =
     (let m = js_get L v key; n = of_nat (js_length L m) in
      if n = 0 then Some ([], 0)
      else do {
        b \<leftarrow> js_memory L m;
        block \<leftarrow> malloc (sys_alloc e) (unat n);
        bs \<leftarrow> load_bytes b 0 (unat n);
        block \<leftarrow> store_bytes block 0 bs;
        Some (block, n)
      })"

definition member_u32 :: "'j json_lib \<Rightarrow> 'j \<Rightarrow> string \<Rightarrow> u32" where
  "member_u32 L v key = of_int (js_number L (js_get L v key))"

definition read_command :: "sys \<Rightarrow> 'j json_lib \<Rightarrow> 'j \<Rightarrow> commandRequestCommand_t option" where
  "read_command e L v = do {
     (args, argsLen_builtin) \<leftarrow> member_bytes e L v ''args'';
     (add, addLen_builtin) \<leftarrow> member_bytes e L v ''addData'';
     Some \<lparr>opCode = member_u32 L v ''opcode'', isReservedOpCode = ucast (member_u32 L v ''isReservedOpcode''),
       argsPtr = Some args, argsLen = argsLen_builtin, addPtr = Some add, addLen = ucast addLen_builtin,
       gSettings = member_u32 L v ''gSettings''\<rparr>
   }"

text \<open>The id of the device is 16 bytes from where its string is.\<close>

definition device_command ::
    "sys \<Rightarrow> 'j link_env \<Rightarrow> 'j \<Rightarrow> server \<Rightarrow> server option" where
  "device_command e le v s = do {
     cmd \<leftarrow> read_command e (le_json le) v;
     m \<leftarrow> js_memory (le_json le) (js_get (le_json le) v ''devid'');
     devid \<leftarrow> load_bytes m 0 DEVIDLEN;
     q \<leftarrow> addToCommandQueue (sys_full e) (le_request le) devid cmd (commandsQueue s);
     Some (s\<lparr>commandsQueue := q\<rparr>)
   }"

text \<open>A missing action is tested, an action that is null is not.\<close>

definition act_upon :: "sys \<Rightarrow> 'j link_env \<Rightarrow> 'j \<Rightarrow> remote_link \<Rightarrow> server \<Rightarrow> (remote_link \<times> server) option" where
  "act_upon e le v k s =
     (if \<not> js_has (le_json le) v ''action'' then Some (k, s)
      else do {
        m \<leftarrow> js_memory (le_json le) (js_get (le_json le) v ''action'');
        actionString \<leftarrow> c_string m;
        if actionString = literal ''deviceCommand'' then map_option (Pair k) (device_command e le v s)
        else if actionString = literal ''getDeviceInfo''
        then Some (k\<lparr>actionRequest := GetDeviceData, writable_asked := True\<rparr>, s)
        else Some (k, s)
      })"

text \<open>
  The message is copied to a block without a NUL behind it: the parser reads on over \<open>behind\<close>,
  what follows the block. Its state goes from 64 to 32 bits.
\<close>

definition take_status :: "'j json_lib \<Rightarrow> 'j \<Rightarrow> remote_link \<Rightarrow> remote_link" where
  "take_status L v k =
     (let statusValue = (of_int (js_number64 L (js_get L v ''state'')) :: u32)
      in if statusValue = 0 then k\<lparr>connectionAuthenticated := 0\<rparr>
         else if statusValue = 1 then k\<lparr>connectionAuthenticated := 1\<rparr> else k)"

definition receive_message ::
    "sys \<Rightarrow> 'j link_env \<Rightarrow> byte list \<Rightarrow> byte list \<Rightarrow> remote_link \<Rightarrow> server \<Rightarrow> (remote_link \<times> server) option" where
  "receive_message e le msg behind k s = do {
     buf \<leftarrow> malloc (sys_alloc e) (length msg);
     buf \<leftarrow> store_bytes buf 0 msg;
     case js_parse (le_json le) (buf @ behind) of None \<Rightarrow> Some (k, s)
     | Some v \<Rightarrow>
         if \<not> js_has (le_json le) v ''state'' then Some (k, s)
         else
           let k = take_status (le_json le) v k
           in if connectionAuthenticated k = 0 then Some (k, s) else act_upon e le v k s
   }"

section \<open>Messages to the remote server\<close>

text \<open>
  The copy behind the padding of the buffer on the stack, and the count of messages. Nothing compares
  the length with the buffer: a longer message is written over the stack, which has no defined behaviour.
\<close>

definition lws_write :: "'j link_env \<Rightarrow> byte list \<Rightarrow> remote_link \<Rightarrow> remote_link option" where
  "lws_write le message k =
     (if length message > WEBSOCKET_BUFFER_LENGTH + le_post le \<or> currentSeqNum k = 2 ^ 31 - 1 then None
      else Some (k\<lparr>currentSeqNum := currentSeqNum k + 1, link_sent := link_sent k @ [message]\<rparr>))"

definition auth_message :: "'j link_env \<Rightarrow> int \<Rightarrow> byte list option" where
  "auth_message le seq = do {
     let L = le_json le;
     user \<leftarrow> c_string (username (le_settings le));
     property \<leftarrow> load_bytes (propertyId (le_settings le)) 0 24;
     key \<leftarrow> c_string (propertyKey (le_settings le));
     Some (js_text L (js_object L
       [(''username'', js_new_string L user), (''propertyId'', js_new_string L property),
        (''propertyKey'', js_new_string L key), (''action'', js_new_string L (literal ''authenticate'')),
        (''seqNum'', js_new_int L seq)]))
   }"

text \<open>
  The passcode as text: every character is made from the first digit, and the loop writes one
  character more than the length into an array of 12.
\<close>

definition passcode_text :: "devInfo \<Rightarrow> byte list option" where
  "passcode_text d =
     (if unat (passwordLen d) + 1 > 12 then None
      else map_option (\<lambda>p. replicate (unat (passwordLen d)) (p ! 0 + 48)) (load_bytes (di_password d) 0 1))"

text \<open>
  One device of the report. The time since the last message goes through an unsigned integer,
  to which a negative \<open>double\<close> has no defined conversion, and an \<open>int\<close>; below \<open>2 ^ 53\<close> seconds the
  difference is exact.
\<close>

definition report_entry :: "'j json_lib \<Rightarrow> int \<Rightarrow> devInfo \<Rightarrow> 'j option" where
  "report_entry L now d = do {
     seconds \<leftarrow> (if now < lastConnectionTime d then None else Some (to_int32 (now - lastConnectionTime d)));
     lock \<leftarrow> (if di_devType d = 2 then do {
         code \<leftarrow> passcode_text d;
         Some [(''lockStatus'', js_new_int L (uint (lockState d))), (''doorStatus'', js_new_int L (uint (doorState d))),
               (''password'', js_new_string L code)]
       } else Some []);
     Some (js_object L
       ([(''devId'', js_new_string L (di_devId d)), (''devtype'', js_new_int L (uint (di_devType d))),
         (''connectionType'', js_new_int L (uint (deviceConnectionType d))),
         (''lastConnectionTime'', js_new_int L (to_size_t seconds))]
        @ lock @ (if di_devType d = 5 then [(''noiseLevel'', js_new_int L (uint (noiseLevel d)))] else [])))
   }"

fun report_entries :: "'j json_lib \<Rightarrow> int \<Rightarrow> devInfo list \<Rightarrow> 'j list option" where
  "report_entries L now [] = Some []"
| "report_entries L now (d # ds) = do {
     x \<leftarrow> report_entry L now d;
     xs \<leftarrow> report_entries L now ds;
     Some (x # xs)
   }"

definition report_message :: "'j link_env \<Rightarrow> server \<Rightarrow> byte list option" where
  "report_message le s = do {
     let L = le_json le;
     xs \<leftarrow> report_entries L (sv_time s) (devInfos s);
     if sl_length (devInfos s) > 0
     then Some (js_text L (js_object L
       [(''action'', js_new_string L (literal ''GetDeviceInfoResponse'')), (''seqNum'', js_new_int L 1),
        (''status'', js_new_string L (literal ''devicesFound'')), (''deviceData'', js_array L xs)]))
     else Some (literal ''{state:'' @ [39] @ literal ''noDevicesConnected'' @ [39] @ literal ''}'')
   }"

definition link_closed :: "remote_link \<Rightarrow> remote_link" where
  "link_closed k = k\<lparr>web_socket := False, connectionAuthenticated := 0\<rparr>"

text \<open>Where nothing was written the case runs on into the one of a closed connection.\<close>

definition write_message :: "'j link_env \<Rightarrow> server \<Rightarrow> remote_link \<Rightarrow> remote_link option" where
  "write_message le s k =
     (if connectionAuthenticated k = 0 then do {
        message \<leftarrow> auth_message le (currentSeqNum k);
        let k = k\<lparr>connectionAuthenticated := 2\<rparr>;
        if length message > 0 then lws_write le message k else Some (link_closed k)
      }
      else case actionRequest k of
        NoRequest \<Rightarrow> Some (link_closed k)
      | GetDeviceData \<Rightarrow> do { message \<leftarrow> report_message le s; lws_write le message k })"

section \<open>The callback and the thread\<close>

fun webSocketCallback ::
    "sys \<Rightarrow> 'j link_env \<Rightarrow> lws_callback_reasons \<Rightarrow> remote_link \<times> server \<Rightarrow> (remote_link \<times> server) option" where
  "webSocketCallback e le (CLIENT_RECEIVE msg behind) (k, s) = receive_message e le msg behind k s"
| "webSocketCallback e le CLIENT_WRITEABLE (k, s) = map_option (\<lambda>k. (k, s)) (write_message le s k)"
| "webSocketCallback e le CLOSED (k, s) = Some (link_closed k, s)"
| "webSocketCallback e le CLIENT_CLOSED (k, s) = Some (link_closed k, s)"
| "webSocketCallback e le CLIENT_CONNECTION_ERROR (k, s) = Some (link_closed k, s)"
| "webSocketCallback e le _ (k, s) = Some (k, s)"

text \<open>
  A turn of the thread before it serves the library: without a web socket it connects, at most
  once a second, and it asks to write while it is not authenticated.
\<close>

definition link_turn :: "bool \<Rightarrow> bool \<Rightarrow> remote_link \<Rightarrow> remote_link" where
  "link_turn new_second connects k =
     (let k = (if \<not> web_socket k \<and> new_second then k\<lparr>web_socket := connects\<rparr> else k)
      in if connectionAuthenticated k = 0 \<and> web_socket k then k\<lparr>writable_asked := True\<rparr> else k)"

text \<open>
  The steps of the link: a turn of its thread, a callback, or anything the other threads do to the
  server. The library calls back on a web socket that exists, for writing only when it was asked.
\<close>

inductive link_step :: "sys \<Rightarrow> 'j link_env \<Rightarrow> remote_link \<times> server \<Rightarrow> remote_link \<times> server \<Rightarrow> bool" for e le where
  turn: "link_step e le (k, s) (link_turn new_second connects k, s)"
| writes: "web_socket k \<Longrightarrow> writable_asked k \<Longrightarrow>
    webSocketCallback e le CLIENT_WRITEABLE (k\<lparr>writable_asked := False\<rparr>, s) = Some ks \<Longrightarrow> link_step e le (k, s) ks"
| calls: "web_socket k \<Longrightarrow> r \<noteq> CLIENT_WRITEABLE \<Longrightarrow> webSocketCallback e le r (k, s) = Some ks \<Longrightarrow> link_step e le (k, s) ks"
| others: "link_step e le (k, s) (k, s')"

inductive link_reachable :: "sys \<Rightarrow> 'j link_env \<Rightarrow> remote_link \<times> server \<Rightarrow> bool" for e le where
  link_start: "link_reachable e le (link_starts, s)"
| link_next: "link_reachable e le ks \<Longrightarrow> link_step e le ks ks' \<Longrightarrow> link_reachable e le ks'"

section \<open>The state of the link\<close>

text \<open>
  The link counts as asked only after a message, and as anything but unauthenticated only over a
  web socket; every message has its number.
\<close>

definition link_ok :: "remote_link \<Rightarrow> bool" where
  "link_ok k \<longleftrightarrow> connectionAuthenticated k \<in> {0, 1, 2} \<and> (connectionAuthenticated k \<noteq> 0 \<longrightarrow> web_socket k)
     \<and> (connectionAuthenticated k = 2 \<longrightarrow> link_sent k \<noteq> []) \<and> actionRequest k = GetDeviceData
     \<and> currentSeqNum k = int (length (link_sent k))"

lemma lws_write_ok:
  assumes "lws_write le m k = Some k'" "link_ok (k\<lparr>connectionAuthenticated := 0\<rparr>)" "connectionAuthenticated k \<in> {0, 1, 2}" "web_socket k"
  shows "link_ok k'"
  using assms by (auto simp: lws_write_def link_ok_def split: if_splits)

lemma link_ok_unauth: "link_ok k \<Longrightarrow> link_ok (k\<lparr>connectionAuthenticated := 0\<rparr>)"
  by (simp add: link_ok_def)

lemma write_message_ok:
  assumes "write_message le s k = Some k'" "link_ok k" "web_socket k"
  shows "link_ok k'"
proof (cases "connectionAuthenticated k = 0")
  case True
  let ?k = "k\<lparr>connectionAuthenticated := 2\<rparr>"
  have w: "write_message le s k = Option.bind (auth_message le (currentSeqNum k))
      (\<lambda>m. if length m > 0 then lws_write le m ?k else Some (link_closed ?k))"
    unfolding write_message_def Let_def using True by (simp only: if_True simp_thms)
  then obtain m where "(if length m > 0 then lws_write le m ?k else Some (link_closed ?k)) = Some k'"
    using assms(1) unfolding w bind_eq_Some_conv by blast
  then have m: "length m > 0 \<Longrightarrow> lws_write le m ?k = Some k'" "\<not> length m > 0 \<Longrightarrow> k' = link_closed ?k"
    by (simp_all only: if_True if_False option.inject)
  show ?thesis
  proof (cases "length m > 0")
    case True
    show ?thesis by (rule lws_write_ok [OF m(1) [OF True]]) (use link_ok_unauth [OF assms(2)] assms(3) in simp_all)
  next
    case False
    show ?thesis using assms(2) m(2) [OF False] by (simp add: link_closed_def link_ok_def)
  qed
next
  case False
  then obtain m where m: "lws_write le m k = Some k'"
    using assms(1,2) by (auto simp: write_message_def link_ok_def bind_eq_Some_conv)
  show ?thesis by (rule lws_write_ok [OF m link_ok_unauth [OF assms(2)]]) (use assms(2,3) in \<open>auto simp: link_ok_def\<close>)
qed

lemma act_upon_link:
  assumes "act_upon e le v k s = Some (k', s')"
  shows "k' = k \<or> k' = k\<lparr>actionRequest := GetDeviceData, writable_asked := True\<rparr>"
  using assms by (auto simp: act_upon_def bind_eq_Some_conv split: if_splits)

lemma act_upon_ok: "act_upon e le v k s = Some (k', s') \<Longrightarrow> link_ok k \<Longrightarrow> link_ok k'"
  by (drule act_upon_link) (auto simp: link_ok_def)

lemma take_status_ok: "link_ok k \<Longrightarrow> web_socket k \<Longrightarrow> link_ok (take_status L v k)"
  by (simp add: take_status_def link_ok_def Let_def)

lemma receive_message_ok:
  assumes "receive_message e le msg behind k s = Some (k', s')" "link_ok k" "web_socket k"
  shows "link_ok k'"
proof -
  obtain buf where "(case js_parse (le_json le) (buf @ behind) of None \<Rightarrow> Some (k, s)
     | Some v \<Rightarrow> if \<not> js_has (le_json le) v ''state'' then Some (k, s)
         else let k = take_status (le_json le) v k
           in if connectionAuthenticated k = 0 then Some (k, s) else act_upon e le v k s) = Some (k', s')"
    using assms(1) unfolding receive_message_def by (auto simp: bind_eq_Some_conv)
  then show ?thesis
    using assms(2) act_upon_ok [OF _ take_status_ok [OF assms(2,3)]]
    by (cases "js_parse (le_json le) (buf @ behind)")
      (fastforce simp: Let_def intro: take_status_ok [OF assms(2,3)] split: if_split_asm)+
qed

lemma link_step_ok:
  assumes "link_step e le ks ks'" "link_ok (fst ks)"
  shows "link_ok (fst ks')"
  using assms
proof cases
  case (turn k s new_second connects)
  then show ?thesis using assms(2) by (auto simp: link_turn_def link_ok_def Let_def)
next
  case (writes k s)
  then show ?thesis
    using assms(2) write_message_ok [of le s "k\<lparr>writable_asked := False\<rparr>"] by (auto simp: link_ok_def)
next
  case (calls k r s)
  then show ?thesis
    using assms(2) receive_message_ok [of e le _ _ k s]
    by (cases r; cases ks') (auto simp: link_closed_def link_ok_def)
next
  case (others k s s')
  then show ?thesis using assms(2) by simp
qed

lemma reachable_link_ok: "link_reachable e le ks \<Longrightarrow> link_ok (fst ks)"
  by (induction rule: link_reachable.induct) (auto simp: link_starts_def link_ok_def dest: link_step_ok)

section \<open>Messages that parse\<close>

lemma js_object_get:
  assumes "json_ok L ob"
  shows "ob (js_object L kvs)" "js_get L (js_object L kvs) k = map_of (rev kvs) k"
proof -
  have "ob (js_object L kvs) \<and> (\<forall>k. js_get L (js_object L kvs) k = map_of (rev kvs) k)"
  proof (induction kvs rule: rev_induct)
    case Nil
    then show ?case using json_okD(2,3) [OF assms] by (simp add: js_object_def)
  next
    case (snoc x kvs)
    then show ?case using json_okD(4,5) [OF assms] by (cases x) (auto simp: js_object_def)
  qed
  then show "ob (js_object L kvs)" "js_get L (js_object L kvs) k = map_of (rev kvs) k" by simp_all
qed

lemma js_array_items:
  assumes "json_ok L ob"
  shows "js_items L (js_array L xs) = Some xs"
proof (induction xs rule: rev_induct)
  case Nil
  then show ?case using json_okD(6) [OF assms] by (simp add: js_array_def)
next
  case (snoc x xs)
  then show ?case using json_okD(7) [OF assms] by (simp add: js_array_def)
qed

definition memory_there :: "sys \<Rightarrow> bool" where
  "memory_there e \<longleftrightarrow> (\<forall>n. malloc (sys_alloc e) n \<noteq> None)"

lemma store_whole: "length bs = length m \<Longrightarrow> store_bytes m 0 bs = Some bs"
  by (simp add: store_bytes_def)

lemma receive_parsed:
  assumes "memory_there e" "js_parse (le_json le) (msg @ behind) = Some v"
  shows "receive_message e le msg behind k s =
    (if \<not> js_has (le_json le) v ''state'' then Some (k, s)
     else if connectionAuthenticated (take_status (le_json le) v k) = 0 then Some (take_status (le_json le) v k, s)
     else act_upon e le v (take_status (le_json le) v k) s)"
proof -
  obtain m where m: "malloc (sys_alloc e) (length msg) = Some m" using assms(1) by (auto simp: memory_there_def)
  have "store_bytes m 0 msg = Some msg" using store_whole malloc_length [OF m] by simp
  then show ?thesis using m assms(2) by (simp add: receive_message_def Let_def)
qed

lemma literal_no_nul:
  "0 \<notin> set (literal ''deviceCommand'')" "0 \<notin> set (literal ''getDeviceInfo'')" "literal ''getDeviceInfo'' \<noteq> literal ''deviceCommand''"
  by (simp_all add: literal_def)

text \<open>What the remote server sends for a command, and the command that is made of it.\<close>

record remote_request =
  rq_devid :: "byte list"
  rq_opcode :: int
  rq_reserved :: int
  rq_args :: "byte list"
  rq_addData :: "byte list"
  rq_gSettings :: int

definition command_message :: "'j json_lib \<Rightarrow> int \<Rightarrow> remote_request \<Rightarrow> 'j" where
  "command_message L n rq = js_object L
     [(''state'', js_new_int L n), (''action'', js_new_string L (literal ''deviceCommand'')),
      (''devid'', js_new_string L (rq_devid rq)), (''opcode'', js_new_int L (rq_opcode rq)),
      (''isReservedOpcode'', js_new_int L (rq_reserved rq)), (''args'', js_new_string L (rq_args rq)),
      (''addData'', js_new_string L (rq_addData rq)), (''gSettings'', js_new_int L (rq_gSettings rq))]"

definition requested :: "remote_request \<Rightarrow> commandRequestCommand_t" where
  "requested rq = \<lparr>opCode = of_int (rq_opcode rq), isReservedOpCode = of_int (rq_reserved rq), argsPtr = Some (rq_args rq),
     argsLen = of_nat (length (rq_args rq)), addPtr = Some (rq_addData rq), addLen = of_nat (length (rq_addData rq)),
     gSettings = of_int (rq_gSettings rq)\<rparr>"

definition request_ok :: "remote_request \<Rightarrow> bool" where
  "request_ok rq \<longleftrightarrow> length (rq_devid rq) = 16 \<and> (\<forall>n\<in>{rq_opcode rq, rq_reserved rq, rq_gSettings rq}. - (2 ^ 31) \<le> n \<and> n < 2 ^ 31)
     \<and> length (rq_args rq) < 2 ^ 32 \<and> length (rq_addData rq) < 2 ^ 32"

lemma member_bytes_new:
  assumes "json_ok L ob" "js_get L v key = Some (js_new_string L bs)" "length bs < 2 ^ 32" "memory_there e"
  shows "member_bytes e L v key = Some (bs, of_nat (length bs))"
proof -
  obtain m where m: "malloc (sys_alloc e) (length bs) = Some m" using assms(4) by (auto simp: memory_there_def)
  have "store_bytes m 0 bs = Some bs" using store_whole malloc_length [OF m] by simp
  moreover have "bs = [] \<longleftrightarrow> (of_nat (length bs) :: u32) = 0" using assms(3) u32_of_nat_eq [of "length bs" 0] by simp
  ultimately show ?thesis
    using json_okD(9,10) [OF assms(1)] assms(2,3) m
    by (auto simp: member_bytes_def js_length_def js_memory_def load_bytes_def Let_def)
qed

lemma narrow_of_int: "ucast (of_int n :: u32) = (of_int n :: byte)"
  by (rule bit_word_eqI) (simp add: bit_simps)

lemma read_command_message:
  assumes "json_ok L ob" "request_ok rq" "memory_there e"
  shows "read_command e L (command_message L n rq) = Some (requested rq)"
proof -
  note get = js_object_get(2) [OF assms(1)]
  let ?v = "command_message L n rq"
  have b: "member_bytes e L ?v ''args'' = Some (rq_args rq, of_nat (length (rq_args rq)))"
    "member_bytes e L ?v ''addData'' = Some (rq_addData rq, of_nat (length (rq_addData rq)))"
    using assms(2) by (auto intro!: member_bytes_new [OF assms(1) _ _ assms(3)] simp: command_message_def get request_ok_def)
  have u: "member_u32 L ?v ''opcode'' = of_int (rq_opcode rq)" "member_u32 L ?v ''isReservedOpcode'' = of_int (rq_reserved rq)"
    "member_u32 L ?v ''gSettings'' = of_int (rq_gSettings rq)"
    using assms(2) json_okD(11) [OF assms(1)] by (simp_all add: member_u32_def js_number_def command_message_def get request_ok_def)
  have "ucast (of_nat (length (rq_addData rq)) :: u32) = (of_nat (length (rq_addData rq)) :: byte)"
    using narrow_of_int [of "int (length (rq_addData rq))"] by simp
  then show ?thesis by (simp add: read_command_def b u requested_def narrow_of_int)
qed

lemma add_first_request:
  assumes "\<forall>r\<in>set q. cr_devId r \<noteq> devid"
  shows "addToCommandQueue False r0 devid cmd q = Some (q @ [\<lparr>cr_devId = devid, commandRequestsCommands = [cmd]\<rparr>])"
proof -
  have "map (add_to_request False devid cmd) q = q"
    using assms by (intro map_idI) (auto simp: add_to_request_def)
  then show ?thesis
    using sl_get_append [of q r0 "[]"] by (cases r0) (simp add: addToCommandQueue_def sl_push_def sl_length_def)
qed

lemma device_command_queued:
  assumes "json_ok (le_json le) ob" "request_ok rq" "memory_there e" "\<not> sys_full e"
    "\<forall>r\<in>set (commandsQueue s). cr_devId r \<noteq> rq_devid rq"
  shows "device_command e le (command_message (le_json le) n rq) s
    = Some (s\<lparr>commandsQueue := commandsQueue s @ [\<lparr>cr_devId = rq_devid rq, commandRequestsCommands = [requested rq]\<rparr>]\<rparr>)"
proof -
  have m: "js_memory (le_json le) (js_get (le_json le) (command_message (le_json le) n rq) ''devid'') = Some (rq_devid rq @ [0])"
    using json_okD(9) [OF assms(1)] by (simp add: js_memory_def command_message_def js_object_get(2) [OF assms(1)])
  have "load_bytes (rq_devid rq @ [0]) 0 DEVIDLEN = Some (rq_devid rq)"
    using assms(2) by (simp add: load_bytes_def request_ok_def shared_consts)
  then show ?thesis
    using assms(4) read_command_message [OF assms(1-3)] add_first_request [OF assms(5)]
    by (simp add: device_command_def m)
qed

text \<open>A command is taken when the link is not unauthenticated after its state was read.\<close>

lemma command_taken:
  assumes "json_ok (le_json le) ob" "request_ok rq" "memory_there e" "\<not> sys_full e"
    "\<forall>r\<in>set (commandsQueue s). cr_devId r \<noteq> rq_devid rq"
    "js_parse (le_json le) (msg @ behind) = Some (command_message (le_json le) n rq)" "- (2 ^ 31) \<le> n" "n < 2 ^ 31"
    "n = 1 \<or> n \<noteq> 0 \<and> connectionAuthenticated k \<noteq> 0"
  shows "webSocketCallback e le (CLIENT_RECEIVE msg behind) (k, s)
    = Some (if n = 1 then k\<lparr>connectionAuthenticated := 1\<rparr> else k,
        s\<lparr>commandsQueue := commandsQueue s @ [\<lparr>cr_devId = rq_devid rq, commandRequestsCommands = [requested rq]\<rparr>]\<rparr>)"
proof -
  let ?L = "le_json le" and ?v = "command_message (le_json le) n rq"
  have get: "js_get ?L ?v ''state'' = Some (js_new_int ?L n)" "js_get ?L ?v ''action'' = Some (js_new_string ?L (literal ''deviceCommand''))"
    by (simp_all add: command_message_def js_object_get(2) [OF assms(1)])
  have has: "js_has ?L ?v ''state''" "js_has ?L ?v ''action''" using json_okD(15) [OF assms(1)] get by blast+
  have sint: "sint (of_int n :: u32) = n" using assms(7,8) by (simp add: signed_of_int signed_take_bit_int_eq_self)
  have "sint (0 :: u32) = 0" "sint (1 :: u32) = 1" by simp_all
  then have n: "(of_int n :: u32) = 0 \<longleftrightarrow> n = 0" "(of_int n :: u32) = 1 \<longleftrightarrow> n = 1"
    using sint by auto
  have status: "take_status ?L ?v k = (if n = 1 then k\<lparr>connectionAuthenticated := 1\<rparr> else k)"
    using assms(9) json_okD(14) [OF assms(1,7,8)] by (auto simp: take_status_def get js_number64_def n Let_def)
  have act: "act_upon e le ?v k' s = map_option (Pair k') (device_command e le ?v s)" for k'
    using json_okD(9) [OF assms(1)] c_string_text [OF literal_no_nul(1), of "[]"]
    by (simp add: act_upon_def has get js_memory_def)
  show ?thesis
    using receive_parsed [OF assms(3,6), of k s] has status act device_command_queued [OF assms(1-5)] assms(9) by auto
qed

section \<open>The report\<close>

text \<open>What the report says of a device: of a lock's passcode the first digit, repeated.\<close>

definition reported :: "'j json_lib \<Rightarrow> devInfo \<Rightarrow> 'j \<Rightarrow> bool" where
  "reported L d x \<longleftrightarrow> js_get L x ''devId'' = Some (js_new_string L (di_devId d))
     \<and> js_get L x ''devtype'' = Some (js_new_int L (uint (di_devType d)))
     \<and> js_get L x ''connectionType'' = Some (js_new_int L (uint (deviceConnectionType d)))
     \<and> (di_devType d = 2 \<longrightarrow> js_get L x ''lockStatus'' = Some (js_new_int L (uint (lockState d)))
          \<and> js_get L x ''doorStatus'' = Some (js_new_int L (uint (doorState d)))
          \<and> js_get L x ''password'' = Some (js_new_string L (replicate (unat (passwordLen d)) (di_password d ! 0 + 48))))
     \<and> (di_devType d = 5 \<longrightarrow> js_get L x ''noiseLevel'' = Some (js_new_int L (uint (noiseLevel d))))"

definition reportable :: "int \<Rightarrow> devInfo \<Rightarrow> bool" where
  "reportable now d \<longleftrightarrow> lastConnectionTime d \<le> now \<and> (di_devType d = 2 \<longrightarrow> unat (passwordLen d) < 12 \<and> di_password d \<noteq> [])"

lemma passcode_text_repeats:
  assumes "unat (passwordLen d) < 12" "di_password d \<noteq> []"
  shows "passcode_text d = Some (replicate (unat (passwordLen d)) (di_password d ! 0 + 48))"
  using assms by (cases "di_password d") (auto simp: passcode_text_def load_bytes_def)

lemma report_entry_reported:
  assumes "json_ok L ob" "reportable now d"
  shows "\<exists>x. report_entry L now d = Some x \<and> reported L d x"
  using assms(2) passcode_text_repeats [of d]
  by (auto simp: report_entry_def reported_def reportable_def js_object_get(2) [OF assms(1)])

lemma report_entries_reported:
  assumes "json_ok L ob" "\<forall>d\<in>set ds. reportable now d"
  shows "\<exists>xs. report_entries L now ds = Some xs \<and> list_all2 (reported L) ds xs"
  using assms(2)
proof (induction ds)
  case (Cons d ds)
  then show ?case using report_entry_reported [OF assms(1), of now d] by fastforce
qed simp

lemma report_entries_undefined: "d \<in> set ds \<Longrightarrow> report_entry L now d = None \<Longrightarrow> report_entries L now ds = None"
  by (induction ds) (auto split: Option.bind_split)

section \<open>Properties\<close>

definition demo_link_env :: "json link_env" where
  "demo_link_env = \<lparr>le_json = demo_json, le_post = 0, le_settings = initial_settings,
     le_request = \<lparr>cr_devId = [], commandRequestsCommands = []\<rparr>\<rparr>"

definition demo_link :: remote_link where
  "demo_link = link_starts\<lparr>web_socket := True, connectionAuthenticated := 1\<rparr>"

text \<open>The message that confirms the link and asks for a report.\<close>

definition demo_state :: json where
  "demo_state = js_object demo_json [(''state'', js_new_int demo_json 1)]"

lemma demo_memory: "memory_there demo_sys" "\<not> sys_full demo_sys"
  by (simp_all add: memory_there_def demo_sys_def)

lemma demo_env_json: "json_ok (le_json demo_link_env) json_is_object"
  by (simp add: demo_link_env_def demo_json_ok)

lemma demo_parses: "js_parse (le_json demo_link_env) (js_text demo_json j @ []) = Some j"
  using json_okD(1) [OF demo_json_ok] by (simp add: demo_link_env_def)

text \<open>A command for the lock of the small server, which has none waiting.\<close>

definition demo_request :: remote_request where
  "demo_request = \<lparr>rq_devid = demo_id, rq_opcode = 129, rq_reserved = 0, rq_args = [1, 2, 3, 4], rq_addData = [9], rq_gSettings = 0\<rparr>"

definition demo_command_text :: "byte list" where
  "demo_command_text = js_text demo_json (command_message demo_json 1 demo_request)"

definition demo_idle_server :: server where
  "demo_idle_server = (demo_server [demo_env 52, demo_env 89])\<lparr>commandsQueue := []\<rparr>"

lemma demo_request_ok: "request_ok demo_request"
  by (simp add: request_ok_def demo_request_def demo_id_def)

lemma demo_command_parses:
  "js_parse (le_json demo_link_env) (demo_command_text @ []) = Some (command_message (le_json demo_link_env) 1 demo_request)"
  using demo_parses by (simp add: demo_command_text_def demo_link_env_def)

lemma demo_request_ready: "command_ready 255 (demo_env 89) (requested demo_request)"
  by (auto simp: command_ready_def requested_def demo_request_def command_elems_def carries_def can_send_def packet_ok_def
      nonempty_arg_def opt_net_def packet_size_def pck_len_def demo_env_def)

text \<open>A confirmed link that has sent the report of a server without devices.\<close>

lemma demo_link_reachable:
  "\<exists>k. link_reachable demo_sys demo_link_env (k, s\<lparr>devInfos := []\<rparr>) \<and> connectionAuthenticated k = 1 \<and> length (link_sent k) = 1"
proof -
  let ?s = "s\<lparr>devInfos := []\<rparr>" and ?k0 = "link_turn True True link_starts"
  have k0: "?k0 = link_starts\<lparr>web_socket := True, writable_asked := True\<rparr>" by (simp add: link_turn_def link_starts_def)
  let ?k1 = "?k0\<lparr>connectionAuthenticated := 1\<rparr>"
  have get: "js_get demo_json demo_state ''state'' = Some (js_new_int demo_json 1)" "\<not> js_has demo_json demo_state ''action''"
    by (simp_all add: demo_state_def demo_json_def js_object_def)
  have n: "js_int64 demo_json (js_new_int demo_json 1) = 1" using json_okD(14) [OF demo_json_ok, of 1] by simp
  have "take_status demo_json demo_state ?k0 = ?k1" by (simp add: take_status_def get n js_number64_def)
  moreover have "js_has demo_json demo_state ''state''" using json_okD(15) [OF demo_json_ok get(1)] .
  ultimately have r: "webSocketCallback demo_sys demo_link_env (CLIENT_RECEIVE (js_text demo_json demo_state) []) (?k0, ?s) = Some (?k1, ?s)"
    using receive_parsed [OF demo_memory(1) demo_parses, of demo_state ?k0 ?s] get(2)
    by (simp add: demo_link_env_def act_upon_def)
  have m: "\<exists>m. report_message demo_link_env ?s = Some m \<and> length m = 28"
    by (simp add: report_message_def sl_length_def literal_def)
  then obtain m where m: "report_message demo_link_env ?s = Some m" "length m = 28" by blast
  let ?k2 = "?k1\<lparr>writable_asked := False, currentSeqNum := 1, link_sent := [m]\<rparr>"
  have w: "webSocketCallback demo_sys demo_link_env CLIENT_WRITEABLE (?k1\<lparr>writable_asked := False\<rparr>, ?s) = Some (?k2, ?s)"
    using m by (simp add: write_message_def lws_write_def link_turn_def link_starts_def WEBSOCKET_BUFFER_LENGTH_def)
  have "link_reachable demo_sys demo_link_env (?k0, ?s)" using link_next [OF link_start turn] .
  then have "link_reachable demo_sys demo_link_env (?k1, ?s)"
    by (rule link_next) (rule calls [OF _ _ r], simp_all add: k0)
  then have "link_reachable demo_sys demo_link_env (?k2, ?s)"
    by (rule link_next) (rule writes [OF _ _ w], simp_all add: k0)
  then show ?thesis by (intro exI [of _ ?k2]) simp
qed

text \<open>
  C10. In every state the link can reach, whatever the remote server sends and whatever the other
  threads do to the server: it counts as authenticated or asked only over an open web socket, as
  asked only after it sent something, the report is always the pending request, so writing never
  runs on into the case of a closed connection, and the sequence number is the number of messages
  sent. So a link that counts as anything but unauthenticated answers every permission to write with the
  report, and a report longer than the buffer on the stack has no defined behaviour: no length is
  checked.
\<close>

theorem link_invariant:
  assumes "link_reachable e le (k, s)"
  shows "connectionAuthenticated k \<in> {0, 1, 2} \<and> (connectionAuthenticated k \<noteq> 0 \<longrightarrow> web_socket k)
    \<and> (connectionAuthenticated k = 2 \<longrightarrow> link_sent k \<noteq> []) \<and> actionRequest k = GetDeviceData
    \<and> currentSeqNum k = int (length (link_sent k))
    \<and> (connectionAuthenticated k \<noteq> 0 \<longrightarrow> (\<forall>m. report_message le s = Some m
        \<longrightarrow> WEBSOCKET_BUFFER_LENGTH + le_post le < length m \<longrightarrow> webSocketCallback e le CLIENT_WRITEABLE (k, s) = None))"
  using reachable_link_ok [OF assms] by (auto simp: link_ok_def write_message_def lws_write_def)

theorem link_invariant_witness:
  "\<exists>k. link_reachable demo_sys demo_link_env (k, demo_server []\<lparr>devInfos := []\<rparr>) \<and> web_socket k \<and> currentSeqNum k = 1"
proof -
  obtain k where k: "link_reachable demo_sys demo_link_env (k, demo_server []\<lparr>devInfos := []\<rparr>)" "connectionAuthenticated k = 1"
    "length (link_sent k) = 1"
    using demo_link_reachable by blast
  from link_invariant [OF k(1)] k show ?thesis by auto
qed

text \<open>
  C6. A command from the remote server reaches its device: a message that says the state is 1 makes
  the link authenticated and queues its command, and the next time the device opens a session the
  server answers with its nonce and then exactly that command, with its opcode, arguments and
  additional data, sealed with the device's key under the first number of the session; the queue is
  then as it was before the message.
\<close>

theorem remote_command_reaches_node:
  assumes link: "json_ok (le_json le) ob" "request_ok rq" "memory_there e" "\<not> sys_full e"
      "\<forall>r\<in>set (commandsQueue s). cr_devId r \<noteq> rq_devid rq"
      "js_parse (le_json le) (msg @ behind) = Some (command_message (le_json le) 1 rq)"
    and key: "gcm_keyed k" "same_key k (key_ctx e (di_key d))" and ok: "packet_ok p a None iv"
    and seal: "sealed k iv a nonce gs p t w" and a: "a = node_add lim (rq_devid rq) ids junk" "node_add_ok (rq_devid rq) ids"
    and c: "connectionType c = 0" "sessionId c = 0" "localNonce c = 0" "remoteNonce c = 0"
    and d: "from_device s (rq_devid rq) d" and room: "8 + length (opt_net p) \<le> length (decryptedMsgBuffer s)"
    and msg: "MAXMSGLEN \<le> length (w @ junk2)"
    and env: "w_envs (sv_wire s) = env1 # env2 # rest" "can_send env1 None None (sendProcessingBuffer s)"
      "command_ready (length (sendProcessingBuffer s)) env2 (requested rq)"
    and sess: "nonce + htonl (fresh_nonce env1) \<noteq> 0"
  shows "\<exists>s1 c1 c' m s2 x ps. webSocketCallback e le (CLIENT_RECEIVE msg behind) (lk, s) = Some (lk\<lparr>connectionAuthenticated := 1\<rparr>, s1)
    \<and> processMsg e c (w @ junk2) s1 = Some (None, c', m, s2)
    \<and> c1 = c\<lparr>remoteNonce := nonce, localNonce := htonl (fresh_nonce env1), sessionId := nonce + htonl (fresh_nonce env1)\<rparr>
    \<and> sessionId c' = sessionId c1 \<and> w_sent (sv_wire s2) = w_sent (sv_wire s) @ (ci_socket c, x) # ps
    \<and> sent_in_session (key_ctx e (di_key d)) c1 [requested rq] ps \<and> commandsQueue s2 = commandsQueue s"
proof -
  let ?r = "\<lparr>cr_devId = rq_devid rq, commandRequestsCommands = [requested rq]\<rparr>"
  let ?s1 = "s\<lparr>commandsQueue := commandsQueue s @ [?r]\<rparr>"
  have taken: "webSocketCallback e le (CLIENT_RECEIVE msg behind) (lk, s) = Some (lk\<lparr>connectionAuthenticated := 1\<rparr>, ?s1)"
    using command_taken [OF link, of lk] by simp
  have queue: "drain (rq_devid rq) (commandsQueue s @ [?r]) = ([requested rq], commandsQueue s)"
    using link(5) by (simp add: drain_append)
  then have drain: "drain (rq_devid rq) (commandsQueue ?s1) = ([requested rq], commandsQueue s)" by simp
  have s1: "from_device ?s1 (rq_devid rq) d" "8 + length (opt_net p) \<le> length (decryptedMsgBuffer ?s1)"
    "w_envs (sv_wire ?s1) = env1 # [env2] @ rest" "can_send env1 None None (sendProcessingBuffer ?s1)"
    "list_all2 (command_ready (length (sendProcessingBuffer ?s1))) [env2] (fst (drain (rq_devid rq) (commandsQueue ?s1)))"
    using d room env by (simp_all add: from_device_def queue)
  have mem: "malloc (sys_alloc e) 255 \<noteq> None" using link(3) by (simp add: memory_there_def)
  show ?thesis
    using first_message_flushes [OF key ok seal a c s1(1,2) msg s1(3-5) mem sess] taken
    unfolding drain fst_conv snd_conv by (elim exE conjE) (intro exI conjI, assumption+, simp_all)
qed

theorem remote_command_reaches_node_witness:
  "\<exists>w s1 c' m s2 x y. webSocketCallback demo_sys demo_link_env (CLIENT_RECEIVE demo_command_text []) (demo_link, demo_idle_server)
      = Some (demo_link, s1)
    \<and> processMsg demo_sys (fresh_conn 4 0) (w @ replicate 255 0) s1 = Some (None, c', m, s2)
    \<and> w_sent (sv_wire s2) = [(4, x), (4, y)] \<and> sessionId c' = 3 + htonl 77"
proof -
  have ok: "packet_ok None demo_node_add None (replicate 12 5)"
    by (simp add: packet_ok_def nonempty_arg_def demo_node_add_ok)
      (simp add: demo_node_add_def node_add_def)
  obtain t w where seal: "sealed demo_ctx (replicate 12 5) demo_node_add 3 0 None t w"
    using demo_sealed [OF ok] by metis
  have same: "same_key demo_ctx (key_ctx demo_sys (di_key demo_dev))" by (simp add: demo_key_ctx gcm.same_refl)
  have conn: "connectionType (fresh_conn 4 0) = 0" "sessionId (fresh_conn 4 0) = 0" "localNonce (fresh_conn 4 0) = 0"
    "remoteNonce (fresh_conn 4 0) = 0" "ci_socket (fresh_conn 4 0) = 4" by (simp_all add: fresh_conn_def)
  have sv: "decryptedMsgBuffer demo_idle_server = replicate 255 0" "sendProcessingBuffer demo_idle_server = replicate 255 0"
    "w_envs (sv_wire demo_idle_server) = demo_env 52 # demo_env 89 # []" "w_sent (sv_wire demo_idle_server) = []"
    "commandsQueue demo_idle_server = []"
    by (simp_all add: demo_idle_server_def demo_server_def)
  have id: "rq_devid demo_request = demo_id" by (simp add: demo_request_def)
  have q: "\<forall>r\<in>set (commandsQueue demo_idle_server). cr_devId r \<noteq> rq_devid demo_request" by (simp add: sv)
  have dev: "from_device demo_idle_server (rq_devid demo_request) demo_dev"
    using demo_from_device(1) [of "[]"] by (simp add: id from_device_def demo_idle_server_def demo_server_def)
  have add: "demo_node_add = node_add 255 (rq_devid demo_request) [] []" "node_add_ok (rq_devid demo_request) []"
    by (simp_all add: id demo_node_add_def demo_node_add_ok)
  have hyps: "8 + length (opt_net None) \<le> length (decryptedMsgBuffer demo_idle_server)" "MAXMSGLEN \<le> length (w @ replicate 255 0)"
    "can_send (demo_env 52) None None (sendProcessingBuffer demo_idle_server)"
    "command_ready (length (sendProcessingBuffer demo_idle_server)) (demo_env 89) (requested demo_request)"
    by (simp_all add: sv demo_can_send MAXMSGLEN_def demo_request_ready)
  have n: "fresh_nonce (demo_env 52) = 77" by (simp add: fresh_nonce_def demo_env_def)
  have lk: "demo_link\<lparr>connectionAuthenticated := 1\<rparr> = demo_link" by (simp add: demo_link_def)
  from remote_command_reaches_node [OF demo_env_json demo_request_ok demo_memory q demo_command_parses
      demo_keyed same ok seal add conn(1-4) dev hyps(1,2) sv(3) hyps(3,4) demo_session, of demo_link]
  show ?thesis
    unfolding lk by (elim exE conjE) (auto simp: sv conn n; blast)
qed

text \<open>
  C34. A lock whose passcode has the full twelve digits, which it may have and its beacon may report,
  stops the report: the text of the passcode is made in an array of twelve with one character more
  than digits, so once the beacon has arrived the next report of an authenticated link has no
  defined behaviour.
\<close>

theorem twelve_digits_stop_report:
  assumes "dev_index (devInfos s) devid = Some i" "di_devType (devInfos s ! i) = 2" "length code = 12"
    and "connectionAuthenticated k \<noteq> 0" "actionRequest k = GetDeviceData"
  shows "\<exists>devs. nodeToServerBeacon (sv_time s) (devInfos s) devid 2 ([ls, ds, 12] @ code) = Some devs
    \<and> webSocketCallback e le CLIENT_WRITEABLE (k, s\<lparr>devInfos := devs\<rparr>) = None"
proof -
  let ?d = "(updateDeviceStatus (sv_time s) \<circ> lock_beacon ls ds 12 code) (devInfos s ! i)"
  let ?devs = "(devInfos s)[i := ?d]"
  have i: "i < length (devInfos s)" using dev_index_Some [OF assms(1)] by simp
  have beacon: "nodeToServerBeacon (sv_time s) (devInfos s) devid 2 ([ls, ds, 12] @ code) = Some ?devs"
    using assms(1,3) by (simp add: nodeToServerBeacon_def load_bytes_def update_device_eq)
  have none: "report_entry (le_json le) (sv_time s) ?d = None"
    using assms(2) by (simp add: report_entry_def updateDeviceStatus_def lock_beacon_def passcode_text_def)
  have "?d \<in> set ?devs" using i by (simp add: set_update_memI)
  from report_entries_undefined [OF this none] have "report_message le (s\<lparr>devInfos := ?devs\<rparr>) = None"
    unfolding report_message_def Let_def by simp
  then show ?thesis using beacon assms(4,5) by (simp add: write_message_def)
qed

theorem twelve_digits_stop_report_witness:
  "\<exists>devs. nodeToServerBeacon 1000 [demo_dev\<lparr>di_devType := 2\<rparr>] demo_id 2 ([1, 0, 12] @ replicate 12 7) = Some devs
    \<and> webSocketCallback demo_sys demo_link_env CLIENT_WRITEABLE (demo_link, demo_idle_server\<lparr>devInfos := devs\<rparr>) = None"
proof -
  let ?s = "demo_idle_server\<lparr>devInfos := [demo_dev\<lparr>di_devType := 2\<rparr>]\<rparr>"
  have h: "dev_index (devInfos ?s) demo_id = Some 0" "di_devType (devInfos ?s ! 0) = 2" "length (replicate 12 7 :: byte list) = 12"
    "connectionAuthenticated demo_link \<noteq> 0" "actionRequest demo_link = GetDeviceData"
    by (simp_all add: dev_index_def demo_dev_def demo_link_def link_starts_def)
  have t: "sv_time ?s = 1000" by (simp add: demo_idle_server_def demo_server_def)
  from twelve_digits_stop_report [OF h, of 1 0 demo_sys demo_link_env] show ?thesis unfolding t by simp
qed

text \<open>
  C33. The report names every device in the order of the list, with its types and, for a lock, its
  states; of the passcode it has the length and the first digit only, repeated.
\<close>

theorem report_lists_devices:
  assumes "json_ok (le_json le) ob" "devInfos s \<noteq> []" "\<forall>d\<in>set (devInfos s). reportable (sv_time s) d"
    and "connectionAuthenticated k \<noteq> 0" "actionRequest k = GetDeviceData" "currentSeqNum k < 2 ^ 31 - 1"
    and "\<forall>m. report_message le s = Some m \<longrightarrow> length m \<le> WEBSOCKET_BUFFER_LENGTH + le_post le"
  shows "\<exists>m v arr xs. webSocketCallback e le CLIENT_WRITEABLE (k, s)
      = Some (k\<lparr>currentSeqNum := currentSeqNum k + 1, link_sent := link_sent k @ [m]\<rparr>, s)
    \<and> js_parse (le_json le) m = Some v \<and> js_get (le_json le) v ''deviceData'' = Some arr \<and> js_items (le_json le) arr = Some xs
    \<and> list_all2 (reported (le_json le)) (devInfos s) xs"
proof -
  let ?L = "le_json le"
  obtain xs where xs: "report_entries ?L (sv_time s) (devInfos s) = Some xs" "list_all2 (reported ?L) (devInfos s) xs"
    using report_entries_reported [OF assms(1,3)] by blast
  let ?v = "js_object ?L
       [(''action'', js_new_string ?L (literal ''GetDeviceInfoResponse'')), (''seqNum'', js_new_int ?L 1),
        (''status'', js_new_string ?L (literal ''devicesFound'')), (''deviceData'', js_array ?L xs)]"
  have m: "report_message le s = Some (js_text ?L ?v)"
    using xs(1) assms(2) by (simp add: report_message_def sl_length_def Let_def)
  then have w: "webSocketCallback e le CLIENT_WRITEABLE (k, s)
      = Some (k\<lparr>currentSeqNum := currentSeqNum k + 1, link_sent := link_sent k @ [js_text ?L ?v]\<rparr>, s)"
    using assms(4-7) by (simp add: write_message_def lws_write_def)
  have p: "js_parse ?L (js_text ?L ?v) = Some ?v" "js_get ?L ?v ''deviceData'' = Some (js_array ?L xs)"
    "js_items ?L (js_array ?L xs) = Some xs"
    using json_okD(1) [OF assms(1)] js_array_items [OF assms(1)] by (simp_all add: js_object_get(2) [OF assms(1)])
  show ?thesis using w p xs(2) by blast
qed

theorem report_lists_devices_witness:
  "\<exists>(le :: json link_env) m v arr x. webSocketCallback demo_sys le CLIENT_WRITEABLE (demo_link, demo_idle_server)
      = Some (demo_link\<lparr>currentSeqNum := 1, link_sent := [m]\<rparr>, demo_idle_server)
    \<and> js_parse demo_json m = Some v \<and> js_get demo_json v ''deviceData'' = Some arr \<and> js_items demo_json arr = Some [x]
    \<and> js_get demo_json x ''devId'' = Some (js_new_string demo_json demo_id)"
proof -
  let ?size = "case report_message demo_link_env demo_idle_server of None \<Rightarrow> 0 | Some m \<Rightarrow> length m"
  let ?le = "demo_link_env\<lparr>le_post := ?size\<rparr>"
  have post: "report_message ?le demo_idle_server = report_message demo_link_env demo_idle_server" by (simp add: report_message_def)
  have json: "json_ok (le_json ?le) json_is_object" "le_json ?le = demo_json" by (simp_all add: demo_link_env_def demo_json_ok)
  have devs: "devInfos demo_idle_server = [demo_dev]" "sv_time demo_idle_server = 1000"
    by (simp_all add: demo_idle_server_def demo_server_def)
  have "reportable 1000 demo_dev"
    by (simp add: reportable_def demo_dev_def stack_devInfo_def demo_sys_def)
  then have h: "devInfos demo_idle_server \<noteq> []" "\<forall>d\<in>set (devInfos demo_idle_server). reportable (sv_time demo_idle_server) d"
    "connectionAuthenticated demo_link \<noteq> 0" "actionRequest demo_link = GetDeviceData" "currentSeqNum demo_link < 2 ^ 31 - 1"
    by (simp_all add: devs demo_link_def link_starts_def)
  have "\<forall>m. report_message ?le demo_idle_server = Some m \<longrightarrow> length m \<le> WEBSOCKET_BUFFER_LENGTH + le_post ?le"
    unfolding post by (cases "report_message demo_link_env demo_idle_server") simp_all
  from report_lists_devices [OF json(1) h this, of demo_sys]
  obtain m v arr xs where r: "webSocketCallback demo_sys ?le CLIENT_WRITEABLE (demo_link, demo_idle_server)
      = Some (demo_link\<lparr>currentSeqNum := 1, link_sent := [m]\<rparr>, demo_idle_server)"
    "js_parse demo_json m = Some v" "js_get demo_json v ''deviceData'' = Some arr" "js_items demo_json arr = Some xs"
    "list_all2 (reported demo_json) [demo_dev] xs"
    unfolding json(2) devs by (auto simp: demo_link_def link_starts_def)
  obtain x where x: "xs = [x]" "reported demo_json demo_dev x" using r(5) by (auto simp: list_all2_Cons1)
  have "js_get demo_json x ''devId'' = Some (js_new_string demo_json demo_id)"
    using x(2) by (simp add: reported_def demo_dev_def)
  then show ?thesis using r(1-4) x(1) by blast
qed

text \<open>
  C35. The link takes commands before it is confirmed: while the answer to its credentials is still
  out, a message whose state is any number but 0 and 1 leaves the link unconfirmed, and its command
  is queued all the same.
\<close>

theorem unconfirmed_link_takes_commands:
  assumes "json_ok (le_json le) ob" "request_ok rq" "memory_there e" "\<not> sys_full e"
    "\<forall>r\<in>set (commandsQueue s). cr_devId r \<noteq> rq_devid rq"
    "js_parse (le_json le) (msg @ behind) = Some (command_message (le_json le) n rq)"
    "- (2 ^ 31) \<le> n" "n < 2 ^ 31" "n \<notin> {0, 1}" "connectionAuthenticated k = 2"
  shows "webSocketCallback e le (CLIENT_RECEIVE msg behind) (k, s)
    = Some (k, s\<lparr>commandsQueue := commandsQueue s @ [\<lparr>cr_devId = rq_devid rq, commandRequestsCommands = [requested rq]\<rparr>]\<rparr>)"
  using command_taken [OF assms(1-8), of k] assms(9,10) by simp

theorem unconfirmed_link_takes_commands_witness:
  "webSocketCallback demo_sys demo_link_env (CLIENT_RECEIVE (js_text demo_json (command_message demo_json 7 demo_request)) [])
      (demo_link\<lparr>connectionAuthenticated := 2\<rparr>, demo_idle_server)
    = Some (demo_link\<lparr>connectionAuthenticated := 2\<rparr>,
        demo_idle_server\<lparr>commandsQueue := [\<lparr>cr_devId = demo_id, commandRequestsCommands = [requested demo_request]\<rparr>]\<rparr>)"
proof -
  have q: "commandsQueue demo_idle_server = []" "rq_devid demo_request = demo_id"
    by (simp_all add: demo_idle_server_def demo_server_def demo_request_def)
  have p: "js_parse (le_json demo_link_env) (js_text demo_json (command_message demo_json 7 demo_request) @ [])
      = Some (command_message (le_json demo_link_env) 7 demo_request)"
    using demo_parses by (simp add: demo_link_env_def)
  show ?thesis
    using unconfirmed_link_takes_commands [OF demo_env_json demo_request_ok demo_memory _ p,
        of demo_idle_server "demo_link\<lparr>connectionAuthenticated := 2\<rparr>"]
    by (simp add: q)
qed

end
