(* ===== verification/Boot.thy ===== *)
theory Boot
  imports Node SmartLock
begin

text \<open>
  The start of a node on the ESP32: \<open>initClient\<close>, \<open>loadInNodeSettings\<close>,
  \<open>initializeDeviceFactorySettings\<close>, \<open>saveEncryptionKeyToMemory\<close> and \<open>rand_string\<close> of
  \<open>nodeClient/mainClient/client.c\<close>, over the non-volatile storage of the system, whose documented
  behaviour is that of a map: a value that was set is read back until everything is erased.
\<close>

section \<open>Storage\<close>

datatype nvs_value = NvsU8 byte | NvsBlob "byte list"

type_synonym nvs = "string \<rightharpoonup> nvs_value"

datatype esp_err_t = ESP_OK | ESP_ERR_NVS_NOT_FOUND | ESP_ERR_OTHER

text \<open>Whether the storage opens and can be erased, and the keys whose values can be written.\<close>

record nvs_answers =
  nvs_opens :: bool
  nvs_erases :: bool
  nvs_writes :: "string \<Rightarrow> bool"

definition nvs_set :: "nvs_answers \<Rightarrow> string \<Rightarrow> nvs_value \<Rightarrow> nvs \<Rightarrow> nvs" where
  "nvs_set ans key v st = (if nvs_writes ans key then st(key \<mapsto> v) else st)"

definition nvs_get_u8 :: "nvs \<Rightarrow> string \<Rightarrow> byte \<Rightarrow> esp_err_t \<times> byte" where
  "nvs_get_u8 st key old =
     (case st key of None \<Rightarrow> (ESP_ERR_NVS_NOT_FOUND, old) | Some (NvsU8 b) \<Rightarrow> (ESP_OK, b) | Some (NvsBlob _) \<Rightarrow> (ESP_ERR_OTHER, old))"

text \<open>A blob that is longer than the memory is refused.\<close>

definition nvs_get_blob :: "nvs \<Rightarrow> string \<Rightarrow> byte list \<Rightarrow> esp_err_t \<times> byte list" where
  "nvs_get_blob st key old =
     (case st key of None \<Rightarrow> (ESP_ERR_NVS_NOT_FOUND, old)
      | Some (NvsBlob bs) \<Rightarrow> if length bs \<le> length old then (ESP_OK, bs @ drop (length bs) old) else (ESP_ERR_OTHER, old)
      | Some (NvsU8 _) \<Rightarrow> (ESP_ERR_OTHER, old))"

section \<open>The node\<close>

text \<open>
  The globals of the node that the start sets, the lock, the storage, and the numbers the random
  generator is going to return. The lock's own fields for the storage are a view of two of its keys.
\<close>

record esp_node =
  en_devId :: "byte list"
  en_devType :: u32
  en_key :: "byte list"
  en_ctx :: gcm_context
  en_established :: bool
  en_lock :: smart_lock
  en_nvs :: nvs
  en_random :: "nat \<Rightarrow> u32"

definition storage :: "esp_node \<Rightarrow> nvs" where
  "storage n = (en_nvs n)(''passcode'' := map_option NvsBlob (nvs_passcode (en_lock n)),
     ''passcodeLen'' := map_option NvsU8 (nvs_passcodeLen (en_lock n)))"

text \<open>\<open>esp_random() % 37\<close> picks each letter.\<close>

definition charset :: "byte list" where
  "charset = map of_char ''abcdefghijklmnopqrstuvwxyzABCDEFGHIJK''"

definition rand_string :: "(nat \<Rightarrow> u32) \<Rightarrow> nat \<Rightarrow> byte list" where
  "rand_string r n = map (\<lambda>i. charset ! unat (r i mod 37)) [0..<n]"

definition initializeDeviceFactorySettings :: "nvs_answers \<Rightarrow> esp_node \<Rightarrow> esp_node" where
  "initializeDeviceFactorySettings ans n =
     (let n = (if nvs_erases ans
               then n\<lparr>en_nvs := Map.empty, en_lock := (en_lock n)\<lparr>nvs_passcode := None, nvs_passcodeLen := None\<rparr>\<rparr> else n);
          devidStr = rand_string (en_random n) DEVIDLEN;
          n = n\<lparr>en_random := (\<lambda>i. en_random n (i + DEVIDLEN)), en_nvs := nvs_set ans ''devid'' (NvsBlob devidStr) (en_nvs n)\<rparr>;
          n = n\<lparr>en_devId := devidStr\<rparr>
      in n\<lparr>en_nvs := nvs_set ans ''isInitialized'' (NvsU8 1) (en_nvs n)\<rparr>)"

definition saveEncryptionKeyToMemory :: "nvs_answers \<Rightarrow> byte list \<Rightarrow> esp_node \<Rightarrow> int \<times> esp_node" where
  "saveEncryptionKeyToMemory ans key n =
     (if \<not> nvs_opens ans then (- 1, n) else (1, n\<lparr>en_nvs := nvs_set ans ''encryptionKey'' (NvsBlob (take 16 key)) (en_nvs n)\<rparr>))"

section \<open>Loading\<close>

text \<open>
  The factory settings are always written first; the test that follows finds them, or, where they
  could not be written, writes them again.
\<close>

definition check_initialized :: "nvs_answers \<Rightarrow> esp_node \<Rightarrow> esp_node" where
  "check_initialized ans n =
     (let (err, isInitialized) = nvs_get_u8 (storage n) ''isInitialized'' 100
      in case err of
           ESP_OK \<Rightarrow> if isInitialized = 1 then n else initializeDeviceFactorySettings ans n
         | ESP_ERR_NVS_NOT_FOUND \<Rightarrow> initializeDeviceFactorySettings ans n
         | ESP_ERR_OTHER \<Rightarrow> n)"

definition load_devid :: "sys \<Rightarrow> esp_node \<Rightarrow> esp_node" where
  "load_devid e n =
     (let (err, devidMem) = nvs_get_blob (storage n) ''devid'' (uninit e DEVIDLEN)
      in if err = ESP_OK then n\<lparr>en_devId := devidMem\<rparr> else n)"

definition load_key :: "sys \<Rightarrow> esp_node \<Rightarrow> esp_node" where
  "load_key e n =
     (let (err, key) = nvs_get_blob (storage n) ''encryptionKey'' (en_key n)
      in if err = ESP_OK then n\<lparr>en_key := key, en_ctx := key_ctx e key, en_established := True\<rparr> else n)"

text \<open>
  The part of a smart lock. With a length in storage the passcode is read with the address of that
  one byte as the address of a \<open>size_t\<close>, which has no defined behaviour.
\<close>

definition load_passcode :: "smart_lock \<Rightarrow> nvs \<Rightarrow> smart_lock option" where
  "load_passcode s st =
     (let (err, passcodeLenMem) = nvs_get_u8 st ''passcodeLen'' 0
      in if err = ESP_OK then None else setPasscode (False, False, False) [1, 1, 1, 1] 4 0 s)"

text \<open>A handle that was not opened is not initialised either.\<close>

definition loadInNodeSettings :: "sys \<Rightarrow> nvs_answers \<Rightarrow> esp_node \<Rightarrow> esp_node option" where
  "loadInNodeSettings e ans n =
     (if \<not> nvs_opens ans then None
      else do {
        let n = initializeDeviceFactorySettings ans n;
        let n = check_initialized ans n;
        let n = load_devid e n;
        let n = load_key e n;
        if en_devType n = 2 then map_option (\<lambda>s. n\<lparr>en_lock := s\<rparr>) (load_passcode (en_lock n) (storage n))
        else Some n
      })"

text \<open>
  Power on: the globals have their initial values and the storage what it had, the settings are
  loaded, and a lock is set up. The device type is a constant of the build.
\<close>

definition lock_globals :: "nvs \<Rightarrow> smart_lock" where
  "lock_globals st =
     \<lparr>passwordBuffer = replicate MAX_PASSWORD_LEN 0, passwordCurrentLength = 0, isDebounceTimerRunning = 0,
      currentPasscode = [1, 2, 4, 4] @ replicate (MAX_PASSWORD_LEN - 4) 0, currentPasscodeLen = 4, currentDoorState = 0,
      currentLockState = 0, motorStatus = 0, isOpenSwitchTimerRunning = 0, isClosedSwitchTimerRunning = 0, gpio = (\<lambda>_. 0),
      running = {},
      nvs_passcode = (case st ''passcode'' of Some (NvsBlob bs) \<Rightarrow> Some bs | _ \<Rightarrow> None),
      nvs_passcodeLen = (case st ''passcodeLen'' of Some (NvsU8 b) \<Rightarrow> Some b | _ \<Rightarrow> None)\<rparr>"

definition reset_node :: "u32 \<Rightarrow> (nat \<Rightarrow> u32) \<Rightarrow> nvs \<Rightarrow> esp_node" where
  "reset_node ty r st = \<lparr>en_devId = replicate DEVIDLEN 0, en_devType = ty, en_key = replicate KEYLEN 0,
     en_ctx = mbedtls_gcm_init None, en_established = False, en_lock = lock_globals st, en_nvs = st, en_random = r\<rparr>"

definition boot :: "sys \<Rightarrow> nvs_answers \<Rightarrow> u32 \<Rightarrow> (nat \<Rightarrow> u32) \<Rightarrow> nvs \<Rightarrow> esp_node option" where
  "boot e ans ty r st = do {
     n \<leftarrow> loadInNodeSettings e ans (reset_node ty r st);
     Some (if ty = 2 then n\<lparr>en_lock := initLock (en_lock n)\<rparr> else n)
   }"

lemma power_on_globals: "power_on = initLock (lock_globals Map.empty)"
  by (simp add: power_on_def lock_globals_def)

section \<open>What a start leaves\<close>

lemma length_rand_string [simp]: "length (rand_string r n) = n"
  by (simp add: rand_string_def)

text \<open>With a storage that opens, is erased and written, nothing of it is left.\<close>

definition storage_works :: "nvs_answers \<Rightarrow> bool" where
  "storage_works ans \<longleftrightarrow> nvs_opens ans \<and> nvs_erases ans \<and> nvs_writes ans ''devid'' \<and> nvs_writes ans ''isInitialized''"

definition factory_storage :: "byte list \<Rightarrow> nvs" where
  "factory_storage devid = [''devid'' \<mapsto> NvsBlob devid, ''isInitialized'' \<mapsto> NvsU8 1]"

lemma factory_settings:
  assumes "storage_works ans"
  shows "storage (initializeDeviceFactorySettings ans n) = factory_storage (rand_string (en_random n) DEVIDLEN)"
    "en_devId (initializeDeviceFactorySettings ans n) = rand_string (en_random n) DEVIDLEN"
    "en_devType (initializeDeviceFactorySettings ans n) = en_devType n" "en_key (initializeDeviceFactorySettings ans n) = en_key n"
    "en_ctx (initializeDeviceFactorySettings ans n) = en_ctx n"
    "en_established (initializeDeviceFactorySettings ans n) = en_established n"
    "en_lock (initializeDeviceFactorySettings ans n) = (en_lock n)\<lparr>nvs_passcode := None, nvs_passcodeLen := None\<rparr>"
  using assms
  by (auto simp: initializeDeviceFactorySettings_def storage_works_def storage_def factory_storage_def nvs_set_def Let_def fun_eq_iff)

definition factory_lock :: smart_lock where
  "factory_lock = (initLock (lock_globals Map.empty))\<lparr>currentPasscode := [1, 1, 1, 1] @ replicate (MAX_PASSWORD_LEN - 4) 0\<rparr>"

lemma boot_result:
  assumes "storage_works ans"
  shows "\<exists>n. boot e ans 2 r st = Some n \<and> en_devId n = rand_string r DEVIDLEN \<and> en_established n = False
    \<and> storage n = factory_storage (rand_string r DEVIDLEN) \<and> en_lock n = factory_lock"
proof -
  let ?id = "rand_string r DEVIDLEN" and ?n = "initializeDeviceFactorySettings ans (reset_node 2 r st)"
  note f = factory_settings [OF assms, of "reset_node 2 r st"]
  have st: "storage ?n = factory_storage ?id" using f(1) by (simp add: reset_node_def)
  have c: "check_initialized ans ?n = ?n"
    by (simp add: check_initialized_def st nvs_get_u8_def factory_storage_def)
  have d: "load_devid e ?n = ?n\<lparr>en_devId := ?id\<rparr>"
    by (simp add: load_devid_def st nvs_get_blob_def factory_storage_def)
  let ?m = "?n\<lparr>en_devId := ?id\<rparr>"
  have sm: "storage ?m = factory_storage ?id" using st by (simp add: storage_def)
  have k: "load_key e ?m = ?m"
    unfolding load_key_def sm by (simp add: nvs_get_blob_def factory_storage_def)
  let ?s = "(lock_globals st)\<lparr>nvs_passcode := None, nvs_passcodeLen := None\<rparr>"
  have lock: "en_lock ?m = ?s" using f(7) by (simp add: reset_node_def)
  have code: "load_passcode ?s (factory_storage ?id) = Some (?s\<lparr>currentPasscode := [1, 1, 1, 1] @ replicate (MAX_PASSWORD_LEN - 4) 0\<rparr>)"
    by (simp add: load_passcode_def nvs_get_u8_def factory_storage_def setPasscode_def load_bytes_def store_bytes_def lock_globals_def
        MAX_PASSWORD_LEN_def)
  have l: "loadInNodeSettings e ans (reset_node 2 r st)
      = Some (?m\<lparr>en_lock := ?s\<lparr>currentPasscode := [1, 1, 1, 1] @ replicate (MAX_PASSWORD_LEN - 4) 0\<rparr>\<rparr>)"
    using assms code f(3)
    by (simp add: loadInNodeSettings_def storage_works_def c d k sm lock Let_def) (simp add: reset_node_def)
  have init: "initLock (?s\<lparr>currentPasscode := [1, 1, 1, 1] @ replicate (MAX_PASSWORD_LEN - 4) 0\<rparr>) = factory_lock"
    by (simp add: factory_lock_def lock_globals_def initLock_def initKeypad_def gpio_set_level_def Let_def)
  have nvs: "nvs_passcode factory_lock = None" "nvs_passcodeLen factory_lock = None"
    by (simp_all add: factory_lock_def lock_globals_def initLock_def initKeypad_def gpio_set_level_def Let_def)
  have "storage (?m\<lparr>en_lock := factory_lock\<rparr>) = factory_storage ?id"
    using sm by (simp add: storage_def nvs lock)
  moreover have "en_established ?m = False" using f(6) by (simp add: reset_node_def)
  moreover have "boot e ans 2 r st = Some (?m\<lparr>en_lock := factory_lock\<rparr>)" using l init by (simp add: boot_def)
  ultimately show ?thesis by (intro exI [of _ "?m\<lparr>en_lock := factory_lock\<rparr>"]) simp
qed

lemma factory_lock_ok: "lock_ok factory_lock" "idle_keypad factory_lock" "typed factory_lock = []" "passcode factory_lock = [1, 1, 1, 1]"
  by (simp_all add: factory_lock_def lock_globals_def lock_ok_def codes_ok_def motor_ok_def reports_ok_def initLock_def
      initKeypad_def Let_def pin_ops typed_def passcode_def digits_def MAX_PASSWORD_LEN_def idle_keypad_def)

section \<open>Properties\<close>

text \<open>A key that was saved is loaded, into a key of the same length.\<close>

lemma saved_key_loads:
  assumes "nvs_opens ans" "nvs_writes ans ''encryptionKey''" "length key = 16" "length (en_key n) = 16"
  shows "\<exists>n1. saveEncryptionKeyToMemory ans key n = (1, n1) \<and> en_key (load_key e n1) = key
    \<and> en_ctx (load_key e n1) = key_ctx e key \<and> en_established (load_key e n1)"
  using assms by (simp add: saveEncryptionKeyToMemory_def load_key_def storage_def nvs_set_def nvs_get_blob_def)

text \<open>
  C36. A node forgets its server at every start: whatever the storage holds, a saved key and the
  device's id included, the start erases it, gives the node a new id of random letters and leaves it
  without a key, so that it has to register as a new device.
\<close>

theorem boot_forgets:
  assumes "storage_works ans"
  shows "\<exists>n. boot e ans 2 r st = Some n \<and> en_devId n = rand_string r DEVIDLEN \<and> \<not> en_established n
    \<and> storage n ''encryptionKey'' = None \<and> storage n ''passcode'' = None \<and> storage n ''devid'' = Some (NvsBlob (en_devId n))"
proof -
  obtain n where n: "boot e ans 2 r st = Some n" "en_devId n = rand_string r DEVIDLEN" "en_established n = False"
    "storage n = factory_storage (rand_string r DEVIDLEN)"
    using boot_result [OF assms] by blast
  then show ?thesis by (intro exI [of _ n]) (simp add: factory_storage_def)
qed

definition demo_nvs :: nvs_answers where
  "demo_nvs = \<lparr>nvs_opens = True, nvs_erases = True, nvs_writes = (\<lambda>_. True)\<rparr>"

theorem boot_forgets_witness:
  "\<exists>n. boot demo_sys demo_nvs 2 (\<lambda>_. 3) [''encryptionKey'' \<mapsto> NvsBlob demo_key] = Some n \<and> en_devId n = replicate 16 100
    \<and> storage n ''encryptionKey'' = None"
proof -
  have "storage_works demo_nvs" by (simp add: storage_works_def demo_nvs_def)
  from boot_forgets [OF this, of demo_sys "\<lambda>_. 3" "[''encryptionKey'' \<mapsto> NvsBlob demo_key]"]
  obtain n where n: "boot demo_sys demo_nvs 2 (\<lambda>_. 3) [''encryptionKey'' \<mapsto> NvsBlob demo_key] = Some n"
    "en_devId n = rand_string (\<lambda>_. 3) DEVIDLEN" "storage n ''encryptionKey'' = None" by blast
  have "rand_string (\<lambda>_. 3) DEVIDLEN = replicate 16 100"
    by (simp add: rand_string_def charset_def DEVIDLEN_def map_replicate_const)
  then show ?thesis using n by simp
qed

text \<open>
  C37. A restart opens the lock: whatever passcode the server had set and stored, after the power was
  off and on again the keys 1, 1, 1, 1 and a submit key start the motor.
\<close>

theorem restart_resets_passcode:
  assumes "storage_works ans" "starts DebounceTimer" "col \<in> {2, 3}"
  shows "\<exists>n' s'. boot e ans 2 r (storage n) = Some n'
    \<and> lock_steps (en_lock n') (concat (map (press_digit starts) [1, 1, 1, 1]) @ press starts 4 col) s' \<and> motorStatus s' = 1"
proof -
  obtain n' where n': "boot e ans 2 r (storage n) = Some n'" "en_lock n' = factory_lock"
    using boot_result [OF assms(1), of e r "storage n"] by blast
  have "digits 1 9 [1, 1, 1, 1]" by (simp add: digits_def)
  then show ?thesis
    using press_code [OF factory_lock_ok(1-3), of "[1, 1, 1, 1]" starts col] assms(2,3) n' factory_lock_ok(4) by auto
qed

theorem restart_resets_passcode_witness:
  "\<exists>s1 n' s'. changePasscode (True, True, True) [55, 56, 57] power_on = Some (0, s1) \<and> nvs_passcode s1 = Some [7, 8, 9]
    \<and> boot demo_sys demo_nvs 2 (\<lambda>_. 3) (storage ((reset_node 2 (\<lambda>_. 3) Map.empty)\<lparr>en_lock := s1\<rparr>)) = Some n'
    \<and> lock_steps (en_lock n') (concat (map (press_digit (\<lambda>_. True)) [1, 1, 1, 1]) @ press (\<lambda>_. True) 4 2) s' \<and> motorStatus s' = 1"
proof -
  obtain s1 where s1: "changePasscode (True, True, True) [55, 56, 57] power_on = Some (0, s1)" "nvs_passcode s1 = Some [7, 8, 9]"
    by (simp add: changePasscode_def is_digit_def setPasscode_def load_bytes_def store_bytes_def power_on_def initLock_def initKeypad_def
        gpio_set_level_def Let_def MAX_PASSWORD_LEN_def)
  have "storage_works demo_nvs" by (simp add: storage_works_def demo_nvs_def)
  from restart_resets_passcode [OF this, of "\<lambda>_. True" 2 demo_sys "\<lambda>_. 3" "(reset_node 2 (\<lambda>_. 3) Map.empty)\<lparr>en_lock := s1\<rparr>"]
  show ?thesis using s1 by auto
qed

end
