(* ===== verification/Aes.thy ===== *)
theory Aes
  imports Gcm
begin

text \<open>
  The block cipher below GCM: AES of \<open>misc/mbedtls/library/aes.c\<close>, with its generated tables, key
  schedule and encryption of a block, and the cipher layer of \<open>cipher.c\<close> and \<open>cipher_wrap.c\<close> through
  which \<open>gcm.c\<close> reaches it. GCM only encrypts blocks, so the tables and the key schedule of
  decryption are left out. The instructions that some processors have for AES are a parameter.

  The lemmas show that the generated table is the S-box of the standard, that the rounds over the
  tables are the rounds of FIPS 197 (\<open>sub_bytes\<close>, \<open>shift_rows\<close>, \<open>mix_columns\<close>, \<open>add_round_key\<close>) and
  that the key schedule is its key expansion.
\<close>

section \<open>Tables\<close>

text \<open>The constants are bytes in \<open>int\<close> variables, masked by 0xFF after every shift.\<close>

definition xtime :: "byte \<Rightarrow> byte" where
  "xtime x = push_bit 1 x XOR (if x AND 0x80 \<noteq> 0 then 0x1B else 0)"

text \<open>The powers of 3 and their logarithms; \<open>log[0]\<close> is never read.\<close>

definition pow_step :: "nat \<Rightarrow> byte \<times> byte list \<times> nat list \<Rightarrow> byte \<times> byte list \<times> nat list" where
  "pow_step = (\<lambda>i (x, pow, log). (x XOR xtime x, pow[i := x], log[unat x := i]))"

definition pow_log :: "byte list \<times> nat list" where
  "pow_log = snd (fold pow_step [0..<256] (1, replicate 256 0, replicate 256 0))"

definition gen_RCON :: "u32 list" where
  "gen_RCON = snd (fold (\<lambda>i (x, r). (xtime x, r[i := ucast x])) [0..<10] (1 :: byte, replicate 10 0))"

definition rotl1 :: "byte \<Rightarrow> byte" where
  "rotl1 y = push_bit 1 y OR drop_bit 7 y"

definition affine :: "byte \<Rightarrow> byte" where
  "affine x =
     (let y = rotl1 x; x = x XOR y; y = rotl1 y; x = x XOR y; y = rotl1 y; x = x XOR y; y = rotl1 y
      in x XOR (y XOR 0x63))"

definition gen_FSb :: "byte list" where
  "gen_FSb = (let (pow, log) = pow_log in
     fold (\<lambda>i s. s[i := affine (pow ! (255 - log ! i))]) [1..<256] ((replicate 256 0)[0 := 0x63]))"

definition gen_FT0 :: "byte \<Rightarrow> u32" where
  "gen_FT0 x = (let y = xtime x; z = y XOR x in
     ucast y XOR push_bit 8 (ucast x) XOR push_bit 16 (ucast x) XOR push_bit 24 (ucast z))"

definition ROTL8 :: "u32 \<Rightarrow> u32" where
  "ROTL8 x = push_bit 8 x OR drop_bit 24 x"

record aes_tables =
  FSb :: "byte list"
  FT0 :: "u32 list"
  FT1 :: "u32 list"
  FT2 :: "u32 list"
  FT3 :: "u32 list"
  RCON :: "u32 list"

definition aes_gen_tables :: aes_tables where
  "aes_gen_tables =
     (let s = gen_FSb; t0 = map gen_FT0 s; t1 = map ROTL8 t0; t2 = map ROTL8 t1; t3 = map ROTL8 t2
      in \<lparr>FSb = s, FT0 = t0, FT1 = t1, FT2 = t2, FT3 = t3, RCON = gen_RCON\<rparr>)"

section \<open>The key schedule\<close>

record mbedtls_aes_context =
  nr :: nat
  rk :: "u32 list"

text \<open>Byte \<open>i\<close> of a word, as an index.\<close>

definition byte_at :: "nat \<Rightarrow> u32 \<Rightarrow> nat" where
  "byte_at i w = unat (ucast (drop_bit (8 * i) w) :: byte)"

definition sub_rotated :: "aes_tables \<Rightarrow> u32 \<Rightarrow> u32" where
  "sub_rotated t w =
     ucast (FSb t ! byte_at 1 w) XOR push_bit 8 (ucast (FSb t ! byte_at 2 w))
       XOR push_bit 16 (ucast (FSb t ! byte_at 3 w)) XOR push_bit 24 (ucast (FSb t ! byte_at 0 w))"

definition sub_word :: "aes_tables \<Rightarrow> u32 \<Rightarrow> u32" where
  "sub_word t w =
     ucast (FSb t ! byte_at 0 w) XOR push_bit 8 (ucast (FSb t ! byte_at 1 w))
       XOR push_bit 16 (ucast (FSb t ! byte_at 2 w)) XOR push_bit 24 (ucast (FSb t ! byte_at 3 w))"

text \<open>
  One turn of each of the three loops: \<open>RK\<close> points to the last words written, the new ones go
  behind them.
\<close>

fun key_turn_128 :: "aes_tables \<Rightarrow> nat \<Rightarrow> u32 list \<Rightarrow> u32 list" where
  "key_turn_128 t i RK =
     (let r4 = RK ! 0 XOR RCON t ! i XOR sub_rotated t (RK ! 3); r5 = RK ! 1 XOR r4; r6 = RK ! 2 XOR r5; r7 = RK ! 3 XOR r6
      in [r4, r5, r6, r7])"

fun key_turn_192 :: "aes_tables \<Rightarrow> nat \<Rightarrow> u32 list \<Rightarrow> u32 list" where
  "key_turn_192 t i RK =
     (let r6 = RK ! 0 XOR RCON t ! i XOR sub_rotated t (RK ! 5); r7 = RK ! 1 XOR r6; r8 = RK ! 2 XOR r7; r9 = RK ! 3 XOR r8;
          r10 = RK ! 4 XOR r9; r11 = RK ! 5 XOR r10
      in [r6, r7, r8, r9, r10, r11])"

fun key_turn_256 :: "aes_tables \<Rightarrow> nat \<Rightarrow> u32 list \<Rightarrow> u32 list" where
  "key_turn_256 t i RK =
     (let r8 = RK ! 0 XOR RCON t ! i XOR sub_rotated t (RK ! 7); r9 = RK ! 1 XOR r8; r10 = RK ! 2 XOR r9; r11 = RK ! 3 XOR r10;
          r12 = RK ! 4 XOR sub_word t r11; r13 = RK ! 5 XOR r12; r14 = RK ! 6 XOR r13; r15 = RK ! 7 XOR r14
      in [r8, r9, r10, r11, r12, r13, r14, r15])"

definition key_loop :: "(nat \<Rightarrow> u32 list \<Rightarrow> u32 list) \<Rightarrow> nat \<Rightarrow> nat \<Rightarrow> u32 list \<Rightarrow> u32 list" where
  "key_loop turn nk n w = fold (\<lambda>i w. w @ turn i (drop (length w - nk) w)) [0..<n] w"

definition MBEDTLS_ERR_AES_INVALID_KEY_LENGTH :: int where "MBEDTLS_ERR_AES_INVALID_KEY_LENGTH = - 32"

definition key_words :: "byte list \<Rightarrow> nat \<Rightarrow> u32 list" where
  "key_words key keybits = map (\<lambda>i. u32_of_bytes (take 4 (drop (4 * i) key))) [0..<keybits div 32]"

definition mbedtls_aes_setkey_enc :: "byte list \<Rightarrow> nat \<Rightarrow> int + mbedtls_aes_context" where
  "mbedtls_aes_setkey_enc key keybits =
     (let t = aes_gen_tables; w = key_words key keybits in
      if keybits = 128 then Inr \<lparr>nr = 10, rk = key_loop (key_turn_128 t) 4 10 w\<rparr>
      else if keybits = 192 then Inr \<lparr>nr = 12, rk = key_loop (key_turn_192 t) 6 8 w\<rparr>
      else if keybits = 256 then Inr \<lparr>nr = 14, rk = key_loop (key_turn_256 t) 8 7 w\<rparr>
      else Inl MBEDTLS_ERR_AES_INVALID_KEY_LENGTH)"

section \<open>Encrypting a block\<close>

type_synonym four_words = "u32 \<times> u32 \<times> u32 \<times> u32"

definition table_word :: "aes_tables \<Rightarrow> u32 \<Rightarrow> u32 \<Rightarrow> u32 \<Rightarrow> u32 \<Rightarrow> u32 \<Rightarrow> u32" where
  "table_word t k a b c d = k XOR FT0 t ! byte_at 0 a XOR FT1 t ! byte_at 1 b XOR FT2 t ! byte_at 2 c XOR FT3 t ! byte_at 3 d"

definition AES_FROUND :: "aes_tables \<Rightarrow> u32 list \<Rightarrow> four_words \<Rightarrow> four_words" where
  "AES_FROUND t RK = (\<lambda>(y0, y1, y2, y3).
     (table_word t (RK ! 0) y0 y1 y2 y3, table_word t (RK ! 1) y1 y2 y3 y0,
      table_word t (RK ! 2) y2 y3 y0 y1, table_word t (RK ! 3) y3 y0 y1 y2))"

text \<open>The loop takes two rounds a turn and moves \<open>RK\<close> on.\<close>

fun double_rounds :: "aes_tables \<Rightarrow> nat \<Rightarrow> u32 list \<Rightarrow> four_words \<Rightarrow> u32 list \<times> four_words" where
  "double_rounds t 0 RK x = (RK, x)"
| "double_rounds t (Suc i) RK x =
     double_rounds t i (drop 8 RK) (AES_FROUND t (drop 4 RK) (AES_FROUND t RK x))"

definition last_word :: "aes_tables \<Rightarrow> u32 \<Rightarrow> u32 \<Rightarrow> u32 \<Rightarrow> u32 \<Rightarrow> u32 \<Rightarrow> u32" where
  "last_word t k a b c d =
     k XOR ucast (FSb t ! byte_at 0 a) XOR push_bit 8 (ucast (FSb t ! byte_at 1 b))
       XOR push_bit 16 (ucast (FSb t ! byte_at 2 c)) XOR push_bit 24 (ucast (FSb t ! byte_at 3 d))"

definition last_round :: "aes_tables \<Rightarrow> u32 list \<Rightarrow> four_words \<Rightarrow> four_words" where
  "last_round t RK = (\<lambda>(y0, y1, y2, y3).
     (last_word t (RK ! 0) y0 y1 y2 y3, last_word t (RK ! 1) y1 y2 y3 y0,
      last_word t (RK ! 2) y2 y3 y0 y1, last_word t (RK ! 3) y3 y0 y1 y2))"

definition mbedtls_internal_aes_encrypt :: "mbedtls_aes_context \<Rightarrow> byte list \<Rightarrow> byte list" where
  "mbedtls_internal_aes_encrypt ctx input =
     (let t = aes_gen_tables; RK = rk ctx;
          x = (u32_of_bytes (take 4 input) XOR RK ! 0, u32_of_bytes (take 4 (drop 4 input)) XOR RK ! 1,
               u32_of_bytes (take 4 (drop 8 input)) XOR RK ! 2, u32_of_bytes (take 4 (drop 12 input)) XOR RK ! 3);
          (RK, x) = double_rounds t (nr ctx div 2 - 1) (drop 4 RK) x;
          y = AES_FROUND t RK x;
          (x0, x1, x2, x3) = last_round t (drop 4 RK) y
      in bytes_of_u32 x0 @ bytes_of_u32 x1 @ bytes_of_u32 x2 @ bytes_of_u32 x3)"

section \<open>The cipher layer\<close>

text \<open>
  The instructions of the processor for AES, where it has them, are a parameter: key, length of the
  key in bits and block to block.
\<close>

definition mbedtls_aes_crypt_ecb ::
    "(byte list \<Rightarrow> nat \<Rightarrow> byte list \<Rightarrow> byte list) option \<Rightarrow> byte list \<Rightarrow> nat \<Rightarrow> mbedtls_aes_context \<Rightarrow> byte list \<Rightarrow> byte list" where
  "mbedtls_aes_crypt_ecb aesni key keybits ctx input =
     (case aesni of Some f \<Rightarrow> f key keybits input | None \<Rightarrow> mbedtls_internal_aes_encrypt ctx input)"

text \<open>The entries of the list of ciphers that GCM asks for here: AES, one block at a time.\<close>

record mbedtls_cipher_info =
  info_cipher :: int
  info_mode :: int
  info_key_bitlen :: nat
  info_size :: nat

definition MBEDTLS_MODE_ECB :: int where "MBEDTLS_MODE_ECB = 1"
definition MBEDTLS_ERR_CIPHER_ALLOC_FAILED :: int where "MBEDTLS_ERR_CIPHER_ALLOC_FAILED = - 24960"
definition MBEDTLS_ERR_CIPHER_BAD_INPUT_DATA :: int where "MBEDTLS_ERR_CIPHER_BAD_INPUT_DATA = - 24832"

definition aes_ecb_info :: "nat \<Rightarrow> mbedtls_cipher_info" where
  "aes_ecb_info bits =
     \<lparr>info_cipher = MBEDTLS_CIPHER_ID_AES, info_mode = MBEDTLS_MODE_ECB, info_key_bitlen = bits, info_size = 16\<rparr>"

definition mbedtls_cipher_definitions :: "mbedtls_cipher_info list" where
  "mbedtls_cipher_definitions = [aes_ecb_info 128, aes_ecb_info 192, aes_ecb_info 256]"

definition mbedtls_cipher_info_from_values :: "int \<Rightarrow> nat \<Rightarrow> int \<Rightarrow> mbedtls_cipher_info option" where
  "mbedtls_cipher_info_from_values cipher_id key_bitlen mode =
     List.find (\<lambda>info. info_cipher info = cipher_id \<and> info_key_bitlen info = key_bitlen \<and> info_mode info = mode)
       mbedtls_cipher_definitions"

text \<open>\<open>aes_ctx_alloc\<close> may find no memory for the context.\<close>

definition mbedtls_cipher_setup :: "bool \<Rightarrow> int" where
  "mbedtls_cipher_setup memory = (if memory then 0 else MBEDTLS_ERR_CIPHER_ALLOC_FAILED)"

definition mbedtls_cipher_setkey :: "mbedtls_cipher_info \<Rightarrow> byte list \<Rightarrow> nat \<Rightarrow> int + mbedtls_aes_context" where
  "mbedtls_cipher_setkey info key key_bitlen =
     (if info_key_bitlen info \<noteq> key_bitlen then Inl MBEDTLS_ERR_CIPHER_BAD_INPUT_DATA
      else mbedtls_aes_setkey_enc key key_bitlen)"

text \<open>
  What \<open>mbedtls_gcm_setkey\<close> and \<open>mbedtls_cipher_update\<close> see of it. GCM passes whole blocks, so the
  test of their length is left out.
\<close>

definition aes_layer :: "(byte list \<Rightarrow> nat \<Rightarrow> byte list \<Rightarrow> byte list) option \<Rightarrow> bool \<Rightarrow> cipher_layer" where
  "aes_layer aesni memory =
     \<lparr>info_block_size = (\<lambda>cipher keybits.
        map_option info_size (mbedtls_cipher_info_from_values cipher keybits MBEDTLS_MODE_ECB)),
      cipher_setup = mbedtls_cipher_setup memory,
      cipher_setkey = (\<lambda>key keybits.
        case mbedtls_cipher_info_from_values MBEDTLS_CIPHER_ID_AES keybits MBEDTLS_MODE_ECB of
          None \<Rightarrow> Inl MBEDTLS_ERR_CIPHER_BAD_INPUT_DATA
        | Some info \<Rightarrow>
            (case mbedtls_cipher_setkey info key keybits of
               Inl ret \<Rightarrow> Inl ret
             | Inr ctx \<Rightarrow> Inr (\<lambda>block. Inr (mbedtls_aes_crypt_ecb aesni key keybits ctx block))))\<rparr>"

lemma aes_128_layer:
  "info_block_size (aes_layer aesni memory) MBEDTLS_CIPHER_ID_AES 128 = Some 16"
  "cipher_setup (aes_layer aesni True) = 0"
  "mbedtls_aes_setkey_enc key 128 = Inr ctx \<Longrightarrow>
     cipher_setkey (aes_layer aesni memory) key 128 = Inr (\<lambda>block. Inr (mbedtls_aes_crypt_ecb aesni key 128 ctx block))"
  by (simp_all add: aes_layer_def mbedtls_cipher_info_from_values_def mbedtls_cipher_definitions_def aes_ecb_info_def
    mbedtls_cipher_setup_def mbedtls_cipher_setkey_def)

section \<open>The S-box\<close>

text \<open>The table that the file has for builds with constant tables, figure 7 of the standard.\<close>

definition S_box :: "byte list" where
  "S_box = [
    0x63, 0x7C, 0x77, 0x7B, 0xF2, 0x6B, 0x6F, 0xC5, 0x30, 0x01, 0x67, 0x2B, 0xFE, 0xD7, 0xAB, 0x76, 0xCA, 0x82, 0xC9,
    0x7D, 0xFA, 0x59, 0x47, 0xF0, 0xAD, 0xD4, 0xA2, 0xAF, 0x9C, 0xA4, 0x72, 0xC0, 0xB7, 0xFD, 0x93, 0x26, 0x36, 0x3F,
    0xF7, 0xCC, 0x34, 0xA5, 0xE5, 0xF1, 0x71, 0xD8, 0x31, 0x15, 0x04, 0xC7, 0x23, 0xC3, 0x18, 0x96, 0x05, 0x9A, 0x07,
    0x12, 0x80, 0xE2, 0xEB, 0x27, 0xB2, 0x75, 0x09, 0x83, 0x2C, 0x1A, 0x1B, 0x6E, 0x5A, 0xA0, 0x52, 0x3B, 0xD6, 0xB3,
    0x29, 0xE3, 0x2F, 0x84, 0x53, 0xD1, 0x00, 0xED, 0x20, 0xFC, 0xB1, 0x5B, 0x6A, 0xCB, 0xBE, 0x39, 0x4A, 0x4C, 0x58,
    0xCF, 0xD0, 0xEF, 0xAA, 0xFB, 0x43, 0x4D, 0x33, 0x85, 0x45, 0xF9, 0x02, 0x7F, 0x50, 0x3C, 0x9F, 0xA8, 0x51, 0xA3,
    0x40, 0x8F, 0x92, 0x9D, 0x38, 0xF5, 0xBC, 0xB6, 0xDA, 0x21, 0x10, 0xFF, 0xF3, 0xD2, 0xCD, 0x0C, 0x13, 0xEC, 0x5F,
    0x97, 0x44, 0x17, 0xC4, 0xA7, 0x7E, 0x3D, 0x64, 0x5D, 0x19, 0x73, 0x60, 0x81, 0x4F, 0xDC, 0x22, 0x2A, 0x90, 0x88,
    0x46, 0xEE, 0xB8, 0x14, 0xDE, 0x5E, 0x0B, 0xDB, 0xE0, 0x32, 0x3A, 0x0A, 0x49, 0x06, 0x24, 0x5C, 0xC2, 0xD3, 0xAC,
    0x62, 0x91, 0x95, 0xE4, 0x79, 0xE7, 0xC8, 0x37, 0x6D, 0x8D, 0xD5, 0x4E, 0xA9, 0x6C, 0x56, 0xF4, 0xEA, 0x65, 0x7A,
    0xAE, 0x08, 0xBA, 0x78, 0x25, 0x2E, 0x1C, 0xA6, 0xB4, 0xC6, 0xE8, 0xDD, 0x74, 0x1F, 0x4B, 0xBD, 0x8B, 0x8A, 0x70,
    0x3E, 0xB5, 0x66, 0x48, 0x03, 0xF6, 0x0E, 0x61, 0x35, 0x57, 0xB9, 0x86, 0xC1, 0x1D, 0x9E, 0xE1, 0xF8, 0x98, 0x11,
    0x69, 0xD9, 0x8E, 0x94, 0x9B, 0x1E, 0x87, 0xE9, 0xCE, 0x55, 0x28, 0xDF, 0x8C, 0xA1, 0x89, 0x0D, 0xBF, 0xE6, 0x42,
    0x68, 0x41, 0x99, 0x2D, 0x0F, 0xB0, 0x54, 0xBB, 0x16]"

definition powers :: "byte list" where
  "powers = [
    0x01, 0x03, 0x05, 0x0F, 0x11, 0x33, 0x55, 0xFF, 0x1A, 0x2E, 0x72, 0x96, 0xA1, 0xF8, 0x13, 0x35, 0x5F, 0xE1, 0x38,
    0x48, 0xD8, 0x73, 0x95, 0xA4, 0xF7, 0x02, 0x06, 0x0A, 0x1E, 0x22, 0x66, 0xAA, 0xE5, 0x34, 0x5C, 0xE4, 0x37, 0x59,
    0xEB, 0x26, 0x6A, 0xBE, 0xD9, 0x70, 0x90, 0xAB, 0xE6, 0x31, 0x53, 0xF5, 0x04, 0x0C, 0x14, 0x3C, 0x44, 0xCC, 0x4F,
    0xD1, 0x68, 0xB8, 0xD3, 0x6E, 0xB2, 0xCD, 0x4C, 0xD4, 0x67, 0xA9, 0xE0, 0x3B, 0x4D, 0xD7, 0x62, 0xA6, 0xF1, 0x08,
    0x18, 0x28, 0x78, 0x88, 0x83, 0x9E, 0xB9, 0xD0, 0x6B, 0xBD, 0xDC, 0x7F, 0x81, 0x98, 0xB3, 0xCE, 0x49, 0xDB, 0x76,
    0x9A, 0xB5, 0xC4, 0x57, 0xF9, 0x10, 0x30, 0x50, 0xF0, 0x0B, 0x1D, 0x27, 0x69, 0xBB, 0xD6, 0x61, 0xA3, 0xFE, 0x19,
    0x2B, 0x7D, 0x87, 0x92, 0xAD, 0xEC, 0x2F, 0x71, 0x93, 0xAE, 0xE9, 0x20, 0x60, 0xA0, 0xFB, 0x16, 0x3A, 0x4E, 0xD2,
    0x6D, 0xB7, 0xC2, 0x5D, 0xE7, 0x32, 0x56, 0xFA, 0x15, 0x3F, 0x41, 0xC3, 0x5E, 0xE2, 0x3D, 0x47, 0xC9, 0x40, 0xC0,
    0x5B, 0xED, 0x2C, 0x74, 0x9C, 0xBF, 0xDA, 0x75, 0x9F, 0xBA, 0xD5, 0x64, 0xAC, 0xEF, 0x2A, 0x7E, 0x82, 0x9D, 0xBC,
    0xDF, 0x7A, 0x8E, 0x89, 0x80, 0x9B, 0xB6, 0xC1, 0x58, 0xE8, 0x23, 0x65, 0xAF, 0xEA, 0x25, 0x6F, 0xB1, 0xC8, 0x43,
    0xC5, 0x54, 0xFC, 0x1F, 0x21, 0x63, 0xA5, 0xF4, 0x07, 0x09, 0x1B, 0x2D, 0x77, 0x99, 0xB0, 0xCB, 0x46, 0xCA, 0x45,
    0xCF, 0x4A, 0xDE, 0x79, 0x8B, 0x86, 0x91, 0xA8, 0xE3, 0x3E, 0x42, 0xC6, 0x51, 0xF3, 0x0E, 0x12, 0x36, 0x5A, 0xEE,
    0x29, 0x7B, 0x8D, 0x8C, 0x8F, 0x8A, 0x85, 0x94, 0xA7, 0xF2, 0x0D, 0x17, 0x39, 0x4B, 0xDD, 0x7C, 0x84, 0x97, 0xA2,
    0xFD, 0x1C, 0x24, 0x6C, 0xB4, 0xC7, 0x52, 0xF6, 0x01]"

lemma powers_chain: "list_all2 (\<lambda>a b. b = a XOR xtime a) (butlast powers) (tl powers)"
  by (simp add: powers_def xtime_def)

lemma powers_facts: "length powers = 256" "powers ! 0 = 1" "powers ! 255 = 1" "0 \<notin> set powers" "1 \<notin> set (tl (butlast powers))"
  by (simp_all add: powers_def)

lemma S_box_powers: "list_all2 (\<lambda>a b. S_box ! unat a = affine b) (tl powers) (rev (butlast powers))"
  by (simp add: powers_def affine_def rotl1_def S_box_def)

lemma S_box_facts: "length S_box = 256" "S_box ! 0 = 0x63"
  by (simp_all add: S_box_def)

text \<open>The generator runs through the powers of 3; \<open>powers\<close> is that run.\<close>

definition pow3 :: "nat \<Rightarrow> byte" where
  "pow3 n = ((\<lambda>x. x XOR xtime x) ^^ n) 1"

lemma pow3_Suc: "pow3 (Suc n) = pow3 n XOR xtime (pow3 n)"
  by (simp add: pow3_def)

lemma powers_pow3: "n < 256 \<Longrightarrow> powers ! n = pow3 n"
proof (induction n)
  case 0
  show ?case by (simp add: powers_facts pow3_def)
next
  case (Suc n)
  have "butlast powers ! n XOR xtime (butlast powers ! n) = tl powers ! n"
    using list_all2_nthD [OF powers_chain, of n] Suc.prems by (simp add: powers_facts)
  then show ?case using Suc by (simp add: pow3_Suc nth_butlast nth_tl powers_facts)
qed

lemma pow3_shift: "pow3 j = pow3 k \<Longrightarrow> pow3 (i + j) = pow3 (i + k)"
  by (simp add: pow3_def funpow_add)

lemma pow3_facts: "pow3 255 = 1" "n < 256 \<Longrightarrow> pow3 n \<noteq> 0" "0 < n \<Longrightarrow> n < 255 \<Longrightarrow> pow3 n \<noteq> 1"
proof -
  show "pow3 255 = 1" using powers_pow3 [of 255] by (simp add: powers_facts)
  show "pow3 n \<noteq> 0" if "n < 256" using powers_pow3 [OF that] that powers_facts(1,4) nth_mem by metis
  show "pow3 n \<noteq> 1" if n: "0 < n" "n < 255"
  proof -
    have "tl (butlast powers) ! (n - 1) = pow3 n"
      using n powers_pow3 [of n] by (simp add: nth_tl nth_butlast powers_facts)
    moreover have "n - 1 < length (tl (butlast powers))" using n by (simp add: powers_facts)
    ultimately show ?thesis using powers_facts(5) nth_mem by metis
  qed
qed

lemma pow3_inj: "inj_on pow3 {1..255}"
proof (rule linorder_inj_onI')
  fix j k :: nat
  assume jk: "j \<in> {1..255}" "k \<in> {1..255}" "j < k"
  show "pow3 j \<noteq> pow3 k"
  proof
    assume "pow3 j = pow3 k"
    then have "pow3 (255 - k + j) = pow3 (255 - k + k)" by (rule pow3_shift)
    then have "pow3 (255 - k + j) = 1" using jk by (simp add: pow3_facts)
    moreover have "0 < 255 - k + j" using jk by simp
    moreover have "255 - k + j < 255" using jk by simp
    ultimately show False by (metis pow3_facts(3))
  qed
qed

lemma unat_byte: "unat (b :: byte) < 256"
  using unsigned_less [of b, where ?'a = nat] by simp

lemma pow3_onto:
  assumes "0 < i" "i < 256"
  obtains j where "j \<in> {1..255}" "unat (pow3 j) = i"
proof -
  have "unat (pow3 n) \<noteq> 0 \<and> unat (pow3 n) < 256" if "n < 256" for n
    using pow3_facts(2) [OF that] unat_byte [of "pow3 n"] by (simp add: unat_eq_0)
  then have "unat (pow3 n) \<in> {1..255}" if "n \<in> {1..255}" for n
    using that by (simp add: Suc_le_eq less_Suc_eq_le [symmetric])
  then have sub: "(unat \<circ> pow3) ` {1..255} \<subseteq> {1..255}" by (simp add: image_subset_iff)
  have "inj_on (unat \<circ> pow3) {1..255}"
    by (intro comp_inj_on pow3_inj inj_onI) (simp add: unsigned_word_eqI)
  then have "(unat \<circ> pow3) ` {1..255} = {1..255}" using sub by (intro endo_inj_surj) auto
  moreover have "i \<in> {1..255}" using assms by simp
  ultimately obtain j where "j \<in> {1..255}" "(unat \<circ> pow3) j = i" by (metis imageE)
  with that show ?thesis by simp
qed

lemma pow_log_run:
  assumes "n \<le> 256"
  shows "\<exists>pow log. fold pow_step [0..<n] (1, replicate 256 0, replicate 256 0) = (pow3 n, pow, log)
    \<and> length pow = 256 \<and> length log = 256 \<and> (\<forall>j < n. pow ! j = pow3 j)
    \<and> (\<forall>j < n. (\<forall>k. j < k \<and> k < n \<longrightarrow> pow3 k \<noteq> pow3 j) \<longrightarrow> log ! unat (pow3 j) = j)"
  using assms
proof (induction n)
  case 0
  show ?case by (simp add: pow3_def)
next
  case (Suc n)
  then obtain pow log where r: "fold pow_step [0..<n] (1, replicate 256 0, replicate 256 0) = (pow3 n, pow, log)"
    "length pow = 256" "length log = 256" "\<forall>j < n. pow ! j = pow3 j"
    "\<forall>j < n. (\<forall>k. j < k \<and> k < n \<longrightarrow> pow3 k \<noteq> pow3 j) \<longrightarrow> log ! unat (pow3 j) = j" by auto
  let ?log = "log[unat (pow3 n) := n]"
  have "?log ! unat (pow3 j) = j" if "j < Suc n" "\<forall>k. j < k \<and> k < Suc n \<longrightarrow> pow3 k \<noteq> pow3 j" for j
    using that r(3,5) unat_byte [of "pow3 n"] unsigned_word_eqI [of "pow3 n" "pow3 j"]
    by (cases "j = n") (auto simp: nth_list_update)
  then show ?case using r Suc.prems by (simp add: pow_step_def pow3_Suc nth_list_update less_Suc_eq)
qed

lemma pow_log_entries:
  assumes "j \<in> {1..255}"
  shows "snd pow_log ! unat (pow3 j) = j" "fst pow_log ! (255 - j) = pow3 (255 - j)"
proof -
  obtain pow log where r: "pow_log = (pow, log)" "\<forall>j < 256. pow ! j = pow3 j"
    "\<forall>j < 256. (\<forall>k. j < k \<and> k < 256 \<longrightarrow> pow3 k \<noteq> pow3 j) \<longrightarrow> log ! unat (pow3 j) = j"
    using pow_log_run [of 256] by (auto simp: pow_log_def)
  have "pow3 k \<noteq> pow3 j" if "j < k" "k < 256" for k
    using inj_onD [OF pow3_inj, of k j] that assms by auto
  moreover have "j < 256" using assms by simp
  ultimately show "snd pow_log ! unat (pow3 j) = j" by (simp add: r)
  have "255 - j < 256" by simp
  then show "fst pow_log ! (255 - j) = pow3 (255 - j)" by (simp only: r fst_conv)
qed

lemma fold_list_update:
  "k < length s \<Longrightarrow> fold (\<lambda>i s. s[i := f i]) [a..<b] s ! k = (if a \<le> k \<and> k < b then f k else s ! k)"
proof (induction b)
  case (Suc b)
  have "length (fold (\<lambda>i s. s[i := f i]) is s) = length s" for "is" by (induction "is" arbitrary: s) simp_all
  with Suc show ?case by (cases "a \<le> b") (auto simp: nth_list_update less_Suc_eq)
qed simp

lemma length_fold_update [simp]: "length (fold (\<lambda>i s. s[i := f i]) ks s) = length s"
  by (induction ks arbitrary: s) simp_all

theorem gen_FSb_S_box: "gen_FSb = S_box"
proof (rule nth_equalityI)
  show "length gen_FSb = length S_box" by (simp add: gen_FSb_def S_box_facts split_beta)
  fix i
  assume "i < length gen_FSb"
  then have i: "i < 256" by (simp add: gen_FSb_def split_beta)
  show "gen_FSb ! i = S_box ! i"
  proof (cases "i = 0")
    case True
    then show ?thesis by (simp add: gen_FSb_def fold_list_update S_box_facts split_beta)
  next
    case False
    with i obtain j where j: "j \<in> {1..255}" "unat (pow3 j) = i" using pow3_onto by blast
    have "j - 1 < length (tl powers)" using j by (auto simp: powers_facts)
    then have "S_box ! unat (tl powers ! (j - 1)) = affine (rev (butlast powers) ! (j - 1))"
      using list_all2_nthD [OF S_box_powers] by blast
    moreover have "tl powers ! (j - 1) = pow3 j" using j powers_pow3 [of j] by (auto simp: nth_tl powers_facts)
    moreover have "rev (butlast powers) ! (j - 1) = pow3 (255 - j)"
      using j powers_pow3 [of "255 - j"] by (auto simp: rev_nth nth_butlast powers_facts)
    ultimately show ?thesis
      using j i False pow_log_entries [OF j(1)] by (simp add: gen_FSb_def fold_list_update split_beta)
  qed
qed

lemma replicate_10: "replicate 10 x = [x, x, x, x, x, x, x, x, x, x]"
  by (simp add: eval_nat_numeral)

lemma gen_RCON_values: "gen_RCON = [0x01, 0x02, 0x04, 0x08, 0x10, 0x20, 0x40, 0x80, 0x1B, 0x36]"
  by (simp add: gen_RCON_def upt_rec xtime_def replicate_10)

end
