(* ===== verification/AesSpec.thy ===== *)
theory AesSpec
  imports Aes
begin

text \<open>
  FIPS 197 as a reference for \<open>Aes\<close>: the cipher over a state of 16 bytes, column after column, and
  the key expansion over words of four bytes. The rounds over the tables and the three loops of the
  key schedule compute them; with that, the block cipher that GCM is built on is the standard's.
\<close>

section \<open>The standard\<close>

definition sub_bytes :: "byte list \<Rightarrow> byte list" where
  "sub_bytes st = map (\<lambda>b. S_box ! unat b) st"

definition shift_rows :: "byte list \<Rightarrow> byte list" where
  "shift_rows st = map (\<lambda>i. st ! (4 * ((i div 4 + i mod 4) mod 4) + i mod 4)) [0..<16]"

fun mix_columns :: "byte list \<Rightarrow> byte list" where
  "mix_columns (a # b # c # d # st) =
     [xtime a XOR (xtime b XOR b) XOR c XOR d, a XOR xtime b XOR (xtime c XOR c) XOR d,
      a XOR b XOR xtime c XOR (xtime d XOR d), (xtime a XOR a) XOR b XOR c XOR xtime d] @ mix_columns st"
| "mix_columns _ = []"

definition xor_bytes :: "byte list \<Rightarrow> byte list \<Rightarrow> byte list" where
  "xor_bytes = map2 (XOR)"

definition fips_round :: "byte list \<Rightarrow> byte list \<Rightarrow> byte list" where
  "fips_round key st = xor_bytes (mix_columns (shift_rows (sub_bytes st))) key"

definition fips_last :: "byte list \<Rightarrow> byte list \<Rightarrow> byte list" where
  "fips_last key st = xor_bytes (shift_rows (sub_bytes st)) key"

text \<open>The words of the expanded key; \<open>nk\<close> is the number of words of the key.\<close>

fun rcon :: "nat \<Rightarrow> byte list" where
  "rcon i = [(xtime ^^ (i - 1)) 1, 0, 0, 0]"

function key_word :: "nat \<Rightarrow> byte list \<Rightarrow> nat \<Rightarrow> byte list" where
  "key_word nk key i =
     (if i < nk \<or> nk = 0 then take 4 (drop (4 * i) key)
      else xor_bytes (key_word nk key (i - nk))
        (if i mod nk = 0 then xor_bytes (sub_bytes (rotate1 (key_word nk key (i - 1)))) (rcon (i div nk))
         else if nk > 6 \<and> i mod nk = 4 then sub_bytes (key_word nk key (i - 1))
         else key_word nk key (i - 1)))"
  by auto
termination by (relation "measure (\<lambda>(nk, key, i). i)") auto

declare key_word.simps [simp del]

definition round_key :: "nat \<Rightarrow> byte list \<Rightarrow> nat \<Rightarrow> byte list" where
  "round_key nk key r = concat (map (key_word nk key) [4 * r..<4 * r + 4])"

definition fips197 :: "nat \<Rightarrow> byte list \<Rightarrow> byte list \<Rightarrow> byte list" where
  "fips197 nk key input =
     fips_last (round_key nk key (nk + 6))
       (fold (\<lambda>r. fips_round (round_key nk key r)) [1..<nk + 6] (xor_bytes input (round_key nk key 0)))"

section \<open>Words and bytes\<close>

lemma length_xor_bytes [simp]: "length (xor_bytes x y) = min (length x) (length y)"
  by (simp add: xor_bytes_def)

lemma bytes_of_u32_xor: "bytes_of_u32 (x XOR y) = xor_bytes (bytes_of_u32 x) (bytes_of_u32 y)"
  by (auto simp: bytes_of_u32_def xor_bytes_def intro!: bit_word_eqI) (auto simp: bit_simps)

lemma byte_at_nth: "i < 4 \<Longrightarrow> byte_at i w = unat (bytes_of_u32 w ! i)"
  by (auto simp: byte_at_def bytes_of_u32_def less_Suc_eq numeral_eq_Suc)

definition word4 :: "byte \<Rightarrow> byte \<Rightarrow> byte \<Rightarrow> byte \<Rightarrow> u32" where
  "word4 a b c d = ucast a XOR push_bit 8 (ucast b) XOR push_bit 16 (ucast c) XOR push_bit 24 (ucast d)"

lemma bit_byte_out: "n \<ge> 8 \<Longrightarrow> \<not> bit (b :: byte) n"
  using bit_imp_le_length [of b n] by auto

lemma bytes_word4: "bytes_of_u32 (word4 a b c d) = [a, b, c, d]"
  unfolding bytes_of_u32_def word4_def list.inject
  by (intro conjI refl bit_word_eqI) (auto simp: bit_simps bit_byte_out)

lemma bytes_ROTL8: "bytes_of_u32 (ROTL8 x) = [bytes_of_u32 x ! 3, bytes_of_u32 x ! 0, bytes_of_u32 x ! 1, bytes_of_u32 x ! 2]"
proof -
  have out: "\<not> bit x n" if "n \<ge> 32" for n using bit_imp_le_length [of x n] that by auto
  show ?thesis
    by (simp add: bytes_of_u32_def ROTL8_def, intro conjI bit_word_eqI) (auto simp: bit_simps out)
qed

lemma gen_FT0_word4: "gen_FT0 x = word4 (xtime x) x x (xtime x XOR x)"
  by (simp add: gen_FT0_def word4_def Let_def)

lemma FSb_gen [simp]: "FSb aes_gen_tables = S_box"
  by (simp add: aes_gen_tables_def Let_def gen_FSb_S_box)

lemma byte_at_less: "byte_at i w < 256"
  by (simp add: byte_at_def unat_byte)

abbreviation sub_at :: "nat \<Rightarrow> u32 \<Rightarrow> byte" where
  "sub_at i w \<equiv> S_box ! byte_at i w"

lemma bytes_FT:
  "bytes_of_u32 (FT0 aes_gen_tables ! byte_at i w) = (let x = sub_at i w in [xtime x, x, x, xtime x XOR x])"
  "bytes_of_u32 (FT1 aes_gen_tables ! byte_at i w) = (let x = sub_at i w in [xtime x XOR x, xtime x, x, x])"
  "bytes_of_u32 (FT2 aes_gen_tables ! byte_at i w) = (let x = sub_at i w in [x, xtime x XOR x, xtime x, x])"
  "bytes_of_u32 (FT3 aes_gen_tables ! byte_at i w) = (let x = sub_at i w in [x, x, xtime x XOR x, xtime x])"
  using byte_at_less [of i w]
  by (simp_all add: aes_gen_tables_def Let_def gen_FSb_S_box S_box_facts bytes_ROTL8 gen_FT0_word4 bytes_word4)

lemma bytes_table_word:
  "bytes_of_u32 (table_word aes_gen_tables k a b c d) =
     xor_bytes (mix_columns [sub_at 0 a, sub_at 1 b, sub_at 2 c, sub_at 3 d]) (bytes_of_u32 k)"
  by (simp add: table_word_def bytes_of_u32_xor bytes_FT Let_def xor_bytes_def bytes_of_u32_def [of k] ac_simps)

lemma bytes_last_word:
  "bytes_of_u32 (last_word aes_gen_tables k a b c d) =
     xor_bytes [sub_at 0 a, sub_at 1 b, sub_at 2 c, sub_at 3 d] (bytes_of_u32 k)"
proof -
  have "last_word aes_gen_tables k a b c d = word4 (sub_at 0 a) (sub_at 1 b) (sub_at 2 c) (sub_at 3 d) XOR k"
    by (simp add: last_word_def word4_def ac_simps)
  then show ?thesis by (simp add: bytes_of_u32_xor bytes_word4)
qed

section \<open>The rounds\<close>

definition bytes_of_words :: "four_words \<Rightarrow> byte list" where
  "bytes_of_words = (\<lambda>(a, b, c, d). bytes_of_u32 a @ bytes_of_u32 b @ bytes_of_u32 c @ bytes_of_u32 d)"

definition bytes_at :: "u32 list \<Rightarrow> nat \<Rightarrow> byte list" where
  "bytes_at w r = concat (map (\<lambda>i. bytes_of_u32 (w ! i)) [4 * r..<4 * r + 4])"

lemma bytes_at_words:
  "bytes_at w r = bytes_of_u32 (w ! (4 * r)) @ bytes_of_u32 (w ! (4 * r + 1)) @ bytes_of_u32 (w ! (4 * r + 2)) @ bytes_of_u32 (w ! (4 * r + 3))"
proof -
  have "[n..<n + 4] = [n, n + 1, n + 2, n + 3]" for n :: nat by (simp add: upt_rec)
  then show ?thesis unfolding bytes_at_def by simp
qed

lemma upt_16: "[0..<16] = [0, 1, 2, 3, 4, 5, 6, 7, 8, 9, 10, 11, 12, 13, 14, 15]"
  by (simp add: upt_rec)

lemma sub_bytes_word: "map (\<lambda>b. S_box ! unat b) (bytes_of_u32 w) = [sub_at 0 w, sub_at 1 w, sub_at 2 w, sub_at 3 w]"
  by (simp add: bytes_of_u32_def byte_at_def)

lemma shift_sub_words:
  "shift_rows (sub_bytes (bytes_of_words (a, b, c, d))) =
     [sub_at 0 a, sub_at 1 b, sub_at 2 c, sub_at 3 d] @ [sub_at 0 b, sub_at 1 c, sub_at 2 d, sub_at 3 a]
       @ [sub_at 0 c, sub_at 1 d, sub_at 2 a, sub_at 3 b] @ [sub_at 0 d, sub_at 1 a, sub_at 2 b, sub_at 3 c]"
  by (simp add: shift_rows_def sub_bytes_def bytes_of_words_def sub_bytes_word upt_16)

lemma mix_columns_append:
  "length x = 4 \<Longrightarrow> mix_columns (x @ y) = mix_columns x @ mix_columns y"
  by (auto simp: length_Suc_conv numeral_eq_Suc)

lemma length_mix_column: "length (mix_columns [a, b, c, d]) = 4"
  by simp

lemma xor_bytes_append [simp]:
  "length a = length b \<Longrightarrow> xor_bytes (a @ x) (b @ y) = xor_bytes a b @ xor_bytes x y"
  by (simp add: xor_bytes_def)

lemma bytes_AES_FROUND:
  "bytes_of_words (AES_FROUND aes_gen_tables RK x) = fips_round (bytes_at RK 0) (bytes_of_words x)"
proof -
  obtain a b c d where x: "x = (a, b, c, d)" by (cases x)
  show ?thesis
    by (simp add: x AES_FROUND_def fips_round_def shift_sub_words mix_columns_append bytes_at_words length_mix_column del: mix_columns.simps append.simps)
      (simp add: bytes_of_words_def bytes_table_word length_mix_column numeral_2_eq_2 del: mix_columns.simps)
qed

lemma bytes_last_round:
  "bytes_of_words (last_round aes_gen_tables RK x) = fips_last (bytes_at RK 0) (bytes_of_words x)"
proof -
  obtain a b c d where x: "x = (a, b, c, d)" by (cases x)
  show ?thesis
    by (simp add: x last_round_def fips_last_def shift_sub_words bytes_at_words)
      (simp add: bytes_of_words_def bytes_last_word, simp add: xor_bytes_def bytes_of_u32_def numeral_2_eq_2)
qed

lemma bytes_at_drop: "4 * n + 4 * r + 4 \<le> length w \<Longrightarrow> bytes_at (drop (4 * n) w) r = bytes_at w (n + r)"
  by (simp add: bytes_at_words algebra_simps)

lemma double_rounds_fips:
  assumes "8 * n \<le> length RK" "double_rounds aes_gen_tables n RK x = (RK', y)"
  shows "RK' = drop (8 * n) RK" "bytes_of_words y = fold (\<lambda>r. fips_round (bytes_at RK r)) [0..<2 * n] (bytes_of_words x)"
proof -
  have "RK' = drop (8 * n) RK \<and> bytes_of_words y = fold (\<lambda>r. fips_round (bytes_at RK r)) [0..<2 * n] (bytes_of_words x)"
    using assms
  proof (induction n arbitrary: RK x)
    case (Suc n)
    let ?f = "\<lambda>r. fips_round (bytes_at RK r)"
    have IH: "RK' = drop (8 * n) (drop 8 RK)"
      "bytes_of_words y = fold (\<lambda>r. fips_round (bytes_at (drop 8 RK) r)) [0..<2 * n]
         (bytes_of_words (AES_FROUND aes_gen_tables (drop 4 RK) (AES_FROUND aes_gen_tables RK x)))"
      using Suc.IH [of "drop 8 RK"] Suc.prems by auto
    have "bytes_at (drop 8 RK) r = bytes_at RK (r + 2)" if "r < 2 * n" for r
      using bytes_at_drop [of 2 r RK] Suc.prems(1) that by (simp add: add.commute)
    then have "fold (\<lambda>r. fips_round (bytes_at (drop 8 RK) r)) [0..<2 * n] z = fold ?f (map (\<lambda>r. r + 2) [0..<2 * n]) z" for z
      unfolding fold_map by (intro fold_cong) auto
    moreover have "map (\<lambda>r. r + 2) [0..<2 * n] = [2..<2 * Suc n]"
      using map_add_upt [of 2 "2 * n"] by simp
    moreover have "[0..<2 * Suc n] = 0 # 1 # [2..<2 * Suc n]" by (simp add: upt_conv_Cons numeral_2_eq_2)
    moreover have "bytes_at (drop 4 RK) 0 = bytes_at RK 1"
      using bytes_at_drop [of 1 0 RK] Suc.prems(1) by simp
    moreover have "drop (8 * n) (drop 8 RK) = drop (8 * Suc n) RK" by (simp add: add.commute)
    ultimately show ?case by (simp add: IH bytes_AES_FROUND del: drop_drop)
  qed simp
  then show "RK' = drop (8 * n) RK" "bytes_of_words y = fold (\<lambda>r. fips_round (bytes_at RK r)) [0..<2 * n] (bytes_of_words x)"
    by blast+
qed

section \<open>The key expansion\<close>

lemma bytes_sub_rotated: "bytes_of_u32 (sub_rotated aes_gen_tables w) = sub_bytes (rotate1 (bytes_of_u32 w))"
proof -
  have "sub_rotated aes_gen_tables w = word4 (sub_at 1 w) (sub_at 2 w) (sub_at 3 w) (sub_at 0 w)"
    by (simp add: sub_rotated_def word4_def ac_simps)
  moreover have "sub_bytes (rotate1 (bytes_of_u32 w)) = [sub_at 1 w, sub_at 2 w, sub_at 3 w, sub_at 0 w]"
    by (simp add: sub_bytes_def bytes_of_u32_def byte_at_def)
  ultimately show ?thesis by (simp add: bytes_word4)
qed

lemma bytes_sub_word: "bytes_of_u32 (sub_word aes_gen_tables w) = sub_bytes (bytes_of_u32 w)"
proof -
  have "sub_word aes_gen_tables w = word4 (sub_at 0 w) (sub_at 1 w) (sub_at 2 w) (sub_at 3 w)"
    by (simp add: sub_word_def word4_def ac_simps)
  then show ?thesis by (simp add: bytes_word4 sub_bytes_def sub_bytes_word)
qed

lemma RCON_rcon: "i < 10 \<Longrightarrow> bytes_of_u32 (RCON aes_gen_tables ! i) = rcon (Suc i)"
proof -
  assume i: "i < 10"
  have "map bytes_of_u32 (RCON aes_gen_tables) = map (\<lambda>i. rcon (Suc i)) [0..<10]"
    by (simp add: aes_gen_tables_def Let_def gen_RCON_values bytes_of_u32_def xtime_def upt_rec)
  moreover have "length (RCON aes_gen_tables) = 10" by (simp add: aes_gen_tables_def Let_def gen_RCON_values)
  then have "bytes_of_u32 (RCON aes_gen_tables ! i) = map bytes_of_u32 (RCON aes_gen_tables) ! i" using i by simp
  ultimately show ?thesis using i by (simp only: nth_map_upt length_upt) simp
qed

text \<open>The words one after the other; a turn of each loop is \<open>nk\<close> of these steps.\<close>

definition next_word :: "nat \<Rightarrow> u32 list \<Rightarrow> u32" where
  "next_word nk w = w ! (length w - nk) XOR
     (if length w mod nk = 0 then RCON aes_gen_tables ! (length w div nk - 1) XOR sub_rotated aes_gen_tables (last w)
      else if nk > 6 \<and> length w mod nk = 4 then sub_word aes_gen_tables (last w) else last w)"

definition expanded :: "nat \<Rightarrow> byte list \<Rightarrow> u32 list \<Rightarrow> bool" where
  "expanded nk key w \<longleftrightarrow> 0 < nk \<and> nk \<le> length w \<and> (\<forall>i < length w. bytes_of_u32 (w ! i) = key_word nk key i)"

definition add_word :: "nat \<Rightarrow> u32 list \<Rightarrow> u32 list" where
  "add_word nk w = w @ [next_word nk w]"

lemma xor_bytes_commute: "xor_bytes x y = xor_bytes y x"
  by (induction x y rule: list_induct2') (simp_all add: xor_bytes_def xor.commute)

lemma expanded_add_word:
  assumes "expanded nk key w" "length w < 11 * nk"
  shows "expanded nk key (add_word nk w)"
proof -
  let ?n = "length w"
  have ok: "0 < nk" "nk \<le> ?n" and w: "\<And>i. i < ?n \<Longrightarrow> bytes_of_u32 (w ! i) = key_word nk key i"
    using assms(1) by (auto simp: expanded_def)
  have "w \<noteq> []" using ok by auto
  then have last: "bytes_of_u32 (last w) = key_word nk key (?n - 1)" using w [of "?n - 1"] by (simp add: last_conv_nth)
  have first: "bytes_of_u32 (w ! (?n - nk)) = key_word nk key (?n - nk)" using w [of "?n - nk"] ok by simp
  have div: "?n div nk - 1 < 10" "Suc (?n div nk - 1) = ?n div nk"
    using assms(2) ok by (auto simp: less_mult_imp_div_less div_greater_zero_iff Suc_le_eq less_diff_conv2)
  have "bytes_of_u32 (RCON aes_gen_tables ! (?n div nk - 1)) = rcon (?n div nk)" using RCON_rcon [OF div(1)] div(2) by simp
  then have "bytes_of_u32 (next_word nk w) = key_word nk key ?n"
    by (subst key_word.simps)
      (use ok in \<open>simp add: next_word_def bytes_of_u32_xor first last bytes_sub_rotated bytes_sub_word
         xor_bytes_commute [of "sub_bytes _"] del: rcon.simps One_nat_def\<close>)
  then show ?thesis
    using ok w by (auto simp: expanded_def add_word_def nth_append less_Suc_eq)
qed

lemma expanded_add_words:
  "expanded nk key w \<Longrightarrow> length w + n \<le> 11 * nk \<Longrightarrow> expanded nk key ((add_word nk ^^ n) w)"
proof (induction n)
  case (Suc n)
  have "length ((add_word nk ^^ n) w) = length w + n" by (induction n) (simp_all add: add_word_def)
  then show ?case using Suc expanded_add_word by simp
qed simp

lemma split_last_words:
  assumes "length w = nk * Suc i"
  obtains v u where "w = v @ u" "length v = nk * i" "length u = nk"
  using assms by (intro that [of "take (nk * i) w" "drop (nk * i) w"]) simp_all

definition turn_word :: "nat \<Rightarrow> nat \<Rightarrow> u32 list \<Rightarrow> u32 list \<Rightarrow> u32" where
  "turn_word nk i u x = u ! length x XOR
     (if x = [] then RCON aes_gen_tables ! i XOR sub_rotated aes_gen_tables (u ! (nk - 1))
      else if nk > 6 \<and> length x = 4 then sub_word aes_gen_tables (last x) else last x)"

definition turn_step :: "nat \<Rightarrow> nat \<Rightarrow> u32 list \<Rightarrow> u32 list \<Rightarrow> u32 list" where
  "turn_step nk i u x = x @ [turn_word nk i u x]"

lemma add_word_turn:
  assumes "length v = nk * i" "length u = nk" "length x < nk"
  shows "add_word nk (v @ u @ x) = v @ u @ turn_step nk i u x"
proof -
  have "length (v @ u @ x) mod nk = length x" using assms by simp
  moreover have "(nk + length x) div nk = 1" using assms by (simp add: div_add_self1)
  then have "length (v @ u @ x) div nk - 1 = i" using assms by simp
  moreover have "(v @ u @ x) ! (length (v @ u @ x) - nk) = u ! length x" using assms by (simp add: nth_append)
  moreover have "last (v @ u @ x) = (if x = [] then u ! (nk - 1) else last x)" using assms by (auto simp: last_append last_conv_nth)
  ultimately show ?thesis
    unfolding add_word_def next_word_def turn_step_def turn_word_def
    by (cases "x = []") (simp_all del: length_append)
qed

lemma turn_words:
  assumes "length v = nk * i" "length u = nk"
  shows "n \<le> nk \<Longrightarrow> (add_word nk ^^ n) (v @ u) = v @ u @ (turn_step nk i u ^^ n) []"
proof (induction n)
  case (Suc n)
  have "length ((turn_step nk i u ^^ n) []) = n" by (induction n) (simp_all add: turn_step_def)
  with Suc show ?case by (simp add: add_word_turn [OF assms])
qed simp

lemma funpow_turns: "(f ^^ 4) x = f (f (f (f x)))" "(f ^^ 6) x = f (f (f (f (f (f x)))))" "(f ^^ 8) x = f (f (f (f (f (f (f (f x)))))))"
  by (simp_all add: eval_nat_numeral)

lemma turns:
  "(turn_step 4 i u ^^ 4) [] = key_turn_128 aes_gen_tables i u"
  "(turn_step 6 i u ^^ 6) [] = key_turn_192 aes_gen_tables i u"
  "(turn_step 8 i u ^^ 8) [] = key_turn_256 aes_gen_tables i u"
  by (simp_all add: funpow_turns turn_step_def turn_word_def Let_def xor.assoc) (simp_all add: eval_nat_numeral)

lemma key_loop_words:
  assumes turn: "\<And>i u. length u = nk \<Longrightarrow> length (turn i u) = nk \<and> turn i u = (turn_step nk i u ^^ nk) []"
    and "expanded nk key w" "length w = nk" "n < 11"
  shows "expanded nk key (key_loop turn nk n w) \<and> length (key_loop turn nk n w) = nk * Suc n"
  using assms(4)
proof (induction n)
  case 0
  show ?case using assms(2,3) by (simp add: key_loop_def)
next
  case (Suc n)
  let ?w = "key_loop turn nk n w"
  have IH: "expanded nk key ?w" "length ?w = nk * Suc n" using Suc by auto
  obtain v u where vu: "?w = v @ u" "length v = nk * n" "length u = nk" using IH(2) by (rule split_last_words)
  have "key_loop turn nk (Suc n) w = ?w @ turn n u" using vu by (simp add: key_loop_def)
  also have "\<dots> = (add_word nk ^^ nk) ?w" using turn_words [OF vu(2,3), of nk] turn [OF vu(3)] vu(1) by simp
  finally have "key_loop turn nk (Suc n) w = (add_word nk ^^ nk) ?w" .
  moreover have "nk * Suc n + nk \<le> 11 * nk" using Suc.prems by (simp add: mult.commute flip: mult_Suc_right)
  moreover have "length (key_loop turn nk (Suc n) w) = nk * Suc (Suc n)"
    using \<open>key_loop turn nk (Suc n) w = ?w @ turn n u\<close> conjunct1 [OF turn [OF vu(3)], of n] IH(2) by simp
  ultimately show ?case using expanded_add_words [OF IH(1), of nk] IH(2) by simp
qed

lemma key_words_expanded:
  assumes "0 < nk" "length key = 4 * nk"
  shows "expanded nk key (key_words key (32 * nk))" "length (key_words key (32 * nk)) = nk"
  using assms by (simp_all add: expanded_def key_words_def key_word.simps)

lemma setkey_expands:
  assumes "nk \<in> {4, 6, 8}" "length key = 4 * nk"
  obtains ctx where "mbedtls_aes_setkey_enc key (32 * nk) = Inr ctx" "nr ctx = nk + 6"
    "expanded nk key (rk ctx)" "4 * (nk + 7) \<le> length (rk ctx)"
proof -
  have w: "expanded nk key (key_words key (32 * nk))" "length (key_words key (32 * nk)) = nk"
    using assms by (auto intro!: key_words_expanded)
  from assms(1) consider "nk = 4" | "nk = 6" | "nk = 8" by auto
  then show thesis
  proof cases
    case 1
    then show thesis using w key_loop_words [of 4 "key_turn_128 aes_gen_tables" key "key_words key 128" 10]
      by (intro that [of "\<lparr>nr = 10, rk = key_loop (key_turn_128 aes_gen_tables) 4 10 (key_words key 128)\<rparr>"])
        (simp_all add: mbedtls_aes_setkey_enc_def Let_def turns)
  next
    case 2
    then show thesis using w key_loop_words [of 6 "key_turn_192 aes_gen_tables" key "key_words key 192" 8]
      by (intro that [of "\<lparr>nr = 12, rk = key_loop (key_turn_192 aes_gen_tables) 6 8 (key_words key 192)\<rparr>"])
        (simp_all add: mbedtls_aes_setkey_enc_def Let_def turns)
  next
    case 3
    then show thesis using w key_loop_words [of 8 "key_turn_256 aes_gen_tables" key "key_words key 256" 7]
      by (intro that [of "\<lparr>nr = 14, rk = key_loop (key_turn_256 aes_gen_tables) 8 7 (key_words key 256)\<rparr>"])
        (simp_all add: mbedtls_aes_setkey_enc_def Let_def turns)
  qed
qed

lemma bytes_at_round_key:
  "expanded nk key w \<Longrightarrow> 4 * r + 4 \<le> length w \<Longrightarrow> bytes_at w r = round_key nk key r"
  by (auto simp: bytes_at_def round_key_def expanded_def intro!: arg_cong [of _ _ concat])

lemma split_words:
  assumes "length input = 16"
  shows "bytes_of_words (u32_of_bytes (take 4 input), u32_of_bytes (take 4 (drop 4 input)),
    u32_of_bytes (take 4 (drop 8 input)), u32_of_bytes (take 4 (drop 12 input))) = input"
proof -
  have four: "drop n input = take 4 (drop n input) @ drop (n + 4) input" for n
    using append_take_drop_id [of 4 "drop n input"] by (simp add: add.commute)
  have "input = take 4 input @ take 4 (drop 4 input) @ take 4 (drop 8 input) @ take 4 (drop 12 input)"
    using four [of 0] four [of 4] four [of 8] four [of 12] assms by simp
  then show ?thesis using assms by (simp add: bytes_of_words_def)
qed

lemma bytes_of_words_xor:
  "bytes_of_words (a XOR w ! 0, b XOR w ! 1, c XOR w ! 2, d XOR w ! 3) = xor_bytes (bytes_of_words (a, b, c, d)) (bytes_at w 0)"
  by (simp add: bytes_of_words_def bytes_of_u32_xor bytes_at_words numeral_2_eq_2)

lemma encrypt_is_fips:
  assumes ctx: "expanded nk key (rk ctx)" "4 * (nk + 7) \<le> length (rk ctx)" "nr ctx = nk + 6"
    and nk: "even nk" and input: "length input = 16"
  shows "mbedtls_internal_aes_encrypt ctx input = fips197 nk key input"
proof -
  let ?w = "rk ctx" and ?n = "nr ctx div 2 - 1"
  let ?x = "(u32_of_bytes (take 4 input) XOR ?w ! 0, u32_of_bytes (take 4 (drop 4 input)) XOR ?w ! 1,
    u32_of_bytes (take 4 (drop 8 input)) XOR ?w ! 2, u32_of_bytes (take 4 (drop 12 input)) XOR ?w ! 3)"
  obtain RK y where d: "double_rounds aes_gen_tables ?n (drop 4 ?w) ?x = (RK, y)"
    by (meson surj_pair)
  have n: "2 * ?n = nk + 4" using ctx(3) nk by (auto elim!: evenE)
  have "8 * ?n \<le> length (drop 4 ?w)" using n ctx(2) by simp
  note D = double_rounds_fips [OF this d]
  have key: "bytes_at (drop (4 * k) ?w) r = round_key nk key (k + r)" if "k + r \<le> nk + 6" for k r
    using bytes_at_drop [of k r ?w] bytes_at_round_key [OF ctx(1), of "k + r"] ctx(2) that by simp
  have "8 * m + 4 = 4 * (nk + 5)" if "2 * m = nk + 4" for m
    using arg_cong [OF that, of "\<lambda>k. 4 * k + 4"] by simp
  note this [OF n]
  then have RK: "RK = drop (4 * (nk + 5)) ?w" using D(1) by (simp only: drop_drop)
  then have RK4: "drop 4 RK = drop (4 * (nk + 6)) ?w" by (simp add: algebra_simps)
  have x: "bytes_of_words ?x = xor_bytes input (round_key nk key 0)"
    unfolding bytes_of_words_xor split_words [OF input] using key [of 0 0] by simp
  have "bytes_of_words y = fold (\<lambda>r. fips_round (round_key nk key (Suc r))) [0..<nk + 4] (bytes_of_words ?x)"
    unfolding D(2) n by (intro fold_cong) (use key [of 1] in simp_all)
  also have "\<dots> = fold (\<lambda>r. fips_round (round_key nk key r)) (map Suc [0..<nk + 4]) (bytes_of_words ?x)"
    by (simp only: fold_map comp_def)
  also have "map Suc [0..<nk + 4] = [1..<nk + 5]" by (simp add: map_Suc_upt add.commute)
  also note x
  finally have y: "bytes_of_words y = fold (\<lambda>r. fips_round (round_key nk key r)) [1..<nk + 5] (xor_bytes input (round_key nk key 0))" .
  have "[1..<nk + 6] = [1..<nk + 5] @ [nk + 5]" using upt_Suc_append [of 1 "nk + 5"] by (simp add: eval_nat_numeral)
  then have "bytes_of_words (last_round aes_gen_tables (drop 4 RK) (AES_FROUND aes_gen_tables RK y)) = fips197 nk key input"
    using key [of "nk + 5" 0] key [of "nk + 6" 0]
    by (simp add: bytes_AES_FROUND bytes_last_round RK4 RK y fips197_def add.commute del: upt_Suc)
  then show ?thesis
    by (simp only: mbedtls_internal_aes_encrypt_def Let_def d prod.case bytes_of_words_def)
qed

lemma internal_encrypt_fips:
  assumes "nk \<in> {4, 6, 8}" "length key = 4 * nk" "length input = 16" "mbedtls_aes_setkey_enc key (32 * nk) = Inr ctx"
  shows "mbedtls_internal_aes_encrypt ctx input = fips197 nk key input"
proof -
  obtain c where c: "mbedtls_aes_setkey_enc key (32 * nk) = Inr c" "nr c = nk + 6" "expanded nk key (rk c)"
    "4 * (nk + 7) \<le> length (rk c)"
    by (rule setkey_expands [OF assms(1,2)])
  have "c = ctx" using c(1) assms(4) by simp
  moreover have "even nk" using assms(1) by auto
  ultimately show ?thesis using encrypt_is_fips c(2-4) assms(3) by blast
qed

section \<open>The cipher is the standard's\<close>

text \<open>C3. For a key of 16, 24 or 32 bytes the context that \<open>mbedtls_aes_setkey_enc\<close> sets up encrypts
  every block of 16 bytes as FIPS 197 says: the generated tables, the tables of four columns, the
  double rounds of the loop and the three loops of the key schedule compute the standard's S-box,
  rounds and key expansion.\<close>
theorem aes_is_fips197:
  assumes "nk \<in> {4, 6, 8}" "length key = 4 * nk" "length input = 16"
  shows "\<exists>ctx. mbedtls_aes_setkey_enc key (32 * nk) = Inr ctx
    \<and> mbedtls_internal_aes_encrypt ctx input = fips197 nk key input"
proof -
  obtain ctx where "mbedtls_aes_setkey_enc key (32 * nk) = Inr ctx" by (rule setkey_expands [OF assms(1,2)])
  with internal_encrypt_fips [OF assms] show ?thesis by blast
qed

definition fips_key :: "byte list" where
  "fips_key = map of_nat [0..<16]"

definition fips_input :: "byte list" where
  "fips_input = map (\<lambda>i. of_nat (17 * i)) [0..<16]"

theorem aes_is_fips197_witness:
  "\<exists>ctx. mbedtls_aes_setkey_enc fips_key 128 = Inr ctx
    \<and> mbedtls_internal_aes_encrypt ctx fips_input = fips197 4 fips_key fips_input"
  using aes_is_fips197 [of 4 fips_key fips_input] by (simp add: fips_key_def fips_input_def)

section \<open>Below GCM\<close>

lemma length_internal_encrypt: "length (mbedtls_internal_aes_encrypt ctx input) = 16"
  by (simp add: mbedtls_internal_aes_encrypt_def Let_def split: prod.split)

text \<open>The instructions of a processor for AES return a block.\<close>

definition aes_hardware_ok :: "(byte list \<Rightarrow> nat \<Rightarrow> byte list \<Rightarrow> byte list) option \<Rightarrow> bool" where
  "aes_hardware_ok aesni \<longleftrightarrow> (\<forall>f key bits input. aesni = Some f \<longrightarrow> length (f key bits input) = 16)"

end
