(* ===== verification/GcmSpec.thy ===== *)
theory GcmSpec
  imports GcmField AesSpec Wire
begin

text \<open>
  NIST SP 800-38D as a reference for \<open>Gcm\<close>: the counter mode, the hash over GF(2^128) and the
  authenticated encryption built from them. The wrapper's \<open>encryptGcm\<close> computes it, and with the
  context of a session key it computes it over the cipher of FIPS 197.
\<close>

section \<open>The standard\<close>

definition inc32 :: "byte list \<Rightarrow> byte list" where
  "inc32 cb = take 12 cb @ put_uint32_be (get_uint32_be cb 12 + 1)"

function gctr :: "(byte list \<Rightarrow> byte list) \<Rightarrow> byte list \<Rightarrow> byte list \<Rightarrow> byte list" where
  "gctr E cb p = (if p = [] then [] else map2 (XOR) (E cb) (take 16 p) @ gctr E (inc32 cb) (drop 16 p))"
  by auto
termination by (relation "measure (\<lambda>(E, cb, p). length p)") auto

declare gctr.simps [simp del]

definition bytes_of_field :: "field \<Rightarrow> byte list" where
  "bytes_of_field z = put_uint64_be (ucast (drop_bit 64 z)) @ put_uint64_be (ucast z)"

text \<open>The hash over the blocks of some data; the last block is filled with zeros.\<close>

definition zero_block :: "byte list \<Rightarrow> byte list" where
  "zero_block p = take 16 (p @ replicate 16 0)"

function ghash :: "field \<Rightarrow> field \<Rightarrow> byte list \<Rightarrow> field" where
  "ghash h y p = (if p = [] then y else ghash h (field_mult (y XOR block_of (zero_block p)) h) (drop 16 p))"
  by auto
termination by (relation "measure (\<lambda>(h, y, p). length p)") auto

declare ghash.simps [simp del]

definition gcm_ae :: "(byte list \<Rightarrow> byte list) \<Rightarrow> byte list \<Rightarrow> byte list \<Rightarrow> byte list \<Rightarrow> byte list \<times> byte list" where
  "gcm_ae E iv add p =
     (let h = block_of (E (replicate 16 0)); j0 = iv @ [0, 0, 0, 1]; c = gctr E (inc32 j0) p;
          lengths = put_uint64_be (of_nat (8 * length add)) @ put_uint64_be (of_nat (8 * length c));
          s = ghash h (ghash h (ghash h 0 add) c) lengths
      in (c, map2 (XOR) (E j0) (bytes_of_field s)))"

section \<open>The counter\<close>

definition word_be :: "byte \<Rightarrow> byte \<Rightarrow> byte \<Rightarrow> byte \<Rightarrow> u32" where
  "word_be a b c d = ucast a * 2 ^ 24 + ucast b * 2 ^ 16 + ucast c * 2 ^ 8 + ucast d"

lemma get_uint32_be_sum: "get_uint32_be x i = word_be (x ! i) (x ! (i + 1)) (x ! (i + 2)) (x ! (i + 3))"
proof -
  have or: "(u :: u32) OR v = u + v" if "u AND v = 0" for u v
    using that by (simp add: disjunctive_add_eq_or)
  have "push_bit 24 (ucast a) OR push_bit 16 (ucast b) OR push_bit 8 (ucast c) OR (ucast d :: u32) = word_be a b c d"
    for a b c d :: byte
  proof -
    let ?A = "push_bit 24 (ucast a) :: u32" and ?B = "push_bit 16 (ucast b) :: u32"
      and ?C = "push_bit 8 (ucast c) :: u32" and ?D = "ucast d :: u32"
    have z: "?A AND ?B = 0" "(?A OR ?B) AND ?C = 0" "((?A OR ?B) OR ?C) AND ?D = 0"
      by (intro bit_word_eqI; auto simp: bit_simps byte_bit_out)+
    have "((?A OR ?B) OR ?C) OR ?D = ((?A OR ?B) OR ?C) + ?D" by (rule or [OF z(3)])
    moreover have "(?A OR ?B) OR ?C = (?A OR ?B) + ?C" by (rule or [OF z(2)])
    moreover have "?A OR ?B = ?A + ?B" by (rule or [OF z(1)])
    ultimately have "((?A OR ?B) OR ?C) OR ?D = ?A + ?B + ?C + ?D" by (simp only:)
    then show ?thesis by (simp add: word_be_def push_bit_eq_mult or.assoc mult.commute)
  qed
  then show ?thesis by (simp add: get_uint32_be_def)
qed

lemma put_get_uint32_be: "put_uint32_be (get_uint32_be [a, b, c, d] 0) = [a, b, c, d]"
  unfolding put_uint32_be_def get_uint32_be_def list.inject
  by (intro conjI refl bit_word_eqI) (auto simp: bit_simps byte_bit_out)

lemma put_word_be: "put_uint32_be (word_be a b c d) = [a, b, c, d]"
  using put_get_uint32_be [of a b c d] get_uint32_be_sum [of "[a, b, c, d]" 0] by (simp add: numeral_2_eq_2 numeral_3_eq_3)

lemma ucast_inc: "b + 1 \<noteq> 0 \<Longrightarrow> (ucast (b + 1 :: byte) :: u32) = ucast b + 1"
proof -
  assume b: "b + 1 \<noteq> 0"
  have "unat b \<noteq> 255"
  proof
    assume "unat b = 255"
    then have "b = 255" by (simp add: word_unat_eq_iff)
    with b show False by simp
  qed
  then have "unat b < 255" using unat_byte [of b] by simp
  then show ?thesis
    by (intro word_unat_eq_iff [THEN iffD2]) (simp add: unat_word_ariths unsigned_ucast_eq take_bit_eq_mod)
qed

lemma ucast_wrap: "b + 1 = 0 \<Longrightarrow> (ucast (b :: byte) :: u32) = 255"
proof -
  assume "b + 1 = 0"
  then have "b + 1 = 255 + 1" by simp
  then have "b = 255" by (simp only: add_right_cancel)
  then show ?thesis by simp
qed

lemma four_bytes: "length x = 4 \<Longrightarrow> \<exists>a b c d. x = [a, b, c, d]"
  by (auto simp: length_Suc_conv numeral_eq_Suc)

lemma inc_counter_inc32:
  assumes "length y = 16"
  shows "inc_counter y 16 = inc32 y"
proof -
  have "length (take 12 y) = 12" "length (drop 12 y) = 4" using assms by simp_all
  then obtain a b c d where "drop 12 y = [a, b, c, d]" using four_bytes by blast
  then obtain x where y: "y = x @ [a, b, c, d]" "length x = 12"
    using append_take_drop_id [of 12 y] \<open>length (take 12 y) = 12\<close> by metis
  have inc: "inc32 y = x @ put_uint32_be (word_be a b c d + 1)"
    using y by (simp add: inc32_def get_uint32_be_sum nth_append numeral_2_eq_2 numeral_3_eq_3)
  consider "d + 1 \<noteq> 0" | "d + 1 = 0" "c + 1 \<noteq> 0" | "d + 1 = 0" "c + 1 = 0" "b + 1 \<noteq> 0" | "d + 1 = 0" "c + 1 = 0" "b + 1 = 0"
    by blast
  then show ?thesis
  proof cases
    case 1
    then have "word_be a b c d + 1 = word_be a b c (d + 1)" by (simp add: word_be_def ucast_inc)
    then show ?thesis using 1 y inc put_word_be by (simp add: inc_counter.simps nth_append list_update_append)
  next
    case 2
    then have "word_be a b c d + 1 = word_be a b (c + 1) (d + 1)" by (auto simp: word_be_def ucast_inc ucast_wrap distrib_right)
    then show ?thesis using 2 y inc put_word_be by (simp add: inc_counter.simps nth_append list_update_append)
  next
    case 3
    then have "word_be a b c d + 1 = word_be a (b + 1) (c + 1) (d + 1)" by (auto simp: word_be_def ucast_inc ucast_wrap distrib_right)
    then show ?thesis using 3 y inc put_word_be by (simp add: inc_counter.simps nth_append list_update_append)
  next
    case 4
    then have "word_be a b c d + 1 = word_be (a + 1) (b + 1) (c + 1) (d + 1)"
      by (cases "a + 1 = 0") (auto simp: word_be_def ucast_inc ucast_wrap distrib_right)
    then show ?thesis using 4 y inc put_word_be by (simp add: Let_def inc_counter.simps nth_append list_update_append)
  qed
qed

section \<open>The hash\<close>

lemma bytes_of_field_of: "bytes_of_field (field_of (zh, zl)) = put_uint64_be zh @ put_uint64_be zl"
proof -
  have "ucast (drop_bit 64 (field_of (zh, zl))) = zh"
    by (rule bit_word_eqI) (simp add: bit_simps bit_field_of)
  moreover have "ucast (field_of (zh, zl)) = zl"
    by (rule bit_word_eqI) (simp add: bit_simps bit_field_of)
  ultimately show ?thesis by (simp add: bytes_of_field_def)
qed

lemma length_bytes_of_field [simp]: "length (bytes_of_field z) = 16"
  by (simp add: bytes_of_field_def)

lemma block_of_bytes [simp]: "block_of (bytes_of_field z) = z"
proof -
  have "field_of (ucast (drop_bit 64 z), ucast z) = z"
    by (rule bit_word_eqI) (auto simp: bit_field_of bit_simps)
  then show ?thesis by (simp add: bytes_of_field_def block_of_put)
qed

lemma gcm_mult_bytes:
  assumes "tables_ok ctx h" "clmul ctx = None"
  shows "gcm_mult ctx x = bytes_of_field (field_mult (block_of x) h)"
proof -
  obtain zh zl where g: "gcm_mult ctx x = put_uint64_be zh @ put_uint64_be zl" using gcm_mult_rows [OF assms] by blast
  then have "field_of (zh, zl) = field_mult (block_of x) h" using gcm_mult_field_mult [OF assms, of x] by (simp add: block_of_put)
  then show ?thesis using bytes_of_field_of [of zh zl] by (simp add: g)
qed

lemma field_bit_eqI:
  assumes "\<And>b k. b < 16 \<Longrightarrow> k < 8 \<Longrightarrow> bit x (127 - (8 * b + k)) = bit y (127 - (8 * b + k))"
  shows "x = (y :: field)"
proof (rule bit_word_eqI)
  fix n assume "n < LENGTH(128)"
  then have n: "n < 128" by simp
  define b k where "b = (127 - n) div 8" and "k = (127 - n) mod 8"
  have "127 - (8 * b + k) = n" using n by (simp add: b_def k_def)
  moreover have "b < 16" "k < 8" using n by (auto simp: b_def k_def)
  ultimately show "bit x n = bit y n" using assms by metis
qed

lemma length_zero_block [simp]: "length (zero_block p) = 16"
  by (simp add: zero_block_def)

lemma block_of_xor_into:
  assumes "length buf = 16" "length p \<le> 16"
  shows "block_of (xor_into buf p) = block_of buf XOR block_of (zero_block p)"
proof (rule field_bit_eqI)
  fix b k :: nat
  assume bk: "b < 16" "k < 8"
  show "bit (block_of (xor_into buf p)) (127 - (8 * b + k)) = bit (block_of buf XOR block_of (zero_block p)) (127 - (8 * b + k))"
    using assms bk by (simp add: bit_xor_iff block_of_bit xor_into_nth zero_block_def nth_append)
qed

lemma zero_block_take [simp]: "zero_block (take 16 p) = zero_block p"
  by (cases "length p \<le> 16") (simp_all add: zero_block_def)

lemma zero_block_16 [simp]: "length w = 16 \<Longrightarrow> zero_block w = w"
  by (simp add: zero_block_def)

lemma ghash_nil [simp]: "ghash h y [] = y"
  by (simp add: ghash.simps)

lemma ghash_block: "length w = 16 \<Longrightarrow> ghash h y w = field_mult (y XOR block_of w) h"
  by (subst ghash.simps) auto

lemma absorb_ghash:
  assumes "tables_ok ctx h" "clmul ctx = None"
  shows "absorb ctx (bytes_of_field y) p = bytes_of_field (ghash h y p)"
  using assms
proof (induction h y p rule: ghash.induct)
  case (1 h y p)
  have "absorb ctx (bytes_of_field y) p = absorb ctx (gcm_mult ctx (xor_into (bytes_of_field y) (take 16 p))) (drop 16 p)"
    if "p \<noteq> []" using that by (subst absorb.simps) simp
  then show ?case
    using 1 gcm_mult_bytes [OF 1(2,3)]
    by (cases "p = []") (simp_all add: absorb.simps [of _ _ "[]"] ghash.simps [of h y p] block_of_xor_into)
qed

section \<open>The stream\<close>

definition encrypting :: "gcm_context \<Rightarrow> (byte list \<Rightarrow> byte list) \<Rightarrow> field \<Rightarrow> bool" where
  "encrypting c E h \<longleftrightarrow> cipher_ctx c = (\<lambda>b. Inr (E b)) \<and> tables_ok c h \<and> clmul c = None
     \<and> gcm_mode c = MBEDTLS_GCM_ENCRYPT \<and> length (gcm_y c) = 16"

lemma length_inc32 [simp]: "length cb = 16 \<Longrightarrow> length (inc32 cb) = 16"
  by (simp add: inc32_def put_uint32_be_def)

lemma update_loop_gctr:
  assumes "encrypting c E h" "\<And>b. length (E b) = 16" "gcm_buf c = bytes_of_field y"
  shows "\<exists>d. update_loop c p = (0, d, gctr E (inc32 (gcm_y c)) p) \<and> encrypting d E h
    \<and> gcm_buf d = bytes_of_field (ghash h y (gctr E (inc32 (gcm_y c)) p))
    \<and> gcm_len d = gcm_len c \<and> gcm_add_len d = gcm_add_len c \<and> base_ectr d = base_ectr c"
  using assms(1,3)
proof (induction p arbitrary: c y rule: length_induct)
  case (1 p)
  show ?case
  proof (cases "p = []")
    case True
    then show ?thesis using 1(2,3) by (simp add: update_loop.simps gctr.simps [of _ _ "[]"])
  next
    case False
    let ?cb = "inc32 (gcm_y c)"
    let ?out = "map2 (XOR) (E ?cb) (take 16 p)"
    let ?d = "c\<lparr>gcm_y := ?cb, gcm_buf := gcm_mult c (xor_into (gcm_buf c) ?out)\<rparr>"
    have y: "inc_counter (gcm_y c) 16 = ?cb" using 1(2) by (simp add: encrypting_def inc_counter_inc32)
    have mult: "gcm_mult (c\<lparr>gcm_y := ?cb\<rparr>) x = gcm_mult c x" for x
      by (rule gcm_mult_cong) (simp add: same_key_def)
    have b: "update_block c (take 16 p) = (?d, Inr ?out)"
      using 1(2) by (simp add: update_block_def Let_def y encrypting_def gcm_consts mult)
    have len: "length ?out \<le> 16" by simp
    have d: "encrypting ?d E h" using 1(2) by (simp add: encrypting_def tables_ok_def)
    have buf: "gcm_buf ?d = bytes_of_field (field_mult (y XOR block_of (zero_block ?out)) h)"
      using 1(2,3) gcm_mult_bytes [of c h] by (simp add: encrypting_def block_of_xor_into [OF _ len])
    let ?rest = "gctr E (inc32 ?cb) (drop 16 p)"
    have g: "gctr E ?cb p = ?out @ ?rest" using False by (subst gctr.simps) simp
    have "length (drop 16 p) < length p" using False by simp
    then obtain e where e: "update_loop ?d (drop 16 p) = (0, e, ?rest)" "encrypting e E h"
      "gcm_buf e = bytes_of_field (ghash h (field_mult (y XOR block_of (zero_block ?out)) h) ?rest)"
      "gcm_len e = gcm_len c" "gcm_add_len e = gcm_add_len c" "base_ectr e = base_ectr c"
      using 1(1) d buf by fastforce
    have "?rest = [] \<or> length ?out = 16" using assms(2) by (cases "length p \<le> 16") (simp_all add: gctr.simps [of _ _ "[]"])
    moreover have "?out @ ?rest \<noteq> []" using False assms(2) [of ?cb] by (cases "E ?cb"; cases p) auto
    ultimately have "ghash h y (?out @ ?rest) = ghash h (field_mult (y XOR block_of (zero_block ?out)) h) ?rest"
      by (subst ghash.simps) (auto simp: zero_block_def)
    then show ?thesis
      using e False by (subst (1) update_loop.simps) (simp add: b g)
  qed
qed

section \<open>Authenticated encryption\<close>

lemma block_of_zeros [simp]: "block_of (replicate 16 0) = 0"
  by (rule field_bit_eqI) (simp add: block_of_bit)

lemma zeros_bytes: "replicate 16 0 = bytes_of_field 0"
  by (simp add: bytes_of_field_def put_uint64_be_def put_uint32_be_def eval_nat_numeral)

lemma field_mult_zero [simp]: "field_mult 0 h = 0"
proof -
  have "xsum (\<lambda>_. 0) n = 0" for n by (induction n) simp_all
  then show ?thesis by (simp add: field_mult_def)
qed

lemma length_gctr: "(\<And>b. length (E b) = 16) \<Longrightarrow> length (gctr E cb p) = length p"
proof (induction E cb p rule: gctr.induct)
  case (1 E cb p)
  then show ?case by (subst gctr.simps) (simp add: min_def)
qed

lemma times_8_zero: "n < 2 ^ 61 \<Longrightarrow> (of_nat n * 8 :: u64) = 0 \<Longrightarrow> n = 0"
proof -
  assume n: "n < 2 ^ 61" "(of_nat n * 8 :: u64) = 0"
  then have "(of_nat (n * 8) :: u64) = 0" by simp
  then have "2 ^ 64 dvd n * 8" by (simp only: word_of_nat_eq_0_iff) simp
  then show ?thesis using n(1) by (auto dest!: dvd_imp_le)
qed

lemma xor_into_map2: "length x = length y \<Longrightarrow> xor_into x y = map2 (XOR) x y"
  by (induction x y rule: list_induct2) simp_all

lemma starts_encrypting:
  assumes "cipher_ctx c = (\<lambda>b. Inr (E b))" "tables_ok c h" "clmul c = None" "length iv = 12" "length add < 2 ^ 61"
  obtains d where "mbedtls_gcm_starts c MBEDTLS_GCM_ENCRYPT iv add = (0, d)" "encrypting d E h"
    "gcm_y d = iv @ [0, 0, 0, 1]" "gcm_buf d = bytes_of_field (ghash h 0 add)" "base_ectr d = E (iv @ [0, 0, 0, 1])"
    "gcm_len d = 0" "gcm_add_len d = of_nat (length add)"
proof -
  let ?j0 = "iv @ [0, 0, 0, 1]"
  let ?d = "c\<lparr>gcm_y := ?j0, gcm_buf := bytes_of_field (ghash h 0 add), gcm_mode := MBEDTLS_GCM_ENCRYPT,
    gcm_len := 0, gcm_add_len := of_nat (length add), base_ectr := E ?j0\<rparr>"
  have y: "(iv @ [0, 0, 0, 0])[15 := 1] = ?j0" using assms(4) by (simp add: list_update_append)
  have a: "absorb c' (replicate 16 0) add = bytes_of_field (ghash h 0 add)"
    if "HH c' = HH c" "HL c' = HL c" "clmul c' = clmul c" for c'
    unfolding zeros_bytes by (rule absorb_ghash) (use assms(2,3) that in \<open>simp_all add: tables_ok_def\<close>)
  have "mbedtls_gcm_starts c MBEDTLS_GCM_ENCRYPT iv add = (0, ?d)"
    using assms(1,4,5) y a by (simp add: mbedtls_gcm_starts_def drop_bit_61 Let_def)
  moreover have "encrypting ?d E h" using assms by (simp add: encrypting_def tables_ok_def)
  ultimately show thesis by (rule that) simp_all
qed

lemma encrypt_is_gcm:
  assumes E: "cipher_ctx c = (\<lambda>b. Inr (E b))" "\<And>b. length (E b) = 16"
    and c: "tables_ok c (block_of (E (replicate 16 0)))" "clmul c = None"
    and sz: "aead_sizes iv add (length p)"
  shows "\<exists>d. encryptGcm c p iv add 16 0 = (0, d, gcm_ae E iv add p)"
proof -
  let ?h = "block_of (E (replicate 16 0))" and ?j0 = "iv @ [0, 0, 0, 1]"
  let ?x = "gctr E (inc32 ?j0) p" and ?a = "of_nat (length add) :: u64" and ?n = "of_nat (length p) :: u64"
  obtain d where d: "mbedtls_gcm_starts c MBEDTLS_GCM_ENCRYPT iv add = (0, d)" "encrypting d E ?h"
    "gcm_y d = ?j0" "gcm_buf d = bytes_of_field (ghash ?h 0 add)" "base_ectr d = E ?j0"
    "gcm_len d = 0" "gcm_add_len d = ?a"
    using sz by (elim starts_encrypting [OF E(1) c, rotated 2]) (simp_all add: aead_sizes_def)
  have u: "mbedtls_gcm_update d p 0 = update_loop (d\<lparr>gcm_len := ?n\<rparr>) p"
    using sz d(6) by (intro update_from_start) (simp_all add: aead_sizes_def)
  have "encrypting (d\<lparr>gcm_len := ?n\<rparr>) E ?h" using d(2) by (simp add: encrypting_def tables_ok_def)
  from update_loop_gctr [OF this E(2), of "ghash ?h 0 add" p] obtain e where
    e: "update_loop (d\<lparr>gcm_len := ?n\<rparr>) p = (0, e, ?x)" "encrypting e E ?h"
    "gcm_buf e = bytes_of_field (ghash ?h (ghash ?h 0 add) ?x)" "gcm_len e = ?n" "gcm_add_len e = ?a" "base_ectr e = E ?j0"
    using d by auto
  let ?s = "ghash ?h (ghash ?h (ghash ?h 0 add) ?x) (put_uint64_be (?a * 8) @ put_uint64_be (?n * 8))"
  have tag: "\<exists>f. mbedtls_gcm_finish e 16 = (0, f, map2 (XOR) (E ?j0) (bytes_of_field ?s))"
  proof (cases "?n * 8 \<noteq> 0 \<or> ?a * 8 \<noteq> 0")
    case True
    let ?w = "put_uint64_be (?a * 8) @ put_uint64_be (?n * 8)"
    have "length ?w = 16" by simp
    note w = this ghash_block [OF this]
    have "gcm_mult e (xor_into (gcm_buf e) ?w) = bytes_of_field ?s"
      using e(2) gcm_mult_bytes [of e ?h] by (simp add: e(3) encrypting_def block_of_xor_into w)
    then have "mbedtls_gcm_finish e 16 = (0, e\<lparr>gcm_buf := bytes_of_field ?s\<rparr>, xor_into (take 16 (E ?j0)) (take 16 (bytes_of_field ?s)))"
      using True by (simp add: mbedtls_gcm_finish_def Let_def e(4,5,6))
    then show ?thesis by (simp add: xor_into_map2 E(2))
  next
    case False
    then have "p = []" "add = []" using times_8_zero [of "length p"] times_8_zero [of "length add"] sz
      by (auto simp: aead_sizes_def)
    moreover have "put_uint64_be 0 @ put_uint64_be 0 = replicate 16 0"
      by (simp add: put_uint64_be_def put_uint32_be_def eval_nat_numeral)
    ultimately have "?s = 0"
      by (simp add: gctr.simps [of _ _ "[]"] ghash_block)
    moreover have "map2 (XOR) b (bytes_of_field 0) = b" if "length b = 16" for b
      using that by (intro nth_equalityI) (simp_all flip: zeros_bytes)
    ultimately show ?thesis using False e E(2)
      by (simp add: mbedtls_gcm_finish_def Let_def)
  qed
  have "length ?x = length p" by (rule length_gctr) (rule E(2))
  then have "gcm_ae E iv add p = (?x, map2 (XOR) (E ?j0) (bytes_of_field ?s))"
    by (simp add: gcm_ae_def Let_def mult.commute)
  with tag show ?thesis
    using d(1) u e(1) by (auto simp: encryptGcm_def mbedtls_gcm_crypt_and_tag_def)
qed

section \<open>With AES\<close>

lemma gctr_cong: "(\<And>b. length b = 16 \<Longrightarrow> E b = F b) \<Longrightarrow> length cb = 16 \<Longrightarrow> gctr E cb p = gctr F cb p"
proof (induction E cb p rule: gctr.induct)
  case (1 E cb p)
  then show ?case by (subst (1 2) gctr.simps) simp
qed

lemma gcm_ae_cong:
  assumes "\<And>b. length b = 16 \<Longrightarrow> E b = F b" "length iv = 12"
  shows "gcm_ae E iv add p = gcm_ae F iv add p"
  using gctr_cong [of E F "inc32 (iv @ [0, 0, 0, 1])" p] assms by (simp add: gcm_ae_def)

lemma aes_key_ctx:
  assumes "sys_lib e = aes_layer aesni True" "length key = 16"
  obtains actx where "mbedtls_aes_setkey_enc key 128 = Inr actx"
    "cipher_ctx (key_ctx e key) = (\<lambda>b. Inr (mbedtls_aes_crypt_ecb aesni key 128 actx b))"
    "sys_cpu e = None \<Longrightarrow> clmul (key_ctx e key) = None
       \<and> tables_ok (key_ctx e key) (block_of (mbedtls_aes_crypt_ecb aesni key 128 actx (replicate 16 0)))"
proof -
  obtain actx where actx: "mbedtls_aes_setkey_enc key 128 = Inr actx"
    using setkey_expands [of 4 key] assms(2) by auto
  let ?E = "\<lambda>b. Inr (mbedtls_aes_crypt_ecb aesni key 128 actx b)"
  let ?c = "(mbedtls_gcm_init (sys_cpu e))\<lparr>cipher_ctx := ?E\<rparr>"
  have k: "key_ctx e key = snd (gcm_gen_table ?c)"
    using actx assms(1) by (simp add: key_ctx_def KEYLEN_def initGCM_def mbedtls_gcm_setkey_def aes_128_layer
      case_prod_unfold Let_def)
  have "cipher_ctx (snd (gcm_gen_table ?c)) = ?E"
    by (simp add: gcm_gen_table_def Let_def case_prod_unfold)
  moreover have "clmul (snd (gcm_gen_table ?c)) = None \<and> tables_ok (snd (gcm_gen_table ?c)) (block_of (mbedtls_aes_crypt_ecb aesni key 128 actx (replicate 16 0)))"
    if "sys_cpu e = None"
    using gen_table_ok [of ?c "mbedtls_aes_crypt_ecb aesni key 128 actx (replicate 16 0)"] that
    by (auto simp: mbedtls_gcm_init_def)
  ultimately show thesis using that actx k by simp
qed

lemma aes_keyed:
  assumes "sys_lib e = aes_layer aesni True" "aes_hardware_ok aesni" "length key = 16"
  shows "gcm_keyed (key_ctx e key)"
proof -
  obtain actx where "cipher_ctx (key_ctx e key) = (\<lambda>b. Inr (mbedtls_aes_crypt_ecb aesni key 128 actx b))"
    using aes_key_ctx [OF assms(1,3)] by blast
  then show ?thesis using assms(2)
    by (simp add: gcm_keyed_def block_cipher_def mbedtls_aes_crypt_ecb_def length_internal_encrypt aes_hardware_ok_def
      split: option.split)
qed

text \<open>C2. With the library's own AES and its table multiplication, what the wrapper makes of a message
  under a session key of 16 bytes is the authenticated encryption of SP 800-38D over the cipher of
  FIPS 197, ciphertext and tag, and the wrapper opens it again; the context has the block cipher
  that the theorems about packets and sessions ask for.\<close>
theorem seal_is_aes_gcm:
  assumes "sys_lib e = aes_layer None True" "sys_cpu e = None" "length key = 16" "aead_sizes iv add (length p)"
  shows "gcm_keyed (key_ctx e key)
    \<and> (\<exists>k. encryptGcm (key_ctx e key) p iv add 16 0 = (0, k, gcm_ae (fips197 4 key) iv add p))
    \<and> (\<exists>k. decryptGcm (key_ctx e key) (fst (gcm_ae (fips197 4 key) iv add p)) iv add
          (snd (gcm_ae (fips197 4 key) iv add p)) 0 = (0, k, p))"
proof -
  have keyed: "gcm_keyed (key_ctx e key)"
    using assms by (intro aes_keyed [of e None]) (simp_all add: aes_hardware_ok_def)
  obtain actx where actx: "mbedtls_aes_setkey_enc key 128 = Inr actx"
    "cipher_ctx (key_ctx e key) = (\<lambda>b. Inr (mbedtls_internal_aes_encrypt actx b))" "clmul (key_ctx e key) = None"
    "tables_ok (key_ctx e key) (block_of (mbedtls_internal_aes_encrypt actx (replicate 16 0)))"
    using aes_key_ctx [OF assms(1,3)] assms(2) by (auto simp: mbedtls_aes_crypt_ecb_def)
  have fips: "mbedtls_internal_aes_encrypt actx b = fips197 4 key b" if "length b = 16" for b
    using internal_encrypt_fips [of 4 key b] assms(3) that actx(1) by simp
  have "gcm_ae (mbedtls_internal_aes_encrypt actx) iv add p = gcm_ae (fips197 4 key) iv add p"
    using assms(4) by (intro gcm_ae_cong fips) (simp_all add: aead_sizes_def)
  then obtain k where k: "encryptGcm (key_ctx e key) p iv add 16 0 = (0, k, gcm_ae (fips197 4 key) iv add p)"
    using encrypt_is_gcm [OF actx(2) length_internal_encrypt actx(4,3) assms(4)] by auto
  obtain c t where ct: "gcm_ae (fips197 4 key) iv add p = (c, t)" by fastforce
  then show ?thesis using keyed k gcm.unseal_seal [OF keyed gcm.same_refl assms(4), of k c t] by auto
qed

theorem seal_is_aes_gcm_witness:
  "\<exists>e k. encryptGcm (key_ctx e fips_key) [1, 2, 3] (replicate 12 9) [5] 16 0
     = (0, k, gcm_ae (fips197 4 fips_key) (replicate 12 9) [5] [1, 2, 3])"
proof -
  let ?e = "\<lparr>sys_alloc = zero_alloc, sys_cpu = None, sys_lib = aes_layer None True,
    sys_stack = \<lambda>_. 0, sys_priv = [], sys_full = False\<rparr>"
  show ?thesis
    using seal_is_aes_gcm [of ?e fips_key "replicate 12 9" "[5]" "[1, 2, 3]"]
    by (auto simp: aead_sizes_def fips_key_def)
qed

end
