(* ===== verification/Settings.thy ===== *)
theory Settings
  imports C_Prelude
begin

text \<open>
  The settings files: lines \<open>"name":"value"\<close>, read by \<open>initializeSettingsData\<close> of \<open>pckData.c\<close>, by
  \<open>loadInServerSettings\<close> of \<open>server.c\<close> and by \<open>loadInNodeSettings\<close> of \<open>client.c\<close> in the Linux build, each
  with the same loop, and rewritten by \<open>modifySetting\<close>.

  The loop asks for a block of the length of a text and then writes a NUL one byte behind it. What
  the program does depends on the bytes the allocator really gives: \<open>heap n\<close> is the usable block for
  a request of \<open>n\<close> bytes, at least that many. Printing, comparing or converting a missing name or
  value has no defined behaviour.
\<close>

section \<open>Reading lines\<close>

text \<open>\<open>fgets\<close> with 60: at most 59 bytes, up to and with the first newline. A file is its bytes.\<close>

definition fgets_60 :: "byte list \<Rightarrow> byte list" where
  "fgets_60 file = (let line = takeWhile (\<lambda>b. b \<noteq> 10) (take 59 file) in
     if length line < length (take 59 file) then take (length line + 1) file else line)"

lemma fgets_60_not_empty: "bytes \<noteq> [] \<Longrightarrow> 0 < length (fgets_60 bytes)"
  by (cases bytes) (auto simp: fgets_60_def Let_def)

function file_lines :: "byte list \<Rightarrow> byte list list" where
  "file_lines file =
     (if file = [] then [] else fgets_60 file # file_lines (drop (length (fgets_60 file)) file))"
  by auto
termination
  using fgets_60_not_empty by (relation "measure length") (auto intro!: diff_less)

declare file_lines.simps [simp del]

text \<open>\<open>strcspn(temp, "\n")\<close>, on the string that \<open>fgets\<close> left in \<open>temp\<close>.\<close>

definition line_text :: "byte list \<Rightarrow> byte list" where
  "line_text line = takeWhile (\<lambda>b. b \<noteq> 10 \<and> b \<noteq> 0) line"

section \<open>Quoted names and values\<close>

record quote_state =
  settingName :: "byte list option"
  settingValue :: "byte list option"
  settingNameBegin :: "nat option"
  settingValueBegin :: "nat option"

type_synonym heap_block = "nat \<Rightarrow> byte list"

text \<open>\<open>malloc\<close>, \<open>memcpy\<close> and the NUL behind it.\<close>

definition copy_quoted :: "heap_block \<Rightarrow> byte list \<Rightarrow> nat \<Rightarrow> nat \<Rightarrow> byte list option" where
  "copy_quoted heap temp begin_quote i = do {
     let len = i - begin_quote - 1;
     block \<leftarrow> store_bytes (heap len) 0 (take len (drop (begin_quote + 1) temp));
     store_bytes block len [0]
   }"

definition quote_char :: "heap_block \<Rightarrow> byte list \<Rightarrow> nat \<Rightarrow> quote_state \<Rightarrow> quote_state option" where
  "quote_char heap temp i st =
     (if temp ! i \<noteq> 34 then Some st
      else case (settingName st, settingNameBegin st, settingValueBegin st) of
        (None, Some b, _) \<Rightarrow> do { block \<leftarrow> copy_quoted heap temp b i; Some (st\<lparr>settingName := Some block\<rparr>) }
      | (None, None, _) \<Rightarrow> Some (st\<lparr>settingNameBegin := Some i\<rparr>)
      | (Some _, _, Some b) \<Rightarrow> do { block \<leftarrow> copy_quoted heap temp b i; Some (st\<lparr>settingValue := Some block\<rparr>) }
      | (Some _, _, None) \<Rightarrow> Some (st\<lparr>settingValueBegin := Some i\<rparr>))"

fun scan_line :: "heap_block \<Rightarrow> byte list \<Rightarrow> nat list \<Rightarrow> quote_state \<Rightarrow> quote_state option" where
  "scan_line heap temp [] st = Some st"
| "scan_line heap temp (i # is) st = do {
     st \<leftarrow> quote_char heap temp i st;
     if settingValue st \<noteq> None then Some st else scan_line heap temp is st
   }"

text \<open>The name and the value of a line, as they are printed.\<close>

definition read_setting :: "heap_block \<Rightarrow> byte list \<Rightarrow> (byte list \<times> byte list) option" where
  "read_setting heap line = do {
     st \<leftarrow> scan_line heap line [0..<length (line_text line)]
       \<lparr>settingName = None, settingValue = None, settingNameBegin = None, settingValueBegin = None\<rparr>;
     name \<leftarrow> settingName st;
     value \<leftarrow> settingValue st;
     Some (name, value)
   }"

text \<open>\<open>atoi\<close>: white space, a sign, digits; a value that is no \<open>int\<close> has no defined result.\<close>

definition is_space :: "byte \<Rightarrow> bool" where
  "is_space b \<longleftrightarrow> b = 32 \<or> 9 \<le> b \<and> b \<le> 13"

definition is_decimal :: "byte \<Rightarrow> bool" where
  "is_decimal b \<longleftrightarrow> 48 \<le> b \<and> b \<le> 57"

definition decimal_value :: "byte list \<Rightarrow> int" where
  "decimal_value ds = foldl (\<lambda>n d. 10 * n + (uint d - 48)) 0 ds"

definition atoi :: "byte list \<Rightarrow> int option" where
  "atoi s =
     (let s = dropWhile is_space s;
          negative = (s \<noteq> [] \<and> hd s = 45);
          s = (if s \<noteq> [] \<and> (hd s = 45 \<or> hd s = 43) then tl s else s);
          n = decimal_value (takeWhile is_decimal s);
          n = (if negative then - n else n)
      in if - (2 ^ 31) \<le> n \<and> n < 2 ^ 31 then Some n else None)"

section \<open>The three readers\<close>

record globalSettingsStruct =
  passExchangeMethod :: int

text \<open>\<open>strcmp\<close> is not compared with 0: every name but \<open>passExchangeMethod\<close> is taken.\<close>

definition protocol_setting :: "heap_block \<Rightarrow> byte list \<Rightarrow> globalSettingsStruct \<Rightarrow> globalSettingsStruct option" where
  "protocol_setting heap line g = do {
     (name, value) \<leftarrow> read_setting heap line;
     name \<leftarrow> c_string name;
     value \<leftarrow> c_string value;
     if name \<noteq> literal ''passExchangeMethod''
     then do { n \<leftarrow> atoi value; Some (g\<lparr>passExchangeMethod := n\<rparr>) }
     else Some g
   }"

fun each_line :: "(byte list \<Rightarrow> 's \<Rightarrow> 's option) \<Rightarrow> byte list list \<Rightarrow> 's \<Rightarrow> 's option" where
  "each_line f [] s = Some s"
| "each_line f (line # lines) s = do { s \<leftarrow> f line s; each_line f lines s }"

text \<open>\<open>None\<close> for the file is an \<open>fopen\<close> that fails.\<close>

definition initializeSettingsData ::
    "heap_block \<Rightarrow> byte list option \<Rightarrow> globalSettingsStruct \<Rightarrow> (int \<times> globalSettingsStruct) option" where
  "initializeSettingsData heap file g =
     (case file of
        None \<Rightarrow> Some (- 1, g)
      | Some bytes \<Rightarrow> map_option (\<lambda>g. (1, g)) (each_line (protocol_setting heap) (file_lines bytes) g))"

text \<open>The server only prints what it reads.\<close>

definition server_setting :: "heap_block \<Rightarrow> byte list \<Rightarrow> unit \<Rightarrow> unit option" where
  "server_setting heap line _ = do {
     (name, value) \<leftarrow> read_setting heap line;
     name \<leftarrow> c_string name;
     value \<leftarrow> c_string value;
     Some ()
   }"

definition read_server_config :: "heap_block \<Rightarrow> byte list option \<Rightarrow> int option" where
  "read_server_config heap file =
     (case file of
        None \<Rightarrow> Some (- 1)
      | Some bytes \<Rightarrow> map_option (\<lambda>_. 1) (each_line (server_setting heap) (file_lines bytes) ()))"

record nodeSettings_t =
  ns_devId :: "byte list"
  ns_devType :: u32

definition node_setting :: "heap_block \<Rightarrow> byte list \<Rightarrow> nodeSettings_t \<Rightarrow> nodeSettings_t option" where
  "node_setting heap line s = do {
     (name, block) \<leftarrow> read_setting heap line;
     name \<leftarrow> c_string name;
     value \<leftarrow> c_string block;
     if name = literal ''devId'' then do { devid \<leftarrow> load_bytes block 0 16; Some (s\<lparr>ns_devId := devid\<rparr>) }
     else if name = literal ''devType'' then do { n \<leftarrow> atoi value; Some (s\<lparr>ns_devType := word_of_int n\<rparr>) }
     else Some s
   }"

definition read_node_settings ::
    "heap_block \<Rightarrow> byte list option \<Rightarrow> nodeSettings_t \<Rightarrow> (int \<times> nodeSettings_t) option" where
  "read_node_settings heap file s =
     (case file of
        None \<Rightarrow> Some (- 1, s)
      | Some bytes \<Rightarrow> map_option (\<lambda>s. (1, s)) (each_line (node_setting heap) (file_lines bytes) s))"

section \<open>Changing a setting\<close>

text \<open>\<open>%d\<close> of the new value, which is passed as a \<open>uint32_t\<close>.\<close>

function decimal_nat :: "nat \<Rightarrow> byte list" where
  "decimal_nat n = (if n < 10 then [of_nat (48 + n)] else decimal_nat (n div 10) @ [of_nat (48 + n mod 10)])"
  by auto
termination by (relation "measure id") auto

declare decimal_nat.simps [simp del]

definition decimal :: "int \<Rightarrow> byte list" where
  "decimal n = (if n < 0 then [45] else []) @ decimal_nat (nat \<bar>n\<bar>)"

definition setting_line :: "byte list \<Rightarrow> u32 \<Rightarrow> byte list" where
  "setting_line name newOption = name @ [58] @ decimal (sint newOption) @ [10]"

text \<open>
  A turn of the loop: \<open>fgets\<close> leaves the line and a NUL in \<open>temp\<close>, and behind them what was there. The
  scan for the end of the name changes nothing that is used later.
\<close>

definition modify_line ::
    "byte list \<Rightarrow> nat \<Rightarrow> u32 \<Rightarrow> byte list \<Rightarrow> byte list \<times> byte list \<times> bool \<Rightarrow> (byte list \<times> byte list \<times> bool) option" where
  "modify_line setting settingLen newOption line = (\<lambda>(temp, out, found). do {
     temp \<leftarrow> store_bytes temp 0 (line @ [0]);
     a \<leftarrow> load_bytes setting 0 settingLen;
     b \<leftarrow> load_bytes temp 0 settingLen;
     if a = b then do { name \<leftarrow> c_string setting; Some (temp, out @ setting_line name newOption, True) }
     else do { text \<leftarrow> c_string temp; Some (temp, out @ text, found) }
   })"

text \<open>
  The file, the buffer of the function and the answers of \<open>fopen\<close> for the temporary file, of \<open>ferror\<close> and
  of \<open>rename\<close>, which nobody looks at;
  the results are the code and the file.
\<close>

definition modifySetting ::
    "byte list \<Rightarrow> bool \<Rightarrow> bool \<Rightarrow> bool \<Rightarrow> byte list \<Rightarrow> nat \<Rightarrow> u32 \<Rightarrow> byte list option \<Rightarrow> (int \<times> byte list option) option" where
  "modifySetting temp can_create io_error renamed setting settingLen newOption conf =
     (case conf of
        None \<Rightarrow> Some (- 1, conf)
      | Some bytes \<Rightarrow>
          if \<not> can_create then Some (- 1, conf)
          else do {
            (_, out, found) \<leftarrow> each_line (modify_line setting settingLen newOption) (file_lines bytes) (temp, [], False);
            name \<leftarrow> c_string setting;
            let out = (if found then out else out @ setting_line name newOption);
            if io_error then Some (- 2, conf) else Some (0, Some (if renamed then out else bytes))
          })"

section \<open>Lines as the readers want them\<close>

definition quoted_line :: "byte list \<Rightarrow> byte list \<Rightarrow> byte list" where
  "quoted_line name value = [34] @ name @ [34, 58, 34] @ value @ [34, 10]"

definition plain :: "byte list \<Rightarrow> bool" where
  "plain s \<longleftrightarrow> 34 \<notin> set s \<and> 10 \<notin> set s \<and> 0 \<notin> set s"

text \<open>The allocator gives more than it is asked for.\<close>

definition roomy :: "heap_block \<Rightarrow> byte list \<Rightarrow> bool" where
  "roomy heap s \<longleftrightarrow> length s < length (heap (length s))"

definition line_ok :: "heap_block \<Rightarrow> byte list \<Rightarrow> byte list \<Rightarrow> bool" where
  "line_ok heap name value \<longleftrightarrow> plain name \<and> plain value \<and> length name + length value \<le> 53 \<and> roomy heap name \<and> roomy heap value"

text \<open>The block that a text is copied into.\<close>

definition text_block :: "heap_block \<Rightarrow> byte list \<Rightarrow> byte list" where
  "text_block heap s = s @ 0 # drop (length s + 1) (heap (length s))"

lemma copy_quoted_text:
  assumes "temp = pre @ 34 # s @ 34 # post" "roomy heap s" "b = length pre" "i = b + 1 + length s"
  shows "copy_quoted heap temp b i = Some (text_block heap s)"
  using assms by (simp add: copy_quoted_def store_bytes_def text_block_def roomy_def Let_def)

lemma scan_line_append:
  "scan_line heap temp (is @ js) st = do {
     st \<leftarrow> scan_line heap temp is st;
     if is \<noteq> [] \<and> settingValue st \<noteq> None then Some st else scan_line heap temp js st }"
  by (induction "is" arbitrary: st) (auto split: bind_splits)

lemma scan_line_skip:
  "(\<And>i. i \<in> set is \<Longrightarrow> temp ! i \<noteq> 34) \<Longrightarrow> settingValue st = None \<Longrightarrow> scan_line heap temp is st = Some st"
  by (induction "is") (simp_all add: quote_char_def)

lemma line_text_quoted:
  assumes "plain name" "plain value"
  shows "length (line_text (quoted_line name value)) = length name + length value + 5"
proof -
  have "takeWhile (\<lambda>b. b \<noteq> 10 \<and> b \<noteq> 0) s = s" if "plain s" for s
    using that by (auto simp: plain_def takeWhile_eq_all_conv)
  then show ?thesis using assms
    by (auto simp: line_text_def quoted_line_def takeWhile_append plain_def)
qed

lemma quoted_indices:
  "[0..<n + v + 5] = [0] @ [1..<n + 1] @ [n + 1, n + 2, n + 3] @ [n + 4..<n + 4 + v] @ [n + 4 + v]"
proof -
  have split: "[i..<k] = [i..<j] @ [j..<k]" if "i \<le> j" "j \<le> k" for i j k :: nat
    using upt_add_eq_append [of i j "k - j"] that by simp
  have "[0..<n + v + 5] = [0..<1] @ [1..<n + 1] @ [n + 1..<n + 4] @ [n + 4..<n + 4 + v] @ [n + 4 + v..<n + v + 5]"
    by (subst split [of 0 1], simp, simp, subst split [of 1 "n + 1" "n + v + 5"], simp, simp,
      subst split [of "n + 1" "n + 4" "n + v + 5"], simp, simp, subst split [of "n + 4" "n + 4 + v" "n + v + 5"]) simp_all
  moreover have "[n + 1..<n + 4] = [n + 1, n + 2, n + 3]" "[n + 4 + v..<n + v + 5] = [n + 4 + v]"
    by (simp_all add: upt_rec)
  ultimately show ?thesis by simp
qed

lemma scan_segment:
  assumes "temp = pre @ s @ post" "plain s" "settingValue st = None" "n = length pre" "m = n + length s"
  shows "scan_line heap temp [n..<m] st = Some st"
proof (rule scan_line_skip [OF _ assms(3)])
  fix i
  assume "i \<in> set [n..<m]"
  then have "temp ! i = s ! (i - n)" "i - n < length s" using assms(1,4,5) by (auto simp: nth_append)
  then show "temp ! i \<noteq> 34" using assms(2) nth_mem by (metis plain_def)
qed

lemma read_quoted_line:
  assumes "line_ok heap name value"
  shows "read_setting heap (quoted_line name value) = Some (text_block heap name, text_block heap value)"
proof -
  let ?n = "length name" and ?v = "length value" and ?t = "quoted_line name value"
  have ok: "plain name" "plain value" "roomy heap name" "roomy heap value" using assms by (simp_all add: line_ok_def)
  have at: "?t ! 0 = 34" "?t ! (?n + 1) = 34" "?t ! (?n + 2) = 58" "?t ! (?n + 3) = 34" "?t ! (?n + 4 + ?v) = 34"
    by (simp_all add: quoted_line_def nth_append nth_Cons')
  have name: "scan_line heap ?t [1..<?n + 1] st = Some st" if "settingValue st = None" for st
    by (rule scan_segment [of _ "[34]" name "[34, 58, 34] @ value @ [34, 10]"]) (simp_all add: quoted_line_def ok that)
  have val: "scan_line heap ?t [?n + 4..<?n + 4 + ?v] st = Some st" if "settingValue st = None" for st
    by (rule scan_segment [of _ "[34] @ name @ [34, 58, 34]" "value" "[34, 10]"]) (simp_all add: quoted_line_def ok that)
  have copy: "copy_quoted heap ?t 0 (?n + 1) = Some (text_block heap name)"
    "copy_quoted heap ?t (?n + 3) (?n + 4 + ?v) = Some (text_block heap value)"
    by (rule copy_quoted_text [of _ "[]" _ "58 # 34 # value @ [34, 10]"], simp_all add: quoted_line_def ok)
      (rule copy_quoted_text [of _ "34 # name @ [34, 58]" _ "[10]"], simp_all add: ok)
  have "[0..<?n + ?v + 5] = [0] @ [1..<?n + 1] @ [?n + 1, ?n + 2, ?n + 3] @ [?n + 4..<?n + 4 + ?v] @ [?n + 4 + ?v]"
    by (rule quoted_indices)
  then show ?thesis
    by (simp only: read_setting_def line_text_quoted [OF ok(1,2)] scan_line_append)
      (simp add: quote_char_def at copy name val del: upt_Suc One_nat_def add_2_eq_Suc')
qed

text \<open>Where the block is no longer than asked for, the NUL behind the name is written past its end.\<close>

lemma quoted_name_overruns:
  assumes "plain name" "plain text" "\<not> roomy heap name"
  shows "read_setting heap (quoted_line name text) = None"
proof -
  let ?n = "length name" and ?t = "quoted_line name text"
  have at: "?t ! 0 = 34" "?t ! (?n + 1) = 34" by (simp_all add: quoted_line_def nth_append nth_Cons')
  have name: "scan_line heap ?t [1..<?n + 1] st = Some st" if "settingValue st = None" for st
    by (rule scan_segment [of _ "[34]" name "[34, 58, 34] @ text @ [34, 10]"]) (simp_all add: quoted_line_def assms that)
  have "copy_quoted heap ?t 0 (?n + 1) = None"
    using assms(3) by (auto simp: copy_quoted_def store_bytes_def quoted_line_def roomy_def Let_def)
  then show ?thesis
    by (simp only: read_setting_def line_text_quoted [OF assms(1,2)] scan_line_append quoted_indices)
      (simp add: quote_char_def at name del: upt_Suc One_nat_def)
qed

lemma c_string_block: "plain s \<Longrightarrow> c_string (text_block heap s) = Some s"
  unfolding text_block_def by (rule c_string_text) (simp add: plain_def)

text \<open>A file of such lines, line after line.\<close>

lemma fgets_line:
  assumes "10 \<notin> set s" "length s < 59"
  shows "fgets_60 (s @ 10 # rest) = s @ [10]"
proof -
  have t: "take 59 (s @ 10 # rest) = s @ 10 # take (58 - length s) rest" using assms(2) by (simp add: take_Cons')
  have "takeWhile (\<lambda>b. b \<noteq> 10) (s @ 10 # z) = s" for z using assms(1) by (auto simp: takeWhile_append)
  then show ?thesis unfolding fgets_60_def t Let_def using assms(2) by simp
qed

lemma file_lines_concat:
  assumes "\<And>l. l \<in> set ls \<Longrightarrow> \<exists>s. l = s @ [10] \<and> 10 \<notin> set s \<and> length s < 59"
  shows "file_lines (concat ls @ rest) = ls @ file_lines rest"
  using assms
proof (induction ls)
  case (Cons l ls)
  then obtain s where s: "l = s @ [10]" "10 \<notin> set s" "length s < 59" by auto
  have "fgets_60 (concat (l # ls) @ rest) = l" using fgets_line [OF s(2,3)] by (simp add: s(1))
  then show ?case using Cons s(1) by (subst file_lines.simps) simp
qed simp

definition settings_file :: "(byte list \<times> byte list) list \<Rightarrow> byte list" where
  "settings_file kvs = concat (map (\<lambda>(name, text). quoted_line name text) kvs)"

definition settings_ok :: "heap_block \<Rightarrow> (byte list \<times> byte list) list \<Rightarrow> bool" where
  "settings_ok heap kvs \<longleftrightarrow> (\<forall>(name, text) \<in> set kvs. line_ok heap name text)"

lemma settings_file_lines:
  assumes "settings_ok heap kvs"
  shows "file_lines (settings_file kvs @ rest) = map (\<lambda>(name, text). quoted_line name text) kvs @ file_lines rest"
  unfolding settings_file_def
proof (rule file_lines_concat)
  fix l
  assume "l \<in> set (map (\<lambda>(name, text). quoted_line name text) kvs)"
  then obtain n v where "l = quoted_line n v" "line_ok heap n v" using assms by (auto simp: settings_ok_def)
  then show "\<exists>s. l = s @ [10] \<and> 10 \<notin> set s \<and> length s < 59"
    by (intro exI [of _ "[34] @ n @ [34, 58, 34] @ v @ [34]"]) (auto simp: quoted_line_def line_ok_def plain_def)
qed

lemma each_line_append: "each_line f (xs @ ys) s = do { s \<leftarrow> each_line f xs s; each_line f ys s }"
  by (induction xs arbitrary: s) (auto split: bind_splits)

lemma each_line_settings:
  assumes "settings_ok heap kvs"
    and "\<And>name text s. line_ok heap name text \<Longrightarrow> f (quoted_line name text) s = g (name, text) s"
  shows "each_line f (map (\<lambda>(name, text). quoted_line name text) kvs) s
    = fold (\<lambda>kv r. do { s \<leftarrow> r; g kv s }) kvs (Some s)"
proof -
  have none: "fold (\<lambda>kv r. do { s \<leftarrow> r; g kv s }) kvs None = None" for kvs by (induction kvs) simp_all
  show ?thesis using assms(1)
  proof (induction kvs arbitrary: s)
    case (Cons kv kvs)
    obtain n v where kv: "kv = (n, v)" by fastforce
    then have "line_ok heap n v" "settings_ok heap kvs" using Cons.prems by (simp_all add: settings_ok_def)
    then show ?case using Cons.IH assms(2) by (cases "g kv s") (simp_all add: kv none)
  qed simp
qed

lemma protocol_setting_quoted:
  assumes "line_ok heap name text"
  shows "protocol_setting heap (quoted_line name text) g =
    (if name = literal ''passExchangeMethod'' then Some g else map_option (\<lambda>n. g\<lparr>passExchangeMethod := n\<rparr>) (atoi text))"
  using assms c_string_block [of name heap] c_string_block [of "text" heap]
  by (cases "atoi text") (simp_all add: protocol_setting_def read_quoted_line line_ok_def)

definition apply_setting :: "byte list \<times> byte list \<Rightarrow> globalSettingsStruct \<Rightarrow> globalSettingsStruct option" where
  "apply_setting = (\<lambda>(name, text) g. if name = literal ''passExchangeMethod'' then Some g
     else map_option (\<lambda>n. g\<lparr>passExchangeMethod := n\<rparr>) (atoi text))"

lemma initialize_fold:
  assumes "settings_ok heap kvs"
  shows "initializeSettingsData heap (Some (settings_file kvs)) g =
    map_option (\<lambda>g. (1, g)) (fold (\<lambda>kv r. do { g \<leftarrow> r; apply_setting kv g }) kvs (Some g))"
  using settings_file_lines [OF assms, of "[]"] each_line_settings [OF assms, of "protocol_setting heap" apply_setting g]
    protocol_setting_quoted
  by (simp add: initializeSettingsData_def apply_setting_def file_lines.simps)

lemma fold_settings_some:
  "\<forall>(name, text) \<in> set kvs. atoi text \<noteq> None \<Longrightarrow>
    \<exists>g'. fold (\<lambda>kv r. do { g \<leftarrow> r; apply_setting kv g }) kvs (Some g) = Some g'
      \<and> ((\<forall>(name, text) \<in> set kvs. name = literal ''passExchangeMethod'') \<longrightarrow> g' = g)"
  by (induction kvs arbitrary: g) (fastforce simp: apply_setting_def)+

text \<open>
  C38. A file of quoted lines is read to its end. If its last line names anything but
  \<open>passExchangeMethod\<close>, the exchange method is that line's value; if every line names
  \<open>passExchangeMethod\<close>, as in the file that comes with the program, nothing is set.
\<close>

theorem settings_inverted:
  assumes "settings_ok heap (kvs @ [(name, text)])" "\<forall>(name, text) \<in> set (kvs @ [(name, text)]). atoi text \<noteq> None"
  shows "\<exists>g'. initializeSettingsData heap (Some (settings_file (kvs @ [(name, text)]))) g = Some (1, g')
    \<and> (name \<noteq> literal ''passExchangeMethod'' \<longrightarrow> Some (passExchangeMethod g') = atoi text)
    \<and> ((\<forall>(name, text) \<in> set (kvs @ [(name, text)]). name = literal ''passExchangeMethod'') \<longrightarrow> g' = g)"
proof -
  obtain g1 where "fold (\<lambda>kv r. do { g \<leftarrow> r; apply_setting kv g }) kvs (Some g) = Some g1"
    "(\<forall>(name, text) \<in> set kvs. name = literal ''passExchangeMethod'') \<longrightarrow> g1 = g"
    using fold_settings_some [of kvs g] assms(2) by auto
  then show ?thesis
    using assms(2) by (auto simp: initialize_fold [OF assms(1)] apply_setting_def)
qed

text \<open>The usable size of a block of the GNU allocator, for closed examples.\<close>

definition gnu_heap :: heap_block where
  "gnu_heap n = replicate (if n \<le> 24 then 24 else (n + 23) div 16 * 16 - 8) 0"

definition shipped_protocol_settings :: "(byte list \<times> byte list) list" where
  "shipped_protocol_settings = [(literal ''passExchangeMethod'', literal ''0'')]"

theorem settings_inverted_witness:
  "\<exists>g'. initializeSettingsData gnu_heap (Some (settings_file (shipped_protocol_settings @ [(literal ''x'', literal ''7'')]))) \<lparr>passExchangeMethod = 1\<rparr>
     = Some (1, g') \<and> passExchangeMethod g' = 7"
proof -
  have "settings_ok gnu_heap (shipped_protocol_settings @ [(literal ''x'', literal ''7'')])"
    by (simp add: settings_ok_def line_ok_def shipped_protocol_settings_def plain_def literal_def roomy_def gnu_heap_def)
  moreover have "atoi (literal ''0'') = Some 0" "atoi (literal ''7'') = Some 7"
    by (simp_all add: atoi_def literal_def is_space_def is_decimal_def decimal_value_def Let_def)
  ultimately show ?thesis
    using settings_inverted [of gnu_heap shipped_protocol_settings "literal ''x''" "literal ''7''" "\<lparr>passExchangeMethod = 1\<rparr>"]
    by (auto simp: shipped_protocol_settings_def literal_def)
qed

section \<open>The node's settings\<close>

lemma node_setting_quoted:
  assumes "line_ok heap name text"
  shows "node_setting heap (quoted_line name text) s =
    (if name = literal ''devId'' then map_option (\<lambda>d. s\<lparr>ns_devId := d\<rparr>) (load_bytes (text_block heap text) 0 16)
     else if name = literal ''devType'' then map_option (\<lambda>n. s\<lparr>ns_devType := word_of_int n\<rparr>) (atoi text)
     else Some s)"
  using assms c_string_block [of name heap] c_string_block [of "text" heap]
  by (cases "atoi text"; cases "load_bytes (text_block heap text) 0 16") (simp_all add: node_setting_def read_quoted_line line_ok_def)

lemma node_settings_loaded:
  assumes "settings_ok heap [(literal ''devId'', devid), (literal ''devType'', ty)]" "length devid = 16" "atoi ty = Some n"
  shows "read_node_settings heap (Some (settings_file [(literal ''devId'', devid), (literal ''devType'', ty)])) s
    = Some (1, \<lparr>ns_devId = devid, ns_devType = word_of_int n\<rparr>)"
proof -
  have "load_bytes (text_block heap devid) 0 16 = Some devid" using assms(2) by (simp add: load_bytes_def text_block_def)
  moreover have "literal ''devType'' \<noteq> literal ''devId''" by (simp add: literal_def)
  ultimately show ?thesis
    using settings_file_lines [OF assms(1), of "[]"] assms(1,3)
    by (simp add: read_node_settings_def file_lines.simps settings_ok_def node_setting_quoted)
qed

section \<open>What is written cannot be read\<close>

lemma decimal_nat_plain: "b \<in> set (decimal_nat n) \<Longrightarrow> b \<noteq> 34"
proof (induction n rule: decimal_nat.induct)
  case (1 n)
  have "(of_nat (48 + d) :: byte) \<noteq> 34" if "d < 10" for d
  proof -
    have "d \<in> {0, 1, 2, 3, 4, 5, 6, 7, 8, 9}" using that by auto
    then show ?thesis by auto
  qed
  then show ?case using 1 by (subst (asm) (2) decimal_nat.simps) (auto split: if_splits)
qed

lemma setting_line_plain:
  assumes "plain name" "b \<in> set (setting_line name v)"
  shows "b \<noteq> 34"
  using assms decimal_nat_plain by (auto simp: setting_line_def decimal_def plain_def split: if_splits)

lemma read_unquoted:
  assumes "34 \<notin> set line"
  shows "read_setting heap line = None"
proof -
  have "line ! i \<noteq> 34" if "i < length (line_text line)" for i
  proof -
    have "length (line_text line) \<le> length line" unfolding line_text_def by (rule length_takeWhile_le)
    then have "line ! i \<in> set line" using that by simp
    then show ?thesis using assms by auto
  qed
  then have "scan_line heap line [0..<length (line_text line)] st = Some st" if "settingValue st = None" for st
    using that by (intro scan_line_skip) simp_all
  then show ?thesis by (simp add: read_setting_def)
qed

lemma each_line_unquoted:
  assumes "34 \<notin> set rest" "rest \<noteq> []" "\<And>line s. read_setting heap line = None \<Longrightarrow> f line s = None"
  shows "each_line f (file_lines rest) s = None"
proof -
  have "set (fgets_60 rest) \<subseteq> set rest"
    by (auto simp: fgets_60_def Let_def dest!: in_set_takeD set_takeWhileD)
  then have "34 \<notin> set (fgets_60 rest)" using assms(1) by auto
  then have "f (fgets_60 rest) s = None" by (intro assms(3) read_unquoted)
  then show ?thesis using assms(2) by (subst file_lines.simps) simp
qed

lemma modify_quoted:
  assumes "settings_ok heap kvs" "plain name" "name \<noteq> []" "length name \<le> 80" "length temp = 80"
  shows "\<exists>temp'. each_line (modify_line (name @ 0 # junk) (length name) v) (map (\<lambda>(name, text). quoted_line name text) kvs) (temp, out, found)
    = Some (temp', out @ settings_file kvs, found) \<and> length temp' = 80"
  using assms(1,5)
proof (induction kvs arbitrary: temp out)
  case Nil
  show ?case using Nil by (simp add: settings_file_def)
next
  case (Cons kv kvs)
  obtain n t where kv: "kv = (n, t)" by fastforce
  let ?l = "quoted_line n t"
  have ok: "line_ok heap n t" "settings_ok heap kvs" using Cons.prems(1) kv by (simp_all add: settings_ok_def)
  have len: "length ?l < 60" using ok(1) by (simp add: quoted_line_def line_ok_def)
  define temp1 where "temp1 = ?l @ 0 # drop (length ?l + 1) temp"
  have temp1: "store_bytes temp 0 (?l @ [0]) = Some temp1" "length temp1 = 80"
    using len Cons.prems(2) by (simp_all add: store_bytes_def temp1_def)
  have "0 \<notin> set ?l" using ok(1) by (simp add: quoted_line_def line_ok_def plain_def)
  then have str: "c_string temp1 = Some ?l" unfolding temp1_def by (rule c_string_text)
  have "take (length name) temp1 \<noteq> name"
    using assms(2,3) by (cases name) (auto simp: temp1_def quoted_line_def plain_def)
  then have "modify_line (name @ 0 # junk) (length name) v ?l (temp, out, found) = Some (temp1, out @ ?l, found)"
    using temp1 str assms(4) by (auto simp: modify_line_def load_bytes_def)
  then show ?case using Cons.IH [OF ok(2) temp1(2), of "out @ ?l"] by (auto simp: kv settings_file_def)
qed

text \<open>Changing a setting of a file of quoted lines leaves them as they are and appends a line without
  quotes, under which name ever; and on that line no reader of settings has a defined behaviour, for it
  prints, compares or converts a name that is not there.\<close>

lemma modified_settings_unreadable:
  assumes "settings_ok heap kvs" "plain name" "name \<noteq> []" "length name \<le> 80" "length temp = 80"
  shows "\<exists>conf. modifySetting temp True False True (name @ 0 # junk) (length name) v (Some (settings_file kvs)) = Some (0, Some conf)
    \<and> initializeSettingsData heap (Some conf) g = None \<and> read_server_config heap (Some conf) = None
    \<and> read_node_settings heap (Some conf) s = None"
proof -
  let ?w = "setting_line name v"
  let ?conf = "settings_file kvs @ ?w"
  have "c_string (name @ 0 # junk) = Some name" using assms(2) by (intro c_string_text) (simp add: plain_def)
  moreover obtain temp' where "each_line (modify_line (name @ 0 # junk) (length name) v) (map (\<lambda>(name, text). quoted_line name text) kvs) (temp, [], False)
      = Some (temp', settings_file kvs, False)"
    using modify_quoted [OF assms, of junk v "[]" False] by auto
  ultimately have "modifySetting temp True False True (name @ 0 # junk) (length name) v (Some (settings_file kvs)) = Some (0, Some ?conf)"
    using settings_file_lines [OF assms(1), of "[]"] by (simp add: modifySetting_def file_lines.simps)
  moreover have w: "34 \<notin> set ?w" "?w \<noteq> []" using setting_line_plain [OF assms(2)] by (auto simp: setting_line_def)
  have unread: "each_line f (file_lines ?conf) z = None" if "\<And>line s. read_setting heap line = None \<Longrightarrow> f line s = None" for f :: "byte list \<Rightarrow> 'z \<Rightarrow> 'z option" and z
    using each_line_unquoted [OF w that] settings_file_lines [OF assms(1), of ?w] by (simp add: each_line_append)
  moreover have "each_line (protocol_setting heap) (file_lines ?conf) g = None"
    "each_line (server_setting heap) (file_lines ?conf) () = None" "each_line (node_setting heap) (file_lines ?conf) s = None"
    by (rule unread; simp add: protocol_setting_def server_setting_def node_setting_def)+
  ultimately show ?thesis
    by (intro exI [of _ ?conf]) (simp add: initializeSettingsData_def read_server_config_def read_node_settings_def)
qed

end
