(* ===== verification/Startup.thy ===== *)
theory Startup
  imports ArrayList Settings
begin

text \<open>
  What both programs do before they speak: the lists and tables that \<open>pckData.c\<close> and its \<open>commands.c\<close> set
  up, and how a node on the ESP32 waits for its network (\<open>initWifiStationMode\<close> and \<open>wifiEventHandler\<close> of
  \<open>client.c\<close>).
\<close>

section \<open>The network of a node\<close>

subsection \<open>The handler of its events\<close>

definition wifiMaximumReconnectAttempts :: int where
  "wifiMaximumReconnectAttempts = 100"

definition WIFI_CONNECTED_BIT :: u32 where "WIFI_CONNECTED_BIT = 1"
definition WIFI_FAIL_BIT :: u32 where "WIFI_FAIL_BIT = 2"

lemmas wifi_consts = wifiMaximumReconnectAttempts_def WIFI_CONNECTED_BIT_def WIFI_FAIL_BIT_def

datatype wifi_event = STA_START | STA_DISCONNECTED | STA_GOT_IP | OTHER_EVENT

text \<open>
  Where \<open>initWifiStationMode\<close> is: at \<open>xEventGroupWaitBits\<close>, before either of its handlers is
  unregistered, before the event group is deleted, behind its end. The events are handled by another task.
\<close>

datatype wifi_phase = Waiting | UnregisteringIp | UnregisteringWifi | Deleting | Ready

text \<open>\<open>None\<close> for the bits is an event group that was deleted.\<close>

record wifi =
  s_retry_num :: int
  s_wifi_event_group :: "u32 option"
  instance_any_id :: bool
  instance_got_ip :: bool
  connect_calls :: nat
  wifi_phase :: wifi_phase

definition wifi_started :: wifi where
  "wifi_started = \<lparr>s_retry_num = 0, s_wifi_event_group = Some 0, instance_any_id = True, instance_got_ip = True,
     connect_calls = 0, wifi_phase = Waiting\<rparr>"

definition xEventGroupSetBits :: "u32 \<Rightarrow> wifi \<Rightarrow> wifi option" where
  "xEventGroupSetBits bits w =
     map_option (\<lambda>old. w\<lparr>s_wifi_event_group := Some (old OR bits)\<rparr>) (s_wifi_event_group w)"

definition esp_wifi_connect :: "wifi \<Rightarrow> wifi" where
  "esp_wifi_connect w = w\<lparr>connect_calls := connect_calls w + 1\<rparr>"

definition wifiEventHandler :: "wifi_event \<Rightarrow> wifi \<Rightarrow> wifi option" where
  "wifiEventHandler ev w =
     (case ev of
        STA_START \<Rightarrow> Some (esp_wifi_connect w)
      | STA_DISCONNECTED \<Rightarrow>
          if s_retry_num w < wifiMaximumReconnectAttempts
          then Some ((esp_wifi_connect w)\<lparr>s_retry_num := s_retry_num w + 1\<rparr>)
          else xEventGroupSetBits WIFI_FAIL_BIT w
      | STA_GOT_IP \<Rightarrow> xEventGroupSetBits WIFI_CONNECTED_BIT (w\<lparr>s_retry_num := 0\<rparr>)
      | OTHER_EVENT \<Rightarrow> Some w)"

text \<open>The handler is registered twice: for every event of the radio, and for addresses.\<close>

definition deliver_event :: "wifi_event \<Rightarrow> wifi \<Rightarrow> wifi option" where
  "deliver_event ev w =
     (if (if ev = STA_GOT_IP then instance_got_ip w else instance_any_id w) then wifiEventHandler ev w else Some w)"

fun deliver_events :: "wifi_event list \<Rightarrow> wifi \<Rightarrow> wifi option" where
  "deliver_events [] w = Some w"
| "deliver_events (ev # evs) w = do { w \<leftarrow> deliver_event ev w; deliver_events evs w }"

text \<open>The next step of \<open>initWifiStationMode\<close>; while no bit is set it blocks.\<close>

definition init_step :: "wifi \<Rightarrow> wifi" where
  "init_step w =
     (case wifi_phase w of
        Waiting \<Rightarrow>
          (case s_wifi_event_group w of
             Some bits \<Rightarrow> if bits AND (WIFI_CONNECTED_BIT OR WIFI_FAIL_BIT) \<noteq> 0 then w\<lparr>wifi_phase := UnregisteringIp\<rparr> else w
           | None \<Rightarrow> w)
      | UnregisteringIp \<Rightarrow> w\<lparr>instance_got_ip := False, wifi_phase := UnregisteringWifi\<rparr>
      | UnregisteringWifi \<Rightarrow> w\<lparr>instance_any_id := False, wifi_phase := Deleting\<rparr>
      | Deleting \<Rightarrow> w\<lparr>s_wifi_event_group := None, wifi_phase := Ready\<rparr>
      | Ready \<Rightarrow> w)"

subsection \<open>All that can happen\<close>

inductive wifi_reachable :: "wifi \<Rightarrow> bool" where
  wifi_start: "wifi_reachable wifi_started"
| wifi_init: "wifi_reachable w \<Longrightarrow> wifi_reachable (init_step w)"
| wifi_handles: "wifi_reachable w \<Longrightarrow> deliver_event ev w = Some w' \<Longrightarrow> wifi_reachable w'"

definition wifi_ok :: "wifi \<Rightarrow> bool" where
  "wifi_ok w \<longleftrightarrow> 0 \<le> s_retry_num w \<and> s_retry_num w \<le> wifiMaximumReconnectAttempts
     \<and> (wifi_phase w = Ready \<longleftrightarrow> s_wifi_event_group w = None)
     \<and> (wifi_phase w \<in> {UnregisteringWifi, Deleting, Ready} \<longleftrightarrow> \<not> instance_got_ip w)
     \<and> (wifi_phase w \<in> {Deleting, Ready} \<longleftrightarrow> \<not> instance_any_id w)"

lemmas deliver_event_defs = deliver_event_def wifiEventHandler_def xEventGroupSetBits_def esp_wifi_connect_def

lemma deliver_ok: "deliver_event ev w = Some w' \<Longrightarrow> wifi_ok w \<Longrightarrow> wifi_ok w'"
  by (auto simp: deliver_event_defs wifi_ok_def wifiMaximumReconnectAttempts_def split: wifi_event.splits if_splits)

lemma init_step_ok: "wifi_ok w \<Longrightarrow> wifi_ok (init_step w)"
  by (cases "wifi_phase w") (auto simp: init_step_def wifi_ok_def split: option.splits)

lemma reachable_wifi_ok: "wifi_reachable w \<Longrightarrow> wifi_ok w"
proof (induction rule: wifi_reachable.induct)
  case wifi_start
  then show ?case by (simp add: wifi_started_def wifi_ok_def wifi_consts)
qed (blast intro: deliver_ok init_step_ok)+

lemma deliver_phase: "deliver_event ev w = Some w' \<Longrightarrow> wifi_phase w' = wifi_phase w"
  by (auto simp: deliver_event_defs split: wifi_event.splits if_splits)

text \<open>A handler that is still registered finds the group, and no event reaches it afterwards.\<close>

lemma deliver_defined: "wifi_ok w \<Longrightarrow> \<exists>w'. deliver_event ev w = Some w'"
  by (cases "wifi_phase w = Ready"; cases ev) (auto simp: deliver_event_defs wifi_ok_def)

lemma deliver_all_defined: "wifi_ok w \<Longrightarrow> \<exists>w'. deliver_events evs w = Some w' \<and> wifi_ok w'"
proof (induction evs arbitrary: w)
  case (Cons ev evs)
  then show ?case using deliver_defined [OF Cons.prems, of ev] deliver_ok by fastforce
qed simp

lemma deaf:
  assumes "\<not> instance_any_id w" "\<not> instance_got_ip w"
  shows "deliver_events evs w = Some w"
  by (induction evs) (use assms in \<open>simp_all add: deliver_event_def\<close>)

text \<open>A node that waits goes on at an address, or when its attempts are used up.\<close>

definition bits_set :: "wifi \<Rightarrow> bool" where
  "bits_set w \<longleftrightarrow> (\<exists>bits. s_wifi_event_group w = Some bits \<and> bits AND (WIFI_CONNECTED_BIT OR WIFI_FAIL_BIT) \<noteq> 0)"

lemma bits_set_more:
  assumes "xEventGroupSetBits bits w = Some w'"
  shows "bits \<in> {WIFI_CONNECTED_BIT, WIFI_FAIL_BIT} \<or> bits_set w \<Longrightarrow> bits_set w'"
    "instance_got_ip w' = instance_got_ip w" "instance_any_id w' = instance_any_id w"
  using assms by (auto simp: xEventGroupSetBits_def bits_set_def wifi_consts bit.conj_disj_distrib2 or_eq_0_iff)

lemma deliver_bits:
  assumes "deliver_event ev w = Some w'" "instance_got_ip w" "instance_any_id w"
  shows "bits_set w \<Longrightarrow> bits_set w'" "ev = STA_GOT_IP \<Longrightarrow> bits_set w'"
    "ev = STA_DISCONNECTED \<Longrightarrow> bits_set w' \<or> s_retry_num w' = s_retry_num w + 1"
    "ev \<notin> {STA_GOT_IP, STA_DISCONNECTED} \<Longrightarrow> s_retry_num w' = s_retry_num w"
  using assms bits_set_more
  by (auto simp: deliver_event_def wifiEventHandler_def esp_wifi_connect_def bits_set_def split: wifi_event.splits if_splits)

lemma wait_ends:
  assumes "deliver_events evs w = Some w'" "wifi_ok w" "wifi_phase w = Waiting"
    "bits_set w \<or> STA_GOT_IP \<in> set evs \<or> wifiMaximumReconnectAttempts - s_retry_num w < int (count_list evs STA_DISCONNECTED)"
  shows "wifi_phase (init_step w') = UnregisteringIp"
  using assms
proof (induction evs arbitrary: w)
  case Nil
  then show ?case by (auto simp: wifi_ok_def bits_set_def init_step_def)
next
  case (Cons ev evs)
  obtain w1 where w1: "deliver_event ev w = Some w1" "deliver_events evs w1 = Some w'" using Cons.prems(1) by (cases "deliver_event ev w") auto
  have "instance_got_ip w" "instance_any_id w" using Cons.prems(2,3) by (simp_all add: wifi_ok_def)
  note d = deliver_bits [OF w1(1) this]
  have "bits_set w1 \<or> STA_GOT_IP \<in> set evs \<or> wifiMaximumReconnectAttempts - s_retry_num w1 < int (count_list evs STA_DISCONNECTED)"
    using Cons.prems(4) d(1-4) by (cases ev) auto
  then show ?case
    using Cons.IH [OF w1(2)] deliver_ok [OF w1(1) Cons.prems(2)] deliver_phase [OF w1(1)] Cons.prems(3) by simp
qed

subsection \<open>The attempts serve the start alone\<close>

text \<open>
  C40. No order of the events and of the steps of the start uses the event group after it is deleted. A
  node that waits goes on as soon as it has an address or has used up its attempts, with or without a
  network; once its start is over no event changes anything any more: a node that loses its network then
  never asks for it again, however many attempts it has left.
\<close>

theorem wifi_lost_after_start:
  assumes "wifi_reachable w"
  shows "\<exists>w'. deliver_events evs w = Some w'
    \<and> (wifi_phase w = Waiting \<longrightarrow> STA_GOT_IP \<in> set evs \<or> 100 - s_retry_num w < int (count_list evs STA_DISCONNECTED)
        \<longrightarrow> wifi_phase (init_step w') = UnregisteringIp)
    \<and> (wifi_phase w = Ready \<longrightarrow> w' = w)"
proof -
  have ok: "wifi_ok w" using reachable_wifi_ok [OF assms] .
  then show ?thesis
    using deliver_all_defined [OF ok, of evs] wait_ends [OF _ ok] deaf [of w evs]
    by (auto simp: wifiMaximumReconnectAttempts_def wifi_ok_def)
qed

text \<open>A node gets an address at once; much later its network goes, and it has made one attempt in its life.\<close>

theorem wifi_lost_after_start_witness:
  "\<exists>a w. wifi_reachable a \<and> deliver_events [STA_START, STA_GOT_IP] wifi_started = Some a \<and> wifi_phase (init_step a) = UnregisteringIp
    \<and> w = init_step (init_step (init_step (init_step a))) \<and> wifi_phase w = Ready \<and> connect_calls w = 1
    \<and> deliver_events [STA_DISCONNECTED, STA_DISCONNECTED] w = Some w"
proof -
  let ?a = "wifi_started\<lparr>connect_calls := 1, s_wifi_event_group := Some 1\<rparr>"
  let ?w = "init_step (init_step (init_step (init_step ?a)))"
  have d: "deliver_event STA_START wifi_started = Some (wifi_started\<lparr>connect_calls := 1\<rparr>)"
    "deliver_event STA_GOT_IP (wifi_started\<lparr>connect_calls := 1\<rparr>) = Some ?a"
    by (simp_all add: deliver_event_defs wifi_started_def wifi_consts)
  then have a: "wifi_reachable ?a" using wifi_handles [OF wifi_handles [OF wifi_start]] by blast
  then have r: "wifi_reachable ?w" using wifi_init by blast
  have w: "wifi_phase ?w = Ready" "connect_calls ?w = 1" by (simp_all add: init_step_def wifi_started_def wifi_consts)
  have s: "deliver_events [STA_START, STA_GOT_IP] wifi_started = Some ?a" using d by simp
  have "wifi_phase (init_step ?a) = UnregisteringIp"
    using wifi_lost_after_start [OF wifi_start, of "[STA_START, STA_GOT_IP]"] s by (simp add: wifi_started_def)
  moreover have "deliver_events [STA_DISCONNECTED, STA_DISCONNECTED] ?w = Some ?w"
    using wifi_lost_after_start [OF r, of "[STA_DISCONNECTED, STA_DISCONNECTED]"] w(1) by auto
  ultimately show ?thesis using a s w by blast
qed

section \<open>The lists and tables of both programs\<close>

subsection \<open>The table of commands\<close>

definition maxDevTypes :: nat where "maxDevTypes = 32"
definition maxServerCommands :: nat where "maxServerCommands = 128"
definition maxNodeReservedCommands :: nat where "maxNodeReservedCommands = 512"

text \<open>\<open>Unset\<close> is an entry of a block from \<open>malloc\<close> that was never written.\<close>

datatype op_command = Unset | Op_echo | Op_beacon | Op_poweroff

record op_codes =
  devTypeToCommands :: "op_command list option list"
  reservedNodeCommands :: "op_command list option"

text \<open>The answers of the two calls of \<open>malloc\<close>; writing through a null pointer has no defined behaviour.\<close>

definition initOpCodes :: "bool \<Rightarrow> bool \<Rightarrow> u32 \<Rightarrow> op_codes \<Rightarrow> (int \<times> op_codes) option" where
  "initOpCodes table_there block_there devType oc =
     (if \<not> table_there \<or> \<not> block_there then None
      else let oc = oc\<lparr>devTypeToCommands := replicate maxDevTypes None\<rparr> in
        Some (0, if devType = 0
          then oc\<lparr>devTypeToCommands := (devTypeToCommands oc)[0 := Some ((replicate maxServerCommands Unset)[0 := Op_echo, 1 := Op_beacon])]\<rparr>
          else oc\<lparr>reservedNodeCommands := Some ((replicate maxNodeReservedCommands Unset)[0 := Op_poweroff])\<rparr>))"

text \<open>
  Running a command: a table or an entry that is not there has no defined behaviour; otherwise the
  command that runs.
\<close>

definition executeCommand :: "op_codes \<Rightarrow> u32 \<Rightarrow> u32 \<Rightarrow> byte \<Rightarrow> op_command option" where
  "executeCommand oc devType opCode isReservedCmd = 
     (case (if isReservedCmd \<noteq> 0 then reservedNodeCommands oc
       else if unat devType < length (devTypeToCommands oc) then devTypeToCommands oc ! unat devType else None) of
        None \<Rightarrow> None
      | Some row \<Rightarrow>
          if unat opCode < length row \<and> row ! unat opCode \<noteq> Unset then Some (row ! unat opCode) else None)"

lemma executeCommand_server:
  assumes "initOpCodes True True 0 oc = Some (r, oc')" "reservedNodeCommands oc = None"
  shows "executeCommand oc' devType opCode reserved \<noteq> None \<longleftrightarrow> reserved = 0 \<and> devType = 0 \<and> opCode \<in> {0, 1}"
proof -
  have row: "i < 128 \<Longrightarrow> ((replicate maxServerCommands Unset)[0 := Op_echo, 1 := Op_beacon] ! i \<noteq> Unset) = (i \<in> {0, 1})" for i
    by (auto simp: maxServerCommands_def nth_list_update)
  have "unat opCode < 128 \<and> unat opCode \<in> {0, 1} \<longleftrightarrow> opCode \<in> {0, 1}"
    by (auto simp: word_unat_eq_iff)
  moreover have "unat devType = 0 \<longleftrightarrow> devType = 0" by (simp add: unat_eq_zero)
  ultimately show ?thesis using assms row [of "unat opCode"]
    by (auto simp: initOpCodes_def executeCommand_def Let_def maxDevTypes_def maxServerCommands_def nth_list_update
      split: if_splits option.splits)
qed

subsection \<open>The lists\<close>

text \<open>An allocator for each call of \<open>malloc\<close> by a list; \<open>tables\<close> are the answers of those by the table.\<close>

definition initPckDataInfoBasic ::
    "allocator \<Rightarrow> bool \<times> bool \<Rightarrow> nat \<Rightarrow> u32 \<Rightarrow> op_codes \<Rightarrow> (int \<times> arrayList \<times> op_codes) option" where
  "initPckDataInfoBasic a tables holder_size devType oc =
     (case initList a holder_size of
        (r, holders) \<Rightarrow>
          if r \<noteq> 0 then Some (- 1, holders, oc)
          else do { (_, oc) \<leftarrow> initOpCodes (fst tables) (snd tables) devType oc; Some (0, holders, oc) })"

definition initBasicClientData ::
    "allocator \<Rightarrow> bool \<times> bool \<Rightarrow> nat \<Rightarrow> u32 \<Rightarrow> op_codes \<Rightarrow> (int \<times> arrayList \<times> op_codes) option" where
  "initBasicClientData a tables holder_size devType oc = do {
     (_, holders, oc) \<leftarrow> initPckDataInfoBasic a tables holder_size devType oc;
     Some (0, holders, oc)
   }"

record server_lists =
  sl_recvHolders :: arrayList
  sl_connInfos :: arrayList
  sl_devInfos :: arrayList
  sl_commandsQueue :: arrayList
  sl_opCodes :: op_codes
  sl_settings :: globalSettingsStruct

record struct_sizes =
  recvHolder_size :: nat
  connInfo_size :: nat
  devInfo_size :: nat
  commandRequest_size :: nat

text \<open>\<open>Reboots\<close> is the end of the program by \<open>reboot\<close>.\<close>

datatype 'a start_result = Reboots | Starts int 'a

definition initBasicServerData ::
    "allocator \<times> allocator \<times> allocator \<times> allocator \<Rightarrow> bool \<times> bool \<Rightarrow> struct_sizes \<Rightarrow> heap_block \<Rightarrow> byte list option \<Rightarrow> u32
      \<Rightarrow> server_lists \<Rightarrow> server_lists start_result option" where
  "initBasicServerData mem tables sizes heap conf devType s =
     (case mem of (a1, a2, a3, a4) \<Rightarrow> do {
        (_, holders, oc) \<leftarrow> initPckDataInfoBasic a1 tables (recvHolder_size sizes) devType (sl_opCodes s);
        let (r, conns) = initList a2 (connInfo_size sizes);
        let s = s\<lparr>sl_recvHolders := holders, sl_opCodes := oc, sl_connInfos := conns\<rparr>;
        if r = - 1 then Some (Starts (- 1) s)
        else let (r, devs) = initList a3 (devInfo_size sizes) in
          if r \<noteq> 0 then Some Reboots
          else let (r, cmds) = initList a4 (commandRequest_size sizes) in
            if r \<noteq> 0 then Some Reboots
            else do {
              (_, g) \<leftarrow> initializeSettingsData heap conf (sl_settings s);
              Some (Starts 0 (s\<lparr>sl_devInfos := devs, sl_commandsQueue := cmds, sl_settings := g\<rparr>))
            }
      })"

definition deinitPckDataInfoBasic :: "arrayList \<Rightarrow> (int \<times> arrayList) option" where
  "deinitPckDataInfoBasic holders = do { (_, holders) \<leftarrow> freeArrayList holders; Some (0, holders) }"

definition deinitBasicClientData :: "arrayList \<Rightarrow> (int \<times> arrayList) option" where
  "deinitBasicClientData holders = do { (_, holders) \<leftarrow> deinitPckDataInfoBasic holders; Some (0, holders) }"

definition deinitBasicServerData :: "server_lists \<Rightarrow> (int \<times> server_lists) option" where
  "deinitBasicServerData s = do {
     (_, holders) \<leftarrow> deinitPckDataInfoBasic (sl_recvHolders s);
     (_, devs) \<leftarrow> freeArrayList (sl_devInfos s);
     (_, cmds) \<leftarrow> freeArrayList (sl_commandsQueue s);
     Some (0, s\<lparr>sl_recvHolders := holders, sl_devInfos := devs, sl_commandsQueue := cmds\<rparr>)
   }"

text \<open>With enough memory every list of the server starts empty and well formed.\<close>

definition sizes_ok :: "struct_sizes \<Rightarrow> bool" where
  "sizes_ok sizes \<longleftrightarrow> (\<forall>n \<in> {recvHolder_size sizes, connInfo_size sizes, devInfo_size sizes, commandRequest_size sizes}. 0 < n \<and> n < 2 ^ 28)"

lemma initList_there: "malloc a (nat (to_size_t (int ds * 5))) \<noteq> None \<Longrightarrow> \<exists>l. initList a ds = (0, l)"
  by (auto simp: initList_def Let_def)

lemma server_lists_start_empty:
  assumes "sizes_ok sizes" "\<And>n. malloc a n \<noteq> None" "tables = (True, True)"
  shows "\<exists>s'. initBasicServerData (a, a, a, a) tables sizes heap None devType s = Some (Starts 0 s')
    \<and> (\<forall>l \<in> {sl_recvHolders s', sl_connInfos s', sl_devInfos s', sl_commandsQueue s'}. al_ok l \<and> al_elems l = [])"
proof -
  have ready: "\<exists>l. initList a n = (0, l) \<and> al_ok l \<and> al_elems l = []"
    if "n \<in> {recvHolder_size sizes, connInfo_size sizes, devInfo_size sizes, commandRequest_size sizes}" for n
    using initList_there [of a n, OF assms(2)] initList_ok [of n a] that assms(1) by (auto simp: sizes_ok_def)
  obtain l1 l2 l3 l4 where "initList a (recvHolder_size sizes) = (0, l1)" "initList a (connInfo_size sizes) = (0, l2)"
    "initList a (devInfo_size sizes) = (0, l3)" "initList a (commandRequest_size sizes) = (0, l4)"
    "\<forall>l \<in> {l1, l2, l3, l4}. al_ok l \<and> al_elems l = []"
    using ready by (metis insert_iff empty_iff)
  then show ?thesis
    by (simp add: initBasicServerData_def initPckDataInfoBasic_def initOpCodes_def assms(3) Let_def initializeSettingsData_def)
qed

text \<open>\<open>initList\<close> reports 1, not -1: a server without memory for its connections starts all the same.\<close>

lemma missing_connections_unnoticed:
  assumes "initBasicServerData (a1, a2, a3, a4) tables sizes heap conf devType s = Some (Starts r s')"
  shows "r = 0"
  using assms by (auto simp: initBasicServerData_def bind_eq_Some_conv Let_def initList_def split: prod.splits if_splits option.splits)

end
