(* ===== verification/Discovery.thy ===== *)
theory Discovery
  imports SocketThread "HOL-Library.Signed_Division"
begin

text \<open>
  How a node finds the server: \<open>broadcastThread.c\<close> of the server sends a datagram every three seconds,
  and \<open>socketThread.c\<close> of the node takes the address of its server from it.
\<close>

section \<open>The server\<close>

text \<open>The array has room for its 16 characters, and none for a NUL.\<close>

definition broadcastMessage :: "byte list" where
  "broadcastMessage = literal ''BroadcastV100000''"

text \<open>
  \<open>strlen\<close> of the array counts on in the stack behind it: the datagram, if there is a NUL there.
\<close>

definition broadcast_datagram :: "byte list \<Rightarrow> byte list option" where
  "broadcast_datagram behind = c_string (broadcastMessage @ behind)"

text \<open>Seconds and nanoseconds for \<open>nanosleep\<close>.\<close>

definition sleep_ms :: "int \<Rightarrow> int \<times> int" where
  "sleep_ms millis = (millis sdiv 1000, millis smod 1000 * 1000000)"

text \<open>
  The loop, over the answers of \<open>sendto\<close>: what was sent, and whether the program has ended. The thread
  sleeps after each datagram.
\<close>

fun broadcast_loop :: "byte list \<Rightarrow> bool list \<Rightarrow> (byte list \<times> (int \<times> int)) list \<times> bool" where
  "broadcast_loop datagram [] = ([], False)"
| "broadcast_loop datagram (True # sends) =
     (case broadcast_loop datagram sends of (sent, ended) \<Rightarrow> ((datagram, sleep_ms 3000) # sent, ended))"
| "broadcast_loop datagram (False # sends) = ([], True)"

definition broadcastThread :: "byte list \<Rightarrow> bool \<Rightarrow> bool list \<Rightarrow> ((byte list \<times> (int \<times> int)) list \<times> bool) option" where
  "broadcastThread behind socket_there sends =
     (if \<not> socket_there then Some ([], True)
      else map_option (\<lambda>datagram. broadcast_loop datagram sends) (broadcast_datagram behind))"

lemma broadcast_loop_sent: "x \<in> set (fst (broadcast_loop datagram sends)) \<Longrightarrow> x = (datagram, (3, 0))"
  by (induction datagram sends rule: broadcast_loop.induct) (auto simp: sleep_ms_def split: prod.splits)

lemma broadcast_datagram_starts:
  assumes "broadcast_datagram behind = Some datagram"
  shows "take 16 datagram = broadcastMessageExpected" "16 \<le> length datagram"
proof -
  have "datagram = broadcastMessage @ takeWhile (\<lambda>b. b \<noteq> 0) behind"
    using assms by (auto simp: broadcast_datagram_def c_string_def broadcastMessage_def literal_def split: if_splits)
  then show "take 16 datagram = broadcastMessageExpected" "16 \<le> length datagram"
    by (simp_all add: broadcastMessage_def literal_def broadcastMessageExpected_def)
qed

section \<open>The node finds the server\<close>

text \<open>
  C39. Discovery: a node that waits finds the server by a datagram of the server's thread, whatever lies
  behind the server's array, if that datagram is the first that arrives; if the first is one that does
  not start with the expected characters, no later one helps, for the node has closed its socket. Built
  as it is in the repository the node then connects to 127.0.0.1, whoever sent the datagram; built for
  a server on another computer it takes the sender's address.
\<close>

theorem first_datagram_decides:
  assumes "broadcastThread behind True sends = Some (sent, ended)" "(datagram, pause) \<in> set sent"
  shows "find_server localPlatform True (replicate n None @ Some (datagram, ip) # ds) = Some ''127.0.0.1''
    \<and> find_server 0 True (replicate n None @ Some (datagram, ip) # ds) = Some ip
    \<and> find_server platform True (replicate n None @ Some (msg, other) # ds')
      = (if take 16 (msg @ replicate 100 0) = broadcastMessageExpected
         then Some (if platform = 1 then ''127.0.0.1'' else other) else None)"
proof -
  have first: "find_server platform True (replicate n None @ Some (msg, other) # ds')
      = (if take 16 (msg @ replicate 100 0) = broadcastMessageExpected
         then Some (if platform = 1 then ''127.0.0.1'' else other) else None)" for platform msg other ds'
    using find_server_closed by (induction n) simp_all
  obtain whole where "broadcast_datagram behind = Some whole" "sent = fst (broadcast_loop whole sends)"
    using assms(1) by (auto simp: broadcastThread_def split: option.splits if_splits)
  then have "take 16 (datagram @ replicate 100 0) = broadcastMessageExpected"
    using broadcast_datagram_starts [of behind whole] broadcast_loop_sent [of "(datagram, pause)" whole sends] assms(2) by simp
  then show ?thesis by (simp add: first localPlatform_def)
qed

text \<open>The server has sent two datagrams; in the second case somebody else was faster.\<close>

theorem first_datagram_decides_witness:
  "\<exists>datagram. broadcastThread [7, 0] True [True, True, False] = Some ([(datagram, 3, 0), (datagram, 3, 0)], True)
    \<and> find_server localPlatform True [None, Some (datagram, ''10.0.0.2'')] = Some ''127.0.0.1''
    \<and> find_server 0 True [None, Some (datagram, ''10.0.0.2'')] = Some ''10.0.0.2''
    \<and> find_server localPlatform True [None, Some (map of_char ''Hello'', ''10.0.0.7''), Some (datagram, ''10.0.0.2'')] = None"
proof -
  let ?d = "broadcastMessage @ [7]"
  have b: "broadcastThread [7, 0] True [True, True, False] = Some ([(?d, 3, 0), (?d, 3, 0)], True)"
    by (simp add: broadcastThread_def broadcast_datagram_def c_string_def broadcastMessage_def literal_def sleep_ms_def)
  then have "(?d, 3, 0) \<in> set [(?d, 3, 0), (?d, 3 :: int, 0 :: int)]" by simp
  from first_datagram_decides [OF b this, of 1 "''10.0.0.2''" "[]" localPlatform "map of_char ''Hello''" "''10.0.0.7''" "[Some (?d, ''10.0.0.2'')]"]
  show ?thesis using b by (intro exI [of _ ?d] conjI) (simp_all add: broadcastMessageExpected_def broadcastMessage_def literal_def)
qed

end
