(* ===== verification/Replay.thy ===== *)
theory Replay
  imports System
begin

text \<open>
  The number of a packet and its session: both are sealed with the packet, and neither \<open>processMsg\<close> of
  \<open>server.c\<close> nor \<open>recvAll\<close> looks at them.
\<close>

section \<open>Sealed commands\<close>

text \<open>A command of the node \<open>devid\<close> on the wire, for a decryption buffer of \<open>n\<close> bytes.\<close>

definition command_packet :: "nat \<Rightarrow> gcm_context \<Rightarrow> byte list \<Rightarrow> u32 \<Rightarrow> u32 \<Rightarrow> byte list \<Rightarrow> byte list \<Rightarrow> bool" where
  "command_packet n k devid devtype opcode args w \<longleftrightarrow> (\<exists>iv nonce gs t lim pjunk alim ids junk.
     let p = command_pck lim devtype opcode args pjunk; a = node_add alim devid ids junk in
     packet_ok p a None iv \<and> sealed k iv a nonce gs p t w \<and> node_add_ok devid ids \<and> 8 + length (opt_net p) \<le> n)"

lemma command_packet_applied:
  assumes "command_packet (length (decryptedMsgBuffer s)) k devid devtype opcode args w" "command_ok devtype opcode args" "gcm_keyed k"
    and "established c" "dev_index (devInfos s) devid = Some i" "same_key k (key_ctx e (di_key (devInfos s ! i)))" "MAXMSGLEN \<le> length (w @ junk)"
  shows "\<exists>m s'. processMsg e c (w @ junk) s = Some (None, c, m, s')
    \<and> devInfos s' = (devInfos s)[i := apply_command (sv_time s) devtype opcode args (devInfos s ! i)]
    \<and> length (decryptedMsgBuffer s') = length (decryptedMsgBuffer s) \<and> sv_time s' = sv_time s"
proof -
  obtain iv nonce gs t lim pjunk alim ids ajunk where p: "packet_ok (command_pck lim devtype opcode args pjunk) (node_add alim devid ids ajunk) None iv"
    "sealed k iv (node_add alim devid ids ajunk) nonce gs (command_pck lim devtype opcode args pjunk) t w" "node_add_ok devid ids"
    "8 + length (opt_net (command_pck lim devtype opcode args pjunk)) \<le> length (decryptedMsgBuffer s)"
    using assms(1) by (auto simp: command_packet_def Let_def)
  have c: "connectionType c = 0" "sessionId c \<noteq> 0" "localNonce c \<noteq> 0" "remoteNonce c \<noteq> 0"
    using assms(4) by (simp_all add: established_def)
  from command_applied [OF assms(3,6) p(1) refl assms(2) p(2) refl p(3) c assms(5) refl p(4) assms(7)]
  show ?thesis by fastforce
qed

section \<open>A recorded packet\<close>

text \<open>
  C26. Replay: a recorded command acts again, on any connection of any session and after any other
  command of the node. Repeating an old report of a lock, without knowing its key, makes the server
  show the lock and door states of then, at the time of now.
\<close>

theorem replayed_report_accepted:
  assumes "gcm_keyed k" "dev_index (devInfos s) devid = Some i" "same_key k (key_ctx e (di_key (devInfos s ! i)))"
    and "command_packet (length (decryptedMsgBuffer s)) k devid 2 0 args w" "command_ok 2 0 args"
    and "command_packet (length (decryptedMsgBuffer s)) k devid devtype opcode args2 w2" "command_ok devtype opcode args2"
    and "established c" "established c2" "MAXMSGLEN \<le> length junk"
  shows "\<exists>m1 s1 m2 s2 m3 s3. processMsg e c (w @ junk) s = Some (None, c, m1, s1)
    \<and> processMsg e c (w2 @ junk) s1 = Some (None, c, m2, s2) \<and> processMsg e c2 (w @ junk) (s2\<lparr>sv_time := now\<rparr>) = Some (None, c2, m3, s3)
    \<and> lockState (devInfos s3 ! i) = args ! 0 \<and> doorState (devInfos s3 ! i) = args ! 1 \<and> lastConnectionTime (devInfos s3 ! i) = now"
proof -
  let ?d1 = "apply_command (sv_time s) 2 0 args (devInfos s ! i)"
  let ?d2 = "apply_command (sv_time s) devtype opcode args2 ?d1"
  have i: "i < length (devInfos s)" using dev_index_Some [OF assms(2)] by simp
  have there: "dev_index ((devInfos s)[i := d']) devid = Some i" if "di_devId d' = di_devId (devInfos s ! i)" for d'
    using dev_index_update [of "\<lambda>_. d'" "devInfos s" i devid] that assms(2) by simp
  have len: "MAXMSGLEN \<le> length (v @ junk)" for v using assms(10) by simp
  obtain m1 s1 where 1: "processMsg e c (w @ junk) s = Some (None, c, m1, s1)" "devInfos s1 = (devInfos s)[i := ?d1]"
    "length (decryptedMsgBuffer s1) = length (decryptedMsgBuffer s)" "sv_time s1 = sv_time s"
    using command_packet_applied [OF assms(4,5,1,8,2,3) len] by blast
  have d1: "dev_index (devInfos s1) devid = Some i" "same_key k (key_ctx e (di_key (devInfos s1 ! i)))"
    using i there assms(3) by (simp_all add: 1)
  obtain m2 s2 where 2: "processMsg e c (w2 @ junk) s1 = Some (None, c, m2, s2)" "devInfos s2 = (devInfos s)[i := ?d2]"
    "length (decryptedMsgBuffer s2) = length (decryptedMsgBuffer s)"
    using command_packet_applied [OF assms(6) [folded 1(3)] assms(7,1,8) d1 len] i unfolding 1(2-4) by auto
  let ?s = "s2\<lparr>sv_time := now\<rparr>"
  have d2: "dev_index (devInfos ?s) devid = Some i" "same_key k (key_ctx e (di_key (devInfos ?s ! i)))"
    using i there assms(3) by (simp_all add: 2)
  obtain m3 s3 where 3: "processMsg e c2 (w @ junk) ?s = Some (None, c2, m3, s3)" "devInfos s3 = (devInfos s)[i := apply_command now 2 0 args ?d2]"
    using command_packet_applied [of ?s, OF _ assms(5,1,9) d2 len] assms(4) i by (simp add: 2(2,3)) blast
  have "lockState (devInfos s3 ! i) = args ! 0" "doorState (devInfos s3 ! i) = args ! 1" "lastConnectionTime (devInfos s3 ! i) = now"
    using i by (simp_all add: 3(2) apply_command_def lock_beacon_def updateDeviceStatus_def)
  then show ?thesis using 1(1) 2(1) 3(1) by blast
qed

text \<open>The report of an open lock, then that of a closed one, then the first again in another session.\<close>

theorem replayed_report_accepted_witness:
  "\<exists>w w2 m1 s1 m2 s2 m3 s3. processMsg demo_sys demo_conn (w @ replicate 255 0) (demo_server []) = Some (None, demo_conn, m1, s1)
    \<and> processMsg demo_sys demo_conn (w2 @ replicate 255 0) s1 = Some (None, demo_conn, m2, s2)
    \<and> processMsg demo_sys (demo_conn\<lparr>ci_socket := 8, sessionId := 77\<rparr>) (w @ replicate 255 0) (s2\<lparr>sv_time := 5000\<rparr>)
      = Some (None, demo_conn\<lparr>ci_socket := 8, sessionId := 77\<rparr>, m3, s3)
    \<and> lockState (devInfos s3 ! 0) = 1 \<and> lastConnectionTime (devInfos s3 ! 0) = 5000"
proof -
  let ?s = "demo_server []"
  have packet: "\<exists>w. command_packet (length (decryptedMsgBuffer ?s)) demo_ctx demo_id 2 0 [st, 0, 4, 1, 2, 3, 4] w" for st
  proof -
    have ok: "packet_ok (command_pck 255 2 0 [st, 0, 4, 1, 2, 3, 4] []) demo_node_add None (replicate 12 5)"
      "8 + length (opt_net (command_pck 255 2 0 [st, 0, 4, 1, 2, 3, 4] [])) \<le> length (decryptedMsgBuffer ?s)"
      by (simp_all add: packet_ok_def demo_node_add_ok demo_server_def)
        (simp_all add: nonempty_arg_def command_pck_def opt_net_def pck_len_def)
    obtain t w where "sealed demo_ctx (replicate 12 5) demo_node_add 3 0 (command_pck 255 2 0 [st, 0, 4, 1, 2, 3, 4] []) t w"
      using demo_sealed [OF ok(1)] by metis
    then show ?thesis using ok demo_node_add_ok(1) unfolding command_packet_def demo_node_add_def Let_def by blast
  qed
  obtain w w2 where w: "command_packet (length (decryptedMsgBuffer ?s)) demo_ctx demo_id 2 0 [1, 0, 4, 1, 2, 3, 4] w"
    "command_packet (length (decryptedMsgBuffer ?s)) demo_ctx demo_id 2 0 [0, 0, 4, 1, 2, 3, 4] w2"
    using packet by blast
  have est: "established demo_conn" "established (demo_conn\<lparr>ci_socket := 8, sessionId := 77\<rparr>)"
    using demo_conn_session by (simp_all add: established_def)
  have ok: "command_ok 2 0 [st, 0, 4, 1, 2, 3, 4]" for st by (simp add: command_ok_def)
  have key: "same_key demo_ctx (key_ctx demo_sys (di_key (devInfos ?s ! 0)))" using demo_beacon_ok(3) demo_device(2) [of "[]"] by metis
  have junk: "MAXMSGLEN \<le> length (replicate 255 (0 :: byte))" by (simp add: MAXMSGLEN_def)
  from replayed_report_accepted [OF demo_keyed demo_device(1) key w(1) ok w(2) ok est junk, of 5000]
  show ?thesis by (simp only: nth_Cons_0) blast
qed

end
