(* ===== verification/Hostile.thy ===== *)
theory Hostile
  imports EventLoop
begin

text \<open>
  The lengths in a container are believed before anything is authenticated: \<open>printMessage\<close> and \<open>processMsg\<close>
  turn the additional data of every packet to host order, and \<open>pckDataToHostOrder\<close> does not know where the
  message ends.
\<close>

section \<open>A container that leads outside\<close>

text \<open>The first element is so long that the next length would lie behind the memory, but not behind the container.\<close>

definition leads_outside :: "byte list \<Rightarrow> nat \<Rightarrow> bool" where
  "leads_outside m p \<longleftrightarrow> (\<exists>pre total lim len rest. length pre = p
     \<and> m = pre @ bytes_of_u32 (htonl total) @ bytes_of_u32 lim @ bytes_of_u32 (htonl len) @ rest
     \<and> 8 < total \<and> 12 + len < total \<and> length m < p + unat (12 + len) + 4)"

lemma load32_outside: "length m < off + 4 \<Longrightarrow> load32 m off = None"
  by (simp add: load32_def load_bytes_def)

lemma toHost_outside:
  assumes "leads_outside m p"
  shows "pckDataToHostOrder (Some m) p = None"
proof -
  obtain pre total lim len rest where m: "length pre = p" "m = pre @ bytes_of_u32 (htonl total) @ bytes_of_u32 lim @ bytes_of_u32 (htonl len) @ rest"
    "8 < total" "12 + len < total" "length m < p + unat (12 + len) + 4"
    using assms by (auto simp: leads_outside_def)
  let ?m1 = "pre @ bytes_of_u32 total @ bytes_of_u32 (ntohl lim) @ bytes_of_u32 (htonl len) @ rest"
  let ?m2 = "pre @ bytes_of_u32 total @ bytes_of_u32 (ntohl lim) @ bytes_of_u32 len @ rest"
  have "load32 ?m1 (p + 8) = Some (htonl len)" "store32 ?m1 (p + 8) len = Some ?m2"
    using load32_mid [of "p + 8" "pre @ bytes_of_u32 total @ bytes_of_u32 (ntohl lim)"]
      store32_mid [of "p + 8" "pre @ bytes_of_u32 total @ bytes_of_u32 (ntohl lim)"] m(1) by simp_all
  moreover have "toHost_loop ?m2 p total (12 + len) = None"
    using m by (subst toHost_loop.simps) (simp add: load32_outside)
  ultimately have "toHost_loop ?m1 p total 8 = None"
    using m(3) by (subst toHost_loop.simps) (simp add: Let_def add.commute [of len] add.assoc)
  moreover have "load32 m p = Some (htonl total)" "store32 m p total = Some (pre @ bytes_of_u32 total @ bytes_of_u32 lim @ bytes_of_u32 (htonl len) @ rest)"
    using m(1,2) by (simp_all add: mem_simps)
  moreover have "load32 (pre @ bytes_of_u32 total @ bytes_of_u32 lim @ bytes_of_u32 (htonl len) @ rest) (p + 4) = Some lim"
    "store32 (pre @ bytes_of_u32 total @ bytes_of_u32 lim @ bytes_of_u32 (htonl len) @ rest) (p + 4) (ntohl lim) = Some ?m1"
    using load32_mid [of "p + 4" "pre @ bytes_of_u32 total"] store32_mid [of "p + 4" "pre @ bytes_of_u32 total"] m(1) by simp_all
  ultimately show ?thesis by (simp add: pckDataToHostOrder_def Let_def)
qed

section \<open>A packet of anybody\<close>

lemma processMsg_outside:
  assumes "load32 m 4 = Some (htonl addSize)" "addSize \<noteq> 4" "load32 m 8 = Some 0" "leads_outside m 44"
  shows "processMsg e c m s = None"
proof -
  have "print_section m 40 0 True 2 = Some ([], m)" "print_section m 44 (addSize - 4) True 1 = None"
    using toHost_outside [OF assms(4)] assms(2) by (simp_all add: print_section_def printPckData_def)
  then have "printMessage m True True = None"
    using assms(1,3) by (auto simp: printMessage_def packet_consts ntohl_eq_htonl htonl_0 Let_def split: Option.bind_splits)
  then show ?thesis by (auto simp: processMsg_def Let_def split: Option.bind_splits)
qed

lemma load32_more: "load32 w off = Some x \<Longrightarrow> load32 (w @ y) off = Some x"
  by (auto simp: load32_def load_bytes_def split: if_splits)

text \<open>
  C25. One packet stops the server, whoever sent it, whatever devices and sessions there are, and in
  however many chunks it comes: if its additional data claim an element that ends so far away that the next
  length would lie behind the server's processing buffer of 255 bytes, the event that brings it has no
  defined behaviour. Neither a key nor a session is needed, and the length, which is the sender's choice,
  makes the server reverse four bytes of memory of another object. An element that ends behind the message
  but inside that buffer is taken for data: stale bytes are reversed, which is defined.
\<close>

theorem unauthenticated_packet_undefined:
  assumes "fd \<notin> {sockNodeLocal el, sockLANLocal el}"
    and "recvHolders el = hs1 @ h # hs2" "rh_socket h = fd" "\<forall>g\<in>set hs1 \<union> set hs2. rh_socket g \<noteq> fd" "idle h cap pos"
    and "placed w cap pos" "concat cs = w" "fits cap pos cs" "length w \<le> length (processMsgBuffer el)"
    and "load32 w 4 = Some (htonl addSize)" "addSize \<noteq> 4" "load32 w 8 = Some 0"
    and "leads_outside (w @ drop (length w) (processMsgBuffer el)) 44"
  shows "handle_event e (answers_with (- 1) cs) (readable fd) el = None"
proof -
  have "processMsg e c (w @ drop (length w) (processMsgBuffer el)) s = None" for c s
    using processMsg_outside [OF load32_more [OF assms(10)] assms(11) load32_more [OF assms(12)] assms(13)] .
  then have none: "deliver (epoll_callback e) w st (processMsgBuffer el) = None" for st
    by (cases st; cases "fst st") (simp_all add: deliver_def epoll_callback_def)
  have "pick_holder (sys_alloc e) 0 (sys_full e) (recvHolders el) fd = Some (int (length hs1), hs1 @ h # hs2)"
    using pick_found [of hs1 hs2 h] assms(2-4) by simp
  from recvAll_message [OF this assms(5-8), where cb = "epoll_callback e" and pbuf = "processMsgBuffer el" and rs = "[]"]
  have "recvAll (sys_alloc e) 0 (sys_full e) (epoll_callback e) (map RecvData cs) (recvHolders el) fd st (processMsgBuffer el) = None" for st
    by (simp add: none)
  then have "serve_message e (answers_with (- 1) cs) fd el = None"
    by (auto simp: serve_message_def answers_with_def Let_def split: Option.bind_splits)
  then show ?thesis using assms(1) by (simp add: handle_event_def readable_def)
qed

text \<open>56 bytes from a connection that has just been accepted: 16 bytes of additional data that claim to be 1000.\<close>

theorem unauthenticated_packet_undefined_witness:
  "loop_reachable demo_sys demo_loop demo_connected
    \<and> handle_event demo_sys (answers_with (- 1) [[0, 0, 0, 56, 0, 0, 0, 16, 0, 0, 0, 0] @ replicate 32 0
        @ [0, 0, 3, 232, 0, 0, 0, 0, 0, 0, 1, 244]]) (readable 4) demo_connected = None"
proof -
  let ?pre = "[0, 0, 0, 56, 0, 0, 0, 16, 0, 0, 0, 0] @ replicate 32 (0 :: byte)"
  let ?w = "?pre @ [0, 0, 3, 232, 0, 0, 0, 0, 0, 0, 1, 244]" and ?el = demo_connected
  have bytes: "bytes_of_u32 (htonl 1000) = [0, 0, 3, 232]" "bytes_of_u32 0 = [0, 0, 0, 0]" "bytes_of_u32 (htonl 500) = [0, 0, 1, 244]"
    "bytes_of_u32 (htonl 16) = [0, 0, 0, 16]" "be32 56 = [0, 0, 0, 56]"
    by code_simp+
  have el: "4 \<notin> {sockNodeLocal ?el, sockLANLocal ?el}" "recvHolders ?el = [] @ demo_ring 4 # []" "length ?w \<le> length (processMsgBuffer ?el)"
    "processMsgBuffer ?el = replicate 255 0"
    by (simp_all add: demo_connected_def demo_loop_def)
  have out: "leads_outside (?w @ drop (length ?w) (processMsgBuffer ?el)) 44"
    unfolding leads_outside_def el(4)
    by (intro exI [of _ ?pre] exI [of _ 1000] exI [of _ 0] exI [of _ 500] exI [of _ "replicate 199 0"] conjI) (simp_all add: bytes)
  have "load32 ?w 4 = Some (htonl 16)" "load32 ?w 8 = Some 0"
    using load32_mid [of 4 "[0, 0, 0, 56]" "htonl 16"] load32_mid [of 8 "[0, 0, 0, 56, 0, 0, 0, 16]" 0] by (simp_all add: bytes)
  moreover have "placed ?w 765 0" by (simp add: placed_def framed_def bytes(5))
  moreover have "concat [?w] = ?w" "fits 765 0 [?w]" "\<forall>g\<in>set [] \<union> set []. rh_socket g \<noteq> 4" "(16 :: u32) \<noteq> 4" by simp_all
  ultimately have "handle_event demo_sys (answers_with (- 1) [?w]) (readable 4) ?el = None"
    using unauthenticated_packet_undefined [OF el(1,2) demo_ring_idle(2) _ demo_ring_idle(1) _ _ _ el(3) _ _ _ out] by blast
  then show ?thesis using demo_connects(3) by simp
qed

end
