(* ===== verification/NodeMain.thy ===== *)
theory NodeMain
  imports System
begin

text \<open>
  \<open>main\<close> of the node (\<open>app_main\<close> on the ESP32) in \<open>client.c\<close>: what it does before it starts the socket
  thread, and the main loop of a noise monitor, device type 5.
\<close>

section \<open>Before the threads\<close>

text \<open>
  Behind \<open>initClient\<close>: the command of a message is run on a test text, the type of the device is the
  one it is compiled for, and the queue is empty.
\<close>

definition node_main :: "allocator \<Rightarrow> byte \<Rightarrow> node \<Rightarrow> node option" where
  "node_main a targetDevtype nd = do {
     ev \<leftarrow> run_command 1 (literal ''TestCode'');
     Some (nd\<lparr>nd_events := nd_events nd @ [ev],
       nd_devType := (if targetDevtype \<in> {2, 3, 4, 5} then ucast targetDevtype else nd_devType nd),
       nodeCommandsQueue := initializeCommandQueue a\<rparr>)
   }"

lemma node_main_ready:
  assumes "malloc a 180 \<noteq> None"
  obtains nd' where "node_main a targetDevtype nd = Some nd'" "queue_holds (nodeCommandsQueue nd') []"
    "targetDevtype \<in> {2, 3, 4, 5} \<Longrightarrow> nd_devType nd' = ucast targetDevtype" "nd_devId nd' = nd_devId nd"
  using initializeCommandQueue_holds [OF assms] that by (simp add: node_main_def run_command_def)

section \<open>The loop of a noise monitor\<close>

text \<open>
  A turn of the loop on the reading \<open>val\<close> of 12 bits. \<open>level\<close> is the floating-point computation: the
  whole part of -20 log (val / 4096). The logarithm of 0 makes it infinite, and the conversion of that to
  an \<open>int\<close> has no defined result. \<open>ptr\<close> is the block that \<open>malloc\<close> returns.
\<close>

definition noise_turn :: "sys \<Rightarrow> (nat \<Rightarrow> int) \<Rightarrow> u64 \<Rightarrow> u32 \<Rightarrow> nat \<Rightarrow> node \<Rightarrow> node option" where
  "noise_turn e level ptr session val nd =
     (if val = 0 then None
      else if session \<noteq> 0 then do {
        (cmd, nd) \<leftarrow> composeNoiseMonitorBeaconCmdInfo ptr (level val) nd;
        q \<leftarrow> client_addToCommandQueue e (nodeCommandsQueue nd) cmd;
        Some (nd\<lparr>nodeCommandsQueue := q\<rparr>)
      }
      else Some nd)"

lemma composed_level:
  assumes "ptr \<noteq> 0"
  shows "composeNoiseMonitorBeaconCmdInfo ptr n nd = Some
    (\<lparr>nc_devId = nd_devId nd, nc_devType = nd_devType nd, nc_opcode = 0, nc_argsLen = 1, nc_args = ptr\<rparr>,
     nd\<lparr>nd_heap := (nd_heap nd)(ptr \<mapsto> [word_of_int n])\<rparr>)"
  using assms by (simp add: composeNoiseMonitorBeaconCmdInfo_def composeBeaconPacketCmdInfo_def load_bytes_def)

text \<open>
  The level is queued behind the commands that were there, which are unchanged, and is a command that
  the server takes: carried out there, it sets the level modulo 256 and the time of the device.
\<close>

lemma noise_level_reported:
  assumes "queue_holds (nodeCommandsQueue nd) cmds" "al_length (nodeCommandsQueue nd) < allocated (nodeCommandsQueue nd)"
    and "ptr \<noteq> 0" "ptr \<notin> nc_args ` set cmds" "session \<noteq> 0" "val \<noteq> 0" "length (nd_devId nd) = 16" "nd_devType nd = 5"
  shows "\<exists>nd' cmd. noise_turn e level ptr session val nd = Some nd' \<and> queue_holds (nodeCommandsQueue nd') (cmds @ [cmd])
    \<and> (\<forall>c \<in> set cmds. command_of (nd_heap nd') c = command_of (nd_heap nd) c)
    \<and> server_takes (nd_devId nd) (nd_heap nd') cmd
    \<and> (\<forall>i now devs. i < length devs \<longrightarrow> apply_queued i now (nd_heap nd') cmd devs
         = devs[i := (devs ! i)\<lparr>di_devType := 5, noiseLevel := word_of_int (level val), lastConnectionTime := now\<rparr>])"
proof -
  let ?cmd = "\<lparr>nc_devId = nd_devId nd, nc_devType = nd_devType nd, nc_opcode = 0, nc_argsLen = 1, nc_args = ptr\<rparr>"
  have "cmd_ok ?cmd" using assms(7) by (simp add: cmd_ok_def)
  from add_holds_room [OF assms(1) this assms(2)]
  obtain q where q: "client_addToCommandQueue e (nodeCommandsQueue nd) ?cmd = Some q" "queue_holds q (cmds @ [?cmd])" by blast
  let ?nd = "nd\<lparr>nd_heap := (nd_heap nd)(ptr \<mapsto> [word_of_int (level val)]), nodeCommandsQueue := q\<rparr>"
  have "noise_turn e level ptr session val nd = Some ?nd" using assms(3,5,6) q(1) by (simp add: noise_turn_def composed_level)
  moreover have "\<forall>c \<in> set cmds. command_of (nd_heap ?nd) c = command_of (nd_heap nd) c"
    using assms(4) by (auto simp: command_of_def)
  moreover have "command_of (nd_heap ?nd) ?cmd = [word_of_int (level val)]" by (simp add: command_of_def)
  ultimately show ?thesis
    using q(2) assms(7,8) by (intro exI [of _ ?nd] exI [of _ ?cmd])
      (simp add: server_takes_def command_ok_def apply_queued_def apply_command_def updateDeviceStatus_def)
qed

text \<open>A silent room, or a cable that is off: the reading 0 has no defined behaviour, in a session or not.\<close>

lemma silence_undefined: "noise_turn e level ptr session 0 nd = None"
  by (simp add: noise_turn_def)

end
